(* ===== verification/Prelude.thy ===== *)
theory Prelude
  imports Main "HOL-Library.Word"
begin

unbundle bit_operations_syntax

text \<open>
  What the components share: the machine types of the C sources, byte buffers as lists of
  bytes, the little-endian loads and stores the code performs on them, and the natural
  number a byte string denotes.  Every C object of type \<open>uint8_t[n]\<close> is a \<open>byte list\<close>;
  an access \<open>p[i]\<close> is \<open>p ! i\<close>, so the theorems that depend on an access being in range carry the
  length of the array as a hypothesis.
\<close>

section \<open>Machine types\<close>

type_synonym byte = "8 word"
type_synonym u16 = "16 word"
type_synonym u32 = "32 word"
type_synonym u64 = "64 word"
type_synonym u128 = "128 word"

named_theorems unat_eqs \<open>the natural number a word expression denotes\<close>

abbreviation UINT64_MAX :: u64 where
  "UINT64_MAX \<equiv> - 1"

section \<open>Little-endian loads and stores\<close>

definition u8to32 :: "byte list \<Rightarrow> nat \<Rightarrow> u32" where
  "u8to32 p i = ucast (p ! i) OR push_bit 8 (ucast (p ! (i + 1)))
     OR push_bit 16 (ucast (p ! (i + 2))) OR push_bit 24 (ucast (p ! (i + 3)))"

definition u32to8 :: "u32 \<Rightarrow> byte list" where
  "u32to8 v = [ucast v, ucast (drop_bit 8 v), ucast (drop_bit 16 v), ucast (drop_bit 24 v)]"

definition load64le :: "byte list \<Rightarrow> nat \<Rightarrow> u64" where
  "load64le p i = ucast (p ! i) OR push_bit 8 (ucast (p ! (i + 1)))
     OR push_bit 16 (ucast (p ! (i + 2))) OR push_bit 24 (ucast (p ! (i + 3)))
     OR push_bit 32 (ucast (p ! (i + 4))) OR push_bit 40 (ucast (p ! (i + 5)))
     OR push_bit 48 (ucast (p ! (i + 6))) OR push_bit 56 (ucast (p ! (i + 7)))"

definition u64to8 :: "u64 \<Rightarrow> byte list" where
  "u64to8 v = map (\<lambda>c. ucast (drop_bit (8 * c) v)) [0..<8]"

lemma length_u32to8 [simp]: "length (u32to8 v) = 4"
  by (simp add: u32to8_def)

lemma length_u64to8 [simp]: "length (u64to8 v) = 8"
  by (simp add: u64to8_def)

section \<open>Words as natural numbers\<close>

lemma word_of_nat_mod: "(word_of_nat (x mod 2 ^ LENGTH('a)) :: 'a::len word) = word_of_nat x"
  by (simp add: word_of_nat_eq_iff take_bit_eq_mod)

lemma push_bit_word_nat: "push_bit n v = word_of_nat (unat v * 2 ^ n)"
  by (simp add: push_bit_eq_mult)

lemma drop_bit_word_nat: "drop_bit n (v :: 'a::len word) = word_of_nat (unat v div 2 ^ n)"
proof -
  have "unat (drop_bit n v) = unat v div 2 ^ n"
    by (subst unat_drop_bit_eq) (rule drop_bit_eq_div)
  then have "word_of_nat (unat (drop_bit n v)) = (word_of_nat (unat v div 2 ^ n) :: 'a word)"
    by (rule arg_cong)
  then show ?thesis by simp
qed

lemma funpow_numeral: "(f ^^ numeral k) x = f ((f ^^ pred_numeral k) x)"
  by (simp add: numeral_eq_Suc)

lemma unat_and_mask_numeral:
  fixes a :: "'a::len word"
  assumes "k = 2 ^ n - 1" "n \<le> LENGTH('a)"
  shows "unat (a AND word_of_nat k) = unat a mod 2 ^ n"
proof -
  have "(word_of_nat k :: 'a word) = mask n"
    using assms by (simp add: mask_eq_exp_minus_1 of_nat_diff)
  then show ?thesis
    by (simp only: take_bit_eq_mask [symmetric] unsigned_take_bit_eq) (rule take_bit_eq_mod)
qed

lemma unat_ucast_small:
  fixes a :: "'a::len word"
  assumes "unat a < 2 ^ LENGTH('b)"
  shows "unat (ucast a :: 'b::len word) = unat a"
  using assms by (simp add: unsigned_ucast_eq take_bit_nat_eq_self)

lemma unat_drop_bit_div: "unat (drop_bit n w) = unat w div 2 ^ n"
  by (subst unat_drop_bit_eq) (rule drop_bit_eq_div)

lemma unat_add_small:
  fixes a b :: "'a::len word"
  shows "unat a + unat b < 2 ^ LENGTH('a) \<Longrightarrow> unat (a + b) = unat a + unat b"
  by (simp add: unat_add_lem)

lemma unat_mult_small:
  fixes a b :: "'a::len word"
  shows "unat a * unat b < 2 ^ LENGTH('a) \<Longrightarrow> unat (a * b) = unat a * unat b"
  by (simp add: unat_mult_lem)

lemma word_eq_of_nat: "a = word_of_nat (unat a)"
  by simp

lemma ucast_eq_of_nat: "(ucast a :: 'b::len word) = word_of_nat (unat a)"
  by simp

lemma unat_of_nat_small: "n < 2 ^ LENGTH('a) \<Longrightarrow> unat (word_of_nat n :: 'a::len word) = n"
  by (simp add: unsigned_of_nat take_bit_nat_eq_self)

section \<open>Byte strings as natural numbers\<close>

fun le_nat :: "byte list \<Rightarrow> nat" where
  "le_nat [] = 0"
| "le_nat (b # bs) = unat b + 256 * le_nat bs"

fun le_bytes :: "nat \<Rightarrow> nat \<Rightarrow> byte list" where
  "le_bytes 0 v = []"
| "le_bytes (Suc n) v = word_of_nat (v mod 256) # le_bytes n (v div 256)"

lemma le_nat_bound: "le_nat bs < 256 ^ length bs"
proof (induction bs)
  case (Cons b bs)
  have "unat b < 256" using unsigned_less [of b, where 'a = nat] by simp
  with Cons show ?case by simp
qed simp

lemma le_nat_append: "le_nat (a @ b) = le_nat a + 256 ^ length a * le_nat b"
  by (induction a) (simp_all add: algebra_simps)

lemma le_bytes_le_nat: "length bs = n \<Longrightarrow> le_bytes n (le_nat bs) = bs"
proof (induction bs arbitrary: n)
  case (Cons b bs)
  have b: "unat b < 256" using unsigned_less [of b, where 'a = nat] by simp
  then have "(unat b + 256 * le_nat bs) mod 256 = unat b" "(unat b + 256 * le_nat bs) div 256 = le_nat bs"
    by simp_all
  with Cons show ?case by auto
qed simp

lemma le_nat_le_bytes: "le_nat (le_bytes n v) = v mod 256 ^ n"
proof (induction n arbitrary: v)
  case (Suc n)
  have "unat (word_of_nat (v mod 256) :: byte) = v mod 256"
    by (rule unat_of_nat_small) simp
  then show ?case
    by (simp add: Suc mod_mult2_eq)
qed simp

lemma le_nat_take_drop:
  "le_nat (take n (drop i bs)) = le_nat bs div 256 ^ i mod 256 ^ n"
proof -
  have div_drop: "le_nat (drop i bs) = le_nat bs div 256 ^ i"
  proof (cases "i \<le> length bs")
    case True
    have "le_nat bs = le_nat (take i bs) + 256 ^ i * le_nat (drop i bs)"
      using le_nat_append [of "take i bs" "drop i bs"] True by simp
    moreover have "le_nat (take i bs) < 256 ^ i"
      using le_nat_bound [of "take i bs"] True by simp
    ultimately show ?thesis by simp
  next
    case False
    then have "le_nat bs < 256 ^ i"
      using le_nat_bound [of bs] by (meson le_less_trans less_le_trans less_le_not_le linear not_le
        power_increasing numeral_le_one_iff one_le_numeral)
    with False show ?thesis by simp
  qed
  have take_mod: "le_nat (take n bs') = le_nat bs' mod 256 ^ n" for bs'
  proof (cases "n \<le> length bs'")
    case True
    have "le_nat bs' = le_nat (take n bs') + 256 ^ n * le_nat (drop n bs')"
      using le_nat_append [of "take n bs'" "drop n bs'"] True by simp
    moreover have "le_nat (take n bs') < 256 ^ n"
      using le_nat_bound [of "take n bs'"] True by simp
    ultimately show ?thesis by simp
  next
    case False
    then have "le_nat bs' < 256 ^ n"
      using le_nat_bound [of bs'] by (meson le_less_trans less_le_trans less_le_not_le linear not_le
        power_increasing numeral_le_one_iff one_le_numeral)
    with False show ?thesis by simp
  qed
  show ?thesis by (simp add: take_mod div_drop)
qed

lemma unat_or_push_bit:
  fixes a b :: "'a::len word"
  assumes "unat a < 2 ^ n" "unat b * 2 ^ n < 2 ^ LENGTH('a)"
  shows "unat (a OR push_bit n b) = unat a + unat b * 2 ^ n"
proof -
  have "unat (push_bit n b) = unat b * 2 ^ n"
    using assms(2) by (simp only: push_bit_word_nat) (rule unat_of_nat_small)
  moreover have "unat (a OR push_bit n b) = unat a OR unat (push_bit n b)"
    by (simp add: unsigned_or_eq)
  moreover have "unat a OR (unat b * 2 ^ n) = unat a + unat b * 2 ^ n"
  proof -
    have "unat a = take_bit n (unat a)" using assms(1) by (simp add: take_bit_nat_eq_self)
    then have "\<not> bit (unat a) i \<or> \<not> bit (push_bit n (unat b)) i" for i
      by (metis bit_push_bit_iff bit_take_bit_iff not_le)
    then show ?thesis by (simp add: disjunctive_add_eq_or bit_eq_iff bit_simps flip: push_bit_eq_mult)
  qed
  ultimately show ?thesis by simp
qed


lemma take4_drop:
  "i + 4 \<le> length p \<Longrightarrow> take 4 (drop i p) = [p ! i, p ! (i + 1), p ! (i + 2), p ! (i + 3)]"
  by (rule nth_equalityI) (auto simp: less_Suc_eq numeral_eq_Suc)

lemma take8_drop:
  "i + 8 \<le> length p \<Longrightarrow> take 8 (drop i p) =
     [p ! i, p ! (i + 1), p ! (i + 2), p ! (i + 3), p ! (i + 4), p ! (i + 5), p ! (i + 6), p ! (i + 7)]"
  by (rule nth_equalityI) (auto simp: less_Suc_eq numeral_eq_Suc)

lemma byte_lt: "unat (b :: byte) < 256"
  using unsigned_less [of b, where 'a = nat] by simp

lemma or_push_bit_8:
  fixes x :: "'a::len word"
  assumes "unat x < 2 ^ n" "n + 8 \<le> LENGTH('a)"
  shows "unat (ucast (b :: byte) OR push_bit 8 x) = unat b + 256 * unat x"
    and "unat b + 256 * unat x < 2 ^ (n + 8)"
proof -
  show bound: "unat b + 256 * unat x < 2 ^ (n + 8)"
    using assms byte_lt [of b] by (simp add: power_add)
  have "(2 :: nat) ^ (n + 8) \<le> 2 ^ LENGTH('a)"
    using assms(2) by (intro power_increasing) auto
  moreover have "(256 :: nat) \<le> 2 ^ LENGTH('a)"
    using power_increasing [of 8 "LENGTH('a)" "2 :: nat"] assms(2) by simp
  ultimately have "unat b < 2 ^ LENGTH('a)" and "unat x * 256 < 2 ^ LENGTH('a)"
    using bound byte_lt [of b] by linarith+
  then have "unat (ucast b :: 'a word) = unat b" "unat x * 256 < 2 ^ LENGTH('a)"
    by (simp_all add: unat_ucast_small)
  then show "unat (ucast b OR push_bit 8 x) = unat b + 256 * unat x"
    using byte_lt [of b] unat_or_push_bit [of "ucast b :: 'a word" 8 x] by simp
qed

lemma unat_u8to32:
  assumes "i + 4 \<le> length p"
  shows "unat (u8to32 p i) = le_nat (take 4 (drop i p))"
proof -
  define d :: u32 where "d = ucast (p ! (i + 3))"
  define c where "c = ucast (p ! (i + 2)) OR push_bit 8 d"
  define b where "b = ucast (p ! (i + 1)) OR push_bit 8 c"
  have d: "unat d = unat (p ! (i + 3))" "unat d < 2 ^ 8"
    using byte_lt [of "p ! (i + 3)"] by (simp_all add: d_def unat_ucast_small)
  have c: "unat c = unat (p ! (i + 2)) + 256 * unat d" "unat c < 2 ^ (8 + 8)"
    using or_push_bit_8 [of d 8] d by (simp_all add: c_def)
  have b: "unat b = unat (p ! (i + 1)) + 256 * unat c" "unat b < 2 ^ (8 + 8 + 8)"
    using or_push_bit_8 [of c "8 + 8"] c by (simp_all add: b_def)
  have "u8to32 p i = ucast (p ! i) OR push_bit 8 b"
    by (simp add: u8to32_def b_def c_def d_def push_bit_or)
  then have "unat (u8to32 p i) = unat (p ! i) + 256 * unat b"
    using or_push_bit_8 [of b "8 + 8 + 8"] b by simp
  then show ?thesis
    by (simp add: b c d take4_drop [OF assms])
qed

lemma unat_load64le:
  assumes "i + 8 \<le> length p"
  shows "unat (load64le p i) = le_nat (take 8 (drop i p))"
proof -
  define h :: u64 where "h = ucast (p ! (i + 7))"
  define g where "g = ucast (p ! (i + 6)) OR push_bit 8 h"
  define f where "f = ucast (p ! (i + 5)) OR push_bit 8 g"
  define e where "e = ucast (p ! (i + 4)) OR push_bit 8 f"
  define d where "d = ucast (p ! (i + 3)) OR push_bit 8 e"
  define c where "c = ucast (p ! (i + 2)) OR push_bit 8 d"
  define b where "b = ucast (p ! (i + 1)) OR push_bit 8 c"
  have h: "unat h = unat (p ! (i + 7))" "unat h < 2 ^ 8"
    using byte_lt [of "p ! (i + 7)"] by (simp_all add: h_def unat_ucast_small)
  have g: "unat g = unat (p ! (i + 6)) + 256 * unat h" "unat g < 2 ^ 16"
    using or_push_bit_8 [of h 8] h by (simp_all add: g_def)
  have f: "unat f = unat (p ! (i + 5)) + 256 * unat g" "unat f < 2 ^ 24"
    using or_push_bit_8 [of g 16] g by (simp_all add: f_def)
  have e: "unat e = unat (p ! (i + 4)) + 256 * unat f" "unat e < 2 ^ 32"
    using or_push_bit_8 [of f 24] f by (simp_all add: e_def)
  have d: "unat d = unat (p ! (i + 3)) + 256 * unat e" "unat d < 2 ^ 40"
    using or_push_bit_8 [of e 32] e by (simp_all add: d_def)
  have c: "unat c = unat (p ! (i + 2)) + 256 * unat d" "unat c < 2 ^ 48"
    using or_push_bit_8 [of d 40] d by (simp_all add: c_def)
  have b: "unat b = unat (p ! (i + 1)) + 256 * unat c" "unat b < 2 ^ 56"
    using or_push_bit_8 [of c 48] c by (simp_all add: b_def)
  have "load64le p i = ucast (p ! i) OR push_bit 8 b"
    by (simp add: load64le_def b_def c_def d_def e_def f_def g_def h_def push_bit_or)
  then have "unat (load64le p i) = unat (p ! i) + 256 * unat b"
    using or_push_bit_8 [of b 56] b by simp
  then show ?thesis
    by (simp add: b c d e f g h take8_drop [OF assms])
qed

lemma limb_extract:
  fixes x :: nat
  assumes "c + d \<le> b"
  shows "x div 2 ^ a mod 2 ^ b div 2 ^ c mod 2 ^ d = x div 2 ^ (a + c) mod 2 ^ d"
  using assms
  by (simp flip: drop_bit_eq_div take_bit_eq_mod)
     (rule bit_eqI, auto simp: bit_simps ac_simps)

lemma ucast_byte: "(ucast w :: byte) = word_of_nat (unat w mod 256)"
  using word_of_nat_mod [where 'a = 8, of "unat w"] by simp

lemma ucast_drop_byte:
  "(ucast (drop_bit (8 * c) v) :: byte) = word_of_nat (unat v div 256 ^ c mod 256)"
  by (simp only: ucast_byte unat_drop_bit_div power_mult) simp

lemma le_bytes_map: "le_bytes n v = map (\<lambda>c. word_of_nat (v div 256 ^ c mod 256)) [0..<n]"
proof (induction n arbitrary: v)
  case (Suc n)
  show ?case
    by (simp add: Suc upt_conv_Cons div_mult2_eq flip: map_Suc_upt del: upt_Suc)
qed simp

lemma u64to8_le_bytes: "u64to8 v = le_bytes 8 (unat v)"
  by (simp only: u64to8_def le_bytes_map ucast_drop_byte)

lemma u32to8_le_bytes: "u32to8 v = le_bytes 4 (unat v)"
  using ucast_drop_byte [of 0 v] ucast_drop_byte [of 1 v] ucast_drop_byte [of 2 v]
    ucast_drop_byte [of 3 v]
  by (simp add: u32to8_def le_bytes_map upt_rec)

lemma le_nat_u32to8 [simp]: "le_nat (u32to8 v) = unat v"
  using unsigned_less [of v, where 'a = nat] by (simp add: u32to8_le_bytes le_nat_le_bytes)

lemma le_nat_u64to8 [simp]: "le_nat (u64to8 v) = unat v"
  using unsigned_less [of v, where 'a = nat] by (simp add: u64to8_le_bytes le_nat_le_bytes)

lemma le_nat_16:
  "16 \<le> length m \<Longrightarrow> i + n \<le> 16 \<Longrightarrow>
     le_nat (take n (drop i m)) = le_nat (take 16 m) div 256 ^ i mod 256 ^ n"
  using le_nat_take_drop [of n i "take 16 m"] by (simp add: drop_take)

lemma u8to32_at:
  assumes "16 \<le> length m" "i + 4 \<le> 16"
  shows "unat (u8to32 m i) = le_nat (take 16 m) div 2 ^ (8 * i) mod 2 ^ 32"
proof -
  have "i + 4 \<le> length m" using assms by simp
  then show ?thesis
    by (simp only: unat_u8to32 le_nat_16 [OF assms]) (simp add: power_mult)
qed

lemma unat_or_push_bit_mod:
  fixes a b :: "'a::len word"
  assumes "unat a < 2 ^ n" "n \<le> LENGTH('a)"
  shows "unat (a OR push_bit n b) = unat a + unat b mod 2 ^ (LENGTH('a) - n) * 2 ^ n"
proof -
  let ?b = "take_bit (LENGTH('a) - n) b"
  have u: "unat ?b = unat b mod 2 ^ (LENGTH('a) - n)"
    by (subst unsigned_take_bit_eq) (simp add: take_bit_eq_mod)
  have eq: "push_bit n b = push_bit n ?b"
    using assms(2) by (intro bit_eqI) (auto simp: bit_simps)
  have "unat ?b < 2 ^ (LENGTH('a) - n)" unfolding u by simp
  then have "unat ?b * 2 ^ n < 2 ^ (LENGTH('a) - n) * 2 ^ n" by simp
  then have "unat ?b * 2 ^ n < 2 ^ LENGTH('a)"
    using assms(2) by (simp flip: power_add)
  then show ?thesis using unat_or_push_bit [OF assms(1)] unfolding eq u [symmetric] by simp
qed

lemma nat_and_limb:
  fixes x :: nat
  shows "(x AND y) div 2 ^ i mod 2 ^ n = (x div 2 ^ i mod 2 ^ n) AND (y div 2 ^ i mod 2 ^ n)"
    and "(x AND y) div 2 ^ i = (x div 2 ^ i) AND (y div 2 ^ i)"
  by (simp_all flip: drop_bit_eq_div take_bit_eq_mod)

lemma unat_and_nat: "unat (a AND b) = unat a AND unat b"
  by (simp add: unsigned_and_eq)

lemma and_mod_nat:
  fixes x y :: nat
  assumes "y < 2 ^ n"
  shows "x mod 2 ^ n AND y = x AND y" "x AND y < 2 ^ n"
proof -
  have y: "take_bit n y = y" using assms by (simp add: take_bit_nat_eq_self)
  have "take_bit n x AND take_bit n y = x AND take_bit n y"
    by (rule bit_eqI) (auto simp: bit_simps)
  then show "x mod 2 ^ n AND y = x AND y" by (simp add: y flip: take_bit_eq_mod)
  then have "x AND y = take_bit n (x AND y)" by (simp add: y flip: take_bit_eq_mod)
  then show "x AND y < 2 ^ n" by (metis take_bit_nat_less_exp)
qed

section \<open>Lists of known length\<close>

lemma list3E:
  assumes "length xs = 3"
  obtains a b c where "xs = [a, b, c]"
  using assms by (auto simp: length_Suc_conv numeral_eq_Suc)

lemma list4E:
  assumes "length xs = 4"
  obtains a b c d where "xs = [a, b, c, d]"
  using assms by (auto simp: length_Suc_conv numeral_eq_Suc)

lemma list5E:
  assumes "length xs = 5"
  obtains a b c d e where "xs = [a, b, c, d, e]"
  using assms by (auto simp: length_Suc_conv numeral_eq_Suc)

end
