(* ===== verification/ChaCha20.thy ===== *)
theory ChaCha20
  imports Prelude
begin

text \<open>
  The five ChaCha20 implementations of \<^verbatim>\<open>benchmarks/crypto_probe.c\<close>: the clear one that
  rebuilds the state for every block, the hoisted one, the one-block SSE2 one that keeps the four
  rows of the state in vector registers, and the transposed four-block (SSE2) and eight-block
  (AVX2) ones.  A 128- or 256-bit register is the list of its 32-bit lanes, lane 0 first.

  The locale \<open>block_stream\<close> is the contract they share: a keystream block per counter value, and
  a function that xors a buffer with consecutive blocks.  Its lemmas (what every byte of the
  output is, that encrypting twice gives the buffer back, that a buffer may be split at a block
  boundary) are proved once and reach each implementation through an interpretation.
\<close>

section \<open>The block function\<close>

definition ROTL32 :: "u32 \<Rightarrow> nat \<Rightarrow> u32" where
  "ROTL32 v n = push_bit n v OR drop_bit (32 - n) v"

text \<open>One line of the \<open>QUARTERROUND\<close> macro: \<open>a += b; d ^= a; d = ROTL32(d, n)\<close>.\<close>

definition qr_line :: "nat \<Rightarrow> nat \<Rightarrow> nat \<Rightarrow> nat \<Rightarrow> u32 list \<Rightarrow> u32 list" where
  "qr_line a b d n x =
     (let x = x[a := x ! a + x ! b]; x = x[d := x ! d XOR x ! a] in x[d := ROTL32 (x ! d) n])"

definition QUARTERROUND :: "nat \<Rightarrow> nat \<Rightarrow> nat \<Rightarrow> nat \<Rightarrow> u32 list \<Rightarrow> u32 list" where
  "QUARTERROUND a b c d x =
     qr_line c d b 7 (qr_line a b d 8 (qr_line c d b 12 (qr_line a b d 16 x)))"

definition chacha_C :: "u32 list" where
  "chacha_C = [0x61707865, 0x3320646e, 0x79622d32, 0x6b206574]"

definition chacha_state :: "byte list \<Rightarrow> u32 \<Rightarrow> byte list \<Rightarrow> u32 list" where
  "chacha_state key counter nonce =
     chacha_C @ map (\<lambda>i. u8to32 key (4 * i)) [0..<8] @ [counter]
       @ map (\<lambda>i. u8to32 nonce (4 * i)) [0..<3]"

definition chacha_double_round :: "u32 list \<Rightarrow> u32 list" where
  "chacha_double_round x =
     (QUARTERROUND 3 4 9 14 \<circ> QUARTERROUND 2 7 8 13 \<circ> QUARTERROUND 1 6 11 12 \<circ> QUARTERROUND 0 5 10 15
      \<circ> QUARTERROUND 3 7 11 15 \<circ> QUARTERROUND 2 6 10 14 \<circ> QUARTERROUND 1 5 9 13
      \<circ> QUARTERROUND 0 4 8 12) x"

definition chacha_words :: "u32 list \<Rightarrow> u32 list" where
  "chacha_words s = (let x = (chacha_double_round ^^ 10) s in map (\<lambda>i. x ! i + s ! i) [0..<16])"

definition chacha20_block :: "byte list \<Rightarrow> u32 \<Rightarrow> byte list \<Rightarrow> byte list" where
  "chacha20_block key counter nonce =
     concat (map u32to8 (chacha_words (chacha_state key counter nonce)))"

section \<open>Scalar streams\<close>

definition xor_bytes :: "byte list \<Rightarrow> byte list \<Rightarrow> byte list" where
  "xor_bytes buf ks = map2 (XOR) buf ks"

function chacha20_xor :: "byte list \<Rightarrow> u32 \<Rightarrow> byte list \<Rightarrow> byte list \<Rightarrow> byte list" where
  "chacha20_xor key counter nonce buf =
     (if buf = [] then []
      else let n = min (length buf) 64; ks = chacha20_block key counter nonce
           in xor_bytes (take n buf) (take n ks) @ chacha20_xor key (counter + 1) nonce (drop n buf))"
  by pat_completeness auto
termination
  by (relation "measure (\<lambda>(key, counter, nonce, buf). length buf)") auto

function chacha20_hoisted_loop :: "u32 list \<Rightarrow> byte list \<Rightarrow> byte list" where
  "chacha20_hoisted_loop s buf =
     (if buf = [] then []
      else let n = min (length buf) 64; x = chacha_words s
           in map (\<lambda>j. buf ! j XOR ucast (drop_bit ((j mod 4) * 8) (x ! (j div 4)))) [0..<n]
              @ chacha20_hoisted_loop (s[12 := s ! 12 + 1]) (drop n buf))"
  by pat_completeness auto
termination
  by (relation "measure (\<lambda>(s, buf). length buf)") auto

definition chacha20_xor_hoisted :: "byte list \<Rightarrow> u32 \<Rightarrow> byte list \<Rightarrow> byte list \<Rightarrow> byte list" where
  "chacha20_xor_hoisted key counter nonce buf =
     chacha20_hoisted_loop (chacha_state key counter nonce) buf"

section \<open>Vector registers\<close>

type_synonym vec = "u32 list"

definition mm_add_epi32 :: "vec \<Rightarrow> vec \<Rightarrow> vec" where
  "mm_add_epi32 = map2 (+)"

definition mm_xor :: "vec \<Rightarrow> vec \<Rightarrow> vec" where
  "mm_xor = map2 (XOR)"

definition mm_or :: "vec \<Rightarrow> vec \<Rightarrow> vec" where
  "mm_or = map2 (OR)"

definition rotl_epi32 :: "vec \<Rightarrow> nat \<Rightarrow> vec" where
  "rotl_epi32 x n = mm_or (map (push_bit n) x) (map (drop_bit (32 - n)) x)"

text \<open>\<open>_mm_shuffle_epi32\<close>: output lane \<open>k\<close> is the input lane that bits \<open>2k\<close> and \<open>2k+1\<close> of the
  immediate name.\<close>

definition mm_shuffle_epi32 :: "vec \<Rightarrow> nat \<Rightarrow> vec" where
  "mm_shuffle_epi32 v imm = map (\<lambda>k. v ! (imm div 4 ^ k mod 4)) [0..<4]"

type_synonym rows = "vec \<times> vec \<times> vec \<times> vec"

fun sse2_quarter :: "rows \<Rightarrow> rows" where
  "sse2_quarter (a, b, c, d) =
     (let a = mm_add_epi32 a b; d = rotl_epi32 (mm_xor d a) 16;
          c = mm_add_epi32 c d; b = rotl_epi32 (mm_xor b c) 12;
          a = mm_add_epi32 a b; d = rotl_epi32 (mm_xor d a) 8;
          c = mm_add_epi32 c d; b = rotl_epi32 (mm_xor b c) 7
      in (a, b, c, d))"

fun sse2_shuffle :: "nat \<Rightarrow> nat \<Rightarrow> nat \<Rightarrow> rows \<Rightarrow> rows" where
  "sse2_shuffle ib ic id' (a, b, c, d) =
     (a, mm_shuffle_epi32 b ib, mm_shuffle_epi32 c ic, mm_shuffle_epi32 d id')"

definition sse2_double_round :: "rows \<Rightarrow> rows" where
  "sse2_double_round r =
     sse2_shuffle 0x93 0x4E 0x39 (sse2_quarter (sse2_shuffle 0x39 0x4E 0x93 (sse2_quarter r)))"

text \<open>\<open>_mm_set_epi32(0, 0, 0, 1)\<close> names the lanes from the highest to the lowest.\<close>

definition sse2_keystream :: "rows \<Rightarrow> byte list" where
  "sse2_keystream v =
     (case v of (v0, v1, v2, v3) \<Rightarrow>
        (case (sse2_double_round ^^ 10) v of (a, b, c, d) \<Rightarrow>
           concat (map u32to8 (mm_add_epi32 a v0 @ mm_add_epi32 b v1
                               @ mm_add_epi32 c v2 @ mm_add_epi32 d v3))))"

function chacha20_sse2_loop :: "rows \<Rightarrow> byte list \<Rightarrow> byte list" where
  "chacha20_sse2_loop v buf =
     (if buf = [] then []
      else let n = min (length buf) 64; ks = sse2_keystream v
           in xor_bytes (take n buf) (take n ks)
              @ chacha20_sse2_loop
                  (case v of (v0, v1, v2, v3) \<Rightarrow> (v0, v1, v2, mm_add_epi32 v3 [1, 0, 0, 0]))
                  (drop n buf))"
  by pat_completeness auto
termination
  by (relation "measure (\<lambda>(v, buf). length buf)") auto

definition sse2_load :: "u32 list \<Rightarrow> rows" where
  "sse2_load s = (take 4 s, take 4 (drop 4 s), take 4 (drop 8 s), take 4 (drop 12 s))"

definition chacha20_xor_sse2 :: "byte list \<Rightarrow> u32 \<Rightarrow> byte list \<Rightarrow> byte list \<Rightarrow> byte list" where
  "chacha20_xor_sse2 key counter nonce buf =
     chacha20_sse2_loop (sse2_load (chacha_state key counter nonce)) buf"

section \<open>Several blocks at once\<close>

text \<open>
  \<open>chacha20_xor_sse2x4\<close> and \<open>chacha20_xor_avx2\<close> are the same text at two register widths: the
  width \<open>L\<close> (4 or 8 lanes) is the parameter.  Register \<open>i\<close> holds word \<open>i\<close> of \<open>L\<close> blocks.
\<close>

definition vqr_line :: "nat \<Rightarrow> nat \<Rightarrow> nat \<Rightarrow> nat \<Rightarrow> vec list \<Rightarrow> vec list" where
  "vqr_line a b d n x =
     (let x = x[a := mm_add_epi32 (x ! a) (x ! b)]; x = x[d := mm_xor (x ! d) (x ! a)]
      in x[d := rotl_epi32 (x ! d) n])"

definition QR_wide :: "nat \<Rightarrow> nat \<Rightarrow> nat \<Rightarrow> nat \<Rightarrow> vec list \<Rightarrow> vec list" where
  "QR_wide a b c d x =
     vqr_line c d b 7 (vqr_line a b d 8 (vqr_line c d b 12 (vqr_line a b d 16 x)))"

definition wide_double_round :: "vec list \<Rightarrow> vec list" where
  "wide_double_round x =
     (QR_wide 3 4 9 14 \<circ> QR_wide 2 7 8 13 \<circ> QR_wide 1 6 11 12 \<circ> QR_wide 0 5 10 15
      \<circ> QR_wide 3 7 11 15 \<circ> QR_wide 2 6 10 14 \<circ> QR_wide 1 5 9 13 \<circ> QR_wide 0 4 8 12) x"

definition wide_init :: "nat \<Rightarrow> u32 list \<Rightarrow> vec list" where
  "wide_init L s = (map (replicate L) s)[12 := map (\<lambda>k. s ! 12 + word_of_nat k) [0..<L]]"

definition wide_words :: "nat \<Rightarrow> u32 list \<Rightarrow> vec list" where
  "wide_words L s =
     (let x = wide_init L s; o' = x; x = (wide_double_round ^^ 10) x
      in map (\<lambda>i. mm_add_epi32 (x ! i) (o' ! i)) [0..<16])"

text \<open>The inner loop over the blocks of one group: what it wrote and what is left of the buffer.\<close>

function wide_blocks :: "vec list \<Rightarrow> nat \<Rightarrow> nat \<Rightarrow> byte list \<Rightarrow> byte list \<times> byte list" where
  "wide_blocks words L blk buf =
     (if blk < L \<and> buf \<noteq> [] then
        let n = min (length buf) 64;
            ks = concat (map (\<lambda>i. u32to8 (words ! i ! blk)) [0..<16]);
            (out, rest) = wide_blocks words L (blk + 1) (drop n buf)
        in (xor_bytes (take n buf) (take n ks) @ out, rest)
      else ([], buf))"
  by pat_completeness auto
termination
  by (relation "measure (\<lambda>(words, L, blk, buf). L - blk)") auto

declare chacha20_xor.simps [simp del] chacha20_hoisted_loop.simps [simp del]
  chacha20_sse2_loop.simps [simp del] wide_blocks.simps [simp del]

lemma wide_blocks_rest: "snd (wide_blocks words L blk buf) = drop (64 * (L - blk)) buf"
proof (induction words L blk buf rule: wide_blocks.induct)
  case (1 words L blk buf)
  show ?case
  proof (cases "blk < L \<and> buf \<noteq> []")
    case True
    have "drop (64 * (L - (blk + 1))) (drop (min (length buf) 64) buf) = drop (64 * (L - blk)) buf"
      using True by (cases "length buf < 64") (auto simp: algebra_simps)
    with True "1.IH" show ?thesis
      by (simp add: wide_blocks.simps [of words L blk buf] Let_def split_beta)
  next
    case False
    then show ?thesis by (auto simp: wide_blocks.simps [of words L blk buf])
  qed
qed

function chacha20_wide_loop :: "nat \<Rightarrow> u32 list \<Rightarrow> byte list \<Rightarrow> byte list" where
  "chacha20_wide_loop L s buf =
     (if buf = [] \<or> L = 0 then []
      else let (out, rest) = wide_blocks (wide_words L s) L 0 buf
           in out @ chacha20_wide_loop L (s[12 := s ! 12 + word_of_nat L]) rest)"
  by pat_completeness auto
termination
proof (relation "measure (\<lambda>(L, s, buf). length buf)", goal_cases)
  case (2 L s buf p out rest)
  then have "rest = drop (64 * L) buf"
    using wide_blocks_rest [of "wide_words L s" L 0 buf] by (metis diff_zero snd_conv)
  with 2 show ?case by (cases buf) auto
qed simp

declare chacha20_wide_loop.simps [simp del]

definition chacha20_xor_sse2x4 :: "byte list \<Rightarrow> u32 \<Rightarrow> byte list \<Rightarrow> byte list \<Rightarrow> byte list" where
  "chacha20_xor_sse2x4 key counter nonce buf =
     chacha20_wide_loop 4 (chacha_state key counter nonce) buf"

definition chacha20_xor_avx2 :: "byte list \<Rightarrow> u32 \<Rightarrow> byte list \<Rightarrow> byte list \<Rightarrow> byte list" where
  "chacha20_xor_avx2 key counter nonce buf =
     chacha20_wide_loop 8 (chacha_state key counter nonce) buf"

section \<open>One quarter round\<close>

definition xrot :: "nat \<Rightarrow> u32 \<Rightarrow> u32 \<Rightarrow> u32" where
  "xrot n d a = ROTL32 (d XOR a) n"

definition qr_words :: "u32 \<Rightarrow> u32 \<Rightarrow> u32 \<Rightarrow> u32 \<Rightarrow> u32 list" where
  "qr_words a b c d =
     (let a1 = a + b; d1 = xrot 16 d a1; c1 = c + d1; b1 = xrot 12 b c1;
          a2 = a1 + b1; d2 = xrot 8 d1 a2; c2 = c1 + d2; b2 = xrot 7 b1 c2
      in [a2, b2, c2, d2])"

lemma length_qr_words [simp]: "length (qr_words a b c d) = 4"
  by (simp add: qr_words_def Let_def)

lemma qr_line_eq:
  assumes "a < length x" "d < length x" "a \<noteq> d"
  shows "qr_line a b d n x = x[a := x ! a + x ! b, d := xrot n (x ! d) (x ! a + x ! b)]"
  using assms by (simp add: qr_line_def Let_def xrot_def)

lemma QUARTERROUND_eq:
  assumes "a < length x" "b < length x" "c < length x" "d < length x" "distinct [a, b, c, d]"
  shows "QUARTERROUND a b c d x =
     x[a := qr_words (x ! a) (x ! b) (x ! c) (x ! d) ! 0,
       b := qr_words (x ! a) (x ! b) (x ! c) (x ! d) ! 1,
       c := qr_words (x ! a) (x ! b) (x ! c) (x ! d) ! 2,
       d := qr_words (x ! a) (x ! b) (x ! c) (x ! d) ! 3]"
  using assms
  by (auto simp: QUARTERROUND_def qr_line_eq qr_words_def Let_def list_update_swap
           intro!: nth_equalityI simp: nth_list_update)

lemma length_QUARTERROUND [simp]: "length (QUARTERROUND a b c d x) = length x"
  by (simp add: QUARTERROUND_def qr_line_def Let_def)

lemma length_double_round [simp]: "length (chacha_double_round x) = length x"
  by (simp add: chacha_double_round_def)

lemma length_double_round_iter [simp]: "length ((chacha_double_round ^^ k) x) = length x"
  by (induction k) auto

lemma length_chacha_state [simp]: "length (chacha_state key counter nonce) = 16"
  by (simp add: chacha_state_def chacha_C_def)

lemma length_chacha_words [simp]: "length (chacha_words s) = 16"
  by (simp add: chacha_words_def Let_def)

lemma chacha_state_counter:
  "(chacha_state key counter nonce)[12 := c] = chacha_state key c nonce"
  "chacha_state key counter nonce ! 12 = counter"
  by (simp_all add: chacha_state_def chacha_C_def nth_append list_update_append)

lemma length_concat_u32to8 [simp]: "length (concat (map u32to8 ws)) = 4 * length ws"
  by (induction ws) auto

lemma nth_concat_u32to8:
  "j < 4 * length ws \<Longrightarrow> concat (map u32to8 ws) ! j = ucast (drop_bit ((j mod 4) * 8) (ws ! (j div 4)))"
proof (induction ws arbitrary: j)
  case Nil
  then show ?case by simp
next
  case (Cons w ws)
  show ?case
  proof (cases "j < 4")
    case True
    then have "j \<in> {0, 1, 2, 3}" by auto
    then show ?thesis by (auto simp: u32to8_def nth_append)
  next
    case False
    then obtain i where j: "j = i + 4" by (metis add.commute le_Suc_ex not_less)
    have "(i + 4) div 4 = Suc (i div 4)" by simp
    with j Cons show ?thesis by (simp add: nth_append)
  qed
qed

lemma length_chacha20_block [simp]: "length (chacha20_block key counter nonce) = 64"
  by (simp add: chacha20_block_def)

lemma length_xor_bytes [simp]: "length (xor_bytes a b) = min (length a) (length b)"
  by (simp add: xor_bytes_def)

lemma nth_xor_bytes: "j < length a \<Longrightarrow> j < length b \<Longrightarrow> xor_bytes a b ! j = a ! j XOR b ! j"
  by (simp add: xor_bytes_def)


section \<open>The contract of a block stream\<close>

definition stream_xor :: "(u32 \<Rightarrow> byte list) \<Rightarrow> u32 \<Rightarrow> byte list \<Rightarrow> byte list" where
  "stream_xor block c buf =
     map (\<lambda>j. buf ! j XOR block (c + word_of_nat (j div 64)) ! (j mod 64)) [0..<length buf]"

lemma length_stream_xor [simp]: "length (stream_xor block c buf) = length buf"
  by (simp add: stream_xor_def)

lemma nth_stream_xor:
  "j < length buf \<Longrightarrow>
   stream_xor block c buf ! j = buf ! j XOR block (c + word_of_nat (j div 64)) ! (j mod 64)"
  by (simp add: stream_xor_def)

locale block_stream =
  fixes block :: "u32 \<Rightarrow> byte list"
    and xor :: "u32 \<Rightarrow> byte list \<Rightarrow> byte list"
  assumes block_length: "length (block c) = 64"
    and xor_Nil: "xor c [] = []"
    and xor_step: "buf \<noteq> [] \<Longrightarrow>
      xor c buf = xor_bytes (take 64 buf) (take (length buf) (block c)) @ xor (c + 1) (drop 64 buf)"
begin

lemma xor_is_stream: "xor c buf = stream_xor block c buf"
proof (induction "length buf" arbitrary: c buf rule: less_induct)
  case less
  show ?case
  proof (cases "buf = []")
    case True
    then show ?thesis by (simp add: xor_Nil stream_xor_def)
  next
    case False
    then have IH: "xor (c + 1) (drop 64 buf) = stream_xor block (c + 1) (drop 64 buf)"
      using less by simp
    have "xor_bytes (take 64 buf) (take (length buf) (block c)) @ stream_xor block (c + 1) (drop 64 buf)
          = stream_xor block c buf"
    proof (rule nth_equalityI)
      fix j assume "j < length (xor_bytes (take 64 buf) (take (length buf) (block c))
                                @ stream_xor block (c + 1) (drop 64 buf))"
      then have j: "j < length buf" by (simp add: stream_xor_def block_length)
      show "(xor_bytes (take 64 buf) (take (length buf) (block c))
               @ stream_xor block (c + 1) (drop 64 buf)) ! j = stream_xor block c buf ! j"
      proof (cases "j < 64")
        case True
        with j show ?thesis
          by (simp add: nth_append nth_xor_bytes block_length nth_stream_xor)
      next
        case False
        then obtain i where i: "j = i + 64" by (metis add.commute le_Suc_ex not_less)
        have "(i + 64) div 64 = Suc (i div 64)" by simp
        with i j show ?thesis
          by (simp add: nth_append block_length nth_stream_xor add_ac)
      qed
    qed (simp add: stream_xor_def block_length)
    with False IH show ?thesis by (simp add: xor_step)
  qed
qed

lemma xor_length: "length (xor c buf) = length buf"
  by (simp add: xor_is_stream stream_xor_def)

lemma xor_involution: "xor c (xor c buf) = buf"
  by (rule nth_equalityI) (simp_all add: xor_is_stream nth_stream_xor xor.assoc)

lemma xor_split:
  assumes "length a = 64 * k"
  shows "xor c (a @ b) = xor c a @ xor (c + word_of_nat k) b"
proof (rule nth_equalityI)
  fix j assume "j < length (xor c (a @ b))"
  then have j: "j < length a + length b" by (simp add: xor_length)
  show "xor c (a @ b) ! j = (xor c a @ xor (c + word_of_nat k) b) ! j"
  proof (cases "j < length a")
    case True
    then show ?thesis by (simp add: xor_is_stream nth_stream_xor nth_append)
  next
    case False
    then obtain i where i: "j = i + length a" by (metis add.commute le_Suc_ex not_less)
    have "(i + length a) div 64 = i div 64 + k" "(i + length a) mod 64 = i mod 64"
      using assms by simp_all
    with i j show ?thesis
      by (simp add: xor_is_stream nth_stream_xor nth_append add_ac)
  qed
qed (simp add: xor_length)

end

lemma xor_bytes_prefix:
  assumes "length ks = 64"
  shows "xor_bytes (take (min (length buf) 64) buf) (take (min (length buf) 64) ks)
         = xor_bytes (take 64 buf) (take (length buf) ks)"
  using assms by (simp add: min_def)

lemma drop_min_length: "drop (min (length buf) n) buf = drop n buf"
  by (simp add: min_def)

interpretation clear: block_stream "\<lambda>c. chacha20_block key c nonce"
  "\<lambda>c. chacha20_xor key c nonce" for key nonce
  by unfold_locales
    (simp_all add: chacha20_xor.simps [of key _ nonce] Let_def xor_bytes_prefix drop_min_length)

section \<open>Hoisted\<close>

lemma hoisted_loop_step:
  assumes "buf \<noteq> []"
  shows "chacha20_hoisted_loop (chacha_state key c nonce) buf =
     xor_bytes (take 64 buf) (take (length buf) (chacha20_block key c nonce))
     @ chacha20_hoisted_loop (chacha_state key (c + 1) nonce) (drop 64 buf)"
proof -
  have "map (\<lambda>j. buf ! j XOR ucast (drop_bit ((j mod 4) * 8)
             (chacha_words (chacha_state key c nonce) ! (j div 4)))) [0..<min (length buf) 64]
        = xor_bytes (take 64 buf) (take (length buf) (chacha20_block key c nonce))"
    by (rule nth_equalityI)
       (auto simp: nth_xor_bytes chacha20_block_def nth_concat_u32to8)
  with assms show ?thesis
    by (simp add: chacha20_hoisted_loop.simps [of _ buf] Let_def chacha_state_counter
        drop_min_length)
qed

interpretation hoisted: block_stream "\<lambda>c. chacha20_block key c nonce"
  "\<lambda>c. chacha20_xor_hoisted key c nonce" for key nonce
  by unfold_locales
    (simp_all add: chacha20_xor_hoisted_def hoisted_loop_step chacha20_hoisted_loop.simps [of _ "[]"])

section \<open>SSE2 rows\<close>

fun rows_ok :: "rows \<Rightarrow> bool" where
  "rows_ok (a, b, c, d) = (length a = 4 \<and> length b = 4 \<and> length c = 4 \<and> length d = 4)"

fun flat :: "rows \<Rightarrow> u32 list" where
  "flat (a, b, c, d) = a @ b @ c @ d"

lemma rows_okE:
  assumes "rows_ok v"
  obtains a0 a1 a2 a3 b0 b1 b2 b3 c0 c1 c2 c3 d0 d1 d2 d3
  where "v = ([a0, a1, a2, a3], [b0, b1, b2, b3], [c0, c1, c2, c3], [d0, d1, d2, d3])"
  using assms by (cases v) (auto elim!: list4E)

lemma rotl_xor: "length d = length a \<Longrightarrow> rotl_epi32 (mm_xor d a) n = map2 (xrot n) d a"
  by (rule nth_equalityI) (simp_all add: rotl_epi32_def mm_or_def mm_xor_def xrot_def ROTL32_def)

lemma sse2_quarter_eq:
  "sse2_quarter ([a0, a1, a2, a3], [b0, b1, b2, b3], [c0, c1, c2, c3], [d0, d1, d2, d3]) =
   (map (\<lambda>w. w ! 0) [qr_words a0 b0 c0 d0, qr_words a1 b1 c1 d1, qr_words a2 b2 c2 d2, qr_words a3 b3 c3 d3],
    map (\<lambda>w. w ! 1) [qr_words a0 b0 c0 d0, qr_words a1 b1 c1 d1, qr_words a2 b2 c2 d2, qr_words a3 b3 c3 d3],
    map (\<lambda>w. w ! 2) [qr_words a0 b0 c0 d0, qr_words a1 b1 c1 d1, qr_words a2 b2 c2 d2, qr_words a3 b3 c3 d3],
    map (\<lambda>w. w ! 3) [qr_words a0 b0 c0 d0, qr_words a1 b1 c1 d1, qr_words a2 b2 c2 d2, qr_words a3 b3 c3 d3])"
  by (simp add: Let_def rotl_xor mm_add_epi32_def qr_words_def)

lemma upt4: "[0..<4] = [0, 1, 2, 3 :: nat]"
  by (simp add: upt_rec)

lemma sse2_double_round_flat:
  assumes "rows_ok v"
  shows "rows_ok (sse2_double_round v) \<and> flat (sse2_double_round v) = chacha_double_round (flat v)"
  using assms
  by (elim rows_okE)
     (simp add: sse2_double_round_def chacha_double_round_def sse2_quarter_eq QUARTERROUND_eq
        mm_shuffle_epi32_def upt4 del: sse2_quarter.simps)

lemma sse2_iter_flat:
  "rows_ok v \<Longrightarrow> rows_ok ((sse2_double_round ^^ k) v)
     \<and> flat ((sse2_double_round ^^ k) v) = (chacha_double_round ^^ k) (flat v)"
  by (induction k) (auto simp: sse2_double_round_flat)

lemma chacha_words_map2:
  "length s = 16 \<Longrightarrow> chacha_words s = map2 (+) ((chacha_double_round ^^ 10) s) s"
  by (intro nth_equalityI) (simp_all add: chacha_words_def Let_def)

lemma sse2_keystream_eq:
  assumes "rows_ok v"
  shows "sse2_keystream v = concat (map u32to8 (chacha_words (flat v)))"
proof -
  obtain a b c d where v: "v = (a, b, c, d)" by (cases v) auto
  obtain a' b' c' d' where v': "(sse2_double_round ^^ 10) v = (a', b', c', d')"
    by (cases "(sse2_double_round ^^ 10) v") auto
  have ok: "rows_ok (a', b', c', d')" "flat (a', b', c', d') = (chacha_double_round ^^ 10) (flat v)"
    using sse2_iter_flat [OF assms, of 10] by (simp_all add: v')
  have "mm_add_epi32 a' a @ mm_add_epi32 b' b @ mm_add_epi32 c' c @ mm_add_epi32 d' d
        = map2 (+) (flat (a', b', c', d')) (flat v)"
    using assms ok(1) v by (simp add: mm_add_epi32_def)
  also have "\<dots> = chacha_words (flat v)"
    using assms v by (simp only: ok(2)) (simp add: chacha_words_map2)
  finally show ?thesis unfolding sse2_keystream_def v' by (simp add: v del: map_append concat_append)
qed

lemma sse2_load_ok:
  assumes "length s = 16"
  shows "rows_ok (sse2_load s)" "flat (sse2_load s) = s"
proof -
  show "rows_ok (sse2_load s)" using assms by (simp add: sse2_load_def)
  have "take 4 s @ take 4 (drop 4 s) @ take 4 (drop 8 s) @ take 4 (drop 12 s) = s"
    using assms by (intro nth_equalityI) (auto simp: nth_append)
  then show "flat (sse2_load s) = s" by (simp add: sse2_load_def)
qed

lemma sse2_next_counter:
  "(case sse2_load (chacha_state key c nonce) of (v0, v1, v2, v3) \<Rightarrow>
      (v0, v1, v2, mm_add_epi32 v3 [1, 0, 0, 0])) = sse2_load (chacha_state key (c + 1) nonce)"
  by (simp add: sse2_load_def chacha_state_def chacha_C_def mm_add_epi32_def numeral_eq_Suc upt_rec)

lemma sse2_loop_step:
  assumes "buf \<noteq> []"
  shows "chacha20_sse2_loop (sse2_load (chacha_state key c nonce)) buf =
     xor_bytes (take 64 buf) (take (length buf) (chacha20_block key c nonce))
     @ chacha20_sse2_loop (sse2_load (chacha_state key (c + 1) nonce)) (drop 64 buf)"
proof -
  have "sse2_keystream (sse2_load (chacha_state key c nonce)) = chacha20_block key c nonce"
    by (simp add: sse2_keystream_eq sse2_load_ok chacha20_block_def)
  with assms show ?thesis
    by (simp add: chacha20_sse2_loop.simps [of _ buf] Let_def sse2_next_counter
        xor_bytes_prefix drop_min_length)
qed

interpretation sse2: block_stream "\<lambda>c. chacha20_block key c nonce"
  "\<lambda>c. chacha20_xor_sse2 key c nonce" for key nonce
  by unfold_locales
    (simp_all add: chacha20_xor_sse2_def sse2_loop_step chacha20_sse2_loop.simps [of _ "[]"])

section \<open>Lanes\<close>

definition lane :: "nat \<Rightarrow> vec list \<Rightarrow> u32 list" where
  "lane k x = map (\<lambda>v. v ! k) x"

definition lanes_ok :: "nat \<Rightarrow> vec list \<Rightarrow> bool" where
  "lanes_ok L x \<longleftrightarrow> (\<forall>v\<in>set x. length v = L)"

lemma length_lane [simp]: "length (lane k x) = length x"
  by (simp add: lane_def)

lemma lanes_ok_nth: "lanes_ok L x \<Longrightarrow> i < length x \<Longrightarrow> length (x ! i) = L"
  by (simp add: lanes_ok_def)

lemma lanes_ok_update: "lanes_ok L x \<Longrightarrow> length v = L \<Longrightarrow> lanes_ok L (x[i := v])"
  using set_update_subset_insert [of x i v] by (auto simp: lanes_ok_def)

lemma lane_update: "lane k (x[i := v]) = (lane k x)[i := v ! k]"
  by (simp add: lane_def map_update)

lemma lane_nth: "i < length x \<Longrightarrow> lane k x ! i = x ! i ! k"
  by (simp add: lane_def)

lemma vqr_line_eq:
  assumes "lanes_ok L x" "a < length x" "b < length x" "d < length x" "a \<noteq> d"
  shows "vqr_line a b d n x =
     x[a := map2 (+) (x ! a) (x ! b), d := map2 (xrot n) (x ! d) (map2 (+) (x ! a) (x ! b))]"
  using assms by (simp add: vqr_line_def Let_def rotl_xor lanes_ok_nth mm_add_epi32_def)

lemma length_vqr_line [simp]: "length (vqr_line a b d n x) = length x"
  by (simp add: vqr_line_def Let_def)

lemma lanes_ok_vqr_line:
  "\<lbrakk>lanes_ok L x; a < length x; b < length x; d < length x; a \<noteq> d\<rbrakk> \<Longrightarrow> lanes_ok L (vqr_line a b d n x)"
  by (simp add: vqr_line_eq lanes_ok_update lanes_ok_nth)

lemma vqr_line_lane:
  "\<lbrakk>lanes_ok L x; a < length x; b < length x; d < length x; a \<noteq> d; k < L\<rbrakk>
   \<Longrightarrow> lane k (vqr_line a b d n x) = qr_line a b d n (lane k x)"
  by (simp add: vqr_line_eq qr_line_eq lane_update lane_nth lanes_ok_nth)

lemma length_QR_wide [simp]: "length (QR_wide a b c d x) = length x"
  by (simp add: QR_wide_def)

lemma QR_wide_lane:
  assumes "lanes_ok L x" "a < length x" "b < length x" "c < length x" "d < length x"
    "distinct [a, b, c, d]"
  shows "lanes_ok L (QR_wide a b c d x)"
    and "k < L \<Longrightarrow> lane k (QR_wide a b c d x) = QUARTERROUND a b c d (lane k x)"
  using assms
  by (simp_all add: QR_wide_def QUARTERROUND_def vqr_line_lane [of L] lanes_ok_vqr_line)

lemma wide_double_round_lane:
  assumes "lanes_ok L x" "length x = 16"
  shows "lanes_ok L (wide_double_round x)" "length (wide_double_round x) = 16"
    and "k < L \<Longrightarrow> lane k (wide_double_round x) = chacha_double_round (lane k x)"
  using assms
  by (simp_all add: wide_double_round_def chacha_double_round_def QR_wide_lane [of L])

lemma wide_iter_lane:
  assumes "lanes_ok L x" "length x = 16" "k < L"
  shows "lanes_ok L ((wide_double_round ^^ n) x) \<and> length ((wide_double_round ^^ n) x) = 16
    \<and> lane k ((wide_double_round ^^ n) x) = (chacha_double_round ^^ n) (lane k x)"
  using assms by (induction n) (auto simp: wide_double_round_lane [of L])

lemma wide_init_lane:
  assumes "length s = 16" "k < L"
  shows "lanes_ok L (wide_init L s) \<and> length (wide_init L s) = 16
    \<and> lane k (wide_init L s) = s[12 := s ! 12 + word_of_nat k]"
proof -
  have "lane k (map (replicate L) s) = s"
    using assms by (intro nth_equalityI) (simp_all add: lane_nth)
  moreover have "lanes_ok L (map (replicate L) s)"
    by (auto simp: lanes_ok_def)
  ultimately show ?thesis
    using assms by (simp add: wide_init_def lane_update lanes_ok_update)
qed

lemma wide_words_lane:
  assumes "k < L" "i < 16"
  shows "wide_words L (chacha_state key c nonce) ! i ! k
         = chacha_words (chacha_state key (c + word_of_nat k) nonce) ! i"
proof -
  let ?s = "chacha_state key c nonce" and ?t = "chacha_state key (c + word_of_nat k) nonce"
  let ?x = "(wide_double_round ^^ 10) (wide_init L ?s)"
  have init: "lanes_ok L (wide_init L ?s)" "length (wide_init L ?s) = 16" "lane k (wide_init L ?s) = ?t"
    using wide_init_lane [of ?s k L] assms by (simp_all add: chacha_state_counter)
  have iter: "lanes_ok L ?x" "length ?x = 16" "lane k ?x = (chacha_double_round ^^ 10) ?t"
    using wide_iter_lane [of L "wide_init L ?s" k 10] init assms by simp_all
  have "?x ! i ! k = (chacha_double_round ^^ 10) ?t ! i" "wide_init L ?s ! i ! k = ?t ! i"
    using iter init assms by (metis lane_nth)+
  then show ?thesis
    using assms iter init
    by (simp add: wide_words_def chacha_words_def Let_def mm_add_epi32_def lanes_ok_nth)
qed

lemma wide_blocks_stream:
  assumes "\<And>k i. k < L \<Longrightarrow> i < 16 \<Longrightarrow>
      words ! i ! k = chacha_words (chacha_state key (c + word_of_nat k) nonce) ! i"
    and "blk \<le> L"
  shows "fst (wide_blocks words L blk buf)
           @ chacha20_xor key (c + word_of_nat L) nonce (snd (wide_blocks words L blk buf))
         = chacha20_xor key (c + word_of_nat blk) nonce buf"
  using assms
proof (induction words L blk buf rule: wide_blocks.induct)
  case (1 words L blk buf)
  show ?case
  proof (cases "blk < L \<and> buf \<noteq> []")
    case True
    have ks: "concat (map (\<lambda>i. u32to8 (words ! i ! blk)) [0..<16])
          = chacha20_block key (c + word_of_nat blk) nonce"
      using "1.prems"(1) True
      by (auto simp: chacha20_block_def map_equality_iff intro!: arg_cong [where f = concat] nth_equalityI)
    have "fst (wide_blocks words L (blk + 1) (drop 64 buf))
           @ chacha20_xor key (c + word_of_nat L) nonce (snd (wide_blocks words L (blk + 1) (drop 64 buf)))
         = chacha20_xor key (c + word_of_nat blk + 1) nonce (drop 64 buf)"
      using "1.IH" [OF True refl refl "1.prems"(1)] True by (simp add: drop_min_length add_ac)
    with True show ?thesis
      by (simp add: wide_blocks.simps [of words L blk buf] Let_def split_beta ks clear.xor_step
          xor_bytes_prefix drop_min_length)
  next
    case False
    with "1.prems"(2) show ?thesis
      by (auto simp: wide_blocks.simps [of words L blk buf] clear.xor_Nil)
  qed
qed

lemma wide_loop_stream:
  assumes "0 < L"
  shows "chacha20_wide_loop L (chacha_state key c nonce) buf = chacha20_xor key c nonce buf"
proof (induction "length buf" arbitrary: c buf rule: less_induct)
  case less
  show ?case
  proof (cases "buf = []")
    case True
    then show ?thesis by (simp add: chacha20_wide_loop.simps clear.xor_Nil)
  next
    case False
    let ?w = "wide_blocks (wide_words L (chacha_state key c nonce)) L 0 buf"
    have "length (snd ?w) < length buf"
      using False assms by (cases buf) (auto simp: wide_blocks_rest)
    then have "chacha20_wide_loop L (chacha_state key (c + word_of_nat L) nonce) (snd ?w)
               = chacha20_xor key (c + word_of_nat L) nonce (snd ?w)"
      by (rule less)
    moreover have "fst ?w @ chacha20_xor key (c + word_of_nat L) nonce (snd ?w)
        = chacha20_xor key c nonce buf"
      using wide_blocks_stream [of L "wide_words L (chacha_state key c nonce)" key c nonce 0 buf]
        assms by (simp add: wide_words_lane)
    ultimately show ?thesis
      using False assms
      by (simp add: chacha20_wide_loop.simps [of L _ buf] split_beta chacha_state_counter)
  qed
qed


section \<open>The test vector of RFC 8439, section 2.3.2\<close>

lemma ROTL32_eval:
  assumes "0 < n" "n < 32"
  shows "ROTL32 v n = word_of_nat (unat v * 2 ^ n mod 2 ^ 32 + unat v div 2 ^ (32 - n))"
proof -
  have "ROTL32 v n = push_bit n v + drop_bit (32 - n) v"
    unfolding ROTL32_def using assms
    by (intro disjunctive_add_eq_or [symmetric]) (auto simp: bit_eq_iff bit_simps dest: bit_imp_le_length)
  moreover have "push_bit n v = word_of_nat (unat v * 2 ^ n mod 2 ^ 32)"
    by (simp add: word_of_nat_mod [where 'a = 32, simplified] push_bit_word_nat)
  moreover have "drop_bit (32 - n) v = word_of_nat (unat v div 2 ^ (32 - n))"
    by (rule drop_bit_word_nat)
  ultimately show ?thesis by simp
qed
lemmas rfc_eval = chacha_double_round_def QUARTERROUND_def qr_line_def ROTL32_eval Let_def

lemma rfc_round_1:
  "chacha_double_round
    [0x61707865, 0x3320646e, 0x79622d32, 0x6b206574, 0x3020100, 0x7060504, 0xb0a0908,
     0xf0e0d0c, 0x13121110, 0x17161514, 0x1b1a1918, 0x1f1e1d1c, 1, 0x9000000, 0x4a000000, 0] =
    [0xcd52e917, 0x85ab03b4, 0xb3457395, 0xf96de7dd, 0xc4b7cd22, 0x5c2e187a, 0xc95eb461,
     0x316c801a, 0x7bf7d740, 0x7eddd644, 0xf1a1bdf5, 0x761246ca, 0x6b0d58a3, 0x6798471a,
     0xd737f167, 0xf173888d]"
  by (simp add: rfc_eval)

lemma rfc_round_2:
  "chacha_double_round
    [0xcd52e917, 0x85ab03b4, 0xb3457395, 0xf96de7dd, 0xc4b7cd22, 0x5c2e187a, 0xc95eb461,
     0x316c801a, 0x7bf7d740, 0x7eddd644, 0xf1a1bdf5, 0x761246ca, 0x6b0d58a3, 0x6798471a,
     0xd737f167, 0xf173888d] =
    [0xcf1a7584, 0x48927ec, 0x54051fda, 0xc244ff28, 0x901d2f40, 0x7974b81c, 0x378dcfb4,
     0xcd47fd0e, 0x2dafb216, 0x27c89cd6, 0xcd3c9aa0, 0x79fc89c7, 0x10aef18d, 0x16218765,
     0x68f76705, 0x4d6ee22]"
  by (simp add: rfc_eval)

lemma rfc_round_3:
  "chacha_double_round
    [0xcf1a7584, 0x48927ec, 0x54051fda, 0xc244ff28, 0x901d2f40, 0x7974b81c, 0x378dcfb4,
     0xcd47fd0e, 0x2dafb216, 0x27c89cd6, 0xcd3c9aa0, 0x79fc89c7, 0x10aef18d, 0x16218765,
     0x68f76705, 0x4d6ee22] =
    [0x3a14032, 0x66b15927, 0x9d6b6b42, 0xb84c4109, 0xa7143ae0, 0xa09b33dd, 0xa5daaf88,
     0x2fd91a73, 0xc90c6b18, 0x5a202413, 0xc20e01b6, 0x72cd6b74, 0xba35d777, 0xb360f1bf,
     0x8178315b, 0x2cd11b1a]"
  by (simp add: rfc_eval)

lemma rfc_round_4:
  "chacha_double_round
    [0x3a14032, 0x66b15927, 0x9d6b6b42, 0xb84c4109, 0xa7143ae0, 0xa09b33dd, 0xa5daaf88,
     0x2fd91a73, 0xc90c6b18, 0x5a202413, 0xc20e01b6, 0x72cd6b74, 0xba35d777, 0xb360f1bf,
     0x8178315b, 0x2cd11b1a] =
    [0x9a2d3589, 0xb23fc4e, 0x40af3b6b, 0xceea8144, 0xa1bffc6, 0x5e5993f7, 0x9904c2e7,
     0xd334718, 0xe46c6354, 0xc9503229, 0x4fef5aa, 0xf8933f72, 0x2687d476, 0x54e65231,
     0x3594ffc5, 0x2b3bb2ca]"
  by (simp add: rfc_eval)

lemma rfc_round_5:
  "chacha_double_round
    [0x9a2d3589, 0xb23fc4e, 0x40af3b6b, 0xceea8144, 0xa1bffc6, 0x5e5993f7, 0x9904c2e7,
     0xd334718, 0xe46c6354, 0xc9503229, 0x4fef5aa, 0xf8933f72, 0x2687d476, 0x54e65231,
     0x3594ffc5, 0x2b3bb2ca] =
    [0xc53318c5, 0xca325d96, 0x7e7d11cb, 0x3404e2ca, 0x26d7cf73, 0x6088d379, 0xc0f0e9bd,
     0xe310cdb9, 0xae2ca8db, 0x42f67c72, 0x71669aca, 0x975c171d, 0x9e5ec228, 0x7d85a9f3,
     0x201d0756, 0x63fa6953]"
  by (simp add: rfc_eval)

lemma rfc_round_6:
  "chacha_double_round
    [0xc53318c5, 0xca325d96, 0x7e7d11cb, 0x3404e2ca, 0x26d7cf73, 0x6088d379, 0xc0f0e9bd,
     0xe310cdb9, 0xae2ca8db, 0x42f67c72, 0x71669aca, 0x975c171d, 0x9e5ec228, 0x7d85a9f3,
     0x201d0756, 0x63fa6953] =
    [0x4a3131a, 0x66176309, 0x415bab1, 0x61b880a2, 0x36cc86c7, 0xbf8a4465, 0xf77dd720,
     0xfc0bdc90, 0x7d13aca, 0xeb0be9af, 0x61599491, 0x918512dc, 0x33b6686d, 0x795cc671,
     0xc0049972, 0xa0a81bde]"
  by (simp add: rfc_eval)

lemma rfc_round_7:
  "chacha_double_round
    [0x4a3131a, 0x66176309, 0x415bab1, 0x61b880a2, 0x36cc86c7, 0xbf8a4465, 0xf77dd720,
     0xfc0bdc90, 0x7d13aca, 0xeb0be9af, 0x61599491, 0x918512dc, 0x33b6686d, 0x795cc671,
     0xc0049972, 0xa0a81bde] =
    [0x9b70f51f, 0x7ea8ac11, 0x21e54da9, 0xca393b2f, 0x93b08686, 0x6a4c50ae, 0x19212a5a,
     0x9b032958, 0xd839165e, 0x4c06e28a, 0xd3fde99e, 0x26acc13d, 0xa609f555, 0x2c246549,
     0x95151853, 0x2c847a0d]"
  by (simp add: rfc_eval)

lemma rfc_round_8:
  "chacha_double_round
    [0x9b70f51f, 0x7ea8ac11, 0x21e54da9, 0xca393b2f, 0x93b08686, 0x6a4c50ae, 0x19212a5a,
     0x9b032958, 0xd839165e, 0x4c06e28a, 0xd3fde99e, 0x26acc13d, 0xa609f555, 0x2c246549,
     0x95151853, 0x2c847a0d] =
    [0xca5c85dd, 0x93a4f90e, 0xd9f0df58, 0x26dd82dd, 0x982563f8, 0x712aa9ff, 0x279a61e8,
     0x970f72bd, 0x1c25931a, 0x5180bb10, 0x779c27e7, 0x54077e08, 0xa9b751fb, 0x382f3ce2,
     0x8db1757d, 0xcc38080b]"
  by (simp add: rfc_eval)

lemma rfc_round_9:
  "chacha_double_round
    [0xca5c85dd, 0x93a4f90e, 0xd9f0df58, 0x26dd82dd, 0x982563f8, 0x712aa9ff, 0x279a61e8,
     0x970f72bd, 0x1c25931a, 0x5180bb10, 0x779c27e7, 0x54077e08, 0xa9b751fb, 0x382f3ce2,
     0x8db1757d, 0xcc38080b] =
    [0xb6b87de6, 0x9a016148, 0x93859815, 0x4915e6cc, 0xdc33c122, 0x98e18fa3, 0x5ffbe8fc,
     0xf7154b8b, 0x28c1fcb3, 0xc4b38f9d, 0x83e2f5d7, 0x7d24b98b, 0x21078b22, 0xb193e7a3,
     0xb2f49389, 0x6cde6026]"
  by (simp add: rfc_eval)

lemma rfc_round_10:
  "chacha_double_round
    [0xb6b87de6, 0x9a016148, 0x93859815, 0x4915e6cc, 0xdc33c122, 0x98e18fa3, 0x5ffbe8fc,
     0xf7154b8b, 0x28c1fcb3, 0xc4b38f9d, 0x83e2f5d7, 0x7d24b98b, 0x21078b22, 0xb193e7a3,
     0xb2f49389, 0x6cde6026] =
    [0x837778ab, 0xe238d763, 0xa67ae21e, 0x5950bb2f, 0xc4f2d0c7, 0xfc62bb2f, 0x8fa018fc,
     0x3f5ec7b7, 0x335271c2, 0xf29489f3, 0xeabda8fc, 0x82e46ebd, 0xd19c12b4, 0xb04e16de,
     0x9e83d0cb, 0x4e3c50a2]"
  by (simp add: rfc_eval)

lemma chacha20_block_rfc8439:
  "chacha20_block [0, 1, 2, 3, 4, 5, 6, 7, 8, 9, 10, 11, 12, 13, 14, 15, 16, 17, 18, 19, 20, 21, 22,
      23, 24, 25, 26, 27, 28, 29, 30, 31] 1 [0, 0, 0, 9, 0, 0, 0, 0x4a, 0, 0, 0, 0] =
   [0x10, 0xf1, 0xe7, 0xe4, 0xd1, 0x3b, 0x59, 0x15, 0x50, 0x0f, 0xdd, 0x1f, 0xa3, 0x20, 0x71, 0xc4,
    0xc7, 0xd1, 0xf4, 0xc7, 0x33, 0xc0, 0x68, 0x03, 0x04, 0x22, 0xaa, 0x9a, 0xc3, 0xd4, 0x6c, 0x4e,
    0xd2, 0x82, 0x64, 0x46, 0x07, 0x9f, 0xaa, 0x09, 0x14, 0xc2, 0xd7, 0x05, 0xd9, 0x8b, 0x02, 0xa2,
    0xb5, 0x12, 0x9c, 0xd1, 0xde, 0x16, 0x4e, 0xb9, 0xcb, 0xd0, 0x83, 0xe8, 0xa2, 0x50, 0x3c, 0x4e]"
proof -
  have "chacha_state [0, 1, 2, 3, 4, 5, 6, 7, 8, 9, 10, 11, 12, 13, 14, 15, 16, 17, 18, 19, 20, 21,
      22, 23, 24, 25, 26, 27, 28, 29, 30, 31] 1 [0, 0, 0, 9, 0, 0, 0, 0x4a, 0, 0, 0, 0] =
    [0x61707865, 0x3320646e, 0x79622d32, 0x6b206574, 0x3020100, 0x7060504, 0xb0a0908,
     0xf0e0d0c, 0x13121110, 0x17161514, 0x1b1a1918, 0x1f1e1d1c, 1, 0x9000000, 0x4a000000, 0]"
    by (simp add: chacha_state_def chacha_C_def u8to32_def upt_rec)
  then show ?thesis
    by (simp add: chacha20_block_def chacha_words_def Let_def funpow_numeral rfc_round_1 rfc_round_2
        rfc_round_3 rfc_round_4 rfc_round_5 rfc_round_6 rfc_round_7 rfc_round_8 rfc_round_9 rfc_round_10 upt_rec u32to8_def)
qed

section \<open>Properties\<close>

text \<open>C12 The machine may choose how fast, never what: the hoisted implementation, the one-block SSE2
  implementation, the four-block SSE2 implementation and the eight-block AVX2 implementation compute
  the same bytes as the clear one, for every key, counter, nonce and buffer length (the ragged tail
  included).\<close>

theorem chacha20_variants_agree:
  "chacha20_xor_hoisted key c nonce buf = chacha20_xor key c nonce buf \<and>
   chacha20_xor_sse2 key c nonce buf = chacha20_xor key c nonce buf \<and>
   chacha20_xor_sse2x4 key c nonce buf = chacha20_xor key c nonce buf \<and>
   chacha20_xor_avx2 key c nonce buf = chacha20_xor key c nonce buf"
  by (simp add: clear.xor_is_stream hoisted.xor_is_stream sse2.xor_is_stream
      chacha20_xor_sse2x4_def chacha20_xor_avx2_def wide_loop_stream)

text \<open>What the stream is: byte \<open>j\<close> of the output is byte \<open>j\<close> of the buffer xored with byte
  \<open>j mod 64\<close> of the keystream block of counter \<open>c + j div 64\<close> (the counter wraps around at 32 bits),
  and the output has the length of the buffer.\<close>

theorem chacha20_xor_bytewise:
  "length (chacha20_xor key c nonce buf) = length buf \<and>
   chacha20_xor key c nonce buf =
     map (\<lambda>j. buf ! j XOR chacha20_block key (c + word_of_nat (j div 64)) nonce ! (j mod 64))
       [0..<length buf]"
  by (simp add: clear.xor_length) (simp add: clear.xor_is_stream stream_xor_def)

text \<open>Decrypting is encrypting again: the stream applied twice gives the buffer back.\<close>

theorem chacha20_xor_roundtrip: "chacha20_xor key c nonce (chacha20_xor key c nonce buf) = buf"
  by (rule clear.xor_involution)

text \<open>The stream does not depend on the chunking: a buffer cut at a block boundary may be
  processed in two calls, the second one starting at the counter advanced by the blocks of the
  first.\<close>

theorem chacha20_xor_chunks:
  assumes "length a = 64 * k"
  shows "chacha20_xor key c nonce (a @ b) =
    chacha20_xor key c nonce a @ chacha20_xor key (c + word_of_nat k) nonce b"
  using assms by (rule clear.xor_split)

theorem chacha20_xor_chunks_witness:
  "chacha20_xor (replicate 32 7) (- 1) (replicate 12 1) (replicate 64 0 @ [1, 2, 3]) =
     chacha20_xor (replicate 32 7) (- 1) (replicate 12 1) (replicate 64 0)
     @ chacha20_xor (replicate 32 7) 0 (replicate 12 1) [1, 2, 3]"
  using chacha20_xor_chunks [of "replicate 64 0" 1 "replicate 32 7" "- 1" "replicate 12 1" "[1, 2, 3]"]
  by simp

end
