(* ===== verification/Poly1305_Spec.thy ===== *)
theory Poly1305_Spec
  imports Prelude
begin

text \<open>
  Poly1305 as RFC 8439, section 2.5 states it, over the natural numbers: the specification that the
  three implementations of \<^verbatim>\<open>benchmarks/crypto_probe.c\<close> are held to.  The theory also holds the
  part of the C code that the 26-bit and the 64-bit implementation write twice: the context and
  the buffering of \<open>poly1305_update\<close> / \<open>poly64_update\<close>, with the word type and the block function
  as parameters.
\<close>

section \<open>The specification\<close>

definition p1305 :: nat where
  "p1305 = 2 ^ 130 - 5"

definition clamp :: "nat \<Rightarrow> nat" where
  "clamp r = r AND 0x0ffffffc0ffffffc0ffffffc0fffffff"

definition block_nat :: "byte list \<Rightarrow> nat" where
  "block_nat bs = le_nat bs + 256 ^ length bs"

function horner :: "nat \<Rightarrow> nat \<Rightarrow> byte list \<Rightarrow> nat" where
  "horner r a m =
     (if m = [] then a else horner r ((a + block_nat (take 16 m)) * r mod p1305) (drop 16 m))"
  by pat_completeness auto
termination
  by (relation "measure (\<lambda>(r, a, m). length m)") auto

definition poly1305_mac :: "byte list \<Rightarrow> byte list \<Rightarrow> byte list" where
  "poly1305_mac key m =
     le_bytes 16 ((horner (clamp (le_nat (take 16 key))) 0 m mod p1305 + le_nat (take 16 (drop 16 key))) mod 2 ^ 128)"

declare horner.simps [simp del]

section \<open>The streaming context\<close>

record 'w poly_ctx =
  pr :: "'w list"
  ph :: "'w list"
  pad :: "'w list"
  leftover :: nat
  buffer :: "byte list"
  final :: bool

definition memcpy_at :: "byte list \<Rightarrow> nat \<Rightarrow> byte list \<Rightarrow> byte list" where
  "memcpy_at dst off bs = take off dst @ bs @ drop (off + length bs) dst"

definition poly_update_tail ::
  "('w poly_ctx \<Rightarrow> byte list \<Rightarrow> 'w poly_ctx) \<Rightarrow> 'w poly_ctx \<Rightarrow> byte list \<Rightarrow> 'w poly_ctx" where
  "poly_update_tail blocks st m =
     (let want = if length m \<ge> 16 then length m div 16 * 16 else 0;
          st = if length m \<ge> 16 then blocks st (take want m) else st;
          m = drop want m
      in if m \<noteq> [] then st\<lparr>buffer := memcpy_at (buffer st) (leftover st) m,
                           leftover := leftover st + length m\<rparr>
         else st)"

definition poly_update ::
  "('w poly_ctx \<Rightarrow> byte list \<Rightarrow> 'w poly_ctx) \<Rightarrow> 'w poly_ctx \<Rightarrow> byte list \<Rightarrow> 'w poly_ctx" where
  "poly_update blocks st m =
     (if leftover st \<noteq> 0 then
        let want = min (16 - leftover st) (length m);
            st = st\<lparr>buffer := memcpy_at (buffer st) (leftover st) (take want m),
                    leftover := leftover st + want\<rparr>;
            m = drop want m
        in if leftover st < 16 then st
           else poly_update_tail blocks ((blocks st (buffer st))\<lparr>leftover := 0\<rparr>) m
      else poly_update_tail blocks st m)"

text \<open>The padding of \<open>poly1305_finish\<close>: a partial block gets a 1 byte and zeros, and \<open>final\<close> tells
  the block function to leave the high bit out.\<close>

definition poly_flush :: "('w poly_ctx \<Rightarrow> byte list \<Rightarrow> 'w poly_ctx) \<Rightarrow> 'w poly_ctx \<Rightarrow> 'w poly_ctx" where
  "poly_flush blocks st =
     (if leftover st \<noteq> 0 then
        let st = st\<lparr>buffer := take (leftover st) (buffer st) @ [1] @ replicate (15 - leftover st) 0,
                    final := True\<rparr>
        in blocks st (buffer st)
      else st)"

section \<open>Horner\<close>

lemma horner_Nil [simp]: "horner r a [] = a"
  by (simp add: horner.simps)

lemma horner_append:
  assumes "length m = 16 * k"
  shows "horner r a (m @ m') = horner r (horner r a m) m'"
  using assms
proof (induction k arbitrary: a m)
  case (Suc k)
  then have "m \<noteq> []" "16 \<le> length m" "length (drop 16 m) = 16 * k" by auto
  then show ?case
    using Suc.IH [of "drop 16 m"] by (simp add: horner.simps [of r a "m @ m'"] horner.simps [of r a m])
qed simp

lemma horner_cong: "a mod p1305 = b mod p1305 \<Longrightarrow> horner r a m mod p1305 = horner r b m mod p1305"
proof (induction r a m arbitrary: b rule: horner.induct)
  case (1 r a m)
  show ?case
  proof (cases "m = []")
    case False
    have "(a + block_nat (take 16 m)) * r mod p1305 = (b + block_nat (take 16 m)) * r mod p1305"
      using "1.prems" by (metis mod_add_left_eq mod_mult_left_eq)
    with False show ?thesis by (simp add: horner.simps [of r a m] horner.simps [of r b m])
  qed (use "1.prems" in simp)
qed

section \<open>The contract of a block function\<close>

text \<open>
  What the buffering relies on: \<open>blocks\<close> touches only the accumulator, and on whole blocks it
  advances the number the accumulator stands for (\<open>acc st\<close>, up to a multiple of \<open>p1305\<close>) by the
  Horner rule; with \<open>final\<close> set it adds the sixteen bytes of the padded block without the high bit.
  \<open>inv\<close> is whatever the representation needs to keep (bounds on its limbs).
\<close>

locale poly_absorb =
  fixes blocks :: "'w poly_ctx \<Rightarrow> byte list \<Rightarrow> 'w poly_ctx"
    and inv :: "'w poly_ctx \<Rightarrow> bool"
    and rval :: "'w poly_ctx \<Rightarrow> nat"
    and acc :: "'w poly_ctx \<Rightarrow> nat"
  assumes blocks_frame: "\<exists>h. blocks st m = st\<lparr>ph := h\<rparr>"
    and inv_blocks: "inv st \<Longrightarrow> length m = 16 * k \<Longrightarrow> inv (blocks st m)"
    and acc_blocks: "inv st \<Longrightarrow> length m = 16 * k \<Longrightarrow> \<not> final st \<Longrightarrow>
          acc (blocks st m) mod p1305 = horner (rval st) (acc st) m mod p1305"
    and acc_final: "inv st \<Longrightarrow> length m = 16 \<Longrightarrow> final st \<Longrightarrow>
          acc (blocks st m) mod p1305 = (acc st + le_nat m) * rval st mod p1305"
    and inv_frame: "inv (st\<lparr>leftover := n, buffer := b, final := f\<rparr>) = inv st"
    and rval_frame: "rval (st\<lparr>ph := h, leftover := n, buffer := b, final := f\<rparr>) = rval st"
    and acc_frame: "acc (st\<lparr>leftover := n, buffer := b, final := f\<rparr>) = acc st"
begin

definition absorbed :: "'w poly_ctx \<Rightarrow> nat \<Rightarrow> byte list \<Rightarrow> byte list \<Rightarrow> bool" where
  "absorbed st r M b \<longleftrightarrow> inv st \<and> \<not> final st \<and> rval st = r \<and> length (buffer st) = 16
     \<and> leftover st = length b \<and> length b < 16 \<and> take (length b) (buffer st) = b
     \<and> length M mod 16 = 0 \<and> acc st mod p1305 = horner r 0 M mod p1305"

lemma frame_simps:
  "inv (st\<lparr>leftover := n\<rparr>) = inv st" "inv (st\<lparr>buffer := b\<rparr>) = inv st" "inv (st\<lparr>final := f\<rparr>) = inv st"
  "acc (st\<lparr>leftover := n\<rparr>) = acc st" "acc (st\<lparr>buffer := b\<rparr>) = acc st" "acc (st\<lparr>final := f\<rparr>) = acc st"
  "rval (st\<lparr>leftover := n\<rparr>) = rval st" "rval (st\<lparr>buffer := b\<rparr>) = rval st"
  "rval (st\<lparr>final := f\<rparr>) = rval st" "rval (st\<lparr>ph := h\<rparr>) = rval st"
  using inv_frame [where st = st and n = n and b = "buffer st" and f = "final st"]
    inv_frame [where st = st and n = "leftover st" and b = b and f = "final st"]
    inv_frame [where st = st and n = "leftover st" and b = "buffer st" and f = f]
    acc_frame [where st = st and n = n and b = "buffer st" and f = "final st"]
    acc_frame [where st = st and n = "leftover st" and b = b and f = "final st"]
    acc_frame [where st = st and n = "leftover st" and b = "buffer st" and f = f]
    rval_frame [where st = st and h = "ph st" and n = n and b = "buffer st" and f = "final st"]
    rval_frame [where st = st and h = "ph st" and n = "leftover st" and b = b and f = "final st"]
    rval_frame [where st = st and h = "ph st" and n = "leftover st" and b = "buffer st" and f = f]
    rval_frame [where st = st and h = h and n = "leftover st" and b = "buffer st" and f = "final st"]
  by simp_all

lemma blocks_fields [simp]:
  "final (blocks st m) = final st" "leftover (blocks st m) = leftover st"
  "buffer (blocks st m) = buffer st" "pad (blocks st m) = pad st" "pr (blocks st m) = pr st"
  "rval (blocks st m) = rval st"
  using blocks_frame [of st m] by (auto simp: frame_simps)

lemma absorbed_blocks:
  assumes "absorbed st r M b" "length m mod 16 = 0"
  shows "inv (blocks st m)" "acc (blocks st m) mod p1305 = horner r 0 (M @ m) mod p1305"
proof -
  obtain k where k: "length m = 16 * k" using assms(2) by auto
  obtain j where j: "length M = 16 * j" using assms(1) by (auto simp: absorbed_def)
  show "inv (blocks st m)" using assms(1) k inv_blocks by (auto simp: absorbed_def)
  show "acc (blocks st m) mod p1305 = horner r 0 (M @ m) mod p1305"
    using assms(1) acc_blocks [of st m k] k horner_cong [of "acc st" "horner r 0 M" r m]
      horner_append [OF j, of r 0 m] by (auto simp: absorbed_def)
qed

lemma update_tail_absorbed:
  assumes "absorbed st r M []"
  shows "\<exists>M' b'. absorbed (poly_update_tail blocks st m) r M' b' \<and> M' @ b' = M @ m"
proof -
  let ?w = "length m div 16 * 16"
  have w: "drop ?w m = (if length m < 16 then m else drop ?w m)" "length (drop ?w m) < 16"
    "length (take ?w m) mod 16 = 0" by auto
  let ?st = "if length m \<ge> 16 then blocks st (take ?w m) else st"
  have st: "absorbed ?st r (M @ take ?w m) []"
  proof (cases "length m \<ge> 16")
    case True
    then show ?thesis
      using assms absorbed_blocks [OF assms w(3)] w(3) by (simp add: absorbed_def)
  next
    case False
    then have "take ?w m = []" by simp
    with False assms show ?thesis by simp
  qed
  have "absorbed (poly_update_tail blocks st m) r (M @ take ?w m) (drop ?w m)"
  proof (cases "drop ?w m = []")
    case True
    then have "poly_update_tail blocks st m = ?st" by (auto simp: poly_update_tail_def Let_def)
    with st True show ?thesis by simp
  next
    case False
    then have "poly_update_tail blocks st m =
        ?st\<lparr>buffer := memcpy_at (buffer ?st) (leftover ?st) (drop ?w m),
            leftover := leftover ?st + length (drop ?w m)\<rparr>"
      by (auto simp: poly_update_tail_def Let_def)
    with st w(2) show ?thesis
      by (simp add: absorbed_def frame_simps memcpy_at_def)
  qed
  then show ?thesis by (intro exI conjI) (assumption, simp)
qed

lemma full_buffer_absorbed:
  assumes "inv st" "\<not> final st" "rval st = r" "length (buffer st) = 16" "length M mod 16 = 0"
    "acc st mod p1305 = horner r 0 M mod p1305"
  shows "absorbed ((blocks st (buffer st))\<lparr>leftover := 0\<rparr>) r (M @ buffer st) []"
proof -
  have "absorbed (st\<lparr>leftover := 0\<rparr>) r M []"
    using assms by (simp add: absorbed_def frame_simps)
  obtain j where j: "length M = 16 * j" using assms(5) by auto
  have "acc (blocks st (buffer st)) mod p1305 = horner r (acc st) (buffer st) mod p1305"
    using acc_blocks [of st "buffer st" 1] assms(1-4) by simp
  also have "\<dots> = horner r 0 (M @ buffer st) mod p1305"
    using horner_cong [OF assms(6)] by (simp add: horner_append [OF j])
  finally show ?thesis
    using assms inv_blocks [of st "buffer st" 1] by (simp add: absorbed_def frame_simps)
qed

lemma update_absorbed:
  assumes "absorbed st r M b"
  shows "\<exists>M' b'. absorbed (poly_update blocks st m) r M' b' \<and> M' @ b' = M @ b @ m"
proof (cases "b = []")
  case True
  with assms have "poly_update blocks st m = poly_update_tail blocks st m"
    by (simp add: poly_update_def absorbed_def)
  with update_tail_absorbed assms True show ?thesis by simp
next
  case False
  define w where "w = min (16 - length b) (length m)"
  define st' where "st' = st\<lparr>buffer := memcpy_at (buffer st) (leftover st) (take w m),
                            leftover := leftover st + w\<rparr>"
  have lo: "leftover st = length b" "length b < 16" "length (buffer st) = 16"
    "take (length b) (buffer st) = b" using assms by (auto simp: absorbed_def)
  have w: "w \<le> length m" "length b + w \<le> 16" using lo by (auto simp: w_def)
  have buf: "length (buffer st') = 16" "take (length b + w) (buffer st') = b @ take w m"
    using lo w by (simp_all add: st'_def memcpy_at_def)
  have st': "inv st'" "\<not> final st'" "rval st' = r" "length M mod 16 = 0"
    "acc st' mod p1305 = horner r 0 M mod p1305" "leftover st' = length b + w"
    using assms lo by (simp_all add: st'_def absorbed_def frame_simps)
  have upd: "poly_update blocks st m =
      (if length b + w < 16 then st'
       else poly_update_tail blocks ((blocks st' (buffer st'))\<lparr>leftover := 0\<rparr>) (drop w m))"
    using False lo(1) by (simp add: poly_update_def Let_def st'_def w_def)
  show ?thesis
  proof (cases "length b + w < 16")
    case True
    then have "take w m = m" by (auto simp: w_def)
    then have "absorbed st' r M (b @ m)"
      using st' buf True w by (auto simp: absorbed_def)
    with True upd show ?thesis by auto
  next
    case full: False
    then have "buffer st' = b @ take w m" using buf w by simp
    moreover obtain M' b' where
      "absorbed (poly_update_tail blocks ((blocks st' (buffer st'))\<lparr>leftover := 0\<rparr>) (drop w m)) r M' b'"
      "M' @ b' = (M @ buffer st') @ drop w m"
      using update_tail_absorbed [OF full_buffer_absorbed [OF st'(1-3) buf(1) st'(4,5)]] by blast
    ultimately show ?thesis using full upd by auto
  qed
qed

lemma updates_absorbed:
  "absorbed st r M b \<Longrightarrow>
     \<exists>M' b'. absorbed (foldl (poly_update blocks) st ms) r M' b' \<and> M' @ b' = M @ b @ concat ms"
proof (induction ms arbitrary: st M b)
  case (Cons m ms)
  then obtain M1 b1 where "absorbed (poly_update blocks st m) r M1 b1" "M1 @ b1 = M @ b @ m"
    using update_absorbed by blast
  then show ?case using Cons.IH by fastforce
qed auto

lemma updates_pad: "pad (foldl (poly_update blocks) st ms) = pad st"
proof (induction ms arbitrary: st)
  case (Cons m ms)
  have "pad (poly_update blocks st m) = pad st"
    by (simp add: poly_update_def poly_update_tail_def Let_def)
  with Cons show ?case by simp
qed simp

lemma flush_absorbed:
  assumes "absorbed st r M b"
  shows "inv (poly_flush blocks st)" "pad (poly_flush blocks st) = pad st"
    and "acc (poly_flush blocks st) mod p1305 = horner r 0 (M @ b) mod p1305"
proof -
  let ?pb = "take (leftover st) (buffer st) @ [1] @ replicate (15 - leftover st) 0"
  let ?st = "st\<lparr>buffer := ?pb, final := True\<rparr>"
  have flush: "poly_flush blocks st = (if b = [] then st else blocks ?st ?pb)"
    using assms by (simp add: poly_flush_def absorbed_def Let_def)
  have pb: "?pb = b @ 1 # replicate (15 - length b) 0" "length ?pb = 16"
    using assms by (auto simp: absorbed_def)
  have zeros: "le_nat (replicate n 0) = 0" for n by (induction n) auto
  have st: "inv ?st" "rval ?st = r" "acc ?st = acc st" "final ?st"
    using assms by (auto simp: absorbed_def frame_simps)
  show "inv (poly_flush blocks st)"
    using assms inv_blocks [OF st(1), of ?pb 1] pb by (simp add: flush absorbed_def)
  show "pad (poly_flush blocks st) = pad st" by (simp add: flush)
  show "acc (poly_flush blocks st) mod p1305 = horner r 0 (M @ b) mod p1305"
  proof (cases "b = []")
    case False
    obtain j where j: "length M = 16 * j" using assms by (auto simp: absorbed_def)
    have "horner r 0 (M @ b) = (horner r 0 M + block_nat b) * r mod p1305"
      using False assms horner.simps [of r "horner r 0 M" b]
      by (simp add: horner_append [OF j] absorbed_def)
    also have "\<dots> = (acc st + block_nat b) * r mod p1305"
    proof -
      have "acc st mod p1305 = horner r 0 M mod p1305" using assms by (simp add: absorbed_def)
      then show ?thesis by (metis mod_add_left_eq mod_mult_left_eq)
    qed
    also have "block_nat b = le_nat ?pb"
      by (simp only: pb(1)) (simp add: block_nat_def le_nat_append zeros)
    finally show ?thesis
      using False acc_final [OF st(1) pb(2) st(4)] st by (simp add: flush)
  qed (use assms in \<open>simp add: flush absorbed_def\<close>)
qed

end

end
