(* ===== verification/Poly1305_26.thy ===== *)
theory Poly1305_26
  imports Poly1305_Spec
begin

text \<open>
  The 26-bit-limb Poly1305 of \<^verbatim>\<open>benchmarks/crypto_probe.c\<close> (\<open>poly1305_init\<close>, \<open>poly1305_blocks\<close>,
  \<open>poly1305_update\<close>, \<open>poly1305_finish\<close>), on 32- and 64-bit words.  The limbs of the accumulator and
  of the key are lists of five words.  The lemmas bound every intermediate value, so that no sum
  or product wraps around where the arithmetic relies on it, and show that the tag is the one of
  \<open>poly1305_mac\<close>.
\<close>

section \<open>The code\<close>

definition poly1305_init :: "u32 poly_ctx \<Rightarrow> byte list \<Rightarrow> u32 poly_ctx" where
  "poly1305_init st key = st\<lparr>
     pr := [u8to32 key 0 AND 0x3ffffff,
            drop_bit 2 (u8to32 key 3) AND 0x3ffff03,
            drop_bit 4 (u8to32 key 6) AND 0x3ffc0ff,
            drop_bit 6 (u8to32 key 9) AND 0x3f03fff,
            drop_bit 8 (u8to32 key 12) AND 0x00fffff],
     ph := [0, 0, 0, 0, 0],
     pad := [u8to32 key 16, u8to32 key 20, u8to32 key 24, u8to32 key 28],
     leftover := 0, final := False\<rparr>"

definition hibit26 :: "bool \<Rightarrow> u32" where
  "hibit26 fin = (if fin then 0 else push_bit 24 1)"

definition add26 :: "u32 list \<Rightarrow> byte list \<Rightarrow> u32 \<Rightarrow> u32 list" where
  "add26 h m hibit =
     [h ! 0 + (u8to32 m 0 AND 0x3ffffff),
      h ! 1 + (drop_bit 2 (u8to32 m 3) AND 0x3ffffff),
      h ! 2 + (drop_bit 4 (u8to32 m 6) AND 0x3ffffff),
      h ! 3 + (drop_bit 6 (u8to32 m 9) AND 0x3ffffff),
      h ! 4 + (drop_bit 8 (u8to32 m 12) OR hibit)]"

definition mul64 :: "u32 \<Rightarrow> u32 \<Rightarrow> u64" where
  "mul64 a b = ucast a * ucast b"

definition mul26 :: "u32 list \<Rightarrow> u32 list \<Rightarrow> u64 list" where
  "mul26 h r =
     (let h0 = h ! 0; h1 = h ! 1; h2 = h ! 2; h3 = h ! 3; h4 = h ! 4;
          r0 = r ! 0; r1 = r ! 1; r2 = r ! 2; r3 = r ! 3; r4 = r ! 4;
          s1 = r1 * 5; s2 = r2 * 5; s3 = r3 * 5; s4 = r4 * 5
      in [mul64 h0 r0 + mul64 h1 s4 + mul64 h2 s3 + mul64 h3 s2 + mul64 h4 s1,
          mul64 h0 r1 + mul64 h1 r0 + mul64 h2 s4 + mul64 h3 s3 + mul64 h4 s2,
          mul64 h0 r2 + mul64 h1 r1 + mul64 h2 r0 + mul64 h3 s4 + mul64 h4 s3,
          mul64 h0 r3 + mul64 h1 r2 + mul64 h2 r1 + mul64 h3 r0 + mul64 h4 s4,
          mul64 h0 r4 + mul64 h1 r3 + mul64 h2 r2 + mul64 h3 r1 + mul64 h4 r0])"

definition split26 :: "u64 \<Rightarrow> u32 \<times> u32" where
  "split26 d = (ucast (drop_bit 26 d), ucast d AND 0x3ffffff)"

definition carry26 :: "u64 list \<Rightarrow> u32 list" where
  "carry26 d =
     (let (c, h0) = split26 (d ! 0);
          (c, h1) = split26 (d ! 1 + ucast c);
          (c, h2) = split26 (d ! 2 + ucast c);
          (c, h3) = split26 (d ! 3 + ucast c);
          (c, h4) = split26 (d ! 4 + ucast c);
          h0 = h0 + c * 5; c = drop_bit 26 h0; h0 = h0 AND 0x3ffffff;
          h1 = h1 + c
      in [h0, h1, h2, h3, h4])"

function blocks26 :: "u32 \<Rightarrow> u32 list \<Rightarrow> u32 list \<Rightarrow> byte list \<Rightarrow> u32 list" where
  "blocks26 hibit r h m =
     (if length m \<ge> 16 then blocks26 hibit r (carry26 (mul26 (add26 h m hibit) r)) (drop 16 m) else h)"
  by pat_completeness auto
termination
  by (relation "measure (\<lambda>(hibit, r, h, m). length m)") auto

declare blocks26.simps [simp del]

definition poly1305_blocks :: "u32 poly_ctx \<Rightarrow> byte list \<Rightarrow> u32 poly_ctx" where
  "poly1305_blocks st m =
     st\<lparr>ph := blocks26 (hibit26 (final st)) (pr st) (ph st) m\<rparr>"

definition poly1305_update :: "u32 poly_ctx \<Rightarrow> byte list \<Rightarrow> u32 poly_ctx" where
  "poly1305_update = poly_update poly1305_blocks"

definition carry26_final :: "u32 list \<Rightarrow> u32 list" where
  "carry26_final h =
     (let c = drop_bit 26 (h ! 1); h1 = h ! 1 AND 0x3ffffff;
          h2 = h ! 2 + c; c = drop_bit 26 h2; h2 = h2 AND 0x3ffffff;
          h3 = h ! 3 + c; c = drop_bit 26 h3; h3 = h3 AND 0x3ffffff;
          h4 = h ! 4 + c; c = drop_bit 26 h4; h4 = h4 AND 0x3ffffff;
          h0 = h ! 0 + c * 5; c = drop_bit 26 h0; h0 = h0 AND 0x3ffffff;
          h1 = h1 + c
      in [h0, h1, h2, h3, h4])"

definition plus5_26 :: "u32 list \<Rightarrow> u32 list" where
  "plus5_26 h =
     (let g0 = h ! 0 + 5; c = drop_bit 26 g0; g0 = g0 AND 0x3ffffff;
          g1 = h ! 1 + c; c = drop_bit 26 g1; g1 = g1 AND 0x3ffffff;
          g2 = h ! 2 + c; c = drop_bit 26 g2; g2 = g2 AND 0x3ffffff;
          g3 = h ! 3 + c; c = drop_bit 26 g3; g3 = g3 AND 0x3ffffff;
          g4 = h ! 4 + c - push_bit 26 1
      in [g0, g1, g2, g3, g4])"

definition select26 :: "u32 list \<Rightarrow> u32 list \<Rightarrow> u32 list" where
  "select26 h g =
     (let mask = drop_bit 31 (g ! 4) - 1
      in map (\<lambda>i. (h ! i AND NOT mask) OR (g ! i AND mask)) [0..<5])"

definition pack26 :: "u32 list \<Rightarrow> u32 list" where
  "pack26 h = [(h ! 0) OR push_bit 26 (h ! 1),
               drop_bit 6 (h ! 1) OR push_bit 20 (h ! 2),
               drop_bit 12 (h ! 2) OR push_bit 14 (h ! 3),
               drop_bit 18 (h ! 3) OR push_bit 8 (h ! 4)]"

definition addpad26 :: "u32 list \<Rightarrow> u32 list \<Rightarrow> u32 list" where
  "addpad26 h pd =
     (let f = (ucast (h ! 0) :: u64) + ucast (pd ! 0); h0 = ucast f;
          f = (ucast (h ! 1) :: u64) + ucast (pd ! 1) + drop_bit 32 f; h1 = ucast f;
          f = (ucast (h ! 2) :: u64) + ucast (pd ! 2) + drop_bit 32 f; h2 = ucast f;
          f = (ucast (h ! 3) :: u64) + ucast (pd ! 3) + drop_bit 32 f; h3 = ucast f
      in [h0, h1, h2, h3])"

definition poly1305_finish :: "u32 poly_ctx \<Rightarrow> byte list" where
  "poly1305_finish st =
     (let st = poly_flush poly1305_blocks st;
          h = carry26_final (ph st);
          h = select26 h (plus5_26 h)
      in concat (map u32to8 (addpad26 (pack26 h) (pad st))))"

section \<open>What the limbs stand for\<close>

definition val26 :: "nat list \<Rightarrow> nat" where
  "val26 v = v ! 0 + 2 ^ 26 * v ! 1 + 2 ^ 52 * v ! 2 + 2 ^ 78 * v ! 3 + 2 ^ 104 * v ! 4"

definition ok26 :: "u32 list \<Rightarrow> bool" where
  "ok26 h \<longleftrightarrow> length h = 5 \<and> unat (h ! 0) < 2 ^ 26 \<and> unat (h ! 1) < 2 ^ 26 + 2 ^ 6
     \<and> unat (h ! 2) < 2 ^ 26 \<and> unat (h ! 3) < 2 ^ 26 \<and> unat (h ! 4) < 2 ^ 26"

definition ok26r :: "u32 list \<Rightarrow> bool" where
  "ok26r r \<longleftrightarrow> length r = 5 \<and> unat (r ! 0) < 2 ^ 26 \<and> unat (r ! 1) < 2 ^ 26
     \<and> unat (r ! 2) < 2 ^ 26 \<and> unat (r ! 3) < 2 ^ 26 \<and> unat (r ! 4) < 2 ^ 20"

lemma unat_and26: "unat ((a :: u32) AND 0x3ffffff) = unat a mod 2 ^ 26"
  using unat_and_mask_numeral [of "0x3ffffff" 26 a] by simp

lemma split26_nat:
  assumes "unat d < 2 ^ 58"
  shows "unat (fst (split26 d)) = unat d div 2 ^ 26" "unat (snd (split26 d)) = unat d mod 2 ^ 26"
proof -
  have "unat d div 2 ^ 26 < 2 ^ 32" using assms by (simp add: less_mult_imp_div_less)
  then show "unat (fst (split26 d)) = unat d div 2 ^ 26"
    by (simp add: split26_def unat_ucast_small unat_drop_bit_div)
  have "unat (ucast d :: u32) = unat d mod 2 ^ 32"
    by (simp add: unsigned_ucast_eq take_bit_eq_mod)
  then show "unat (snd (split26 d)) = unat d mod 2 ^ 26"
    by (simp add: split26_def unat_and26 mod_mod_cancel)
qed

lemma dot5:
  fixes a0 :: u32
  assumes "unat a0 * unat b0 + unat a1 * unat b1 + unat a2 * unat b2 + unat a3 * unat b3
    + unat a4 * unat b4 < 2 ^ 64"
  shows "unat (mul64 a0 b0 + mul64 a1 b1 + mul64 a2 b2 + mul64 a3 b3 + mul64 a4 b4) =
    unat a0 * unat b0 + unat a1 * unat b1 + unat a2 * unat b2 + unat a3 * unat b3 + unat a4 * unat b4"
    (is "unat ?w = ?n")
proof -
  have "?w = word_of_nat ?n" by (simp add: mul64_def)
  then show ?thesis using unat_of_nat_small [of ?n, where 'a = 64] assms by simp
qed

lemma limb26:
  assumes "16 \<le> length m" "i + 4 \<le> 16" "n + 26 \<le> 32"
  shows "unat (drop_bit n (u8to32 m i) AND 0x3ffffff) = le_nat (take 16 m) div 2 ^ (8 * i + n) mod 2 ^ 26"
  using assms(3)
  by (simp only: unat_and26 unat_drop_bit_div u8to32_at [OF assms(1,2)] limb_extract)

lemma limb26_top:
  assumes "16 \<le> length m"
  shows "unat (drop_bit 8 (u8to32 m 12)) = le_nat (take 16 m) div 2 ^ 104"
proof -
  have b: "le_nat (take 16 m) < 2 ^ 128"
    using le_nat_bound [of "take 16 m"] assms by simp
  have "unat (drop_bit 8 (u8to32 m 12)) = le_nat (take 16 m) div 2 ^ 96 mod 2 ^ 32 div 2 ^ 8"
    using u8to32_at [OF assms, of 12] by (simp add: unat_drop_bit_div)
  also have "le_nat (take 16 m) div 2 ^ 96 mod 2 ^ 32 = le_nat (take 16 m) div 2 ^ 96"
    using b by (intro mod_less) (simp add: less_mult_imp_div_less)
  finally show ?thesis by (simp add: div_mult2_eq [symmetric])
qed

lemma split5:
  fixes x :: nat
  shows "x = x mod 2 ^ 26 + 2 ^ 26 * (x div 2 ^ 26 mod 2 ^ 26) + 2 ^ 52 * (x div 2 ^ 52 mod 2 ^ 26)
           + 2 ^ 78 * (x div 2 ^ 78 mod 2 ^ 26) + 2 ^ 104 * (x div 2 ^ 104)"
proof -
  have "x mod 2 ^ 52 = 2 ^ 26 * (x div 2 ^ 26 mod 2 ^ 26) + x mod 2 ^ 26"
    using mod_mult2_eq [of x "2 ^ 26" "2 ^ 26"] by simp
  moreover have "x mod 2 ^ 78 = 2 ^ 52 * (x div 2 ^ 52 mod 2 ^ 26) + x mod 2 ^ 52"
    using mod_mult2_eq [of x "2 ^ 52" "2 ^ 26"] by simp
  moreover have "x mod 2 ^ 104 = 2 ^ 78 * (x div 2 ^ 78 mod 2 ^ 26) + x mod 2 ^ 78"
    using mod_mult2_eq [of x "2 ^ 78" "2 ^ 26"] by simp
  moreover have "x = 2 ^ 104 * (x div 2 ^ 104) + x mod 2 ^ 104" by simp
  ultimately show ?thesis by linarith
qed

lemma add26_nat:
  assumes "ok26 h" "16 \<le> length m" "hb = (if fin then 0 else 2 ^ 24)"
  shows "val26 (map unat (add26 h m (hibit26 fin))) = val26 (map unat h) + le_nat (take 16 m) + 2 ^ 104 * hb"
    and "unat (add26 h m (hibit26 fin) ! 0) < 2 ^ 27" "unat (add26 h m (hibit26 fin) ! 1) < 2 ^ 27 + 2 ^ 6"
    and "unat (add26 h m (hibit26 fin) ! 2) < 2 ^ 27" "unat (add26 h m (hibit26 fin) ! 3) < 2 ^ 27"
    and "unat (add26 h m (hibit26 fin) ! 4) < 2 ^ 26 + 2 ^ 25"
proof -
  define M where "M = le_nat (take 16 m)"
  obtain M0 M1 M2 M3 M4 where M:
    "M0 = M mod 2 ^ 26" "M1 = M div 2 ^ 26 mod 2 ^ 26" "M2 = M div 2 ^ 52 mod 2 ^ 26"
    "M3 = M div 2 ^ 78 mod 2 ^ 26" "M4 = M div 2 ^ 104" by blast
  have sum: "M = M0 + 2 ^ 26 * M1 + 2 ^ 52 * M2 + 2 ^ 78 * M3 + 2 ^ 104 * M4"
    unfolding M by (rule split5)
  have "M < 2 ^ 128" using le_nat_bound [of "take 16 m"] assms by (simp add: M_def)
  then have lt: "M0 < 2 ^ 26" "M1 < 2 ^ 26" "M2 < 2 ^ 26" "M3 < 2 ^ 26" "M4 < 2 ^ 24"
    by (simp_all add: M less_mult_imp_div_less)
  have "unat (drop_bit 8 (u8to32 m 12)) = M4"
    using limb26_top [OF assms(2)] by (simp add: M M_def)
  then have m4: "unat (drop_bit 8 (u8to32 m 12) OR hibit26 fin) = M4 + hb" "hb \<le> 2 ^ 24"
    using assms(3) unat_or_push_bit [of "drop_bit 8 (u8to32 m 12)" 24 1] lt(5) by (auto simp: hibit26_def)
  have m0: "unat (u8to32 m 0 AND 0x3ffffff) = M0"
    using limb26 [OF assms(2), of 0 0] by (simp add: M M_def)
  have m1: "unat (drop_bit 2 (u8to32 m 3) AND 0x3ffffff) = M1"
    using limb26 [OF assms(2), of 3 2] by (simp add: M M_def)
  have m2: "unat (drop_bit 4 (u8to32 m 6) AND 0x3ffffff) = M2"
    using limb26 [OF assms(2), of 6 4] by (simp add: M M_def)
  have m3: "unat (drop_bit 6 (u8to32 m 9) AND 0x3ffffff) = M3"
    using limb26 [OF assms(2), of 9 6] by (simp add: M M_def)
  have h: "length h = 5" "unat (h ! 0) < 2 ^ 26" "unat (h ! 1) < 2 ^ 26 + 2 ^ 6" "unat (h ! 2) < 2 ^ 26"
    "unat (h ! 3) < 2 ^ 26" "unat (h ! 4) < 2 ^ 26"
    using assms(1) by (auto simp: ok26_def)
  have a0: "unat (add26 h m (hibit26 fin) ! 0) = unat (h ! 0) + M0"
    using h(2) lt(1) by (simp add: add26_def unat_add_small m0)
  have a1: "unat (add26 h m (hibit26 fin) ! 1) = unat (h ! 1) + M1"
    using h(3) lt(2) by (simp add: add26_def unat_add_small m1)
  have a2: "unat (add26 h m (hibit26 fin) ! 2) = unat (h ! 2) + M2"
    using h(4) lt(3) by (simp add: add26_def unat_add_small m2)
  have a3: "unat (add26 h m (hibit26 fin) ! 3) = unat (h ! 3) + M3"
    using h(5) lt(4) by (simp add: add26_def unat_add_small m3)
  have a4: "unat (add26 h m (hibit26 fin) ! 4) = unat (h ! 4) + (M4 + hb)"
    using h(6) lt(5) m4 by (simp add: add26_def unat_add_small)
  have "length (add26 h m (hibit26 fin)) = 5" by (simp add: add26_def)
  then show "val26 (map unat (add26 h m (hibit26 fin))) = val26 (map unat h) + le_nat (take 16 m) + 2 ^ 104 * hb"
    using sum h(1) by (simp add: val26_def a0 a1 a2 a3 a4 M_def del: One_nat_def)
  show "unat (add26 h m (hibit26 fin) ! 0) < 2 ^ 27" using a0 h(2) lt(1) by simp
  show "unat (add26 h m (hibit26 fin) ! 1) < 2 ^ 27 + 2 ^ 6" using a1 h(3) lt(2) by simp
  show "unat (add26 h m (hibit26 fin) ! 2) < 2 ^ 27" using a2 h(4) lt(3) by simp
  show "unat (add26 h m (hibit26 fin) ! 3) < 2 ^ 27" using a3 h(5) lt(4) by simp
  show "unat (add26 h m (hibit26 fin) ! 4) < 2 ^ 26 + 2 ^ 25" using a4 h(6) lt(5) m4(2) by simp
qed

lemma wrap26:
  "(h0 + 2^26*h1 + 2^52*h2 + 2^78*h3 + 2^104*h4) * (r0 + 2^26*r1 + 2^52*r2 + 2^78*r3 + 2^104*r4)
   = (h0*r0 + h1*(5*r4) + h2*(5*r3) + h3*(5*r2) + h4*(5*r1))
   + 2^26 * (h0*r1 + h1*r0 + h2*(5*r4) + h3*(5*r3) + h4*(5*r2))
   + 2^52 * (h0*r2 + h1*r1 + h2*r0 + h3*(5*r4) + h4*(5*r3))
   + 2^78 * (h0*r3 + h1*r2 + h2*r1 + h3*r0 + h4*(5*r4))
   + 2^104 * (h0*r4 + h1*r3 + h2*r2 + h3*r1 + h4*r0)
   + (2^130 - 5) * ((h1*r4 + h2*r3 + h3*r2 + h4*r1) + 2^26*(h2*r4 + h3*r3 + h4*r2)
       + 2^52*(h3*r4 + h4*r3) + 2^78*(h4*r4))" for h0 h1 h2 h3 h4 r0 r1 r2 r3 r4 :: nat
  by (simp add: algebra_simps)

lemma mul26_nat:
  assumes h: "unat (h ! 0) < 2 ^ 27" "unat (h ! 1) < 2 ^ 27 + 2 ^ 6" "unat (h ! 2) < 2 ^ 27"
      "unat (h ! 3) < 2 ^ 27" "unat (h ! 4) < 2 ^ 26 + 2 ^ 25"
    and r: "ok26r r" and len: "length h = 5"
  shows "val26 (map unat (mul26 h r)) mod p1305 = val26 (map unat h) * val26 (map unat r) mod p1305"
    and "unat (mul26 h r ! 0) < 2 ^ 57" "unat (mul26 h r ! 1) < 2 ^ 57"
    and "unat (mul26 h r ! 2) < 2 ^ 57" "unat (mul26 h r ! 3) < 2 ^ 57"
    and "unat (mul26 h r ! 4) < 2 ^ 55"
proof -
  obtain h0 h1 h2 h3 h4 where H: "h0 = unat (h ! 0)" "h1 = unat (h ! 1)" "h2 = unat (h ! 2)"
    "h3 = unat (h ! 3)" "h4 = unat (h ! 4)" by blast
  obtain r0 r1 r2 r3 r4 where R: "r0 = unat (r ! 0)" "r1 = unat (r ! 1)" "r2 = unat (r ! 2)"
    "r3 = unat (r ! 3)" "r4 = unat (r ! 4)" by blast
  have rb: "r0 \<le> 67108863" "r1 \<le> 67108863" "r2 \<le> 67108863" "r3 \<le> 67108863" "r4 \<le> 1048575"
    using r by (auto simp: ok26r_def R)
  have hb: "h0 \<le> 134217727" "h1 \<le> 134217791" "h2 \<le> 134217727" "h3 \<le> 134217727" "h4 \<le> 100663295"
    using h by (auto simp: H)
  have s: "unat (r ! 1 * 5) = 5 * r1" "unat (r ! 2 * 5) = 5 * r2" "unat (r ! 3 * 5) = 5 * r3"
    "unat (r ! 4 * 5) = 5 * r4"
    using rb by (simp_all add: R unat_mult_small)
  note p = mult_le_mono [OF hb(1) rb(1)] mult_le_mono [OF hb(1) rb(2)] mult_le_mono [OF hb(1) rb(3)]
    mult_le_mono [OF hb(1) rb(4)] mult_le_mono [OF hb(1) rb(5)]
    mult_le_mono [OF hb(2) rb(1)] mult_le_mono [OF hb(2) rb(2)] mult_le_mono [OF hb(2) rb(3)]
    mult_le_mono [OF hb(2) rb(4)] mult_le_mono [OF hb(2) rb(5)]
    mult_le_mono [OF hb(3) rb(1)] mult_le_mono [OF hb(3) rb(2)] mult_le_mono [OF hb(3) rb(3)]
    mult_le_mono [OF hb(3) rb(4)] mult_le_mono [OF hb(3) rb(5)]
    mult_le_mono [OF hb(4) rb(1)] mult_le_mono [OF hb(4) rb(2)] mult_le_mono [OF hb(4) rb(3)]
    mult_le_mono [OF hb(4) rb(4)] mult_le_mono [OF hb(4) rb(5)]
    mult_le_mono [OF hb(5) rb(1)] mult_le_mono [OF hb(5) rb(2)] mult_le_mono [OF hb(5) rb(3)]
    mult_le_mono [OF hb(5) rb(4)] mult_le_mono [OF hb(5) rb(5)]
  have b0: "h0*r0 + h1*(5*r4) + h2*(5*r3) + h3*(5*r2) + h4*(5*r1) < 2 ^ 57"
    using p by simp
  have b1: "h0*r1 + h1*r0 + h2*(5*r4) + h3*(5*r3) + h4*(5*r2) < 2 ^ 57"
    using p by simp
  have b2: "h0*r2 + h1*r1 + h2*r0 + h3*(5*r4) + h4*(5*r3) < 2 ^ 57"
    using p by simp
  have b3: "h0*r3 + h1*r2 + h2*r1 + h3*r0 + h4*(5*r4) < 2 ^ 57"
    using p by simp
  have b4: "h0*r4 + h1*r3 + h2*r2 + h3*r1 + h4*r0 < 2 ^ 55"
    using p by simp
  have d: "unat (mul26 h r ! 0) = h0*r0 + h1*(5*r4) + h2*(5*r3) + h3*(5*r2) + h4*(5*r1)"
    "unat (mul26 h r ! 1) = h0*r1 + h1*r0 + h2*(5*r4) + h3*(5*r3) + h4*(5*r2)"
    "unat (mul26 h r ! 2) = h0*r2 + h1*r1 + h2*r0 + h3*(5*r4) + h4*(5*r3)"
    "unat (mul26 h r ! 3) = h0*r3 + h1*r2 + h2*r1 + h3*r0 + h4*(5*r4)"
    "unat (mul26 h r ! 4) = h0*r4 + h1*r3 + h2*r2 + h3*r1 + h4*r0"
    using b0 b1 b2 b3 b4 by (simp_all add: mul26_def Let_def dot5 s H [symmetric] R [symmetric] del: One_nat_def)
  show "unat (mul26 h r ! 0) < 2 ^ 57" "unat (mul26 h r ! 1) < 2 ^ 57" "unat (mul26 h r ! 2) < 2 ^ 57"
    "unat (mul26 h r ! 3) < 2 ^ 57" "unat (mul26 h r ! 4) < 2 ^ 55"
    by (simp_all only: b0 b1 b2 b3 b4 d)
  have "length (mul26 h r) = 5" by (simp add: mul26_def Let_def)
  then have "val26 (map unat h) * val26 (map unat r) =
     val26 (map unat (mul26 h r)) + p1305 * ((h1*r4 + h2*r3 + h3*r2 + h4*r1) + 2^26*(h2*r4 + h3*r3 + h4*r2)
       + 2^52*(h3*r4 + h4*r3) + 2^78*(h4*r4))"
    using len r wrap26 [of h0 h1 h2 h3 h4 r0 r1 r2 r3 r4]
    by (simp only: val26_def p1305_def d H R length_map nth_map ok26r_def)
  then show "val26 (map unat (mul26 h r)) mod p1305 = val26 (map unat h) * val26 (map unat r) mod p1305"
    by simp
qed


lemma carry5_arith:
  fixes D0 :: nat
  assumes "D0 = m0 + 2 ^ 26 * q0" "D1 + q0 = m1 + 2 ^ 26 * q1" "D2 + q1 = m2 + 2 ^ 26 * q2"
    "D3 + q2 = m3 + 2 ^ 26 * q3" "D4 + q3 = m4 + 2 ^ 26 * q4" "m0 + q4 * 5 = f0 + 2 ^ 26 * f1"
  shows "D0 + 2 ^ 26 * D1 + 2 ^ 52 * D2 + 2 ^ 78 * D3 + 2 ^ 104 * D4 =
    f0 + 2 ^ 26 * (m1 + f1) + 2 ^ 52 * m2 + 2 ^ 78 * m3 + 2 ^ 104 * m4 + (2 ^ 130 - 5) * q4"
  using assms by simp

lemma carry26_nat:
  assumes d: "unat (d ! 0) < 2 ^ 57" "unat (d ! 1) < 2 ^ 57" "unat (d ! 2) < 2 ^ 57"
      "unat (d ! 3) < 2 ^ 57" "unat (d ! 4) < 2 ^ 55"
    and len: "length d = 5"
  shows "ok26 (carry26 d)"
    and "val26 (map unat (carry26 d)) mod p1305 = val26 (map unat d) mod p1305"
proof -
  define e0 where "e0 = d ! 0"
  define e1 where "e1 = d ! 1 + ucast (fst (split26 e0))"
  define e2 where "e2 = d ! 2 + ucast (fst (split26 e1))"
  define e3 where "e3 = d ! 3 + ucast (fst (split26 e2))"
  define e4 where "e4 = d ! 4 + ucast (fst (split26 e3))"
  define f where "f = snd (split26 e0) + fst (split26 e4) * 5"
  have eq: "carry26 d = [f AND 0x3ffffff, snd (split26 e1) + drop_bit 26 f,
      snd (split26 e2), snd (split26 e3), snd (split26 e4)]"
    by (simp add: carry26_def Let_def split_beta e0_def e1_def e2_def e3_def e4_def f_def)
  have step: "unat (x + ucast (fst (split26 y))) = unat x + unat y div 2 ^ 26"
    if "unat x < 2 ^ 57" "unat y < 2 ^ 58" for x :: u64 and y
  proof -
    have q: "unat y div 2 ^ 26 < 2 ^ 32" using that(2) by (simp add: less_mult_imp_div_less)
    have "unat (ucast (fst (split26 y)) :: u64) = unat y div 2 ^ 26"
      using split26_nat(1) [OF that(2)] q by (simp add: unat_ucast_small)
    with that(1) q show ?thesis by (subst unat_add_small) simp_all
  qed
  obtain D0 D1 D2 D3 D4 where D: "D0 = unat (d ! 0)" "D1 = unat (d ! 1)" "D2 = unat (d ! 2)"
    "D3 = unat (d ! 3)" "D4 = unat (d ! 4)" by blast
  obtain E1 E2 E3 E4 where E: "E1 = D1 + D0 div 2 ^ 26" "E2 = D2 + E1 div 2 ^ 26"
    "E3 = D3 + E2 div 2 ^ 26" "E4 = D4 + E3 div 2 ^ 26" by blast
  have lt: "D0 < 2 ^ 58" "E1 < 2 ^ 58" "E2 < 2 ^ 58" "E3 < 2 ^ 58" "E4 < 2 ^ 55 + 2 ^ 33"
    using d by (simp_all add: D E)
  have u0: "unat e0 = D0" by (simp add: e0_def D)
  have u1: "unat e1 = E1" using step [of "d ! 1" e0] d(2) lt(1) u0 by (simp add: e1_def E D)
  have u2: "unat e2 = E2" using step [of "d ! 2" e1] d(3) lt(2) u1 by (simp add: e2_def E D)
  have u3: "unat e3 = E3" using step [of "d ! 3" e2] d(4) lt(3) u2 by (simp add: e3_def E D)
  have u4: "unat e4 = E4" using step [of "d ! 4" e3] d(5) lt(4) u3 by (simp add: e4_def E D)
  obtain F where F: "F = D0 mod 2 ^ 26 + E4 div 2 ^ 26 * 5" by blast
  have E4q: "E4 div 2 ^ 26 < 2 ^ 29 + 2 ^ 7"
    using lt(5) by (simp add: less_mult_imp_div_less)
  have m0: "D0 mod 2 ^ 26 < 2 ^ 26" by simp
  have Flt: "F < 2 ^ 32" using E4q m0 unfolding F by simp
  have Fq: "F div 2 ^ 26 < 2 ^ 6"
    using E4q m0 unfolding F by (simp add: less_mult_imp_div_less)
  have s4: "unat (fst (split26 e4)) = E4 div 2 ^ 26" "unat (snd (split26 e4)) = E4 mod 2 ^ 26"
    using split26_nat [of e4] lt(5) by (simp_all add: u4)
  have s0: "unat (snd (split26 e0)) = D0 mod 2 ^ 26"
    using split26_nat(2) [of e0] lt(1) by (simp add: u0)
  have uf: "unat f = F"
  proof -
    have "unat (fst (split26 e4) * 5) = E4 div 2 ^ 26 * 5"
      using E4q s4 by (simp add: unat_mult_small)
    then show ?thesis using Flt unfolding f_def F by (simp add: unat_add_small s0)
  qed
  have s1: "unat (snd (split26 e1)) = E1 mod 2 ^ 26" using split26_nat(2) [of e1] lt(2) by (simp add: u1)
  have h1: "unat (snd (split26 e1) + drop_bit 26 f) = E1 mod 2 ^ 26 + F div 2 ^ 26"
    using Fq s1 by (simp add: unat_add_small unat_drop_bit_div uf)
  have vals: "map unat (carry26 d) = [F mod 2 ^ 26, E1 mod 2 ^ 26 + F div 2 ^ 26,
      E2 mod 2 ^ 26, E3 mod 2 ^ 26, E4 mod 2 ^ 26]"
    using split26_nat(2) [of e2] split26_nat(2) [of e3] lt h1 s4(2)
    by (simp add: eq unat_and26 uf u2 u3)
  show "ok26 (carry26 d)"
  proof -
    have "length (carry26 d) = 5" by (simp add: eq)
    moreover have "unat (carry26 d ! i) = map unat (carry26 d) ! i" if "i < 5" for i
      using that calculation by simp
    ultimately show ?thesis
      using Fq by (simp add: ok26_def vals)
  qed
  have dm: "x = x mod 2 ^ 26 + 2 ^ 26 * (x div 2 ^ 26)" for x :: nat by simp
  have "val26 (map unat d) = D0 + 2 ^ 26 * D1 + 2 ^ 52 * D2 + 2 ^ 78 * D3 + 2 ^ 104 * D4"
    using len by (simp add: val26_def D del: One_nat_def)
  also have "\<dots> = F mod 2 ^ 26 + 2 ^ 26 * (E1 mod 2 ^ 26 + F div 2 ^ 26) + 2 ^ 52 * (E2 mod 2 ^ 26)
      + 2 ^ 78 * (E3 mod 2 ^ 26) + 2 ^ 104 * (E4 mod 2 ^ 26) + (2 ^ 130 - 5) * (E4 div 2 ^ 26)"
    by (rule carry5_arith [OF dm trans [OF E(1) [symmetric] dm] trans [OF E(2) [symmetric] dm]
          trans [OF E(3) [symmetric] dm] trans [OF E(4) [symmetric] dm] trans [OF F [symmetric] dm]])
  also have "\<dots> = val26 (map unat (carry26 d)) + p1305 * (E4 div 2 ^ 26)"
    by (simp add: val26_def p1305_def vals)
  finally show "val26 (map unat (carry26 d)) mod p1305 = val26 (map unat d) mod p1305" by simp
qed

lemma length_add26 [simp]: "length (add26 h m hibit) = 5"
  by (simp add: add26_def)

lemma length_mul26 [simp]: "length (mul26 h r) = 5"
  by (simp add: mul26_def Let_def)

lemma block26_nat:
  assumes "ok26 h" "ok26r r" "16 \<le> length m"
    "hb = (if fin then 0 else 2 ^ 24)"
  shows "ok26 (carry26 (mul26 (add26 h m (hibit26 fin)) r))"
    and "val26 (map unat (carry26 (mul26 (add26 h m (hibit26 fin)) r))) mod p1305 =
         (val26 (map unat h) + (le_nat (take 16 m) + 2 ^ 104 * hb)) * val26 (map unat r) mod p1305"
proof -
  note a = add26_nat [OF assms(1,3,4)]
  note m = mul26_nat [OF a(2-6) assms(2) length_add26]
  note c = carry26_nat [OF m(2-6) length_mul26]
  show "ok26 (carry26 (mul26 (add26 h m (hibit26 fin)) r))" by (rule c(1))
  show "val26 (map unat (carry26 (mul26 (add26 h m (hibit26 fin)) r))) mod p1305 =
         (val26 (map unat h) + (le_nat (take 16 m) + 2 ^ 104 * hb)) * val26 (map unat r) mod p1305"
    by (simp only: c(2) m(1) a(1) add.assoc)
qed

lemma blocks26_ok:
  assumes "ok26r r" "ok26 h" "length m = 16 * k"
  shows "ok26 (blocks26 (hibit26 fin) r h m)"
  using assms(2,3)
proof (induction k arbitrary: h m)
  case 0
  then show ?case by (simp add: blocks26.simps)
next
  case (Suc k)
  have "ok26 (carry26 (mul26 (add26 h m (hibit26 fin)) r))"
    using block26_nat(1) [OF Suc.prems(1) assms(1) _ refl] Suc.prems(2) by simp
  with Suc show ?case by (simp add: blocks26.simps [of _ r h m])
qed

lemma blocks26_horner:
  assumes "ok26r r" "ok26 h" "length m = 16 * k"
  shows "val26 (map unat (blocks26 (hibit26 False) r h m)) mod p1305
         = horner (val26 (map unat r)) (val26 (map unat h)) m mod p1305"
  using assms(2,3)
proof (induction k arbitrary: h m)
  case 0
  then show ?case by (simp add: blocks26.simps)
next
  case (Suc k)
  let ?h = "carry26 (mul26 (add26 h m (hibit26 False)) r)" and ?r = "val26 (map unat r)"
  have m: "16 \<le> length m" "m \<noteq> []" "length (drop 16 m) = 16 * k" using Suc.prems(2) by auto
  have step: "ok26 ?h" "val26 (map unat ?h) mod p1305
      = (val26 (map unat h) + block_nat (take 16 m)) * ?r mod p1305"
    using block26_nat [OF Suc.prems(1) assms(1) m(1) refl, of False] m(1)
    by (simp_all add: block_nat_def)
  have "val26 (map unat (blocks26 (hibit26 False) r h m)) mod p1305
      = horner ?r (val26 (map unat ?h)) (drop 16 m) mod p1305"
    using Suc.IH [OF step(1) m(3)] m(1) by (simp add: blocks26.simps [of _ r h m])
  also have "\<dots> = horner ?r ((val26 (map unat h) + block_nat (take 16 m)) * ?r mod p1305) (drop 16 m) mod p1305"
    by (rule horner_cong) (simp add: step(2))
  also have "\<dots> = horner ?r (val26 (map unat h)) m mod p1305"
    using m(2) by (simp add: horner.simps [of ?r _ m])
  finally show ?case .
qed

lemma blocks26_final:
  assumes "ok26r r" "ok26 h" "length m = 16"
  shows "val26 (map unat (blocks26 (hibit26 True) r h m)) mod p1305
         = (val26 (map unat h) + le_nat m) * val26 (map unat r) mod p1305"
  using block26_nat(2) [OF assms(2,1) _ refl, of m True] assms(3)
  by (simp add: blocks26.simps [of _ r h m] blocks26.simps [of _ r _ "[]"])

interpretation p26: poly_absorb poly1305_blocks "\<lambda>st. ok26 (ph st) \<and> ok26r (pr st)"
  "\<lambda>st. val26 (map unat (pr st))" "\<lambda>st. val26 (map unat (ph st))"
  by unfold_locales
     (auto simp: poly1305_blocks_def blocks26_horner blocks26_final intro!: blocks26_ok)

section \<open>Key\<close>

lemma unat_limb_and:
  assumes "16 \<le> length key" "i + 4 \<le> 16" "n + 26 \<le> 32" "unat (c :: u32) < 2 ^ 26"
  shows "unat (drop_bit n (u8to32 key i) AND c) =
    (le_nat (take 16 key) div 2 ^ (8 * i + n) mod 2 ^ 26) AND unat c"
  unfolding limb_extract [OF assms(3), symmetric] and_mod_nat(1) [OF assms(4)]
  by (simp only: unat_and_nat unat_drop_bit_div u8to32_at [OF assms(1,2)])

lemma poly1305_init_ok:
  assumes "length key = 32"
  shows "ok26r (pr (poly1305_init st key))"
    and "val26 (map unat (pr (poly1305_init st key))) = clamp (le_nat (take 16 key))"
proof -
  define K where "K = le_nat (take 16 key)"
  have len: "16 \<le> length key" using assms by simp
  have K: "K < 2 ^ 128" using le_nat_bound [of "take 16 key"] assms by (simp add: K_def)
  have r0: "unat (u8to32 key 0 AND 0x3ffffff) = clamp K mod 2 ^ 26"
    using unat_limb_and [OF len, of 0 0 "0x3ffffff"] nat_and_limb(1) [of K "0x0ffffffc0ffffffc0ffffffc0fffffff" 0 26]
    by (simp add: clamp_def K_def)
  have r1: "unat (drop_bit 2 (u8to32 key 3) AND 0x3ffff03) = clamp K div 2 ^ 26 mod 2 ^ 26"
    using unat_limb_and [OF len, of 3 2 "0x3ffff03"] nat_and_limb(1) [of K "0x0ffffffc0ffffffc0ffffffc0fffffff" 26 26]
    by (simp add: clamp_def K_def)
  have r2: "unat (drop_bit 4 (u8to32 key 6) AND 0x3ffc0ff) = clamp K div 2 ^ 52 mod 2 ^ 26"
    using unat_limb_and [OF len, of 6 4 "0x3ffc0ff"] nat_and_limb(1) [of K "0x0ffffffc0ffffffc0ffffffc0fffffff" 52 26]
    by (simp add: clamp_def K_def)
  have r3: "unat (drop_bit 6 (u8to32 key 9) AND 0x3f03fff) = clamp K div 2 ^ 78 mod 2 ^ 26"
    using unat_limb_and [OF len, of 9 6 "0x3f03fff"] nat_and_limb(1) [of K "0x0ffffffc0ffffffc0ffffffc0fffffff" 78 26]
    by (simp add: clamp_def K_def)
  have r4: "unat (drop_bit 8 (u8to32 key 12) AND 0x00fffff) = clamp K div 2 ^ 104"
    using limb26_top [OF len] nat_and_limb(2) [of K "0x0ffffffc0ffffffc0ffffffc0fffffff" 104]
    by (simp add: clamp_def K_def unat_and_nat)
  have "clamp K div 2 ^ 104 < 2 ^ 20"
    using and_mod_nat(2) [of "0x00fffff" 20 "K div 2 ^ 104"]
      nat_and_limb(2) [of K "0x0ffffffc0ffffffc0ffffffc0fffffff" 104] by (simp add: clamp_def)
  then show "ok26r (pr (poly1305_init st key))"
    by (simp add: ok26r_def poly1305_init_def r0 r1 r2 r3 r4 numeral_2_eq_2 [symmetric])
  show "val26 (map unat (pr (poly1305_init st key))) = clamp (le_nat (take 16 key))"
    using split5 [of "clamp K"]
    by (simp add: val26_def poly1305_init_def r0 r1 r2 r3 r4 K_def [symmetric])
qed

section \<open>The final reduction\<close>

definition red26 :: "u32 list \<Rightarrow> bool" where
  "red26 h \<longleftrightarrow> length h = 5 \<and> (\<forall>i<5. unat (h ! i) < 2 ^ 26)"

lemma red26_iff:
  "red26 h \<longleftrightarrow> length h = 5 \<and> unat (h ! 0) < 2 ^ 26 \<and> unat (h ! 1) < 2 ^ 26
     \<and> unat (h ! 2) < 2 ^ 26 \<and> unat (h ! 3) < 2 ^ 26 \<and> unat (h ! 4) < 2 ^ 26"
proof -
  have "(\<forall>i<5. P i) \<longleftrightarrow> P 0 \<and> P 1 \<and> P 2 \<and> P 3 \<and> P (4 :: nat)" for P
    by (auto simp: less_Suc_eq numeral_eq_Suc)
  then show ?thesis by (simp only: red26_def)
qed

lemma carry_step26:
  fixes x c :: u32
  assumes "unat x < 2 ^ 31" "unat c \<le> 64"
  shows "unat (drop_bit 26 (x + c)) = (unat x + unat c) div 2 ^ 26"
    and "unat ((x + c) AND 0x3ffffff) = (unat x + unat c) mod 2 ^ 26"
proof -
  have "unat (x + c) = unat x + unat c" using assms by (intro unat_add_small) simp
  then show "unat (drop_bit 26 (x + c)) = (unat x + unat c) div 2 ^ 26"
    "unat ((x + c) AND 0x3ffffff) = (unat x + unat c) mod 2 ^ 26"
    by (simp_all only: unat_drop_bit_div unat_and26)
qed

lemma carry5_final_arith:
  fixes H0 :: nat
  assumes "H1 = m1 + 2 ^ 26 * c1" "H2 + c1 = m2 + 2 ^ 26 * c2" "H3 + c2 = m3 + 2 ^ 26 * c3"
    "H4 + c3 = m4 + 2 ^ 26 * c4" "H0 + c4 * 5 = m0 + 2 ^ 26 * c0"
  shows "H0 + 2 ^ 26 * H1 + 2 ^ 52 * H2 + 2 ^ 78 * H3 + 2 ^ 104 * H4 =
    m0 + 2 ^ 26 * (m1 + c0) + 2 ^ 52 * m2 + 2 ^ 78 * m3 + 2 ^ 104 * m4 + (2 ^ 130 - 5) * c4"
  using assms by simp

lemma carry26_final_nat:
  assumes "ok26 h"
  shows "red26 (carry26_final h)"
    and "val26 (map unat (carry26_final h)) mod p1305 = val26 (map unat h) mod p1305"
proof -
  have "length h = 5" using assms by (simp add: ok26_def)
  then obtain h0 h1 h2 h3 h4 where H: "h = [h0, h1, h2, h3, h4]" by (rule list5E)
  obtain H0 H1 H2 H3 H4 where U: "H0 = unat h0" "H1 = unat h1" "H2 = unat h2" "H3 = unat h3" "H4 = unat h4"
    by blast
  have lt: "H0 < 2 ^ 26" "H1 < 2 ^ 26 + 2 ^ 6" "H2 < 2 ^ 26" "H3 < 2 ^ 26" "H4 < 2 ^ 26"
    using assms by (simp_all add: ok26_def H U)
  obtain c1 c2 c3 c4 c0 :: nat where c: "c1 = H1 div 2 ^ 26" "c2 = (H2 + c1) div 2 ^ 26"
    "c3 = (H3 + c2) div 2 ^ 26" "c4 = (H4 + c3) div 2 ^ 26" "c0 = (H0 + c4 * 5) div 2 ^ 26" by blast
  have cb: "c1 \<le> 1" "c2 \<le> 1" "c3 \<le> 1" "c4 \<le> 1" "c0 \<le> 1"
    using lt by (simp_all add: c)
  let ?w1 = "drop_bit 26 h1"
  let ?w2 = "drop_bit 26 (h2 + ?w1)"
  let ?w3 = "drop_bit 26 (h3 + ?w2)"
  let ?w4 = "drop_bit 26 (h4 + ?w3)"
  let ?w0 = "drop_bit 26 (h0 + ?w4 * 5)"
  have eq: "carry26_final h = [(h0 + ?w4 * 5) AND 0x3ffffff, (h1 AND 0x3ffffff) + ?w0,
      (h2 + ?w1) AND 0x3ffffff, (h3 + ?w2) AND 0x3ffffff, (h4 + ?w3) AND 0x3ffffff]"
    by (simp add: carry26_final_def H Let_def)
  have w1: "unat ?w1 = c1" by (simp add: unat_drop_bit_div c U)
  have w2: "unat ?w2 = c2" "unat ((h2 + ?w1) AND 0x3ffffff) = (H2 + c1) mod 2 ^ 26"
    using carry_step26 [of h2 ?w1] lt(3) cb(1) by (simp_all add: w1 c U)
  have w3: "unat ?w3 = c3" "unat ((h3 + ?w2) AND 0x3ffffff) = (H3 + c2) mod 2 ^ 26"
    using carry_step26 [of h3 ?w2] lt(4) cb(2) by (simp_all add: w2(1)) (simp_all add: c U)
  have w4: "unat ?w4 = c4" "unat ((h4 + ?w3) AND 0x3ffffff) = (H4 + c3) mod 2 ^ 26"
    using carry_step26 [of h4 ?w3] lt(5) cb(3) by (simp_all add: w3(1)) (simp_all add: c U)
  have w0: "unat ?w0 = c0" "unat ((h0 + ?w4 * 5) AND 0x3ffffff) = (H0 + c4 * 5) mod 2 ^ 26"
  proof -
    have "unat (?w4 * 5) = c4 * 5"
      using cb(4) by (simp add: unat_mult_small w4(1))
    then show "unat ?w0 = c0" "unat ((h0 + ?w4 * 5) AND 0x3ffffff) = (H0 + c4 * 5) mod 2 ^ 26"
      using carry_step26 [of h0 "?w4 * 5"] lt(1) cb(4) by (simp_all add: c(5) U)
  qed
  have top: "H1 mod 2 ^ 26 + c0 < 2 ^ 26"
  proof (cases "c0 = 0")
    case False
    then have "2 ^ 26 \<le> H0 + c4 * 5" by (simp add: c(5) div_eq_0_iff)
    then have "c4 \<noteq> 0" using lt(1) by auto
    then have "2 ^ 26 \<le> H4 + c3" by (simp add: c(4) div_eq_0_iff)
    then have "c3 \<noteq> 0" using lt(5) by auto
    then have "2 ^ 26 \<le> H3 + c2" by (simp add: c(3) div_eq_0_iff)
    then have "c2 \<noteq> 0" using lt(4) by auto
    then have "2 ^ 26 \<le> H2 + c1" by (simp add: c(2) div_eq_0_iff)
    then have "c1 \<noteq> 0" using lt(3) by auto
    then have "2 ^ 26 \<le> H1" by (simp add: c(1) div_eq_0_iff)
    with lt(2) have "H1 mod 2 ^ 26 < 64" by (simp add: le_mod_geq)
    with cb(5) show ?thesis by simp
  qed simp
  have m1: "unat ((h1 AND 0x3ffffff) + ?w0) = H1 mod 2 ^ 26 + c0"
    using top by (subst unat_add_small) (simp_all add: unat_and26 w0(1) U)
  have vals: "map unat (carry26_final h) = [(H0 + c4 * 5) mod 2 ^ 26, H1 mod 2 ^ 26 + c0,
      (H2 + c1) mod 2 ^ 26, (H3 + c2) mod 2 ^ 26, (H4 + c3) mod 2 ^ 26]"
    by (simp only: eq list.map m1 w0(2) w2(2) w3(2) w4(2))
  have len: "length (carry26_final h) = 5" by (simp add: eq)
  show "red26 (carry26_final h)"
  proof -
    have "list_all (\<lambda>x. x < 2 ^ 26) (map unat (carry26_final h))"
      unfolding vals using top by simp
    then show ?thesis using len by (simp add: red26_def list_all_length)
  qed
  have dm: "x = x mod 2 ^ 26 + 2 ^ 26 * (x div 2 ^ 26)" for x :: nat by simp
  have "val26 (map unat h) = H0 + 2 ^ 26 * H1 + 2 ^ 52 * H2 + 2 ^ 78 * H3 + 2 ^ 104 * H4"
    by (simp add: val26_def H U)
  also have "\<dots> = (H0 + c4 * 5) mod 2 ^ 26 + 2 ^ 26 * (H1 mod 2 ^ 26 + c0) + 2 ^ 52 * ((H2 + c1) mod 2 ^ 26)
      + 2 ^ 78 * ((H3 + c2) mod 2 ^ 26) + 2 ^ 104 * ((H4 + c3) mod 2 ^ 26) + (2 ^ 130 - 5) * c4"
    unfolding c by (rule carry5_final_arith; rule dm)
  also have "\<dots> = val26 (map unat (carry26_final h)) + p1305 * c4"
    by (simp add: val26_def p1305_def vals)
  finally show "val26 (map unat (carry26_final h)) mod p1305 = val26 (map unat h) mod p1305" by simp
qed

lemma plus5_step26:
  fixes x :: u32
  assumes "unat x < 2 ^ 26" "unat c \<le> 5"
  shows "unat (drop_bit 26 (x + c)) = (unat x + unat c) div 2 ^ 26"
    and "unat ((x + c) AND 0x3ffffff) = (unat x + unat c) mod 2 ^ 26"
  using carry_step26 [of x c] assms by simp_all

lemma plus5_arith:
  fixes H0 :: nat
  assumes "H0 + 5 = m0 + 2 ^ 26 * c0" "H1 + c0 = m1 + 2 ^ 26 * c1" "H2 + c1 = m2 + 2 ^ 26 * c2"
    "H3 + c2 = m3 + 2 ^ 26 * c3"
  shows "H0 + 2 ^ 26 * H1 + 2 ^ 52 * H2 + 2 ^ 78 * H3 + 2 ^ 104 * H4 + 5 =
    m0 + 2 ^ 26 * m1 + 2 ^ 52 * m2 + 2 ^ 78 * m3 + 2 ^ 104 * (H4 + c3)"
  using assms by simp

lemma plus5_26_nat:
  assumes "red26 h"
  shows "\<exists>m0 m1 m2 m3 m4. val26 (map unat h) + 5 = val26 [m0, m1, m2, m3, m4]
    \<and> m0 < 2 ^ 26 \<and> m1 < 2 ^ 26 \<and> m2 < 2 ^ 26 \<and> m3 < 2 ^ 26 \<and> m4 \<le> 2 ^ 26
    \<and> map unat (take 4 (plus5_26 h)) = [m0, m1, m2, m3] \<and> length (plus5_26 h) = 5
    \<and> plus5_26 h ! 4 = word_of_nat m4 - push_bit 26 1"
proof -
  have "length h = 5" using assms by (simp add: red26_def)
  then obtain h0 h1 h2 h3 h4 where H: "h = [h0, h1, h2, h3, h4]" by (rule list5E)
  obtain H0 H1 H2 H3 H4 where U: "H0 = unat h0" "H1 = unat h1" "H2 = unat h2" "H3 = unat h3" "H4 = unat h4"
    by blast
  have lt: "H0 < 2 ^ 26" "H1 < 2 ^ 26" "H2 < 2 ^ 26" "H3 < 2 ^ 26" "H4 < 2 ^ 26"
    using assms by (simp_all add: red26_iff H U)
  obtain c0 c1 c2 c3 :: nat where c: "c0 = (H0 + 5) div 2 ^ 26" "c1 = (H1 + c0) div 2 ^ 26"
    "c2 = (H2 + c1) div 2 ^ 26" "c3 = (H3 + c2) div 2 ^ 26" by blast
  have cb: "c0 \<le> 1" "c1 \<le> 1" "c2 \<le> 1" "c3 \<le> 1"
    using lt by (simp_all add: c)
  let ?w0 = "drop_bit 26 (h0 + 5)"
  let ?w1 = "drop_bit 26 (h1 + ?w0)"
  let ?w2 = "drop_bit 26 (h2 + ?w1)"
  let ?w3 = "drop_bit 26 (h3 + ?w2)"
  have eq: "plus5_26 h = [(h0 + 5) AND 0x3ffffff, (h1 + ?w0) AND 0x3ffffff,
      (h2 + ?w1) AND 0x3ffffff, (h3 + ?w2) AND 0x3ffffff, h4 + ?w3 - push_bit 26 1]"
    by (simp add: plus5_26_def H Let_def del: push_bit_numeral_minus_1)
  have w0: "unat ?w0 = c0" "unat ((h0 + 5) AND 0x3ffffff) = (H0 + 5) mod 2 ^ 26"
    using plus5_step26 [of h0 5] lt(1) by (simp_all add: c(1) U)
  have w1: "unat ?w1 = c1" "unat ((h1 + ?w0) AND 0x3ffffff) = (H1 + c0) mod 2 ^ 26"
    using plus5_step26 [of h1 ?w0] lt(2) cb(1) by (simp_all add: w0(1) c(2) U)
  have w2: "unat ?w2 = c2" "unat ((h2 + ?w1) AND 0x3ffffff) = (H2 + c1) mod 2 ^ 26"
    using plus5_step26 [of h2 ?w1] lt(3) cb(2) by (simp_all add: w1(1) c(3) U)
  have w3: "unat ?w3 = c3" "unat ((h3 + ?w2) AND 0x3ffffff) = (H3 + c2) mod 2 ^ 26"
    using plus5_step26 [of h3 ?w2] lt(4) cb(3) by (simp_all add: w2(1) c(4) U)
  have w4: "h4 + ?w3 = word_of_nat (H4 + c3)"
  proof -
    have "unat (h4 + ?w3) = H4 + c3" using lt(5) cb(4) by (simp add: unat_add_small w3(1) U)
    then show ?thesis by (metis word_eq_of_nat)
  qed
  have "val26 (map unat h) + 5 = H0 + 2 ^ 26 * H1 + 2 ^ 52 * H2 + 2 ^ 78 * H3 + 2 ^ 104 * H4 + 5"
    by (simp add: val26_def H U)
  also have "\<dots> = (H0 + 5) mod 2 ^ 26 + 2 ^ 26 * ((H1 + c0) mod 2 ^ 26) + 2 ^ 52 * ((H2 + c1) mod 2 ^ 26)
      + 2 ^ 78 * ((H3 + c2) mod 2 ^ 26) + 2 ^ 104 * (H4 + c3)"
    unfolding c by (rule plus5_arith) simp_all
  finally have "val26 (map unat h) + 5 =
      val26 [(H0 + 5) mod 2 ^ 26, (H1 + c0) mod 2 ^ 26, (H2 + c1) mod 2 ^ 26, (H3 + c2) mod 2 ^ 26, H4 + c3]"
    by (simp add: val26_def)
  moreover have "map unat (take 4 (plus5_26 h)) =
      [(H0 + 5) mod 2 ^ 26, (H1 + c0) mod 2 ^ 26, (H2 + c1) mod 2 ^ 26, (H3 + c2) mod 2 ^ 26]"
    by (simp add: eq w0(2) w1(2) w2(2) w3(2) del: push_bit_numeral_minus_1)
  moreover have "plus5_26 h ! 4 = word_of_nat (H4 + c3) - push_bit 26 1"
    unfolding eq w4 by simp
  moreover have "length (plus5_26 h) = 5" by (simp add: eq)
  moreover have "H4 + c3 \<le> 2 ^ 26" using lt(5) cb(4) by simp
  ultimately show ?thesis
    by (intro exI conjI) (assumption | simp)+
qed

lemma select26_mask:
  "length h = 5 \<Longrightarrow> drop_bit 31 (g ! 4) = 1 \<Longrightarrow> select26 h g = h"
  "length g = 5 \<Longrightarrow> drop_bit 31 (g ! 4) = 0 \<Longrightarrow> select26 h g = g"
  using map_nth [of h] map_nth [of g] by (simp_all add: select26_def)

lemma borrow26:
  assumes "m < 2 ^ 26"
  shows "drop_bit 31 (word_of_nat m - push_bit 26 1 :: u32) = 1"
proof -
  have "(word_of_nat m - push_bit 26 1 :: u32) = word_of_nat (m + (2 ^ 32 - 2 ^ 26))"
    by (simp add: of_nat_diff)
  moreover have "unat (word_of_nat (m + (2 ^ 32 - 2 ^ 26)) :: u32) = m + (2 ^ 32 - 2 ^ 26)"
    using assms by (intro unat_of_nat_small) simp
  moreover have "(m + (2 ^ 32 - 2 ^ 26)) div 2 ^ 31 = 1" using assms by simp
  ultimately have "unat (drop_bit 31 (word_of_nat m - push_bit 26 1 :: u32)) = 1"
    by (simp only: unat_drop_bit_div)
  then show ?thesis by (metis word_eq_of_nat of_nat_1)
qed

lemma select26_nat:
  assumes "red26 h"
  shows "red26 (select26 h (plus5_26 h))"
    and "val26 (map unat (select26 h (plus5_26 h))) = val26 (map unat h) mod p1305"
proof -
  obtain m0 m1 m2 m3 m4 where m: "val26 (map unat h) + 5 = val26 [m0, m1, m2, m3, m4]"
    "m0 < 2 ^ 26" "m1 < 2 ^ 26" "m2 < 2 ^ 26" "m3 < 2 ^ 26" "m4 \<le> 2 ^ 26"
    "map unat (take 4 (plus5_26 h)) = [m0, m1, m2, m3]" "length (plus5_26 h) = 5"
    "plus5_26 h ! 4 = word_of_nat m4 - push_bit 26 1"
    using plus5_26_nat [OF assms] by (elim exE conjE) (rule that)
  have len: "length h = 5" using assms by (simp add: red26_def)
  have lt: "val26 [m0, m1, m2, m3, m4] < 2 ^ 104 * (m4 + 1)"
    using m(2-5) by (simp add: val26_def)
  have "red26 (select26 h (plus5_26 h)) \<and>
      val26 (map unat (select26 h (plus5_26 h))) = val26 (map unat h) mod p1305"
  proof (cases "m4 < 2 ^ 26")
    case True
    then have "select26 h (plus5_26 h) = h"
      using borrow26 m(9) select26_mask(1) [OF len] by simp
    moreover have "val26 (map unat h) < p1305"
    proof -
      have "val26 (map unat h) + 5 < 2 ^ 104 * (m4 + 1)" using lt m(1) by simp
      also have "\<dots> \<le> 2 ^ 130" using True by simp
      finally show ?thesis by (simp add: p1305_def)
    qed
    ultimately show ?thesis using assms by simp
  next
    case False
    then have m4: "m4 = 2 ^ 26" using m(6) by simp
    then have g4: "plus5_26 h ! 4 = 0" using m(9) by simp
    obtain g0 g1 g2 g3 g4' where G: "plus5_26 h = [g0, g1, g2, g3, g4']"
      using m(8) by (rule list5E)
    have g: "unat g0 = m0" "unat g1 = m1" "unat g2 = m2" "unat g3 = m3" "g4' = 0"
      using m(7) g4 by (simp_all add: G)
    have sel: "select26 h (plus5_26 h) = plus5_26 h"
      using select26_mask(2) [OF m(8)] g4 by simp
    have "val26 (map unat (plus5_26 h)) + p1305 = val26 (map unat h)"
      using m(1) m4 by (simp add: G g val26_def p1305_def)
    moreover have "val26 (map unat (plus5_26 h)) < p1305"
      using m(2-5) by (simp add: G g val26_def p1305_def)
    moreover have "red26 (plus5_26 h)"
      using m(2-5) by (simp add: red26_iff G g)
    ultimately show ?thesis
      unfolding sel by (metis mod_add_self2 mod_less)
  qed
  then show "red26 (select26 h (plus5_26 h))"
    "val26 (map unat (select26 h (plus5_26 h))) = val26 (map unat h) mod p1305" by simp_all
qed

definition val32 :: "nat list \<Rightarrow> nat" where
  "val32 v = v ! 0 + 2 ^ 32 * v ! 1 + 2 ^ 64 * v ! 2 + 2 ^ 96 * v ! 3"

lemma pack_arith:
  fixes H0 :: nat
  assumes "H1 = b1 + 2 ^ 6 * t1" "H2 = b2 + 2 ^ 12 * t2" "H3 = b3 + 2 ^ 18 * t3" "H4 = b4 + 2 ^ 24 * t4"
  shows "H0 + 2 ^ 26 * H1 + 2 ^ 52 * H2 + 2 ^ 78 * H3 + 2 ^ 104 * H4 =
     (H0 + b1 * 2 ^ 26) + 2 ^ 32 * (t1 + b2 * 2 ^ 20) + 2 ^ 64 * (t2 + b3 * 2 ^ 14)
     + 2 ^ 96 * (t3 + b4 * 2 ^ 8) + 2 ^ 128 * t4"
  using assms by simp

lemma val32_bound:
  assumes "\<forall>x \<in> set v. x < 2 ^ 32" "length v = 4"
  shows "val32 v < 2 ^ 128"
proof -
  have "v ! 0 < 2 ^ 32" "v ! 1 < 2 ^ 32" "v ! 2 < 2 ^ 32" "v ! 3 < 2 ^ 32"
    using assms by (simp_all add: all_set_conv_all_nth)
  then show ?thesis by (simp add: val32_def)
qed

lemma val32_unat_bound: "length (v :: u32 list) = 4 \<Longrightarrow> val32 (map unat v) < 2 ^ 128"
  using unsigned_less [where 'a = nat and 'b = 32] by (intro val32_bound) auto

lemma pack26_nat:
  assumes "red26 h"
  shows "val32 (map unat (pack26 h)) = val26 (map unat h) mod 2 ^ 128"
proof -
  have "length h = 5" using assms by (simp add: red26_def)
  then obtain h0 h1 h2 h3 h4 where H: "h = [h0, h1, h2, h3, h4]" by (rule list5E)
  obtain H0 H1 H2 H3 H4 where U: "H0 = unat h0" "H1 = unat h1" "H2 = unat h2" "H3 = unat h3" "H4 = unat h4"
    by blast
  have lt: "H0 < 2 ^ 26" "H1 < 2 ^ 26" "H2 < 2 ^ 26" "H3 < 2 ^ 26" "H4 < 2 ^ 26"
    using assms by (simp_all add: red26_iff H U)
  have w0: "unat (h0 OR push_bit 26 h1) = H0 + H1 mod 2 ^ 6 * 2 ^ 26"
    using unat_or_push_bit_mod [of h0 26 h1] lt(1) by (simp add: U)
  have w1: "unat (drop_bit 6 h1 OR push_bit 20 h2) = H1 div 2 ^ 6 + H2 mod 2 ^ 12 * 2 ^ 20"
    using unat_or_push_bit_mod [of "drop_bit 6 h1" 20 h2] lt(2)
    by (simp add: U unat_drop_bit_div less_mult_imp_div_less)
  have w2: "unat (drop_bit 12 h2 OR push_bit 14 h3) = H2 div 2 ^ 12 + H3 mod 2 ^ 18 * 2 ^ 14"
    using unat_or_push_bit_mod [of "drop_bit 12 h2" 14 h3] lt(3)
    by (simp add: U unat_drop_bit_div less_mult_imp_div_less)
  have w3: "unat (drop_bit 18 h3 OR push_bit 8 h4) = H3 div 2 ^ 18 + H4 mod 2 ^ 24 * 2 ^ 8"
    using unat_or_push_bit_mod [of "drop_bit 18 h3" 8 h4] lt(4)
    by (simp add: U unat_drop_bit_div less_mult_imp_div_less)
  have vals: "map unat (pack26 h) = [H0 + H1 mod 2 ^ 6 * 2 ^ 26, H1 div 2 ^ 6 + H2 mod 2 ^ 12 * 2 ^ 20,
      H2 div 2 ^ 12 + H3 mod 2 ^ 18 * 2 ^ 14, H3 div 2 ^ 18 + H4 mod 2 ^ 24 * 2 ^ 8]"
    by (simp add: pack26_def H w0 w1 w2 w3)
  have "val26 (map unat h) = H0 + 2 ^ 26 * H1 + 2 ^ 52 * H2 + 2 ^ 78 * H3 + 2 ^ 104 * H4"
    by (simp add: val26_def H U)
  also have "\<dots> = val32 (map unat (pack26 h)) + 2 ^ 128 * (H4 div 2 ^ 24)"
    unfolding val32_def vals nth_Cons_0 nth_Cons_numeral list.map
    by (subst pack_arith [of H1 "H1 mod 2 ^ 6" "H1 div 2 ^ 6" H2 "H2 mod 2 ^ 12" "H2 div 2 ^ 12"
          H3 "H3 mod 2 ^ 18" "H3 div 2 ^ 18" H4 "H4 mod 2 ^ 24" "H4 div 2 ^ 24" H0]) simp_all
  finally have "val26 (map unat h) mod 2 ^ 128 = val32 (map unat (pack26 h)) mod 2 ^ 128" by simp
  also have "\<dots> = val32 (map unat (pack26 h))"
    by (intro mod_less val32_unat_bound) (simp add: pack26_def)
  finally show ?thesis by simp
qed

lemma addpad_arith:
  fixes F0 :: nat
  assumes "W0 + P0 = m0 + 2 ^ 32 * c0" "W1 + P1 + c0 = m1 + 2 ^ 32 * c1"
    "W2 + P2 + c1 = m2 + 2 ^ 32 * c2" "W3 + P3 + c2 = m3 + 2 ^ 32 * c3"
  shows "val32 [W0, W1, W2, W3] + val32 [P0, P1, P2, P3] = val32 [m0, m1, m2, m3] + 2 ^ 128 * c3"
  using assms by (simp add: val32_def)

lemma addpad_step:
  fixes a b :: u32 and c :: u64
  assumes "unat c \<le> 1"
  shows "unat ((ucast a :: u64) + ucast b + c) = unat a + unat b + unat c"
    and "unat (drop_bit 32 ((ucast a :: u64) + ucast b + c)) = (unat a + unat b + unat c) div 2 ^ 32"
    and "(unat a + unat b + unat c) div 2 ^ 32 \<le> 1"
    and "unat (ucast ((ucast a :: u64) + ucast b + c) :: u32) = (unat a + unat b + unat c) mod 2 ^ 32"
proof -
  have lt: "unat a < 2 ^ 32" "unat b < 2 ^ 32"
    using unsigned_less [of a, where 'a = nat] unsigned_less [of b, where 'a = nat] by simp_all
  have "(ucast a :: u64) + ucast b + c = word_of_nat (unat a + unat b + unat c)" by simp
  then show f: "unat ((ucast a :: u64) + ucast b + c) = unat a + unat b + unat c"
    using lt assms unat_of_nat_small [of "unat a + unat b + unat c", where 'a = 64] by simp
  show "unat (drop_bit 32 ((ucast a :: u64) + ucast b + c)) = (unat a + unat b + unat c) div 2 ^ 32"
    by (simp only: unat_drop_bit_div f)
  show "(unat a + unat b + unat c) div 2 ^ 32 \<le> 1" using lt assms by simp
  show "unat (ucast ((ucast a :: u64) + ucast b + c) :: u32) = (unat a + unat b + unat c) mod 2 ^ 32"
    by (subst unsigned_ucast_eq, subst f) (simp add: take_bit_eq_mod)
qed

lemma addpad26_nat:
  assumes "length w = 4" "length p = 4"
  shows "val32 (map unat (addpad26 w p)) = (val32 (map unat w) + val32 (map unat p)) mod 2 ^ 128"
    and "length (addpad26 w p) = 4"
proof -
  obtain w0 w1 w2 w3 where W: "w = [w0, w1, w2, w3]" using assms(1) by (rule list4E)
  obtain p0 p1 p2 p3 where P: "p = [p0, p1, p2, p3]" using assms(2) by (rule list4E)
  define f0 where "f0 = (ucast w0 :: u64) + ucast p0 + 0"
  define f1 where "f1 = (ucast w1 :: u64) + ucast p1 + drop_bit 32 f0"
  define f2 where "f2 = (ucast w2 :: u64) + ucast p2 + drop_bit 32 f1"
  define f3 where "f3 = (ucast w3 :: u64) + ucast p3 + drop_bit 32 f2"
  have eq: "addpad26 w p = [ucast f0, ucast f1, ucast f2, ucast f3]"
    by (simp add: addpad26_def W P f0_def f1_def f2_def f3_def Let_def)
  show len: "length (addpad26 w p) = 4" by (simp add: eq)
  note s0 = addpad_step [of 0 w0 p0, folded f0_def, simplified]
  have c0: "unat (drop_bit 32 f0) \<le> 1" using s0 by simp
  note s1 = addpad_step [OF c0, of w1 p1, folded f1_def]
  have c1: "unat (drop_bit 32 f1) \<le> 1" using s1 by simp
  note s2 = addpad_step [OF c1, of w2 p2, folded f2_def]
  have c2: "unat (drop_bit 32 f2) \<le> 1" using s2 by simp
  note s3 = addpad_step [OF c2, of w3 p3, folded f3_def]
  have dm: "x = x mod 2 ^ 32 + 2 ^ 32 * (x div 2 ^ 32)" for x :: nat by simp
  have e: "unat f0 = unat (ucast f0 :: u32) + 2 ^ 32 * unat (drop_bit 32 f0)"
    "unat f1 = unat (ucast f1 :: u32) + 2 ^ 32 * unat (drop_bit 32 f1)"
    "unat f2 = unat (ucast f2 :: u32) + 2 ^ 32 * unat (drop_bit 32 f2)"
    "unat f3 = unat (ucast f3 :: u32) + 2 ^ 32 * unat (drop_bit 32 f3)"
    unfolding unat_drop_bit_div
    by (simp_all add: unsigned_ucast_eq take_bit_eq_mod)
  have "val32 (map unat w) + val32 (map unat p)
      = val32 (map unat (addpad26 w p)) + 2 ^ 128 * unat (drop_bit 32 f3)"
    unfolding eq unfolding W P list.map
    by (rule addpad_arith) (use e s0(1) s1(1) s2(1) s3(1) in simp_all)
  then have "(val32 (map unat w) + val32 (map unat p)) mod 2 ^ 128 = val32 (map unat (addpad26 w p)) mod 2 ^ 128"
    by simp
  then show "val32 (map unat (addpad26 w p)) = (val32 (map unat w) + val32 (map unat p)) mod 2 ^ 128"
    using val32_unat_bound [OF len] by simp
qed

lemma concat_u32to8:
  assumes "length w = 4"
  shows "concat (map u32to8 w) = le_bytes 16 (val32 (map unat w))"
proof -
  obtain w0 w1 w2 w3 where W: "w = [w0, w1, w2, w3]" using assms by (rule list4E)
  have "le_nat (concat (map u32to8 w)) = val32 (map unat w)"
    by (simp add: W val32_def le_nat_append)
  moreover have "length (concat (map u32to8 w)) = 16" by (simp add: W)
  ultimately show ?thesis using le_bytes_le_nat [of "concat (map u32to8 w)" 16] by simp
qed

lemma split4:
  fixes x :: nat
  shows "x = x mod 2 ^ 32 + 2 ^ 32 * (x div 2 ^ 32 mod 2 ^ 32) + 2 ^ 64 * (x div 2 ^ 64 mod 2 ^ 32)
           + 2 ^ 96 * (x div 2 ^ 96)"
proof -
  have "x mod 2 ^ 64 = 2 ^ 32 * (x div 2 ^ 32 mod 2 ^ 32) + x mod 2 ^ 32"
    using mod_mult2_eq [of x "2 ^ 32" "2 ^ 32"] by simp
  moreover have "x mod 2 ^ 96 = 2 ^ 64 * (x div 2 ^ 64 mod 2 ^ 32) + x mod 2 ^ 64"
    using mod_mult2_eq [of x "2 ^ 64" "2 ^ 32"] by simp
  moreover have "x = 2 ^ 96 * (x div 2 ^ 96) + x mod 2 ^ 96" by simp
  ultimately show ?thesis by linarith
qed

lemma pad26_nat:
  assumes "length key = 32"
  shows "val32 (map unat (pad (poly1305_init st key))) = le_nat (take 16 (drop 16 key))"
proof -
  define P where "P = le_nat (take 16 (drop 16 key))"
  have p: "unat (u8to32 key (16 + i)) = P div 2 ^ (8 * i) mod 2 ^ 32" if "i + 4 \<le> 16" for i
    using u8to32_at [of "drop 16 key" i] that assms by (simp add: P_def u8to32_def ac_simps)
  have "P < 2 ^ 128" using le_nat_bound [of "take 16 (drop 16 key)"] assms by (simp add: P_def)
  then have "P div 2 ^ 96 mod 2 ^ 32 = P div 2 ^ 96" by (intro mod_less) (simp add: less_mult_imp_div_less)
  then show ?thesis
    using split4 [of P] p [of 0] p [of 4] p [of 8] p [of 12]
    by (simp add: poly1305_init_def val32_def P_def [symmetric])
qed

lemma finish26_tag:
  assumes "p26.absorbed st r M b" "length (pad st) = 4"
  shows "poly1305_finish st = le_bytes 16 ((horner r 0 (M @ b) mod p1305 + val32 (map unat (pad st))) mod 2 ^ 128)"
proof -
  define st' where "st' = poly_flush poly1305_blocks st"
  define h where "h = carry26_final (ph st')"
  define g where "g = select26 h (plus5_26 h)"
  have st': "ok26 (ph st')" "pad st' = pad st" "val26 (map unat (ph st')) mod p1305 = horner r 0 (M @ b) mod p1305"
    using p26.flush_absorbed [OF assms(1)] by (simp_all add: st'_def)
  note h = carry26_final_nat [OF st'(1), folded h_def]
  note g = select26_nat [OF h(1), folded g_def]
  have len: "length (pack26 g) = 4" by (simp add: pack26_def)
  have fin: "poly1305_finish st = concat (map u32to8 (addpad26 (pack26 g) (pad st)))"
    by (simp add: poly1305_finish_def Let_def st'(2) flip: st'_def h_def g_def)
  have "val32 (map unat (addpad26 (pack26 g) (pad st)))
      = (horner r 0 (M @ b) mod p1305 + val32 (map unat (pad st))) mod 2 ^ 128"
    using addpad26_nat(1) [OF len assms(2)] h(2) st'(3)
    by (simp add: pack26_nat [OF g(1)] g(2) mod_add_left_eq)
  then show ?thesis
    using concat_u32to8 [OF addpad26_nat(2) [OF len assms(2)]] fin by simp
qed

lemma init26_absorbed:
  assumes "length key = 32" "length (buffer st) = 16"
  shows "p26.absorbed (poly1305_init st key) (clamp (le_nat (take 16 key))) [] []"
  using assms poly1305_init_ok [OF assms(1), of st]
  by (simp add: p26.absorbed_def) (simp add: poly1305_init_def ok26_def val26_def)

lemma poly1305_stream:
  assumes "length key = 32" "length (buffer st) = 16"
  shows "poly1305_finish (foldl poly1305_update (poly1305_init st key) ms) = poly1305_mac key (concat ms)"
proof -
  obtain M b where ab: "p26.absorbed (foldl poly1305_update (poly1305_init st key) ms) (clamp (le_nat (take 16 key))) M b"
      "M @ b = concat ms"
    using p26.updates_absorbed [OF init26_absorbed [OF assms], of ms] by (auto simp: poly1305_update_def)
  have pad: "pad (foldl poly1305_update (poly1305_init st key) ms) = pad (poly1305_init st key)"
    by (simp add: poly1305_update_def p26.updates_pad)
  then have "length (pad (foldl poly1305_update (poly1305_init st key) ms)) = 4"
    by (simp add: poly1305_init_def)
  from finish26_tag [OF ab(1) this] show ?thesis
    using assms(1) ab(2) pad by (simp add: poly1305_mac_def pad26_nat)
qed

section \<open>Properties\<close>

text \<open>C14 The 26-bit implementation computes the Poly1305 tag of RFC 8439: whatever the pieces in which
  the message is handed to \<open>poly1305_update\<close>, \<open>poly1305_finish\<close> returns the tag of the
  specification for the whole message.  None of the 32- and 64-bit sums and products of the code
  wraps around where the arithmetic needs it not to.\<close>

theorem poly1305_finish_is_mac:
  assumes "length key = 32" "length (buffer st) = 16"
  shows "poly1305_finish (foldl poly1305_update (poly1305_init st key) ms) = poly1305_mac key (concat ms)"
  using assms by (rule poly1305_stream)

theorem poly1305_finish_is_mac_witness:
  "poly1305_finish (foldl poly1305_update
      (poly1305_init \<lparr>pr = [], ph = [], pad = [], leftover = 9, buffer = replicate 16 0xaa, final = True\<rparr>
        (replicate 32 0xff)) [[1, 2], [], replicate 20 0xff]) =
   poly1305_mac (replicate 32 0xff) ([1, 2] @ replicate 20 0xff)"
  using poly1305_finish_is_mac [of "replicate 32 0xff"
    "\<lparr>pr = [], ph = [], pad = [], leftover = 9, buffer = replicate 16 0xaa, final = True\<rparr>"
    "[[1, 2], [], replicate 20 0xff]"] by simp

text \<open>The limbs stay small: after any number of whole blocks every limb of the accumulator is
  below \<open>2\<^sup>2\<^sup>6\<close>, except the second one, which may exceed it by less than 64.\<close>

theorem poly1305_blocks_limbs:
  assumes "length key = 32" "length m = 16 * k"
  shows "ok26 (ph (poly1305_blocks (poly1305_init st key) m))"
  using blocks26_ok [OF poly1305_init_ok(1) [OF assms(1)], of _ m k] assms(2)
  by (simp add: poly1305_blocks_def) (simp add: poly1305_init_def ok26_def)

theorem poly1305_blocks_limbs_witness:
  "ok26 (ph (poly1305_blocks (poly1305_init
      \<lparr>pr = [], ph = [], pad = [], leftover = 0, buffer = [], final = False\<rparr> (replicate 32 0xff))
      (replicate 32 0xff)))"
  using poly1305_blocks_limbs [of "replicate 32 0xff" "replicate 32 0xff" 2
    "\<lparr>pr = [], ph = [], pad = [], leftover = 0, buffer = [], final = False\<rparr>"] by simp

end
