(* ===== verification/Poly1305_44.thy ===== *)
theory Poly1305_44
  imports Poly1305_Spec
begin

text \<open>
  The two 64-bit Poly1305 of \<^verbatim>\<open>benchmarks/crypto_probe.c\<close>: the streaming one (\<open>poly64_init\<close>,
  \<open>poly64_blocks\<close>, \<open>poly64_update\<close>, \<open>poly64_finish\<close>) and the one-shot \<open>poly1305_x4\<close>, which runs four
  independent accumulators that advance by \<open>r\<^sup>4\<close>.  Both keep a field element in three limbs of 44, 44
  and 42 bits and multiply them into 128-bit products.  The 128-bit arithmetic is that of the
  \<^verbatim>\<open>unsigned __int128\<close> branch of the source; the two-word structure of the other branch is shown to
  compute the same.
\<close>

section \<open>128-bit helpers\<close>

definition u128_mul :: "u64 \<Rightarrow> u64 \<Rightarrow> u128" where
  "u128_mul a b = ucast a * ucast b"

definition u128_add :: "u128 \<Rightarrow> u128 \<Rightarrow> u128" where
  "u128_add a b = a + b"

definition u128_addu :: "u128 \<Rightarrow> u64 \<Rightarrow> u128" where
  "u128_addu a b = a + ucast b"

definition u128_low44 :: "u128 \<Rightarrow> u64" where
  "u128_low44 a = ucast a AND 0xfffffffffff"

definition u128_low42 :: "u128 \<Rightarrow> u64" where
  "u128_low42 a = ucast a AND 0x3ffffffffff"

definition u128_shr44 :: "u128 \<Rightarrow> u64" where
  "u128_shr44 a = ucast (drop_bit 44 a)"

definition u128_shr42 :: "u128 \<Rightarrow> u64" where
  "u128_shr42 a = ucast (drop_bit 42 a)"

text \<open>The two-word form of the 128-bit helpers (the branch for compilers without \<open>__int128\<close>).\<close>

record u128_t =
  lo :: u64
  hi :: u64

definition ms_u128_mul :: "u64 \<Rightarrow> u64 \<Rightarrow> u128_t" where
  "ms_u128_mul a b = \<lparr>lo = a * b, hi = ucast (drop_bit 64 (ucast a * ucast b :: u128))\<rparr>"

definition ms_u128_add :: "u128_t \<Rightarrow> u128_t \<Rightarrow> u128_t" where
  "ms_u128_add a b =
     (let l = lo a + lo b; c = if unat (lo a) + unat (lo b) \<ge> 2 ^ 64 then 1 else 0
      in \<lparr>lo = l, hi = hi a + hi b + c\<rparr>)"

definition ms_u128_addu :: "u128_t \<Rightarrow> u64 \<Rightarrow> u128_t" where
  "ms_u128_addu a b = ms_u128_add a \<lparr>lo = b, hi = 0\<rparr>"

definition ms_u128_low44 :: "u128_t \<Rightarrow> u64" where
  "ms_u128_low44 a = lo a AND 0xfffffffffff"

definition ms_u128_low42 :: "u128_t \<Rightarrow> u64" where
  "ms_u128_low42 a = lo a AND 0x3ffffffffff"

definition ms_u128_shr44 :: "u128_t \<Rightarrow> u64" where
  "ms_u128_shr44 a = drop_bit 44 (lo a) OR push_bit 20 (hi a)"

definition ms_u128_shr42 :: "u128_t \<Rightarrow> u64" where
  "ms_u128_shr42 a = drop_bit 42 (lo a) OR push_bit 22 (hi a)"

definition of_u128 :: "u128_t \<Rightarrow> u128" where
  "of_u128 a = ucast (lo a) OR push_bit 64 (ucast (hi a))"

section \<open>Field elements\<close>

definition mul44 :: "u64 list \<Rightarrow> u64 list \<Rightarrow> u128 list" where
  "mul44 a b =
     (let s1 = b ! 1 * 20; s2 = b ! 2 * 20
      in [u128_add (u128_add (u128_mul (a ! 0) (b ! 0)) (u128_mul (a ! 1) s2)) (u128_mul (a ! 2) s1),
          u128_add (u128_add (u128_mul (a ! 0) (b ! 1)) (u128_mul (a ! 1) (b ! 0))) (u128_mul (a ! 2) s2),
          u128_add (u128_add (u128_mul (a ! 0) (b ! 2)) (u128_mul (a ! 1) (b ! 1))) (u128_mul (a ! 2) (b ! 0))])"

definition carry44 :: "u128 list \<Rightarrow> u64 list" where
  "carry44 d =
     (let c = u128_shr44 (d ! 0); h0 = u128_low44 (d ! 0);
          d1 = u128_addu (d ! 1) c; c = u128_shr44 d1; h1 = u128_low44 d1;
          d2 = u128_addu (d ! 2) c; c = u128_shr42 d2; h2 = u128_low42 d2;
          h0 = h0 + c * 5; c = drop_bit 44 h0; h0 = h0 AND 0xfffffffffff;
          h1 = h1 + c
      in [h0, h1, h2])"

definition fe_mul :: "u64 list \<Rightarrow> u64 list \<Rightarrow> u64 list" where
  "fe_mul a b = carry44 (mul44 a b)"

definition limbs44 :: "u64 \<Rightarrow> u64 \<Rightarrow> u64 list" where
  "limbs44 t0 t1 = [t0 AND 0xfffffffffff, (drop_bit 44 t0 OR push_bit 20 t1) AND 0xfffffffffff,
                    drop_bit 24 t1 AND 0x3ffffffffff]"

definition clamp44 :: "u64 \<Rightarrow> u64 \<Rightarrow> u64 list" where
  "clamp44 t0 t1 = [t0 AND 0x0ffc0fffffff, (drop_bit 44 t0 OR push_bit 20 t1) AND 0x0fffffc0ffff,
                    drop_bit 24 t1 AND 0x00ffffffc0f]"

definition hibit44 :: "bool \<Rightarrow> u64" where
  "hibit44 fin = (if fin then 0 else push_bit 40 1)"

definition add44 :: "u64 list \<Rightarrow> byte list \<Rightarrow> u64 \<Rightarrow> u64 list" where
  "add44 h m hibit =
     (let t = limbs44 (load64le m 0) (load64le m 8)
      in [h ! 0 + t ! 0, h ! 1 + t ! 1, h ! 2 + (t ! 2 OR hibit)])"

section \<open>The streaming implementation\<close>

definition poly64_init :: "u64 poly_ctx \<Rightarrow> byte list \<Rightarrow> u64 poly_ctx" where
  "poly64_init st key = st\<lparr>
     pr := clamp44 (load64le key 0) (load64le key 8),
     ph := [0, 0, 0],
     pad := [load64le key 16, load64le key 24],
     leftover := 0, final := False\<rparr>"

function blocks44 :: "u64 \<Rightarrow> u64 list \<Rightarrow> u64 list \<Rightarrow> byte list \<Rightarrow> u64 list" where
  "blocks44 hibit r h m =
     (if length m \<ge> 16 then blocks44 hibit r (carry44 (mul44 (add44 h m hibit) r)) (drop 16 m) else h)"
  by pat_completeness auto
termination
  by (relation "measure (\<lambda>(hibit, r, h, m). length m)") auto

declare blocks44.simps [simp del]

definition poly64_blocks :: "u64 poly_ctx \<Rightarrow> byte list \<Rightarrow> u64 poly_ctx" where
  "poly64_blocks st m = st\<lparr>ph := blocks44 (hibit44 (final st)) (pr st) (ph st) m\<rparr>"

definition poly64_update :: "u64 poly_ctx \<Rightarrow> byte list \<Rightarrow> u64 poly_ctx" where
  "poly64_update = poly_update poly64_blocks"

text \<open>One round of the final carry; \<open>poly64_finish\<close> runs it twice, \<open>poly1305_x4\<close> once.\<close>

definition carry44_round :: "u64 list \<Rightarrow> u64 list" where
  "carry44_round h =
     (let c = drop_bit 44 (h ! 1); h1 = h ! 1 AND 0xfffffffffff;
          h2 = h ! 2 + c; c = drop_bit 42 h2; h2 = h2 AND 0x3ffffffffff;
          h0 = h ! 0 + c * 5; c = drop_bit 44 h0; h0 = h0 AND 0xfffffffffff;
          h1 = h1 + c
      in [h0, h1, h2])"

definition plus5_44 :: "u64 list \<Rightarrow> u64 list" where
  "plus5_44 h =
     (let g0 = h ! 0 + 5; c = drop_bit 44 g0; g0 = g0 AND 0xfffffffffff;
          g1 = h ! 1 + c; c = drop_bit 44 g1; g1 = g1 AND 0xfffffffffff;
          g2 = h ! 2 + c - push_bit 42 1
      in [g0, g1, g2])"

definition select44 :: "u64 list \<Rightarrow> u64 list \<Rightarrow> u64 list" where
  "select44 h g =
     (let c = drop_bit 63 (g ! 2) - 1
      in map (\<lambda>i. (h ! i AND NOT c) OR (g ! i AND c)) [0..<3])"

definition addpad44 :: "u64 list \<Rightarrow> u64 list \<Rightarrow> u64 list" where
  "addpad44 h t =
     (let h0 = h ! 0 + t ! 0; c = drop_bit 44 h0; h0 = h0 AND 0xfffffffffff;
          h1 = h ! 1 + (t ! 1 + c); c = drop_bit 44 h1; h1 = h1 AND 0xfffffffffff;
          h2 = (h ! 2 + (t ! 2 + c)) AND 0x3ffffffffff
      in [h0, h1, h2])"

definition pack44 :: "u64 list \<Rightarrow> u64 list" where
  "pack44 h = [h ! 0 OR push_bit 44 (h ! 1), drop_bit 20 (h ! 1) OR push_bit 24 (h ! 2)]"

definition tag44 :: "u64 list \<Rightarrow> u64 list \<Rightarrow> byte list" where
  "tag44 h pd =
     (let h = select44 h (plus5_44 h);
          h = addpad44 h (limbs44 (pd ! 0) (pd ! 1))
      in concat (map u64to8 (pack44 h)))"

definition poly64_finish :: "u64 poly_ctx \<Rightarrow> byte list" where
  "poly64_finish st =
     (let st = poly_flush poly64_blocks st
      in tag44 (carry44_round (carry44_round (ph st))) (pad st))"

section \<open>Four accumulators\<close>

definition x4_lane :: "u64 list \<Rightarrow> u64 list \<Rightarrow> byte list \<Rightarrow> u64 list" where
  "x4_lane r4 acc b = add44 (fe_mul acc r4) b (hibit44 False)"

definition x4_group :: "u64 list \<Rightarrow> u64 list list \<Rightarrow> byte list \<Rightarrow> u64 list list" where
  "x4_group r4 acc m = map (\<lambda>lane. x4_lane r4 (acc ! lane) (drop (lane * 16) m)) [0..<4]"

function x4_groups :: "u64 list \<Rightarrow> u64 list list \<Rightarrow> byte list \<Rightarrow> u64 list list \<times> byte list" where
  "x4_groups r4 acc m =
     (if length m \<ge> 64 then x4_groups r4 (x4_group r4 acc m) (drop 64 m) else (acc, m))"
  by pat_completeness auto
termination
  by (relation "measure (\<lambda>(r4, acc, m). length m)") auto

declare x4_groups.simps [simp del]

definition x4_sum :: "u64 list list \<Rightarrow> u64 list" where
  "x4_sum p =
     (let h0 = p ! 0 ! 0 + p ! 1 ! 0 + p ! 2 ! 0 + p ! 3 ! 0;
          h1 = p ! 0 ! 1 + p ! 1 ! 1 + p ! 2 ! 1 + p ! 3 ! 1;
          h2 = p ! 0 ! 2 + p ! 1 ! 2 + p ! 2 ! 2 + p ! 3 ! 2;
          c = drop_bit 44 h0; h0 = h0 AND 0xfffffffffff; h1 = h1 + c;
          c = drop_bit 44 h1; h1 = h1 AND 0xfffffffffff; h2 = h2 + c;
          c = drop_bit 42 h2; h2 = h2 AND 0x3ffffffffff; h0 = h0 + c * 5;
          c = drop_bit 44 h0; h0 = h0 AND 0xfffffffffff; h1 = h1 + c
      in [h0, h1, h2])"

definition x4_combine :: "u64 list \<Rightarrow> u64 list \<Rightarrow> u64 list \<Rightarrow> u64 list \<Rightarrow> u64 list list \<Rightarrow> u64 list" where
  "x4_combine r r2 r3 r4 acc =
     x4_sum [fe_mul (acc ! 0) r4, fe_mul (acc ! 1) r3, fe_mul (acc ! 2) r2, fe_mul (acc ! 3) r]"

function x4_serial :: "u64 list \<Rightarrow> u64 list \<Rightarrow> byte list \<Rightarrow> u64 list" where
  "x4_serial r h m =
     (if m = [] then h
      else let n = if length m < 16 then length m else 16;
               b = if n = 16 then m else take n m @ [1] @ replicate (15 - n) 0;
               hibit = hibit44 (n \<noteq> 16)
           in x4_serial r (fe_mul (add44 h b hibit) r) (drop n m))"
  by pat_completeness auto
termination
  by (relation "measure (\<lambda>(r, h, m). length m)") auto

declare x4_serial.simps [simp del]

definition poly1305_x4 :: "byte list \<Rightarrow> byte list \<Rightarrow> byte list" where
  "poly1305_x4 key m =
     (let r = clamp44 (load64le key 0) (load64le key 8);
          r2 = fe_mul r r; r3 = fe_mul r2 r; r4 = fe_mul r2 r2;
          (acc, m) = x4_groups r4 (replicate 4 [0, 0, 0]) m;
          h = x4_serial r (x4_combine r r2 r3 r4 acc) m
      in tag44 (carry44_round h) [load64le key 16, load64le key 24])"

section \<open>What the limbs stand for\<close>

definition val44 :: "nat list \<Rightarrow> nat" where
  "val44 v = v ! 0 + 2 ^ 44 * v ! 1 + 2 ^ 88 * v ! 2"

definition ok44 :: "u64 list \<Rightarrow> bool" where
  "ok44 h \<longleftrightarrow> length h = 3 \<and> unat (h ! 0) < 2 ^ 44 \<and> unat (h ! 1) < 2 ^ 44 + 2 ^ 8 \<and> unat (h ! 2) < 2 ^ 42"

definition okin44 :: "u64 list \<Rightarrow> bool" where
  "okin44 h \<longleftrightarrow> length h = 3 \<and> unat (h ! 0) < 2 ^ 46 \<and> unat (h ! 1) < 2 ^ 46 \<and> unat (h ! 2) < 2 ^ 44"

lemma ok44_in: "ok44 h \<Longrightarrow> okin44 h"
  by (auto simp: ok44_def okin44_def)

lemma unat_and44: "unat ((a :: u64) AND 0xfffffffffff) = unat a mod 2 ^ 44"
  using unat_and_mask_numeral [of "0xfffffffffff" 44 a] by simp

lemma unat_and42: "unat ((a :: u64) AND 0x3ffffffffff) = unat a mod 2 ^ 42"
  using unat_and_mask_numeral [of "0x3ffffffffff" 42 a] by simp

lemma unat_low64: "unat (ucast (a :: u128) :: u64) = unat a mod 2 ^ 64"
  by (simp add: unsigned_ucast_eq take_bit_eq_mod)

lemma low44_nat: "unat (u128_low44 d) = unat d mod 2 ^ 44"
  by (simp add: u128_low44_def unat_and44 unat_low64 mod_mod_cancel)

lemma low42_nat: "unat (u128_low42 d) = unat d mod 2 ^ 42"
  by (simp add: u128_low42_def unat_and42 unat_low64 mod_mod_cancel)

lemma shr44_nat: "unat d < 2 ^ 108 \<Longrightarrow> unat (u128_shr44 d) = unat d div 2 ^ 44"
  by (simp add: u128_shr44_def unat_low64 unat_drop_bit_div less_mult_imp_div_less)

lemma shr42_nat: "unat d < 2 ^ 106 \<Longrightarrow> unat (u128_shr42 d) = unat d div 2 ^ 42"
  by (simp add: u128_shr42_def unat_low64 unat_drop_bit_div less_mult_imp_div_less)

lemma addu_nat:
  assumes "unat d < 2 ^ 120"
  shows "unat (u128_addu d c) = unat d + unat c"
proof -
  have "unat (ucast c :: u128) = unat c"
    using unsigned_less [of c, where 'a = nat] by (simp add: unat_ucast_small)
  with assms show ?thesis
    using unsigned_less [of c, where 'a = nat] by (simp add: u128_addu_def unat_add_small)
qed

lemma dot3:
  assumes "unat a0 * unat b0 + unat a1 * unat b1 + unat a2 * unat b2 < 2 ^ 128"
  shows "unat (u128_add (u128_add (u128_mul a0 b0) (u128_mul a1 b1)) (u128_mul a2 b2)) =
    unat a0 * unat b0 + unat a1 * unat b1 + unat a2 * unat b2" (is "unat ?w = ?n")
proof -
  have "?w = word_of_nat ?n" by (simp add: u128_mul_def u128_add_def)
  then show ?thesis using unat_of_nat_small [of ?n, where 'a = 128] assms by simp
qed

lemma wrap44:
  "(a0 + 2 ^ 44 * a1 + 2 ^ 88 * a2) * (b0 + 2 ^ 44 * b1 + 2 ^ 88 * b2)
   = (a0 * b0 + a1 * (20 * b2) + a2 * (20 * b1)) + 2 ^ 44 * (a0 * b1 + a1 * b0 + a2 * (20 * b2))
     + 2 ^ 88 * (a0 * b2 + a1 * b1 + a2 * b0)
     + (2 ^ 130 - 5) * (4 * (a1 * b2 + a2 * b1) + 2 ^ 46 * (a2 * b2))" for a0 a1 a2 b0 b1 b2 :: nat
  by (simp add: algebra_simps)

lemma mul44_nat:
  assumes a: "okin44 a" and b: "ok44 b"
  shows "val44 (map unat (mul44 a b)) mod p1305 = val44 (map unat a) * val44 (map unat b) mod p1305"
    and "unat (mul44 a b ! 0) < 2 ^ 94" "unat (mul44 a b ! 1) < 2 ^ 92" "unat (mul44 a b ! 2) < 7 * 2 ^ 88"
proof -
  obtain a0 a1 a2 where A: "a0 = unat (a ! 0)" "a1 = unat (a ! 1)" "a2 = unat (a ! 2)" by blast
  obtain b0 b1 b2 where B: "b0 = unat (b ! 0)" "b1 = unat (b ! 1)" "b2 = unat (b ! 2)" by blast
  have ab: "a0 \<le> 2 ^ 46" "a1 \<le> 2 ^ 46" "a2 \<le> 2 ^ 44" using a by (auto simp: okin44_def A)
  have bb: "b0 \<le> 2 ^ 44" "b1 \<le> 2 ^ 44 + 2 ^ 8" "b2 \<le> 2 ^ 42" using b by (auto simp: ok44_def B)
  have s: "unat (b ! 1 * 20) = 20 * b1" "unat (b ! 2 * 20) = 20 * b2"
    using bb by (simp_all add: B unat_mult_small)
  note p = mult_le_mono [OF ab(1) bb(1)] mult_le_mono [OF ab(1) bb(2)] mult_le_mono [OF ab(1) bb(3)]
    mult_le_mono [OF ab(2) bb(1)] mult_le_mono [OF ab(2) bb(2)] mult_le_mono [OF ab(2) bb(3)]
    mult_le_mono [OF ab(3) bb(1)] mult_le_mono [OF ab(3) bb(2)] mult_le_mono [OF ab(3) bb(3)]
  have b0: "a0 * b0 + a1 * (20 * b2) + a2 * (20 * b1) < 2 ^ 94" using p by simp
  have b1: "a0 * b1 + a1 * b0 + a2 * (20 * b2) < 2 ^ 92" using p by simp
  have b2: "a0 * b2 + a1 * b1 + a2 * b0 < 7 * 2 ^ 88" using p by simp
  have d: "unat (mul44 a b ! 0) = a0 * b0 + a1 * (20 * b2) + a2 * (20 * b1)"
    "unat (mul44 a b ! 1) = a0 * b1 + a1 * b0 + a2 * (20 * b2)"
    "unat (mul44 a b ! 2) = a0 * b2 + a1 * b1 + a2 * b0"
    using b0 b1 b2 by (simp_all add: mul44_def Let_def dot3 s A [symmetric] B [symmetric] del: One_nat_def)
  show "unat (mul44 a b ! 0) < 2 ^ 94" "unat (mul44 a b ! 1) < 2 ^ 92" "unat (mul44 a b ! 2) < 7 * 2 ^ 88"
    by (simp_all only: b0 b1 b2 d)
  have "length (mul44 a b) = 3" by (simp add: mul44_def Let_def)
  then have "val44 (map unat a) * val44 (map unat b) =
     val44 (map unat (mul44 a b)) + p1305 * (4 * (a1 * b2 + a2 * b1) + 2 ^ 46 * (a2 * b2))"
    using a b wrap44 [of a0 a1 a2 b0 b1 b2]
    by (simp only: val44_def p1305_def d A B length_map nth_map ok44_def okin44_def)
  then show "val44 (map unat (mul44 a b)) mod p1305 = val44 (map unat a) * val44 (map unat b) mod p1305"
    by simp
qed

lemma carry3_arith:
  fixes D0 :: nat
  assumes "D0 = m0 + 2 ^ 44 * q0" "D1 + q0 = m1 + 2 ^ 44 * q1" "D2 + q1 = m2 + 2 ^ 42 * q2"
    "m0 + q2 * 5 = f0 + 2 ^ 44 * f1"
  shows "D0 + 2 ^ 44 * D1 + 2 ^ 88 * D2 = f0 + 2 ^ 44 * (m1 + f1) + 2 ^ 88 * m2 + (2 ^ 130 - 5) * q2"
  using assms by simp

lemma carry44_nat:
  assumes d: "unat (d ! 0) < 2 ^ 94" "unat (d ! 1) < 2 ^ 92" "unat (d ! 2) < 7 * 2 ^ 88"
    and len: "length d = 3"
  shows "ok44 (carry44 d)"
    and "val44 (map unat (carry44 d)) mod p1305 = val44 (map unat d) mod p1305"
proof -
  define e1 where "e1 = u128_addu (d ! 1) (u128_shr44 (d ! 0))"
  define e2 where "e2 = u128_addu (d ! 2) (u128_shr44 e1)"
  define f where "f = u128_low44 (d ! 0) + u128_shr42 e2 * 5"
  have eq: "carry44 d = [f AND 0xfffffffffff, u128_low44 e1 + drop_bit 44 f, u128_low42 e2]"
    by (simp add: carry44_def Let_def e1_def e2_def f_def)
  obtain D0 D1 D2 where D: "D0 = unat (d ! 0)" "D1 = unat (d ! 1)" "D2 = unat (d ! 2)" by blast
  obtain E1 E2 where E: "E1 = D1 + D0 div 2 ^ 44" "E2 = D2 + E1 div 2 ^ 44" by blast
  have lt: "D0 < 2 ^ 94" "E1 < 2 ^ 93" "E2 < 2 ^ 91" using d by (simp_all add: D E)
  have u1: "unat e1 = E1" using d by (simp add: e1_def addu_nat shr44_nat E D)
  have u2: "unat e2 = E2" using d lt by (simp add: e2_def addu_nat shr44_nat E(2) D(3) u1)
  obtain F where F: "F = D0 mod 2 ^ 44 + E2 div 2 ^ 42 * 5" by blast
  have m0: "D0 mod 2 ^ 44 < 2 ^ 44" by simp
  have q2: "E2 div 2 ^ 42 < 2 ^ 49" using lt(3) by (simp add: less_mult_imp_div_less)
  have Flt: "F < 2 ^ 52" using q2 m0 unfolding F by simp
  then have Fq: "F div 2 ^ 44 < 2 ^ 8" by (simp add: less_mult_imp_div_less)
  have uf: "unat f = F"
  proof -
    have "unat (u128_shr42 e2 * 5) = E2 div 2 ^ 42 * 5"
      using q2 lt(3) by (simp add: unat_mult_small shr42_nat u2)
    then show ?thesis using Flt unfolding f_def F by (simp add: unat_add_small low44_nat D)
  qed
  have h1: "unat (u128_low44 e1 + drop_bit 44 f) = E1 mod 2 ^ 44 + F div 2 ^ 44"
    using Fq by (simp add: unat_add_small unat_drop_bit_div uf low44_nat u1)
  have vals: "map unat (carry44 d) = [F mod 2 ^ 44, E1 mod 2 ^ 44 + F div 2 ^ 44, E2 mod 2 ^ 42]"
    by (simp add: eq unat_and44 uf h1 low42_nat u2)
  show "ok44 (carry44 d)"
    using Fq h1 by (simp add: ok44_def eq unat_and44 low42_nat)
  have dm: "x = x mod 2 ^ 44 + 2 ^ 44 * (x div 2 ^ 44)" "x = x mod 2 ^ 42 + 2 ^ 42 * (x div 2 ^ 42)"
    for x :: nat by simp_all
  have "val44 (map unat d) = D0 + 2 ^ 44 * D1 + 2 ^ 88 * D2"
    using len by (simp add: val44_def D del: One_nat_def)
  also have "\<dots> = F mod 2 ^ 44 + 2 ^ 44 * (E1 mod 2 ^ 44 + F div 2 ^ 44) + 2 ^ 88 * (E2 mod 2 ^ 42)
      + (2 ^ 130 - 5) * (E2 div 2 ^ 42)"
    by (rule carry3_arith [OF dm(1) trans [OF E(1) [symmetric] dm(1)] trans [OF E(2) [symmetric] dm(2)]
          trans [OF F [symmetric] dm(1)]])
  also have "\<dots> = val44 (map unat (carry44 d)) + p1305 * (E2 div 2 ^ 42)"
    by (simp add: val44_def p1305_def vals)
  finally show "val44 (map unat (carry44 d)) mod p1305 = val44 (map unat d) mod p1305" by simp
qed

lemma length_mul44 [simp]: "length (mul44 a b) = 3"
  by (simp add: mul44_def Let_def)

lemma fe_mul_nat:
  assumes "okin44 a" "ok44 b"
  shows "ok44 (fe_mul a b)"
    and "val44 (map unat (fe_mul a b)) mod p1305 = val44 (map unat a) * val44 (map unat b) mod p1305"
  using carry44_nat [OF mul44_nat(2-4) [OF assms]] mul44_nat(1) [OF assms] by (simp_all add: fe_mul_def)

lemma load64le_at:
  assumes "16 \<le> length m" "i + 8 \<le> 16"
  shows "unat (load64le m i) = le_nat (take 16 m) div 2 ^ (8 * i) mod 2 ^ 64"
proof -
  have "i + 8 \<le> length m" using assms by simp
  then show ?thesis
    by (simp only: unat_load64le le_nat_16 [OF assms]) (simp add: power_mult)
qed

lemma mid_arith:
  fixes a t :: nat
  assumes "a < 2 ^ 20"
  shows "(a + 2 ^ 20 * t) mod 2 ^ 64 = a + t mod 2 ^ 44 * 2 ^ 20"
proof -
  obtain r q where rq: "r = t mod 2 ^ 44" "q = t div 2 ^ 44" by blast
  have "t = r + 2 ^ 44 * q" "r < 2 ^ 44" by (simp_all add: rq)
  then have "a + 2 ^ 20 * t = (a + r * 2 ^ 20) + 2 ^ 64 * q" "a + r * 2 ^ 20 < 2 ^ 64"
    using assms by simp_all
  then show ?thesis unfolding rq(1) [symmetric] by (simp only: mod_mult_self2 mod_less)
qed

lemma mid44:
  assumes "16 \<le> length m"
  shows "unat (drop_bit 44 (load64le m 0) OR push_bit 20 (load64le m 8)) = le_nat (take 16 m) div 2 ^ 44 mod 2 ^ 64"
proof -
  define M where "M = le_nat (take 16 m)"
  obtain t0 t1 where t: "t0 = M mod 2 ^ 64" "t1 = M div 2 ^ 64" by blast
  have "M < 2 ^ 128" using le_nat_bound [of "take 16 m"] assms by (simp add: M_def)
  then have t1: "t1 < 2 ^ 64" by (simp add: t less_mult_imp_div_less)
  have u: "unat (load64le m 0) = t0" "unat (load64le m 8) = t1"
    using load64le_at [OF assms, of 0] load64le_at [OF assms, of 8] t1 by (simp_all add: t M_def)
  have "M = t0 + (2 ^ 20 * t1) * 2 ^ 44" by (simp add: t)
  then have "M div 2 ^ 44 = (t0 + (2 ^ 20 * t1) * 2 ^ 44) div 2 ^ 44" by (rule arg_cong)
  also have "\<dots> = 2 ^ 20 * t1 + t0 div 2 ^ 44" by (rule div_mult_self1) simp
  finally have "M div 2 ^ 44 mod 2 ^ 64 = (t0 div 2 ^ 44 + 2 ^ 20 * t1) mod 2 ^ 64"
    by (metis add.commute)
  also have "\<dots> = t0 div 2 ^ 44 + t1 mod 2 ^ 44 * 2 ^ 20"
    by (rule mid_arith) (simp add: t less_mult_imp_div_less)
  also have "\<dots> = unat (drop_bit 44 (load64le m 0) OR push_bit 20 (load64le m 8))"
    using unat_or_push_bit_mod [of "drop_bit 44 (load64le m 0)" 20 "load64le m 8"]
    by (simp add: unat_drop_bit_div u) (simp add: t less_mult_imp_div_less)
  finally show ?thesis by (simp add: M_def)
qed

lemma top44:
  assumes "16 \<le> length m"
  shows "unat (drop_bit 24 (load64le m 8)) = le_nat (take 16 m) div 2 ^ 88"
    and "le_nat (take 16 m) div 2 ^ 88 < 2 ^ 40"
proof -
  have M: "le_nat (take 16 m) < 2 ^ 128" using le_nat_bound [of "take 16 m"] assms by simp
  then show "le_nat (take 16 m) div 2 ^ 88 < 2 ^ 40" by (simp add: less_mult_imp_div_less)
  have "le_nat (take 16 m) div 2 ^ 64 mod 2 ^ 64 = le_nat (take 16 m) div 2 ^ 64"
    using M by (intro mod_less) (simp add: less_mult_imp_div_less)
  then show "unat (drop_bit 24 (load64le m 8)) = le_nat (take 16 m) div 2 ^ 88"
    using load64le_at [OF assms, of 8] by (simp add: unat_drop_bit_div div_mult2_eq [symmetric])
qed

lemma limbs44_nat:
  assumes "16 \<le> length m"
  shows "map unat (limbs44 (load64le m 0) (load64le m 8)) =
    [le_nat (take 16 m) mod 2 ^ 44, le_nat (take 16 m) div 2 ^ 44 mod 2 ^ 44, le_nat (take 16 m) div 2 ^ 88]"
proof -
  have "unat (load64le m 0 AND 0xfffffffffff) = le_nat (take 16 m) mod 2 ^ 44"
    using load64le_at [OF assms, of 0] by (simp add: unat_and44 mod_mod_cancel)
  moreover have "unat ((drop_bit 44 (load64le m 0) OR push_bit 20 (load64le m 8)) AND 0xfffffffffff)
      = le_nat (take 16 m) div 2 ^ 44 mod 2 ^ 44"
    by (simp add: unat_and44 mid44 [OF assms] mod_mod_cancel)
  moreover have "unat (drop_bit 24 (load64le m 8) AND 0x3ffffffffff) = le_nat (take 16 m) div 2 ^ 88"
    using top44 [OF assms] by (simp add: unat_and42)
  ultimately show ?thesis by (simp add: limbs44_def)
qed

lemma split3:
  fixes x :: nat
  shows "x = x mod 2 ^ 44 + 2 ^ 44 * (x div 2 ^ 44 mod 2 ^ 44) + 2 ^ 88 * (x div 2 ^ 88)"
proof -
  have "x mod 2 ^ 88 = 2 ^ 44 * (x div 2 ^ 44 mod 2 ^ 44) + x mod 2 ^ 44"
    using mod_mult2_eq [of x "2 ^ 44" "2 ^ 44"] by simp
  moreover have "x = 2 ^ 88 * (x div 2 ^ 88) + x mod 2 ^ 88" by simp
  ultimately show ?thesis by linarith
qed

lemma add44_nat:
  assumes "ok44 h" "16 \<le> length m" "hb = (if fin then 0 else 2 ^ 40)"
  shows "val44 (map unat (add44 h m (hibit44 fin))) = val44 (map unat h) + le_nat (take 16 m) + 2 ^ 88 * hb"
    and "okin44 (add44 h m (hibit44 fin))"
proof -
  obtain M where M: "M = le_nat (take 16 m)" by blast
  obtain t0 t1 t2 where T: "limbs44 (load64le m 0) (load64le m 8) = [t0, t1, t2]"
    by (simp add: limbs44_def)
  have t: "unat t0 = M mod 2 ^ 44" "unat t1 = M div 2 ^ 44 mod 2 ^ 44" "unat t2 = M div 2 ^ 88"
    using limbs44_nat [OF assms(2)] by (simp_all add: T M)
  have t2: "M div 2 ^ 88 < 2 ^ 40" using top44(2) [OF assms(2)] by (simp add: M)
  have hi: "unat (t2 OR hibit44 fin) = M div 2 ^ 88 + hb" "hb \<le> 2 ^ 40"
    using assms(3) unat_or_push_bit [of t2 40 1] t2 by (auto simp: hibit44_def t)
  obtain M0 M1 where MM: "M0 = M mod 2 ^ 44" "M1 = M div 2 ^ 44 mod 2 ^ 44" by blast
  have lt: "M0 < 2 ^ 44" "M1 < 2 ^ 44" by (simp_all add: MM)
  have h: "length h = 3" "unat (h ! 0) < 2 ^ 44" "unat (h ! 1) < 2 ^ 44 + 2 ^ 8" "unat (h ! 2) < 2 ^ 42"
    using assms(1) by (auto simp: ok44_def)
  have u0: "unat (h ! 0 + t0) = unat (h ! 0) + M0"
    using h(2) lt(1) by (subst unat_add_small) (simp_all add: t(1) MM)
  have u1: "unat (h ! 1 + t1) = unat (h ! 1) + M1"
    using h(3) lt(2) by (subst unat_add_small) (simp_all add: t(2) MM)
  have u2: "unat (h ! 2 + (t2 OR hibit44 fin)) = unat (h ! 2) + (M div 2 ^ 88 + hb)"
    using h(4) t2 hi by (subst unat_add_small) simp_all
  have eq: "add44 h m (hibit44 fin) = [h ! 0 + t0, h ! 1 + t1, h ! 2 + (t2 OR hibit44 fin)]"
    by (simp add: add44_def T)
  have "okin44 [h ! 0 + t0, h ! 1 + t1, h ! 2 + (t2 OR hibit44 fin)]"
    using h(2-4) lt t2 hi(2) unfolding okin44_def by (simp add: u0 u1 u2 del: One_nat_def)
  then show "okin44 (add44 h m (hibit44 fin))" by (simp only: eq)
  show "val44 (map unat (add44 h m (hibit44 fin))) = val44 (map unat h) + le_nat (take 16 m) + 2 ^ 88 * hb"
    using h(1) split3 [of M, folded MM] unfolding eq M [symmetric] val44_def
    by (simp add: u0 u1 u2 del: One_nat_def)
qed

section \<open>The block function\<close>

lemma block44_nat:
  assumes "ok44 h" "ok44 r" "16 \<le> length m" "hb = (if fin then 0 else 2 ^ 40)"
  shows "ok44 (fe_mul (add44 h m (hibit44 fin)) r)"
    and "val44 (map unat (fe_mul (add44 h m (hibit44 fin)) r)) mod p1305 =
         (val44 (map unat h) + (le_nat (take 16 m) + 2 ^ 88 * hb)) * val44 (map unat r) mod p1305"
  using fe_mul_nat [OF add44_nat(2) [OF assms(1,3,4)] assms(2)] add44_nat(1) [OF assms(1,3,4)]
  by (simp_all add: add.assoc)

lemma blocks44_step:
  "16 \<le> length m \<Longrightarrow> blocks44 hibit r h m = blocks44 hibit r (fe_mul (add44 h m hibit) r) (drop 16 m)"
  "length m < 16 \<Longrightarrow> blocks44 hibit r h m = h"
  by (simp_all add: blocks44.simps [of hibit r h m] fe_mul_def)

lemma blocks44_ok:
  assumes "ok44 r" "ok44 h" "length m = 16 * k"
  shows "ok44 (blocks44 (hibit44 fin) r h m)"
  using assms(2,3)
proof (induction k arbitrary: h m)
  case (Suc k)
  have "ok44 (fe_mul (add44 h m (hibit44 fin)) r)"
    using block44_nat(1) [OF Suc.prems(1) assms(1) _ refl] Suc.prems(2) by simp
  with Suc show ?case by (simp add: blocks44_step)
qed (simp add: blocks44_step)

lemma blocks44_horner:
  assumes "ok44 r" "ok44 h" "length m = 16 * k"
  shows "val44 (map unat (blocks44 (hibit44 False) r h m)) mod p1305
         = horner (val44 (map unat r)) (val44 (map unat h)) m mod p1305"
  using assms(2,3)
proof (induction k arbitrary: h m)
  case (Suc k)
  let ?h = "fe_mul (add44 h m (hibit44 False)) r" and ?r = "val44 (map unat r)"
  have m: "16 \<le> length m" "m \<noteq> []" "length (drop 16 m) = 16 * k" using Suc.prems(2) by auto
  have step: "ok44 ?h" "val44 (map unat ?h) mod p1305
      = (val44 (map unat h) + block_nat (take 16 m)) * ?r mod p1305"
    using block44_nat [OF Suc.prems(1) assms(1) m(1) refl, of False] m(1)
    by (simp_all add: block_nat_def)
  have "val44 (map unat (blocks44 (hibit44 False) r h m)) mod p1305
      = horner ?r (val44 (map unat ?h)) (drop 16 m) mod p1305"
    using Suc.IH [OF step(1) m(3)] m(1) by (simp add: blocks44_step)
  also have "\<dots> = horner ?r ((val44 (map unat h) + block_nat (take 16 m)) * ?r mod p1305) (drop 16 m) mod p1305"
    by (rule horner_cong) (simp add: step(2))
  also have "\<dots> = horner ?r (val44 (map unat h)) m mod p1305"
    using m(2) by (simp add: horner.simps [of ?r _ m])
  finally show ?case .
qed (simp add: blocks44_step)

lemma blocks44_final:
  assumes "ok44 r" "ok44 h" "length m = 16"
  shows "val44 (map unat (blocks44 (hibit44 True) r h m)) mod p1305
         = (val44 (map unat h) + le_nat m) * val44 (map unat r) mod p1305"
  using block44_nat(2) [OF assms(2,1) _ refl, of m True] assms(3)
  by (simp add: blocks44_step)

interpretation p64: poly_absorb poly64_blocks "\<lambda>st. ok44 (ph st) \<and> ok44 (pr st)"
  "\<lambda>st. val44 (map unat (pr st))" "\<lambda>st. val44 (map unat (ph st))"
  by unfold_locales
     (auto simp: poly64_blocks_def blocks44_horner blocks44_final intro!: blocks44_ok)

section \<open>The key\<close>

lemma clamp44_nat:
  assumes "16 \<le> length key"
  shows "ok44 (clamp44 (load64le key 0) (load64le key 8))"
    and "val44 (map unat (clamp44 (load64le key 0) (load64le key 8))) = clamp (le_nat (take 16 key))"
proof -
  let ?C = "0x0ffffffc0ffffffc0ffffffc0fffffff :: nat"
  define K where "K = le_nat (take 16 key)"
  have K: "K < 2 ^ 128" using le_nat_bound [of "take 16 key"] assms by (simp add: K_def)
  have r0: "unat (load64le key 0 AND 0x0ffc0fffffff) = clamp K mod 2 ^ 44"
  proof -
    have "unat (load64le key 0 AND 0x0ffc0fffffff) = K mod 2 ^ 64 AND 0xffc0fffffff"
      using load64le_at [OF assms, of 0] by (simp add: unat_and_nat K_def)
    also have "\<dots> = K AND 0xffc0fffffff" by (rule and_mod_nat(1)) simp
    also have "\<dots> = K mod 2 ^ 44 AND 0xffc0fffffff" by (rule and_mod_nat(1) [symmetric]) simp
    finally show ?thesis using nat_and_limb(1) [of K ?C 0 44] by (simp add: clamp_def)
  qed
  have r1: "unat ((drop_bit 44 (load64le key 0) OR push_bit 20 (load64le key 8)) AND 0x0fffffc0ffff)
      = clamp K div 2 ^ 44 mod 2 ^ 44"
  proof -
    have "unat ((drop_bit 44 (load64le key 0) OR push_bit 20 (load64le key 8)) AND 0x0fffffc0ffff)
        = K div 2 ^ 44 mod 2 ^ 64 AND 0xfffffc0ffff"
      using mid44 [OF assms] by (simp add: unat_and_nat K_def)
    also have "\<dots> = K div 2 ^ 44 AND 0xfffffc0ffff" by (rule and_mod_nat(1)) simp
    also have "\<dots> = K div 2 ^ 44 mod 2 ^ 44 AND 0xfffffc0ffff" by (rule and_mod_nat(1) [symmetric]) simp
    finally show ?thesis using nat_and_limb(1) [of K ?C 44 44] by (simp add: clamp_def)
  qed
  have r2: "unat (drop_bit 24 (load64le key 8) AND 0x00ffffffc0f) = clamp K div 2 ^ 88"
    using top44(1) [OF assms] nat_and_limb(2) [of K ?C 88] by (simp add: clamp_def K_def unat_and_nat)
  have "clamp K div 2 ^ 88 < 2 ^ 42"
    using and_mod_nat(2) [of "0x00ffffffc0f" 42 "K div 2 ^ 88"] nat_and_limb(2) [of K ?C 88]
    by (simp add: clamp_def)
  then show "ok44 (clamp44 (load64le key 0) (load64le key 8))"
    by (simp add: ok44_def clamp44_def r0 r1 r2 numeral_2_eq_2 [symmetric])
  show "val44 (map unat (clamp44 (load64le key 0) (load64le key 8))) = clamp (le_nat (take 16 key))"
    using split3 [of "clamp K"] by (simp add: val44_def clamp44_def r0 r1 r2 K_def [symmetric])
qed

section \<open>The final reduction\<close>

definition red44 :: "u64 list \<Rightarrow> bool" where
  "red44 h \<longleftrightarrow> length h = 3 \<and> unat (h ! 0) < 2 ^ 44 \<and> unat (h ! 1) < 2 ^ 44 \<and> unat (h ! 2) < 2 ^ 42"

lemma red44_ok: "red44 h \<Longrightarrow> ok44 h"
  by (auto simp: ok44_def red44_def)

lemma round3_arith:
  fixes H0 :: nat
  assumes "H1 = m1 + 2 ^ 44 * c1" "H2 + c1 = m2 + 2 ^ 42 * c2" "H0 + c2 * 5 = m0 + 2 ^ 44 * c0"
  shows "H0 + 2 ^ 44 * H1 + 2 ^ 88 * H2 = m0 + 2 ^ 44 * (m1 + c0) + 2 ^ 88 * m2 + (2 ^ 130 - 5) * c2"
  using assms by simp

lemma carry44_round_nat:
  assumes "ok44 h"
  shows "red44 (carry44_round h)"
    and "val44 (map unat (carry44_round h)) mod p1305 = val44 (map unat h) mod p1305"
proof -
  have "length h = 3" using assms by (simp add: ok44_def)
  then obtain h0 h1 h2 where H: "h = [h0, h1, h2]" by (rule list3E)
  obtain H0 H1 H2 where U: "H0 = unat h0" "H1 = unat h1" "H2 = unat h2" by blast
  have lt: "H0 < 2 ^ 44" "H1 < 2 ^ 44 + 2 ^ 8" "H2 < 2 ^ 42" using assms by (simp_all add: ok44_def H U)
  obtain c1 c2 c0 where c: "c1 = H1 div 2 ^ 44" "c2 = (H2 + c1) div 2 ^ 42" "c0 = (H0 + c2 * 5) div 2 ^ 44"
    by blast
  have cb: "c1 \<le> 1" "c2 \<le> 1" "c0 \<le> 1" using lt by (simp_all add: c)
  let ?w1 = "drop_bit 44 h1"
  let ?w2 = "drop_bit 42 (h2 + ?w1)"
  let ?w0 = "drop_bit 44 (h0 + ?w2 * 5)"
  have eq: "carry44_round h = [(h0 + ?w2 * 5) AND 0xfffffffffff, (h1 AND 0xfffffffffff) + ?w0,
      (h2 + ?w1) AND 0x3ffffffffff]"
    by (simp add: carry44_round_def H Let_def)
  have w1: "unat ?w1 = c1" by (simp add: unat_drop_bit_div c U)
  have a2: "unat (h2 + ?w1) = H2 + c1" using lt(3) cb(1) by (subst unat_add_small) (simp_all add: w1 U)
  have w2: "unat ?w2 = c2" by (simp only: unat_drop_bit_div a2 c)
  have a0: "unat (h0 + ?w2 * 5) = H0 + c2 * 5"
  proof -
    have "unat (?w2 * 5) = c2 * 5" using cb(2) by (simp add: unat_mult_small w2)
    with lt(1) cb(2) show ?thesis by (subst unat_add_small) (simp_all add: U)
  qed
  have w0: "unat ?w0 = c0" by (simp only: unat_drop_bit_div a0 c)
  have top: "H1 mod 2 ^ 44 + c0 < 2 ^ 44"
  proof (cases "c0 = 0")
    case False
    then have "2 ^ 44 \<le> H0 + c2 * 5" by (simp add: c(3) div_eq_0_iff)
    then have "c2 \<noteq> 0" using lt(1) by auto
    then have "2 ^ 42 \<le> H2 + c1" by (simp add: c(2) div_eq_0_iff)
    then have "c1 \<noteq> 0" using lt(3) by auto
    then have "2 ^ 44 \<le> H1" by (simp add: c(1) div_eq_0_iff)
    with lt(2) have "H1 mod 2 ^ 44 < 2 ^ 8" by (simp add: le_mod_geq)
    with cb(3) show ?thesis by simp
  qed simp
  have m1: "unat ((h1 AND 0xfffffffffff) + ?w0) = H1 mod 2 ^ 44 + c0"
    using top by (subst unat_add_small) (simp_all add: unat_and44 w0 U)
  have vals: "map unat (carry44_round h) = [(H0 + c2 * 5) mod 2 ^ 44, H1 mod 2 ^ 44 + c0, (H2 + c1) mod 2 ^ 42]"
    by (simp only: eq list.map m1 a0 a2 unat_and44 unat_and42)
  show "red44 (carry44_round h)"
    using top m1 by (simp add: red44_def eq unat_and44 unat_and42)
  have dm: "x = x mod 2 ^ 44 + 2 ^ 44 * (x div 2 ^ 44)" "x = x mod 2 ^ 42 + 2 ^ 42 * (x div 2 ^ 42)"
    for x :: nat by simp_all
  have "val44 (map unat h) = H0 + 2 ^ 44 * H1 + 2 ^ 88 * H2" by (simp add: val44_def H U)
  also have "\<dots> = (H0 + c2 * 5) mod 2 ^ 44 + 2 ^ 44 * (H1 mod 2 ^ 44 + c0) + 2 ^ 88 * ((H2 + c1) mod 2 ^ 42)
      + (2 ^ 130 - 5) * c2"
    unfolding c by (rule round3_arith; rule dm)
  also have "\<dots> = val44 (map unat (carry44_round h)) + p1305 * c2"
    by (simp add: val44_def p1305_def vals)
  finally show "val44 (map unat (carry44_round h)) mod p1305 = val44 (map unat h) mod p1305" by simp
qed

lemma plus3_arith:
  fixes H0 :: nat
  assumes "H0 + 5 = m0 + 2 ^ 44 * c0" "H1 + c0 = m1 + 2 ^ 44 * c1"
  shows "H0 + 2 ^ 44 * H1 + 2 ^ 88 * H2 + 5 = m0 + 2 ^ 44 * m1 + 2 ^ 88 * (H2 + c1)"
  using assms by simp

lemma borrow44:
  assumes "m < 2 ^ 42"
  shows "drop_bit 63 (word_of_nat m - push_bit 42 1 :: u64) = 1"
proof -
  have "(word_of_nat m - push_bit 42 1 :: u64) = word_of_nat (m + (2 ^ 64 - 2 ^ 42))"
    by (simp add: of_nat_diff)
  moreover have "unat (word_of_nat (m + (2 ^ 64 - 2 ^ 42)) :: u64) = m + (2 ^ 64 - 2 ^ 42)"
    using assms by (intro unat_of_nat_small) simp
  moreover have "(m + (2 ^ 64 - 2 ^ 42)) div 2 ^ 63 = 1" using assms by simp
  ultimately have "unat (drop_bit 63 (word_of_nat m - push_bit 42 1 :: u64)) = 1"
    by (simp only: unat_drop_bit_div)
  then show ?thesis by (metis word_eq_of_nat of_nat_1)
qed

lemma select44_mask:
  "length h = 3 \<Longrightarrow> drop_bit 63 (g ! 2) = 1 \<Longrightarrow> select44 h g = h"
  "length g = 3 \<Longrightarrow> drop_bit 63 (g ! 2) = 0 \<Longrightarrow> select44 h g = g"
  using map_nth [of h] map_nth [of g] by (simp_all add: select44_def)

lemma select44_nat:
  assumes "red44 h"
  shows "red44 (select44 h (plus5_44 h))"
    and "val44 (map unat (select44 h (plus5_44 h))) = val44 (map unat h) mod p1305"
proof -
  have len: "length h = 3" using assms by (simp add: red44_def)
  then obtain h0 h1 h2 where H: "h = [h0, h1, h2]" by (rule list3E)
  obtain H0 H1 H2 where U: "H0 = unat h0" "H1 = unat h1" "H2 = unat h2" by blast
  have lt: "H0 < 2 ^ 44" "H1 < 2 ^ 44" "H2 < 2 ^ 42" using assms by (simp_all add: red44_def H U)
  obtain c0 c1 where c: "c0 = (H0 + 5) div 2 ^ 44" "c1 = (H1 + c0) div 2 ^ 44" by blast
  have cb: "c0 \<le> 1" "c1 \<le> 1" using lt by (simp_all add: c)
  let ?w0 = "drop_bit 44 (h0 + 5)"
  let ?w1 = "drop_bit 44 (h1 + ?w0)"
  have a0: "unat (h0 + 5) = H0 + 5" using lt(1) by (subst unat_add_small) (simp_all add: U)
  have w0: "unat ?w0 = c0" by (simp only: unat_drop_bit_div a0 c)
  have a1: "unat (h1 + ?w0) = H1 + c0" using lt(2) cb(1) by (subst unat_add_small) (simp_all add: w0 U)
  have w1: "unat ?w1 = c1" by (simp only: unat_drop_bit_div a1 c)
  have a2: "h2 + ?w1 = word_of_nat (H2 + c1)"
  proof -
    have "unat (h2 + ?w1) = H2 + c1" using lt(3) cb(2) by (subst unat_add_small) (simp_all add: w1 U)
    then show ?thesis by (metis word_eq_of_nat)
  qed
  obtain m0 m1 m2 where m: "m0 = (H0 + 5) mod 2 ^ 44" "m1 = (H1 + c0) mod 2 ^ 44" "m2 = H2 + c1" by blast
  define g0 where "g0 = (h0 + 5) AND 0xfffffffffff"
  define g1 where "g1 = (h1 + ?w0) AND 0xfffffffffff"
  have eq: "plus5_44 h = [g0, g1, word_of_nat m2 - push_bit 42 1]"
    unfolding m(3) a2 [symmetric] by (simp add: plus5_44_def H Let_def g0_def g1_def)
  have g: "unat g0 = m0" "unat g1 = m1" by (simp_all only: g0_def g1_def m a0 a1 unat_and44)
  have mlt: "m0 < 2 ^ 44" "m1 < 2 ^ 44" "m2 \<le> 2 ^ 42" using lt cb by (simp_all add: m)
  have V: "val44 (map unat h) + 5 = m0 + 2 ^ 44 * m1 + 2 ^ 88 * m2"
  proof -
    have "val44 (map unat h) + 5 = H0 + 2 ^ 44 * H1 + 2 ^ 88 * H2 + 5" by (simp add: val44_def H U)
    also have "\<dots> = m0 + 2 ^ 44 * m1 + 2 ^ 88 * m2"
      unfolding m(3) by (rule plus3_arith) (simp_all add: m c)
    finally show ?thesis .
  qed
  have "red44 (select44 h (plus5_44 h)) \<and>
      val44 (map unat (select44 h (plus5_44 h))) = val44 (map unat h) mod p1305"
  proof (cases "m2 < 2 ^ 42")
    case True
    then have "select44 h (plus5_44 h) = h"
      using borrow44 [OF True] select44_mask(1) [OF len, of "plus5_44 h"] by (simp add: eq)
    moreover have "val44 (map unat h) < p1305"
      using V mlt True by (simp add: p1305_def)
    ultimately show ?thesis using assms by simp
  next
    case False
    then have m2: "m2 = 2 ^ 42" using mlt(3) by simp
    then have eq': "plus5_44 h = [g0, g1, 0]" using eq by simp
    then have sel: "select44 h (plus5_44 h) = plus5_44 h"
      using select44_mask(2) [of "plus5_44 h"] by simp
    have "val44 (map unat (plus5_44 h)) + p1305 = val44 (map unat h)"
      using V m2 by (simp add: eq' g val44_def p1305_def)
    moreover have "val44 (map unat (plus5_44 h)) < p1305"
      using mlt by (simp add: eq' g val44_def p1305_def)
    moreover have "red44 (plus5_44 h)"
      using mlt by (simp add: red44_def eq' g)
    ultimately show ?thesis
      unfolding sel by (metis mod_add_self2 mod_less)
  qed
  then show "red44 (select44 h (plus5_44 h))"
    "val44 (map unat (select44 h (plus5_44 h))) = val44 (map unat h) mod p1305" by simp_all
qed

lemma addpad3_arith:
  fixes H0 :: nat
  assumes "H0 + T0 = m0 + 2 ^ 44 * c0" "H1 + (T1 + c0) = m1 + 2 ^ 44 * c1" "H2 + (T2 + c1) = m2 + 2 ^ 42 * c2"
  shows "(H0 + 2 ^ 44 * H1 + 2 ^ 88 * H2) + (T0 + 2 ^ 44 * T1 + 2 ^ 88 * T2) =
    m0 + 2 ^ 44 * m1 + 2 ^ 88 * m2 + 2 ^ 130 * c2"
  using assms by simp

lemma addpad44_nat:
  assumes "red44 h" "red44 t"
  shows "red44 (addpad44 h t)"
    and "val44 (map unat (addpad44 h t)) mod 2 ^ 128 = (val44 (map unat h) + val44 (map unat t)) mod 2 ^ 128"
proof -
  have "length h = 3" using assms(1) by (simp add: red44_def)
  then obtain h0 h1 h2 where H: "h = [h0, h1, h2]" by (rule list3E)
  have "length t = 3" using assms(2) by (simp add: red44_def)
  then obtain t0 t1 t2 where T: "t = [t0, t1, t2]" by (rule list3E)
  obtain H0 H1 H2 where U: "H0 = unat h0" "H1 = unat h1" "H2 = unat h2" by blast
  obtain T0 T1 T2 where W: "T0 = unat t0" "T1 = unat t1" "T2 = unat t2" by blast
  have lt: "H0 < 2 ^ 44" "H1 < 2 ^ 44" "H2 < 2 ^ 42" "T0 < 2 ^ 44" "T1 < 2 ^ 44" "T2 < 2 ^ 42"
    using assms by (simp_all add: red44_def H U T W)
  obtain c0 c1 c2 where c: "c0 = (H0 + T0) div 2 ^ 44" "c1 = (H1 + (T1 + c0)) div 2 ^ 44"
    "c2 = (H2 + (T2 + c1)) div 2 ^ 42" by blast
  have cb: "c0 \<le> 1" "c1 \<le> 1" using lt by (simp_all add: c)
  let ?w0 = "drop_bit 44 (h0 + t0)"
  let ?w1 = "drop_bit 44 (h1 + (t1 + ?w0))"
  have eq: "addpad44 h t = [(h0 + t0) AND 0xfffffffffff, (h1 + (t1 + ?w0)) AND 0xfffffffffff,
      (h2 + (t2 + ?w1)) AND 0x3ffffffffff]"
    by (simp add: addpad44_def H T Let_def)
  have a0: "unat (h0 + t0) = H0 + T0" using lt by (subst unat_add_small) (simp_all add: U W)
  have w0: "unat ?w0 = c0" by (simp only: unat_drop_bit_div a0 c)
  have b1: "unat (t1 + ?w0) = T1 + c0" using lt(5) cb(1) by (subst unat_add_small) (simp_all add: w0 W)
  have a1: "unat (h1 + (t1 + ?w0)) = H1 + (T1 + c0)"
    using lt(2,5) cb(1) by (subst unat_add_small) (simp_all add: b1 U)
  have w1: "unat ?w1 = c1" by (simp only: unat_drop_bit_div a1 c)
  have b2: "unat (t2 + ?w1) = T2 + c1" using lt(6) cb(2) by (subst unat_add_small) (simp_all add: w1 W)
  have a2: "unat (h2 + (t2 + ?w1)) = H2 + (T2 + c1)"
    using lt(3,6) cb(2) by (subst unat_add_small) (simp_all add: b2 U)
  have vals: "map unat (addpad44 h t) =
      [(H0 + T0) mod 2 ^ 44, (H1 + (T1 + c0)) mod 2 ^ 44, (H2 + (T2 + c1)) mod 2 ^ 42]"
    by (simp only: eq list.map a0 a1 a2 unat_and44 unat_and42)
  show "red44 (addpad44 h t)" by (simp add: red44_def eq unat_and44 unat_and42)
  have "val44 (map unat h) + val44 (map unat t) = (H0 + 2 ^ 44 * H1 + 2 ^ 88 * H2) + (T0 + 2 ^ 44 * T1 + 2 ^ 88 * T2)"
    by (simp add: val44_def H T U W)
  also have "\<dots> = (H0 + T0) mod 2 ^ 44 + 2 ^ 44 * ((H1 + (T1 + c0)) mod 2 ^ 44)
      + 2 ^ 88 * ((H2 + (T2 + c1)) mod 2 ^ 42) + 2 ^ 130 * c2"
    by (rule addpad3_arith) (simp_all add: c)
  also have "\<dots> = val44 (map unat (addpad44 h t)) + 2 ^ 128 * (4 * c2)"
    by (simp add: val44_def vals)
  finally show "val44 (map unat (addpad44 h t)) mod 2 ^ 128 = (val44 (map unat h) + val44 (map unat t)) mod 2 ^ 128"
    by (simp only: mod_mult_self2)
qed

lemma pack3_arith:
  fixes H0 :: nat
  assumes "H1 = b1 + 2 ^ 20 * t1" "H2 = b2 + 2 ^ 40 * t2"
  shows "H0 + 2 ^ 44 * H1 + 2 ^ 88 * H2 = (H0 + b1 * 2 ^ 44) + 2 ^ 64 * (t1 + b2 * 2 ^ 24) + 2 ^ 128 * t2"
  using assms by simp

lemma pack44_nat:
  assumes "red44 h"
  shows "concat (map u64to8 (pack44 h)) = le_bytes 16 (val44 (map unat h) mod 2 ^ 128)"
proof -
  have "length h = 3" using assms by (simp add: red44_def)
  then obtain h0 h1 h2 where H: "h = [h0, h1, h2]" by (rule list3E)
  obtain H0 H1 H2 where U: "H0 = unat h0" "H1 = unat h1" "H2 = unat h2" by blast
  have lt: "H0 < 2 ^ 44" "H1 < 2 ^ 44" "H2 < 2 ^ 42" using assms by (simp_all add: red44_def H U)
  let ?x = "h0 OR push_bit 44 h1" and ?y = "drop_bit 20 h1 OR push_bit 24 h2"
  have x: "unat ?x = H0 + H1 mod 2 ^ 20 * 2 ^ 44"
    using unat_or_push_bit_mod [of h0 44 h1] lt(1) by (simp add: U)
  have y: "unat ?y = H1 div 2 ^ 20 + H2 mod 2 ^ 40 * 2 ^ 24"
    using unat_or_push_bit_mod [of "drop_bit 20 h1" 24 h2] lt(2)
    by (simp add: U unat_drop_bit_div less_mult_imp_div_less)
  have "val44 (map unat h) = H0 + 2 ^ 44 * H1 + 2 ^ 88 * H2" by (simp add: val44_def H U)
  also have "\<dots> = (unat ?x + 2 ^ 64 * unat ?y) + 2 ^ 128 * (H2 div 2 ^ 40)"
    unfolding x y by (rule pack3_arith) simp_all
  finally have v: "val44 (map unat h) mod 2 ^ 128 = (unat ?x + 2 ^ 64 * unat ?y) mod 2 ^ 128" by simp
  let ?bs = "concat (map u64to8 (pack44 h))"
  have "unat ?x + 2 ^ 64 * unat ?y < 2 ^ 128"
    using unsigned_less [of ?x, where 'a = nat] unsigned_less [of ?y, where 'a = nat] by simp
  then have "le_nat ?bs = val44 (map unat h) mod 2 ^ 128"
    unfolding v by (simp add: pack44_def H le_nat_append)
  moreover have "length ?bs = 16" by (simp add: pack44_def H)
  ultimately show ?thesis using le_bytes_le_nat [of ?bs 16] by simp
qed

lemma pad44_nat:
  assumes "length key = 32"
  shows "red44 (limbs44 (load64le key 16) (load64le key 24))"
    and "val44 (map unat (limbs44 (load64le key 16) (load64le key 24))) = le_nat (take 16 (drop 16 key))"
proof -
  obtain P where P: "P = le_nat (take 16 (drop 16 key))" by blast
  have ld: "load64le key 16 = load64le (drop 16 key) 0" "load64le key 24 = load64le (drop 16 key) 8"
    using assms by (simp_all add: load64le_def)
  have len: "16 \<le> length (drop 16 key)" using assms by simp
  have vals: "map unat (limbs44 (load64le key 16) (load64le key 24)) =
      [P mod 2 ^ 44, P div 2 ^ 44 mod 2 ^ 44, P div 2 ^ 88]"
    unfolding ld P by (rule limbs44_nat [OF len])
  have "P div 2 ^ 88 < 2 ^ 40" using top44(2) [OF len] by (simp add: P)
  then have "list_all2 (<) (map unat (limbs44 (load64le key 16) (load64le key 24))) [2 ^ 44, 2 ^ 44, 2 ^ 42]"
    unfolding vals by simp
  then show "red44 (limbs44 (load64le key 16) (load64le key 24))"
    by (simp add: red44_def limbs44_def)
  show "val44 (map unat (limbs44 (load64le key 16) (load64le key 24))) = le_nat (take 16 (drop 16 key))"
    using split3 [of P] unfolding vals by (simp add: val44_def P)
qed

lemma tag44_nat:
  assumes "red44 h" "length key = 32"
  shows "tag44 h [load64le key 16, load64le key 24] =
    le_bytes 16 ((val44 (map unat h) mod p1305 + le_nat (take 16 (drop 16 key))) mod 2 ^ 128)"
proof -
  define g where "g = select44 h (plus5_44 h)"
  note g = select44_nat [OF assms(1), folded g_def]
  note a = addpad44_nat [OF g(1) pad44_nat(1) [OF assms(2)]]
  show ?thesis
    by (simp only: tag44_def Let_def nth_Cons_0 nth_Cons_Suc One_nat_def g_def [symmetric]
        pack44_nat [OF a(1)] a(2) g(2) pad44_nat(2) [OF assms(2)])
qed

lemma init64_absorbed:
  assumes "length key = 32" "length (buffer st) = 16"
  shows "p64.absorbed (poly64_init st key) (clamp (le_nat (take 16 key))) [] []"
  using assms clamp44_nat [of key]
  by (simp add: p64.absorbed_def poly64_init_def) (simp add: ok44_def val44_def)

lemma poly64_stream:
  assumes "length key = 32" "length (buffer st) = 16"
  shows "poly64_finish (foldl poly64_update (poly64_init st key) ms) = poly1305_mac key (concat ms)"
proof -
  define st' where "st' = foldl poly64_update (poly64_init st key) ms"
  obtain M b where ab: "p64.absorbed st' (clamp (le_nat (take 16 key))) M b" "M @ b = concat ms"
    using p64.updates_absorbed [OF init64_absorbed [OF assms], of ms] by (auto simp: poly64_update_def st'_def)
  have pad: "pad st' = [load64le key 16, load64le key 24]"
    by (simp add: st'_def poly64_update_def p64.updates_pad) (simp add: poly64_init_def)
  define h where "h = ph (poly_flush poly64_blocks st')"
  have h: "ok44 h" "val44 (map unat h) mod p1305 = horner (clamp (le_nat (take 16 key))) 0 (concat ms) mod p1305"
    using p64.flush_absorbed [OF ab(1)] ab(2) by (simp_all add: h_def)
  note r1 = carry44_round_nat [OF h(1)]
  note r2 = carry44_round_nat [OF red44_ok [OF r1(1)]]
  have "poly64_finish st' = tag44 (carry44_round (carry44_round h)) [load64le key 16, load64le key 24]"
    using p64.flush_absorbed(2) [OF ab(1)] by (simp add: poly64_finish_def Let_def pad h_def)
  then show ?thesis
    by (simp add: tag44_nat [OF r2(1) assms(1)] r2(2) r1(2) h(2) poly1305_mac_def flip: st'_def)
qed

section \<open>Four accumulators compute the same polynomial\<close>

abbreviation V44 :: "u64 list \<Rightarrow> nat" where
  "V44 x \<equiv> val44 (map unat x)"

definition comb4 :: "nat \<Rightarrow> nat list \<Rightarrow> nat" where
  "comb4 R v = v ! 0 * R ^ 4 + v ! 1 * R ^ 3 + v ! 2 * R ^ 2 + v ! 3 * R"

lemma horner_block: "length b = 16 \<Longrightarrow> horner r a b = (a + block_nat b) * r mod p1305"
  using horner.simps [of r a b] by (cases "b = []") simp_all

lemma mod_step: "((x :: nat) mod p + b) * R mod p = (x + b) * R mod p"
  by (metis mod_add_left_eq mod_mult_left_eq)

lemma horner_64:
  assumes "64 \<le> length m"
  shows "horner R a (take 64 m) mod p1305 =
    (a * R ^ 4 + comb4 R (map (\<lambda>l. block_nat (take 16 (drop (l * 16) m))) [0..<4])) mod p1305"
proof -
  let ?b = "\<lambda>l. take 16 (drop (l * 16) m)"
  have "take 64 m = ?b 0 @ ?b 1 @ ?b 2 @ ?b 3"
    using take_add [of 16 48 m] take_add [of 16 32 "drop 16 m"] take_add [of 16 16 "drop 32 m"] by simp
  moreover have len: "length (?b l) = 16" if "l < 4" for l using assms that by simp
  ultimately have "horner R a (take 64 m) = horner R (horner R (horner R (horner R a (?b 0)) (?b 1)) (?b 2)) (?b 3)"
    using len [of 0] len [of 1] len [of 2] by (simp add: horner_append [of _ 1])
  also have "\<dots> mod p1305 =
      ((((a + block_nat (?b 0)) * R + block_nat (?b 1)) * R + block_nat (?b 2)) * R + block_nat (?b 3)) * R mod p1305"
    using len [of 0] len [of 1] len [of 2] len [of 3] by (simp add: horner_block mod_step del: mult_zero_left)
  also have "((((a + block_nat (?b 0)) * R + block_nat (?b 1)) * R + block_nat (?b 2)) * R + block_nat (?b 3)) * R =
      a * R ^ 4 + comb4 R (map (\<lambda>l. block_nat (?b l)) [0..<4])"
    by (simp add: comb4_def algebra_simps power4_eq_xxxx power3_eq_cube power2_eq_square)
  finally show ?thesis .
qed

lemma comb4_cong:
  assumes "\<And>l. l < 4 \<Longrightarrow> v ! l mod p1305 = w ! l mod p1305"
  shows "comb4 R v mod p1305 = comb4 R w mod p1305"
  unfolding comb4_def
  by (intro mod_add_cong mod_mult_cong assms refl) simp_all

lemma comb4_step:
  "length v = 4 \<Longrightarrow> length b = 4 \<Longrightarrow> comb4 R (map2 (\<lambda>x y. x * R ^ 4 + y) v b) = comb4 R v * R ^ 4 + comb4 R b"
  by (simp add: comb4_def algebra_simps)

definition okacc :: "u64 list list \<Rightarrow> bool" where
  "okacc acc \<longleftrightarrow> length acc = 4 \<and> (\<forall>l<4. okin44 (acc ! l))"

lemma x4_group_nat:
  assumes "okacc acc" "ok44 r4" "V44 r4 mod p1305 = R ^ 4 mod p1305" "64 \<le> length m"
  shows "okacc (x4_group r4 acc m)"
    and "comb4 R (map V44 (x4_group r4 acc m)) mod p1305 = horner R (comb4 R (map V44 acc)) (take 64 m) mod p1305"
proof -
  let ?b = "\<lambda>l. block_nat (take 16 (drop (l * 16) m))"
  have lane: "okin44 (x4_lane r4 (acc ! l) (drop (l * 16) m))"
    "V44 (x4_lane r4 (acc ! l) (drop (l * 16) m)) mod p1305 = (V44 (acc ! l) * R ^ 4 + ?b l) mod p1305"
    if "l < 4" for l
  proof -
    have len: "16 \<le> length (drop (l * 16) m)" using assms(4) that by simp
    have a: "okin44 (acc ! l)" using assms(1) that by (simp add: okacc_def)
    note f = fe_mul_nat [OF a assms(2)]
    note g = add44_nat [OF f(1) len refl, of False]
    show "okin44 (x4_lane r4 (acc ! l) (drop (l * 16) m))" using g(2) by (simp add: x4_lane_def)
    have "V44 (x4_lane r4 (acc ! l) (drop (l * 16) m)) = V44 (fe_mul (acc ! l) r4) + ?b l"
      using g(1) len by (simp add: x4_lane_def block_nat_def)
    also have "\<dots> mod p1305 = (V44 (acc ! l) * R ^ 4 + ?b l) mod p1305"
    proof (rule mod_add_cong)
      show "V44 (fe_mul (acc ! l) r4) mod p1305 = V44 (acc ! l) * R ^ 4 mod p1305"
        unfolding f(2) by (rule mod_mult_cong) (simp_all add: assms(3))
    qed simp
    finally show "V44 (x4_lane r4 (acc ! l) (drop (l * 16) m)) mod p1305 = (V44 (acc ! l) * R ^ 4 + ?b l) mod p1305" .
  qed
  show "okacc (x4_group r4 acc m)" using lane(1) by (simp add: okacc_def x4_group_def)
  have "comb4 R (map V44 (x4_group r4 acc m)) mod p1305
      = comb4 R (map2 (\<lambda>x y. x * R ^ 4 + y) (map V44 acc) (map ?b [0..<4])) mod p1305"
    by (rule comb4_cong) (use lane(2) assms(1) in \<open>simp add: x4_group_def okacc_def\<close>)
  also have "\<dots> = (comb4 R (map V44 acc) * R ^ 4 + comb4 R (map ?b [0..<4])) mod p1305"
    using assms(1) by (subst comb4_step) (simp_all add: okacc_def)
  finally show "comb4 R (map V44 (x4_group r4 acc m)) mod p1305 = horner R (comb4 R (map V44 acc)) (take 64 m) mod p1305"
    by (simp only: horner_64 [OF assms(4)])
qed

lemma x4_groups_nat:
  assumes "ok44 r4" "V44 r4 mod p1305 = R ^ 4 mod p1305" "okacc acc"
  shows "\<exists>k acc'. x4_groups r4 acc m = (acc', drop (64 * k) m) \<and> okacc acc' \<and> 64 * k \<le> length m
    \<and> comb4 R (map V44 acc') mod p1305 = horner R (comb4 R (map V44 acc)) (take (64 * k) m) mod p1305"
  using assms
proof (induction r4 acc m rule: x4_groups.induct)
  case (1 r4 acc m)
  show ?case
  proof (cases "64 \<le> length m")
    case True
    note g = x4_group_nat [OF "1.prems"(3,1,2) True]
    obtain k acc' where k: "x4_groups r4 (x4_group r4 acc m) (drop 64 m) = (acc', drop (64 * k) (drop 64 m))"
      "okacc acc'" "64 * k \<le> length (drop 64 m)"
      "comb4 R (map V44 acc') mod p1305 =
        horner R (comb4 R (map V44 (x4_group r4 acc m))) (take (64 * k) (drop 64 m)) mod p1305"
      using "1.IH" [OF True "1.prems"(1,2) g(1)] by blast
    have "comb4 R (map V44 acc') mod p1305 =
        horner R (horner R (comb4 R (map V44 acc)) (take 64 m)) (take (64 * k) (drop 64 m)) mod p1305"
      unfolding k(4) by (rule horner_cong [OF g(2)])
    also have "\<dots> = horner R (comb4 R (map V44 acc)) (take (64 * Suc k) m) mod p1305"
      using True by (simp add: take_add horner_append [of _ 4])
    finally have "comb4 R (map V44 acc') mod p1305 = horner R (comb4 R (map V44 acc)) (take (64 * Suc k) m) mod p1305" .
    moreover have "x4_groups r4 acc m = (acc', drop (64 * Suc k) m)"
      using True k(1) by (simp add: x4_groups.simps [of r4 acc m] add.commute)
    moreover have "64 * Suc k \<le> length m" using k(3) True by simp
    ultimately show ?thesis using k(2) by blast
  next
    case False
    then show ?thesis using "1.prems"
      by (intro exI [of _ 0] exI [of _ acc]) (simp add: x4_groups.simps [of r4 acc m])
  qed
qed

lemma sum3_arith:
  fixes H0 :: nat
  assumes "H0 = m0 + 2 ^ 44 * c0" "H1 + c0 = m1 + 2 ^ 44 * c1" "H2 + c1 = m2 + 2 ^ 42 * c2"
    "m0 + c2 * 5 = f0 + 2 ^ 44 * f1"
  shows "H0 + 2 ^ 44 * H1 + 2 ^ 88 * H2 = f0 + 2 ^ 44 * (m1 + f1) + 2 ^ 88 * m2 + (2 ^ 130 - 5) * c2"
  using assms by (rule carry3_arith)

lemma sum_limb:
  fixes a b c d :: u64
  assumes "unat a < 2 ^ 45" "unat b < 2 ^ 45" "unat c < 2 ^ 45" "unat d < 2 ^ 45"
  shows "unat (a + b + c + d) = unat a + unat b + unat c + unat d"
proof -
  have "a + b + c + d = word_of_nat (unat a + unat b + unat c + unat d)" by simp
  then show ?thesis using assms unat_of_nat_small [of "unat a + unat b + unat c + unat d", where 'a = 64] by simp
qed

lemma x4_sum_nat:
  assumes "ok44 x" "ok44 y" "ok44 z" "ok44 w"
  shows "ok44 (x4_sum [x, y, z, w])"
    and "V44 (x4_sum [x, y, z, w]) mod p1305 = (V44 x + V44 y + V44 z + V44 w) mod p1305"
proof -
  define s0 where "s0 = x ! 0 + y ! 0 + z ! 0 + w ! 0"
  define s1 where "s1 = x ! 1 + y ! 1 + z ! 1 + w ! 1"
  define s2 where "s2 = x ! 2 + y ! 2 + z ! 2 + w ! 2"
  have b: "unat (h ! 0) < 2 ^ 44" "unat (h ! 1) < 2 ^ 44 + 2 ^ 8" "unat (h ! 2) < 2 ^ 42" "length h = 3"
    if "h \<in> {x, y, z, w}" for h using that assms by (auto simp: ok44_def)
  obtain S0 S1 S2 where S: "S0 = unat (x ! 0) + unat (y ! 0) + unat (z ! 0) + unat (w ! 0)"
    "S1 = unat (x ! 1) + unat (y ! 1) + unat (z ! 1) + unat (w ! 1)"
    "S2 = unat (x ! 2) + unat (y ! 2) + unat (z ! 2) + unat (w ! 2)" by blast
  have bx: "unat (x ! 0) < 2 ^ 44" "unat (x ! 1) < 2 ^ 44 + 2 ^ 8" "unat (x ! 2) < 2 ^ 42" using b [of x] by simp_all
  have by': "unat (y ! 0) < 2 ^ 44" "unat (y ! 1) < 2 ^ 44 + 2 ^ 8" "unat (y ! 2) < 2 ^ 42" using b [of y] by simp_all
  have bz: "unat (z ! 0) < 2 ^ 44" "unat (z ! 1) < 2 ^ 44 + 2 ^ 8" "unat (z ! 2) < 2 ^ 42" using b [of z] by simp_all
  have bw: "unat (w ! 0) < 2 ^ 44" "unat (w ! 1) < 2 ^ 44 + 2 ^ 8" "unat (w ! 2) < 2 ^ 42" using b [of w] by simp_all
  have u: "unat s0 = S0" "unat s1 = S1" "unat s2 = S2"
    unfolding s0_def s1_def s2_def S using bx by' bz bw by (simp_all add: sum_limb)
  have lt: "S0 < 2 ^ 46" "S1 < 2 ^ 46 + 2 ^ 10" "S2 < 2 ^ 44" unfolding S using bx by' bz bw by simp_all
  obtain c0 c1 c2 F where c: "c0 = S0 div 2 ^ 44" "c1 = (S1 + c0) div 2 ^ 44" "c2 = (S2 + c1) div 2 ^ 42"
    "F = S0 mod 2 ^ 44 + c2 * 5" by blast
  have cb: "c0 \<le> 3" using lt(1) by (simp add: c(1))
  have cb1: "c1 \<le> 4" using lt(2) cb by (simp add: c(2))
  have cb2: "c2 \<le> 4" using lt(3) cb1 by (simp add: c(3))
  let ?w0 = "drop_bit 44 s0"
  let ?w1 = "drop_bit 44 (s1 + ?w0)"
  let ?w2 = "drop_bit 42 (s2 + ?w1)"
  let ?f = "(s0 AND 0xfffffffffff) + ?w2 * 5"
  have eq: "x4_sum [x, y, z, w] = [?f AND 0xfffffffffff, ((s1 + ?w0) AND 0xfffffffffff) + drop_bit 44 ?f,
      (s2 + ?w1) AND 0x3ffffffffff]"
    by (simp add: x4_sum_def Let_def s0_def s1_def s2_def)
  have w0: "unat ?w0 = c0" by (simp only: unat_drop_bit_div u c)
  have a1: "unat (s1 + ?w0) = S1 + c0" using lt(2) cb by (subst unat_add_small) (simp_all add: w0 u)
  have w1: "unat ?w1 = c1" by (simp only: unat_drop_bit_div a1 c)
  have a2: "unat (s2 + ?w1) = S2 + c1" using lt(3) cb1 by (subst unat_add_small) (simp_all add: w1 u)
  have w2: "unat ?w2 = c2" by (simp only: unat_drop_bit_div a2 c)
  have "S0 mod 2 ^ 44 < 2 ^ 44" by simp
  then have Fb: "F < 2 ^ 44 + 32" using cb2 unfolding c(4) by linarith
  have uf: "unat ?f = F"
  proof -
    have "unat (?w2 * 5) = c2 * 5" using cb2 by (simp add: unat_mult_small w2)
    with Fb show ?thesis by (subst unat_add_small) (simp_all add: unat_and44 u c(4))
  qed
  have Fq: "F div 2 ^ 44 \<le> 1" using Fb by simp
  have h1: "unat (((s1 + ?w0) AND 0xfffffffffff) + drop_bit 44 ?f) = (S1 + c0) mod 2 ^ 44 + F div 2 ^ 44"
  proof -
    have "(S1 + c0) mod 2 ^ 44 < 2 ^ 44" by simp
    with Fq show ?thesis
      by (subst unat_add_small) (simp_all only: unat_and44 unat_drop_bit_div uf a1, simp)
  qed
  have vals: "map unat (x4_sum [x, y, z, w]) =
      [F mod 2 ^ 44, (S1 + c0) mod 2 ^ 44 + F div 2 ^ 44, (S2 + c1) mod 2 ^ 42]"
    by (simp only: eq list.map h1 uf a2 unat_and44 unat_and42)
  have "list_all2 (<) (map unat (x4_sum [x, y, z, w])) [2 ^ 44, 2 ^ 44 + 2 ^ 8, 2 ^ 42]"
  proof -
    have "(S1 + c0) mod 2 ^ 44 + F div 2 ^ 44 < 2 ^ 44 + 2 ^ 8"
      by (rule add_less_mono) (use Fq in simp_all)
    then show ?thesis unfolding vals by simp
  qed
  then show "ok44 (x4_sum [x, y, z, w])"
    by (simp add: ok44_def eq)
  have "V44 x + V44 y + V44 z + V44 w = S0 + 2 ^ 44 * S1 + 2 ^ 88 * S2"
    using b(4) [of x] b(4) [of y] b(4) [of z] b(4) [of w]
    by (simp add: val44_def S distrib_left del: One_nat_def)
  also have "\<dots> = F mod 2 ^ 44 + 2 ^ 44 * ((S1 + c0) mod 2 ^ 44 + F div 2 ^ 44) + 2 ^ 88 * ((S2 + c1) mod 2 ^ 42)
      + (2 ^ 130 - 5) * c2"
    by (rule carry3_arith [of S0 "S0 mod 2 ^ 44" c0 S1 _ c1]) (simp_all only: c, simp_all)
  also have "\<dots> = V44 (x4_sum [x, y, z, w]) + p1305 * c2"
    by (simp add: val44_def p1305_def vals)
  finally show "V44 (x4_sum [x, y, z, w]) mod p1305 = (V44 x + V44 y + V44 z + V44 w) mod p1305" by simp
qed

lemma x4_serial_nat:
  assumes "ok44 r" "ok44 h"
  shows "ok44 (x4_serial r h m)"
    and "V44 (x4_serial r h m) mod p1305 = horner (V44 r) (V44 h) m mod p1305"
proof -
  have "ok44 (x4_serial r h m) \<and> V44 (x4_serial r h m) mod p1305 = horner (V44 r) (V44 h) m mod p1305"
    using assms
  proof (induction r h m rule: x4_serial.induct)
    case (1 r h m)
    show ?case
    proof (cases "m = []")
      case True
      then show ?thesis using "1.prems" by (simp add: x4_serial.simps [of r h "[]"])
    next
      case False
      define n where "n = (if length m < 16 then length m else 16)"
      define b where "b = (if n = 16 then m else take n m @ [1] @ replicate (15 - n) 0)"
      define h' where "h' = fe_mul (add44 h b (hibit44 (n \<noteq> 16))) r"
      have ser: "x4_serial r h m = x4_serial r h' (drop n m)"
        using False by (simp only: x4_serial.simps [of r h m] Let_def h'_def b_def n_def if_False)
      have len: "16 \<le> length b" by (auto simp: b_def n_def)
      have blk: "le_nat (take 16 b) + 2 ^ 88 * (if n \<noteq> 16 then 0 else 2 ^ 40) = block_nat (take 16 m)"
      proof (cases "n = 16")
        case True
        then have "16 \<le> length m" by (simp add: n_def split: if_splits)
        with True show ?thesis by (simp add: b_def block_nat_def)
      next
        case sm: False
        then have n: "n = length m" "length m < 16" by (auto simp: n_def split: if_splits)
        have zeros: "le_nat (replicate k 0) = 0" for k by (induction k) auto
        have "b = m @ 1 # replicate (15 - length m) 0" "length b = 16" using sm n by (auto simp: b_def)
        with sm n show ?thesis by (simp add: block_nat_def le_nat_append zeros)
      qed
      note st = block44_nat [OF "1.prems"(2,1) len refl, of "n \<noteq> 16", folded h'_def]
      have h': "V44 h' mod p1305 = (V44 h + block_nat (take 16 m)) * V44 r mod p1305"
        using st(2) unfolding blk by simp
      have IH: "ok44 (x4_serial r h' (drop n m)) \<and>
          V44 (x4_serial r h' (drop n m)) mod p1305 = horner (V44 r) (V44 h') (drop n m) mod p1305"
        using "1.IH" [OF False n_def b_def refl "1.prems"(1)] st(1) unfolding h'_def by blast
      have dr: "drop n m = drop 16 m" by (simp add: n_def)
      have "horner (V44 r) (V44 h') (drop n m) mod p1305
          = horner (V44 r) ((V44 h + block_nat (take 16 m)) * V44 r mod p1305) (drop 16 m) mod p1305"
        unfolding dr by (rule horner_cong) (simp add: h')
      also have "\<dots> = horner (V44 r) (V44 h) m mod p1305"
        using False by (simp add: horner.simps [of "V44 r" "V44 h" m])
      finally show ?thesis using IH ser by simp
    qed
  qed
  then show "ok44 (x4_serial r h m)"
    "V44 (x4_serial r h m) mod p1305 = horner (V44 r) (V44 h) m mod p1305" by simp_all
qed

lemma powers44:
  assumes "ok44 r"
  defines "r2 \<equiv> fe_mul r r"
  defines "r3 \<equiv> fe_mul r2 r" and "r4 \<equiv> fe_mul r2 r2"
  shows "ok44 r2" "ok44 r3" "ok44 r4" "V44 r2 mod p1305 = V44 r ^ 2 mod p1305"
    "V44 r3 mod p1305 = V44 r ^ 3 mod p1305" "V44 r4 mod p1305 = V44 r ^ 4 mod p1305"
proof -
  note r2 = fe_mul_nat [OF ok44_in [OF assms(1)] assms(1), folded r2_def]
  note r3 = fe_mul_nat [OF ok44_in [OF r2(1)] assms(1), folded r3_def]
  note r4 = fe_mul_nat [OF ok44_in [OF r2(1)] r2(1), folded r4_def]
  show "ok44 r2" "ok44 r3" "ok44 r4" by (fact r2(1) r3(1) r4(1))+
  show e2: "V44 r2 mod p1305 = V44 r ^ 2 mod p1305" using r2(2) by (simp add: power2_eq_square)
  have "V44 r2 * V44 r mod p1305 = V44 r ^ 2 * V44 r mod p1305" by (rule mod_mult_cong [OF e2 refl])
  then show "V44 r3 mod p1305 = V44 r ^ 3 mod p1305"
    using r3(2) by (simp add: power3_eq_cube power2_eq_square mult.assoc)
  have "V44 r2 * V44 r2 mod p1305 = V44 r ^ 2 * V44 r ^ 2 mod p1305" by (rule mod_mult_cong [OF e2 e2])
  then show "V44 r4 mod p1305 = V44 r ^ 4 mod p1305"
    using r4(2) by (simp add: power4_eq_xxxx power2_eq_square mult.assoc)
qed

lemma x4_combine_nat:
  assumes "ok44 r" "okacc acc"
  shows "ok44 (x4_combine r (fe_mul r r) (fe_mul (fe_mul r r) r) (fe_mul (fe_mul r r) (fe_mul r r)) acc)"
    and "V44 (x4_combine r (fe_mul r r) (fe_mul (fe_mul r r) r) (fe_mul (fe_mul r r) (fe_mul r r)) acc) mod p1305
       = comb4 (V44 r) (map V44 acc) mod p1305"
proof -
  note p = powers44 [OF assms(1)]
  have a: "okin44 (acc ! 0)" "okin44 (acc ! 1)" "okin44 (acc ! 2)" "okin44 (acc ! 3)"
    using assms(2) by (simp_all add: okacc_def)
  note f0 = fe_mul_nat [OF a(1) p(3)] and f1 = fe_mul_nat [OF a(2) p(2)]
    and f2 = fe_mul_nat [OF a(3) p(1)] and f3 = fe_mul_nat [OF a(4) assms(1)]
  note s = x4_sum_nat [OF f0(1) f1(1) f2(1) f3(1)]
  show "ok44 (x4_combine r (fe_mul r r) (fe_mul (fe_mul r r) r) (fe_mul (fe_mul r r) (fe_mul r r)) acc)"
    unfolding x4_combine_def by (rule s(1))
  have "map V44 acc ! l = V44 (acc ! l)" if "l < 4" for l using that assms(2) by (simp add: okacc_def)
  then have "comb4 (V44 r) (map V44 acc) =
      V44 (acc ! 0) * V44 r ^ 4 + V44 (acc ! 1) * V44 r ^ 3 + V44 (acc ! 2) * V44 r ^ 2 + V44 (acc ! 3) * V44 r"
    by (simp add: comb4_def)
  also have "\<dots> mod p1305 = (V44 (fe_mul (acc ! 0) (fe_mul (fe_mul r r) (fe_mul r r)))
      + V44 (fe_mul (acc ! 1) (fe_mul (fe_mul r r) r)) + V44 (fe_mul (acc ! 2) (fe_mul r r))
      + V44 (fe_mul (acc ! 3) r)) mod p1305"
    by (intro mod_add_cong; simp only: f0(2) f1(2) f2(2) f3(2); rule mod_mult_cong [OF refl])
       (simp_all only: p)
  finally show "V44 (x4_combine r (fe_mul r r) (fe_mul (fe_mul r r) r) (fe_mul (fe_mul r r) (fe_mul r r)) acc) mod p1305
       = comb4 (V44 r) (map V44 acc) mod p1305"
    unfolding x4_combine_def s(2) by simp
qed

lemma poly1305_x4_mac:
  assumes "length key = 32"
  shows "poly1305_x4 key m = poly1305_mac key m"
proof -
  define r where "r = clamp44 (load64le key 0) (load64le key 8)"
  define r2 where "r2 = fe_mul r r"
  define r3 where "r3 = fe_mul r2 r"
  define r4 where "r4 = fe_mul r2 r2"
  have r: "ok44 r" "V44 r = clamp (le_nat (take 16 key))"
    using clamp44_nat [of key] assms by (simp_all add: r_def)
  have r4: "ok44 r4" "V44 r4 mod p1305 = V44 r ^ 4 mod p1305"
    using powers44 [OF r(1)] by (simp_all add: r4_def r2_def)
  have z: "okacc (replicate 4 [0, 0, 0])" "comb4 (V44 r) (map V44 (replicate 4 [0, 0, 0])) = 0"
    by (simp_all add: okacc_def okin44_def comb4_def val44_def)
  obtain k acc where g: "x4_groups r4 (replicate 4 [0, 0, 0]) m = (acc, drop (64 * k) m)" "okacc acc"
    "64 * k \<le> length m" "comb4 (V44 r) (map V44 acc) mod p1305 = horner (V44 r) 0 (take (64 * k) m) mod p1305"
    using x4_groups_nat [OF r4 z(1), of m] unfolding z(2) by blast
  define h where "h = x4_serial r (x4_combine r r2 r3 r4 acc) (drop (64 * k) m)"
  note c = x4_combine_nat [OF r(1) g(2), folded r2_def, folded r3_def r4_def]
  note s = x4_serial_nat [OF r(1) c(1), of "drop (64 * k) m", folded h_def]
  have "V44 h mod p1305 = horner (V44 r) (horner (V44 r) 0 (take (64 * k) m)) (drop (64 * k) m) mod p1305"
    unfolding s(2) by (rule horner_cong) (simp only: c(2) g(4))
  also have "\<dots> = horner (V44 r) 0 m mod p1305"
    using horner_append [of "take (64 * k) m" "4 * k" "V44 r" 0 "drop (64 * k) m"] g(3) by simp
  finally have hv: "V44 h mod p1305 = horner (clamp (le_nat (take 16 key))) 0 m mod p1305" using r(2) by simp
  note f = carry44_round_nat [OF s(1)]
  have "poly1305_x4 key m = tag44 (carry44_round h) [load64le key 16, load64le key 24]"
    by (simp add: poly1305_x4_def Let_def g(1) h_def flip: r_def r2_def r3_def r4_def)
  then show ?thesis
    by (simp only: tag44_nat [OF f(1) assms] f(2) hv poly1305_mac_def)
qed

section \<open>The two-word 128-bit helpers\<close>

lemma of_u128_nat: "of_u128 a = word_of_nat (unat (lo a) + unat (hi a) * 2 ^ 64)"
  "unat (of_u128 a) = unat (lo a) + unat (hi a) * 2 ^ 64"
proof -
  have l: "unat (ucast (lo a) :: u128) = unat (lo a)" "unat (lo a) < 2 ^ 64"
    and h: "unat (ucast (hi a) :: u128) = unat (hi a)" "unat (hi a) < 2 ^ 64"
    using unsigned_less [of "lo a", where 'a = nat] unsigned_less [of "hi a", where 'a = nat]
    by (simp_all add: unat_ucast_small)
  then show "unat (of_u128 a) = unat (lo a) + unat (hi a) * 2 ^ 64"
    using unat_or_push_bit [of "ucast (lo a) :: u128" 64 "ucast (hi a)"] by (simp add: of_u128_def)
  then show "of_u128 a = word_of_nat (unat (lo a) + unat (hi a) * 2 ^ 64)" by (metis word_eq_of_nat)
qed

lemma ms_mul: "of_u128 (ms_u128_mul a b) = u128_mul a b"
proof -
  define p :: u128 where "p = ucast a * ucast b"
  have p: "unat p < 2 ^ 128" using unsigned_less [of p, where 'a = nat] by simp
  have lt: "unat a < 2 ^ 64" "unat b < 2 ^ 64"
    using unsigned_less [of a, where 'a = nat] unsigned_less [of b, where 'a = nat] by simp_all
  have "unat a * unat b < 2 ^ 128" using mult_strict_mono [OF lt] by simp
  then have "unat p = unat a * unat b"
    using lt by (simp add: p_def unat_mult_small unat_ucast_small)
  then have "unat (a * b) = unat p mod 2 ^ 64" by (simp add: unat_word_ariths)
  moreover have "unat (ucast (drop_bit 64 p) :: u64) = unat p div 2 ^ 64"
    using p by (simp add: unat_low64 unat_drop_bit_div less_mult_imp_div_less)
  ultimately have "unat (of_u128 (ms_u128_mul a b)) = unat p"
    by (simp add: of_u128_nat(2) ms_u128_mul_def flip: p_def)
  then have "of_u128 (ms_u128_mul a b) = p" by (metis word_eq_of_nat)
  then show ?thesis by (simp add: u128_mul_def p_def)
qed

lemma ms_add: "of_u128 (ms_u128_add a b) = u128_add (of_u128 a) (of_u128 b)"
proof -
  have lt: "unat (lo a) < 2 ^ 64" "unat (lo b) < 2 ^ 64"
    using unsigned_less [of "lo a", where 'a = nat] unsigned_less [of "lo b", where 'a = nat] by simp_all
  define c :: u64 where "c = (if unat (lo a) + unat (lo b) \<ge> 2 ^ 64 then 1 else 0)"
  have l: "unat (lo a + lo b) + unat c * 2 ^ 64 = unat (lo a) + unat (lo b)"
    using lt by (auto simp: c_def unat_word_ariths mod_if)
  have "unat (hi a + hi b + c) = (unat (hi a) + unat (hi b) + unat c) mod 2 ^ 64"
    by (simp add: unat_word_ariths mod_simps)
  then obtain q where q: "unat (hi a) + unat (hi b) + unat c = unat (hi a + hi b + c) + 2 ^ 64 * q"
    by (metis mod_mult_div_eq)
  have "(word_of_nat (unat (lo a + lo b) + unat (hi a + hi b + c) * 2 ^ 64) :: u128)
      = word_of_nat (unat (lo a + lo b) + unat (hi a + hi b + c) * 2 ^ 64 + 2 ^ 128 * q)"
  proof -
    have "(word_of_nat (2 ^ 128) :: u128) = 0" by simp
    then show ?thesis by (simp only: of_nat_add of_nat_mult) simp
  qed
  also have "unat (lo a + lo b) + unat (hi a + hi b + c) * 2 ^ 64 + 2 ^ 128 * q
      = (unat (lo a) + unat (hi a) * 2 ^ 64) + (unat (lo b) + unat (hi b) * 2 ^ 64)"
    using l q by simp
  finally show ?thesis
    by (simp only: of_u128_nat(1) u128_add_def of_nat_add ms_u128_add_def Let_def c_def [symmetric] u128_t.simps)
qed

lemma ms_addu: "of_u128 (ms_u128_addu a b) = u128_addu (of_u128 a) b"
proof -
  have "of_u128 \<lparr>lo = b, hi = 0\<rparr> = ucast b" by (simp add: of_u128_def)
  then show ?thesis by (simp add: ms_u128_addu_def ms_add u128_add_def u128_addu_def)
qed

lemma ms_low: "ms_u128_low44 a = u128_low44 (of_u128 a)" "ms_u128_low42 a = u128_low42 (of_u128 a)"
proof -
  have "unat (ucast (of_u128 a) :: u64) = unat (lo a)"
    using unsigned_less [of "lo a", where 'a = nat] by (simp add: unat_low64 of_u128_nat(2))
  then have "ucast (of_u128 a) = lo a" by (metis word_eq_of_nat)
  then show "ms_u128_low44 a = u128_low44 (of_u128 a)" "ms_u128_low42 a = u128_low42 (of_u128 a)"
    by (simp_all add: ms_u128_low44_def ms_u128_low42_def u128_low44_def u128_low42_def)
qed

lemma ms_shr_gen:
  assumes "n \<le> 64"
  shows "drop_bit n (lo a) OR push_bit (64 - n) (hi a) = (ucast (drop_bit n (of_u128 a)) :: u64)"
  using assms by (intro bit_eqI) (auto simp: of_u128_def bit_simps add.commute)

lemma ms_shr: "ms_u128_shr44 a = u128_shr44 (of_u128 a)" "ms_u128_shr42 a = u128_shr42 (of_u128 a)"
  using ms_shr_gen [of 44 a] ms_shr_gen [of 42 a]
  by (simp_all add: ms_u128_shr44_def ms_u128_shr42_def u128_shr44_def u128_shr42_def)

section \<open>Properties\<close>

text \<open>The 64-bit streaming implementation computes the Poly1305 tag of RFC 8439, whatever the
  pieces of the message.\<close>

theorem poly64_finish_is_mac:
  assumes "length key = 32" "length (buffer st) = 16"
  shows "poly64_finish (foldl poly64_update (poly64_init st key) ms) = poly1305_mac key (concat ms)"
  using assms by (rule poly64_stream)

theorem poly64_finish_is_mac_witness:
  "poly64_finish (foldl poly64_update
      (poly64_init \<lparr>pr = [], ph = [], pad = [], leftover = 9, buffer = replicate 16 0xaa, final = True\<rparr>
        (replicate 32 0xff)) [[1, 2], [], replicate 20 0xff]) =
   poly1305_mac (replicate 32 0xff) ([1, 2] @ replicate 20 0xff)"
  using poly64_finish_is_mac [of "replicate 32 0xff"
    "\<lparr>pr = [], ph = [], pad = [], leftover = 9, buffer = replicate 16 0xaa, final = True\<rparr>"
    "[[1, 2], [], replicate 20 0xff]"] by simp

text \<open>C15 Four accumulators that advance by the fourth power of the key, combined with its powers,
  and a serial tail compute the same tag: \<open>poly1305_x4\<close> is Poly1305 at every message length.\<close>

theorem poly1305_x4_is_mac:
  assumes "length key = 32"
  shows "poly1305_x4 key m = poly1305_mac key m"
  using assms by (rule poly1305_x4_mac)

theorem poly1305_x4_is_mac_witness:
  "poly1305_x4 (replicate 32 0xff) (replicate 200 0xff) = poly1305_mac (replicate 32 0xff) (replicate 200 0xff)"
  using poly1305_x4_is_mac [of "replicate 32 0xff" "replicate 200 0xff"] by simp

text \<open>The branch for compilers without a 128-bit integer computes the same: on the pair of words
  that stands for a 128-bit integer, the multiplication, the additions, the masks and the shifts of
  the two-word structure agree with those of \<open>unsigned __int128\<close>.\<close>

theorem ms_u128_refines:
  "of_u128 (ms_u128_mul x y) = u128_mul x y \<and>
   of_u128 (ms_u128_add a b) = u128_add (of_u128 a) (of_u128 b) \<and>
   of_u128 (ms_u128_addu a x) = u128_addu (of_u128 a) x \<and>
   ms_u128_low44 a = u128_low44 (of_u128 a) \<and> ms_u128_low42 a = u128_low42 (of_u128 a) \<and>
   ms_u128_shr44 a = u128_shr44 (of_u128 a) \<and> ms_u128_shr42 a = u128_shr42 (of_u128 a)"
  by (simp add: ms_mul ms_add ms_addu ms_low ms_shr)

end
