(* ===== verification/Crypto_Probe.thy ===== *)
theory Crypto_Probe
  imports ChaCha20 Poly1305_26 Poly1305_44
begin

text \<open>
  The program around the ciphers in \<^verbatim>\<open>benchmarks/crypto_probe.c\<close>: the detection of CPU features,
  the self-checks \<open>kat_chacha20\<close>, \<open>kat_poly1305\<close> and \<open>kat_streaming\<close> with the two counters they
  update, and the loops of \<open>main\<close> that seal a page (encrypt, then authenticate the ciphertext).
  The CPUID instruction is a parameter of \<open>cpu_detect\<close>; the contents of a context object before
  \<open>poly1305_init\<close> (an uninitialised local variable) is a parameter of the checks.
\<close>

section \<open>CPU features\<close>

record cpu_features =
  aesni :: u32
  pclmul :: u32
  sha_ni :: u32
  avx2 :: u32
  rdseed :: u32
  sse41 :: u32

definition cpu_detect :: "(u32 \<Rightarrow> u32 \<Rightarrow> u32 \<times> u32 \<times> u32 \<times> u32) \<Rightarrow> cpu_features" where
  "cpu_detect cpuid =
     (let f = \<lparr>aesni = 0, pclmul = 0, sha_ni = 0, avx2 = 0, rdseed = 0, sse41 = 0\<rparr>;
          (maxleaf, _, _, _) = cpuid 0 0;
          f = (if maxleaf \<ge> 1 then
                 (case cpuid 1 0 of (_, _, c, _) \<Rightarrow>
                    f\<lparr>pclmul := drop_bit 1 c AND 1, sse41 := drop_bit 19 c AND 1,
                      aesni := drop_bit 25 c AND 1\<rparr>)
               else f)
      in (if maxleaf \<ge> 7 then
            (case cpuid 7 0 of (_, b, _, _) \<Rightarrow>
               f\<lparr>avx2 := drop_bit 5 b AND 1, rdseed := drop_bit 18 b AND 1,
                 sha_ni := drop_bit 29 b AND 1\<rparr>)
          else f))"

section \<open>Checks\<close>

record check_state =
  checks_run :: nat
  checks_failed :: nat

definition check :: "bool \<Rightarrow> check_state \<Rightarrow> check_state" where
  "check ok st = (let st = st\<lparr>checks_run := checks_run st + 1\<rparr>
                  in if \<not> ok then st\<lparr>checks_failed := checks_failed st + 1\<rparr> else st)"

definition kat_chacha20 :: "check_state \<Rightarrow> check_state" where
  "kat_chacha20 st =
     (let key = map word_of_nat [0..<32];
          nonce = [0, 0, 0, 9, 0, 0, 0, 0x4a, 0, 0, 0, 0];
          want =
            [0x10, 0xf1, 0xe7, 0xe4, 0xd1, 0x3b, 0x59, 0x15, 0x50, 0x0f, 0xdd, 0x1f, 0xa3, 0x20, 0x71, 0xc4,
             0xc7, 0xd1, 0xf4, 0xc7, 0x33, 0xc0, 0x68, 0x03, 0x04, 0x22, 0xaa, 0x9a, 0xc3, 0xd4, 0x6c, 0x4e,
             0xd2, 0x82, 0x64, 0x46, 0x07, 0x9f, 0xaa, 0x09, 0x14, 0xc2, 0xd7, 0x05, 0xd9, 0x8b, 0x02, 0xa2,
             0xb5, 0x12, 0x9c, 0xd1, 0xde, 0x16, 0x4e, 0xb9, 0xcb, 0xd0, 0x83, 0xe8, 0xa2, 0x50, 0x3c, 0x4e]
      in check (chacha20_block key 1 nonce = want) st)"

definition tag26 :: "u32 poly_ctx \<Rightarrow> byte list \<Rightarrow> byte list list \<Rightarrow> byte list" where
  "tag26 st key ms = poly1305_finish (foldl poly1305_update (poly1305_init st key) ms)"

definition tag64 :: "u64 poly_ctx \<Rightarrow> byte list \<Rightarrow> byte list list \<Rightarrow> byte list" where
  "tag64 st key ms = poly64_finish (foldl poly64_update (poly64_init st key) ms)"

definition kat_poly_key :: "byte list" where
  "kat_poly_key =
     [0x85, 0xd6, 0xbe, 0x78, 0x57, 0x55, 0x6d, 0x33, 0x7f, 0x44, 0x52, 0xfe, 0x42, 0xd5, 0x06, 0xa8,
      0x01, 0x03, 0x80, 0x8a, 0xfb, 0x0d, 0xb2, 0xfd, 0x4a, 0xbf, 0xf6, 0xaf, 0x41, 0x49, 0xf5, 0x1b]"

definition kat_poly_msg :: "byte list" where
  "kat_poly_msg = map (\<lambda>c. word_of_nat (of_char c)) ''Cryptographic Forum Research Group''"

definition kat_poly_want :: "byte list" where
  "kat_poly_want =
     [0xa8, 0x06, 0x1d, 0xc1, 0x30, 0x51, 0x36, 0xc6, 0xc2, 0x2b, 0x8b, 0xaf, 0x0c, 0x01, 0x27, 0xa9]"

definition kat_poly1305 :: "u32 poly_ctx \<Rightarrow> u64 poly_ctx \<Rightarrow> check_state \<Rightarrow> check_state" where
  "kat_poly1305 st26 st64 st =
     (let st = check (tag26 st26 kat_poly_key [kat_poly_msg] = kat_poly_want) st;
          st = check (poly1305_x4 kat_poly_key kat_poly_msg = kat_poly_want) st
      in check (tag64 st64 kat_poly_key [kat_poly_msg] = kat_poly_want) st)"

section \<open>The differential checks\<close>

text \<open>A loop over lengths that stops at the first disagreement.\<close>

fun diff_loop :: "(nat \<Rightarrow> bool) \<Rightarrow> nat list \<Rightarrow> bool" where
  "diff_loop agree [] = True"
| "diff_loop agree (len # lens) = (if \<not> agree len then False else diff_loop agree lens)"

type_synonym xor_fun = "byte list \<Rightarrow> u32 \<Rightarrow> byte list \<Rightarrow> byte list \<Rightarrow> byte list"

definition diff_chacha :: "xor_fun \<Rightarrow> byte list \<Rightarrow> byte list \<Rightarrow> nat \<Rightarrow> bool" where
  "diff_chacha f key nonce len =
     (let p = map (\<lambda>k. word_of_nat (k * 11 + 3)) [0..<len]
      in chacha20_xor_hoisted key 7 nonce p = f key 7 nonce p)"

text \<open>The two loops over Poly1305 hand the first \<open>len\<close> bytes of a local array to both
  implementations; a length beyond the array is an access out of bounds.\<close>

datatype probe_error = Out_of_bounds nat

definition read_prefix :: "byte list \<Rightarrow> nat \<Rightarrow> probe_error + byte list" where
  "read_prefix a len = (if len \<le> length a then Inr (take len a) else Inl (Out_of_bounds len))"

fun diff_tags :: "(byte list \<Rightarrow> bool) \<Rightarrow> byte list \<Rightarrow> nat list \<Rightarrow> probe_error + bool" where
  "diff_tags agree a [] = Inr True"
| "diff_tags agree a (len # lens) =
     (case read_prefix a len of
        Inl e \<Rightarrow> Inl e
      | Inr m \<Rightarrow> if \<not> agree m then Inr False else diff_tags agree a lens)"

definition kat_key :: "byte list" where
  "kat_key = map (\<lambda>i. word_of_nat (i * 7 + 1)) [0..<32]"

definition kat_nonce :: "byte list" where
  "kat_nonce = map (\<lambda>i. word_of_nat (i * 3)) [0..<12]"

definition kat_buf :: "byte list" where
  "kat_buf = map word_of_nat [0..<200]"

definition kat_streams :: "cpu_features \<Rightarrow> check_state \<Rightarrow> check_state" where
  "kat_streams host st =
     (let a = chacha20_xor kat_key 0 kat_nonce kat_buf;
          b = chacha20_xor kat_key 0 kat_nonce (take 64 kat_buf)
              @ chacha20_xor kat_key 1 kat_nonce (drop 64 kat_buf);
          st = check (a = b) st;
          st = check (a = chacha20_xor_hoisted kat_key 0 kat_nonce kat_buf) st;
          st = check (diff_loop (diff_chacha chacha20_xor_sse2 kat_key kat_nonce) [1..<201]) st;
          st = check (diff_loop (diff_chacha chacha20_xor_sse2x4 kat_key kat_nonce) [1..<401]) st
      in if avx2 host \<noteq> 0
         then check (diff_loop (diff_chacha chacha20_xor_avx2 kat_key kat_nonce) [1..<701]) st
         else st)"

definition agree26_64 :: "u32 poly_ctx \<Rightarrow> u64 poly_ctx \<Rightarrow> byte list \<Rightarrow> bool" where
  "agree26_64 st26 st64 m = (tag26 st26 kat_key [m] = tag64 st64 kat_key [m])"

definition agree26_x4 :: "u32 poly_ctx \<Rightarrow> byte list \<Rightarrow> bool" where
  "agree26_x4 st26 m = (tag26 st26 kat_key [m] = poly1305_x4 kat_key m)"

definition kat_tags ::
  "u32 poly_ctx \<Rightarrow> u64 poly_ctx \<Rightarrow> byte list \<Rightarrow> check_state \<Rightarrow> probe_error + check_state" where
  "kat_tags st26 st64 a st =
     (let m1 = tag26 st26 kat_key [a];
          m2 = tag26 st26 kat_key [take 7 a, take 1 (drop 7 a), take 192 (drop 8 a)];
          st = check (m1 = m2) st
      in case diff_tags (agree26_64 st26 st64) a [0..<301] of
           Inl e \<Rightarrow> Inl e
         | Inr ok \<Rightarrow>
             (let st = check ok st
              in case diff_tags (agree26_x4 st26) a [0..<301] of
                   Inl e \<Rightarrow> Inl e
                 | Inr ok \<Rightarrow> Inr (check ok st)))"

definition kat_streaming ::
  "cpu_features \<Rightarrow> u32 poly_ctx \<Rightarrow> u64 poly_ctx \<Rightarrow> check_state \<Rightarrow> probe_error + check_state" where
  "kat_streaming host st26 st64 st =
     kat_tags st26 st64 (chacha20_xor kat_key 0 kat_nonce kat_buf) (kat_streams host st)"

section \<open>Sealing a page\<close>

fun seal_loop ::
  "xor_fun \<Rightarrow> (byte list \<Rightarrow> byte list \<Rightarrow> byte list) \<Rightarrow> byte list \<Rightarrow> byte list \<Rightarrow> nat list
   \<Rightarrow> byte list \<times> byte list \<Rightarrow> byte list \<times> byte list" where
  "seal_loop cipher mac key nonce [] pm = pm"
| "seal_loop cipher mac key nonce (i # is) (page, tag) =
     (let page = cipher key (word_of_nat i) nonce page
      in seal_loop cipher mac key nonce is (page, mac key page))"

definition mac26 :: "u32 poly_ctx \<Rightarrow> byte list \<Rightarrow> byte list \<Rightarrow> byte list" where
  "mac26 st key m = tag26 st key [m]"

section \<open>Lemmas\<close>

lemma tag26_mac:
  "length key = 32 \<Longrightarrow> length (buffer st) = 16 \<Longrightarrow> tag26 st key ms = poly1305_mac key (concat ms)"
  by (simp add: tag26_def poly1305_stream)

lemma tag64_mac:
  "length key = 32 \<Longrightarrow> length (buffer st) = 16 \<Longrightarrow> tag64 st key ms = poly1305_mac key (concat ms)"
  by (simp add: tag64_def poly64_stream)

lemma diff_loop_all: "diff_loop agree lens \<longleftrightarrow> (\<forall>len\<in>set lens. agree len)"
  by (induction lens) auto

lemma diff_chacha_ok:
  "diff_chacha chacha20_xor_sse2 key nonce len" "diff_chacha chacha20_xor_sse2x4 key nonce len"
  "diff_chacha chacha20_xor_avx2 key nonce len"
  by (simp_all add: diff_chacha_def Let_def clear.xor_is_stream hoisted.xor_is_stream sse2.xor_is_stream
      chacha20_xor_sse2x4_def chacha20_xor_avx2_def wide_loop_stream)

lemma diff_tags_inside:
  assumes "\<And>m. agree m" "\<forall>len\<in>set lens. len \<le> length a"
  shows "diff_tags agree a lens = Inr True"
  using assms(2) by (induction lens) (auto simp: read_prefix_def assms(1))

lemma diff_tags_outside:
  assumes "\<And>m. agree m" "\<forall>len\<in>set lens. len \<le> length a" "length a < n"
  shows "diff_tags agree a (lens @ n # rest) = Inl (Out_of_bounds n)"
  using assms(2) by (induction lens) (use assms(3) in \<open>auto simp: read_prefix_def assms(1)\<close>)

lemma agree_ok:
  assumes "length (buffer st26) = 16" "length (buffer st64) = 16"
  shows "agree26_64 st26 st64 m" "agree26_x4 st26 m"
proof -
  have "length kat_key = 32" by (simp add: kat_key_def)
  then show "agree26_64 st26 st64 m" "agree26_x4 st26 m"
    using assms by (simp_all add: agree26_64_def agree26_x4_def tag26_mac tag64_mac poly1305_x4_mac)
qed

lemma poly1305_mac_rfc8439: "poly1305_mac kat_poly_key kat_poly_msg = kat_poly_want"
proof -
  have m: "kat_poly_msg = [67, 114, 121, 112, 116, 111, 103, 114, 97, 112, 104, 105, 99, 32, 70, 111,
      114, 117, 109, 32, 82, 101, 115, 101, 97, 114, 99, 104, 32, 71, 114, 111, 117, 112]"
    by (simp add: kat_poly_msg_def)
  show ?thesis
    unfolding m by (simp add: poly1305_mac_def kat_poly_key_def kat_poly_want_def horner.simps clamp_def
        block_nat_def p1305_def le_bytes_map upt_rec)
qed

section \<open>Properties\<close>

text \<open>The self-checks against the vectors of RFC 8439 (section 2.3.2 for the block function,
  section 2.5.2 for the three Poly1305 implementations) all pass: four checks run, none fails.\<close>

theorem kat_vectors_pass:
  assumes "length (buffer st26) = 16" "length (buffer st64) = 16"
  shows "kat_poly1305 st26 st64 (kat_chacha20 st) = st\<lparr>checks_run := checks_run st + 4\<rparr>"
proof -
  have key: "map word_of_nat [0..<32] = ([0, 1, 2, 3, 4, 5, 6, 7, 8, 9, 10, 11, 12, 13, 14, 15, 16, 17, 18,
      19, 20, 21, 22, 23, 24, 25, 26, 27, 28, 29, 30, 31] :: byte list)"
    by (simp add: upt_rec)
  have "kat_chacha20 st = st\<lparr>checks_run := checks_run st + 1\<rparr>"
    unfolding kat_chacha20_def Let_def key chacha20_block_rfc8439 by (simp add: check_def)
  moreover have "length kat_poly_key = 32" by (simp add: kat_poly_key_def)
  ultimately show ?thesis
    using assms by (simp add: kat_poly1305_def tag26_mac tag64_mac poly1305_x4_mac poly1305_mac_rfc8439 check_def)
qed

theorem kat_vectors_pass_witness:
  "kat_poly1305 \<lparr>pr = [], ph = [], pad = [], leftover = 0, buffer = replicate 16 0, final = False\<rparr>
     \<lparr>pr = [], ph = [], pad = [], leftover = 0, buffer = replicate 16 0, final = False\<rparr>
     (kat_chacha20 \<lparr>checks_run = 0, checks_failed = 0\<rparr>) = \<lparr>checks_run = 4, checks_failed = 0\<rparr>"
  using kat_vectors_pass [of "\<lparr>pr = [], ph = [], pad = [], leftover = 0, buffer = replicate 16 0, final = False\<rparr>"
     "\<lparr>pr = [], ph = [], pad = [], leftover = 0, buffer = replicate 16 0, final = False\<rparr>"
     "\<lparr>checks_run = 0, checks_failed = 0\<rparr>"] by simp

text \<open>The differential checks on the ciphers all pass, with and without AVX2: chunking, the
  hoisted implementation, and every length of the vector implementations' loops.\<close>

theorem kat_streams_pass:
  "kat_streams host st = st\<lparr>checks_run := checks_run st + (if avx2 host \<noteq> 0 then 5 else 4)\<rparr>"
proof -
  have "chacha20_xor kat_key 0 kat_nonce kat_buf =
      chacha20_xor kat_key 0 kat_nonce (take 64 kat_buf) @ chacha20_xor kat_key 1 kat_nonce (drop 64 kat_buf)"
    using clear.xor_split [where a = "take 64 kat_buf" and k = 1 and key = kat_key and nonce = kat_nonce
        and c = 0 and b = "drop 64 kat_buf"]
    by (simp add: kat_buf_def)
  moreover have "chacha20_xor kat_key 0 kat_nonce kat_buf = chacha20_xor_hoisted kat_key 0 kat_nonce kat_buf"
    by (simp add: clear.xor_is_stream hoisted.xor_is_stream)
  ultimately show ?thesis
    by (simp add: kat_streams_def Let_def diff_loop_all diff_chacha_ok check_def del: upt_rec_numeral)
qed

text \<open>The last two loops of \<open>kat_streaming\<close> leave their buffer: they compare the Poly1305
  implementations on the first \<open>len\<close> bytes of a 200-byte local array for \<open>len\<close> up to 300, and the
  first read past the end is at length 201.  (No comparison before it disagrees.)\<close>

theorem kat_streaming_out_of_bounds:
  assumes "length (buffer st26) = 16" "length (buffer st64) = 16"
  shows "kat_streaming host st26 st64 st = Inl (Out_of_bounds 201)"
proof -
  let ?a = "chacha20_xor kat_key 0 kat_nonce kat_buf"
  have len: "length ?a = 200" by (simp add: clear.xor_length kat_buf_def)
  have split: "[0..<301] = [0..<201] @ 201 # [202..<301]"
  proof -
    have "[0..<301] = [0..<201] @ [201..<301]"
      using upt_add_eq_append [of 0 201 100] by (simp del: upt_rec_numeral upt_Suc)
    also have "[201..<301] = 201 # [202..<301]" by (simp add: upt_conv_Cons del: upt_rec_numeral)
    finally show ?thesis .
  qed
  have "diff_tags (agree26_64 st26 st64) ?a [0..<301] = Inl (Out_of_bounds 201)"
    unfolding split by (rule diff_tags_outside) (auto simp: agree_ok [OF assms] len)
  then show ?thesis by (simp add: kat_streaming_def kat_tags_def Let_def del: upt_rec_numeral)
qed

theorem kat_streaming_out_of_bounds_witness:
  "kat_streaming \<lparr>aesni = 0, pclmul = 0, sha_ni = 0, avx2 = 1, rdseed = 0, sse41 = 0\<rparr>
     \<lparr>pr = [], ph = [], pad = [], leftover = 0, buffer = replicate 16 0, final = False\<rparr>
     \<lparr>pr = [], ph = [], pad = [], leftover = 0, buffer = replicate 16 0, final = False\<rparr>
     \<lparr>checks_run = 4, checks_failed = 0\<rparr> = Inl (Out_of_bounds 201)"
  using kat_streaming_out_of_bounds [of
     "\<lparr>pr = [], ph = [], pad = [], leftover = 0, buffer = replicate 16 0, final = False\<rparr>"
     "\<lparr>pr = [], ph = [], pad = [], leftover = 0, buffer = replicate 16 0, final = False\<rparr>"
     "\<lparr>aesni = 0, pclmul = 0, sha_ni = 0, avx2 = 1, rdseed = 0, sse41 = 0\<rparr>"
     "\<lparr>checks_run = 4, checks_failed = 0\<rparr>"] by simp

text \<open>Within the bounds of the array the differential loops over the three Poly1305
  implementations find no disagreement, whatever the bytes.\<close>

theorem kat_tags_agree:
  assumes "length (buffer st26) = 16" "length (buffer st64) = 16"
  shows "diff_tags (agree26_64 st26 st64) a [0..<length a + 1] = Inr True \<and>
    diff_tags (agree26_x4 st26) a [0..<length a + 1] = Inr True"
  by (intro conjI diff_tags_inside agree_ok [OF assms]) auto

theorem kat_tags_agree_witness:
  "diff_tags (agree26_64
       \<lparr>pr = [], ph = [], pad = [], leftover = 0, buffer = replicate 16 0, final = False\<rparr>
       \<lparr>pr = [], ph = [], pad = [], leftover = 0, buffer = replicate 16 0, final = False\<rparr>)
     [1, 2, 3] [0..<4] = Inr True"
  using conjunct1 [OF kat_tags_agree [of
     "\<lparr>pr = [], ph = [], pad = [], leftover = 0, buffer = replicate 16 0, final = False\<rparr>"
     "\<lparr>pr = [], ph = [], pad = [], leftover = 0, buffer = replicate 16 0, final = False\<rparr>" "[1, 2, 3]"]]
  by (simp add: numeral_eq_Suc del: diff_tags.simps upt_rec_numeral upt_Suc)

text \<open>The detected features are the bits of the CPUID leaves, and a leaf beyond the highest one
  the processor reports is never consulted: AVX2 (the flag the eight-block cipher is dispatched on)
  is set exactly when leaf 7 exists and bit 5 of its EBX is set.\<close>

theorem cpu_detect_bits:
  "(avx2 (cpu_detect cpuid) \<noteq> 0 \<longleftrightarrow> fst (cpuid 0 0) \<ge> 7 \<and> bit (fst (snd (cpuid 7 0))) 5) \<and>
   (rdseed (cpu_detect cpuid) \<noteq> 0 \<longleftrightarrow> fst (cpuid 0 0) \<ge> 7 \<and> bit (fst (snd (cpuid 7 0))) 18) \<and>
   (sha_ni (cpu_detect cpuid) \<noteq> 0 \<longleftrightarrow> fst (cpuid 0 0) \<ge> 7 \<and> bit (fst (snd (cpuid 7 0))) 29) \<and>
   (aesni (cpu_detect cpuid) \<noteq> 0 \<longleftrightarrow> fst (cpuid 0 0) \<ge> 1 \<and> bit (fst (snd (snd (cpuid 1 0)))) 25) \<and>
   (pclmul (cpu_detect cpuid) \<noteq> 0 \<longleftrightarrow> fst (cpuid 0 0) \<ge> 1 \<and> bit (fst (snd (snd (cpuid 1 0)))) 1) \<and>
   (sse41 (cpu_detect cpuid) \<noteq> 0 \<longleftrightarrow> fst (cpuid 0 0) \<ge> 1 \<and> bit (fst (snd (snd (cpuid 1 0)))) 19)"
proof -
  have b: "drop_bit n w AND 1 \<noteq> 0 \<longleftrightarrow> bit w n" for w :: u32 and n
    by (simp add: and_one_eq mod_2_eq_odd bit_iff_odd_drop_bit)
  show ?thesis by (auto simp: cpu_detect_def Let_def split_beta b)
qed

text \<open>The five ways \<open>main\<close> seals a page (scalar, four-block SSE2 or eight-block AVX2 cipher, with
  the 26-bit or the four-chain authenticator) produce the same pages and the same tags, over any
  sequence of rounds.\<close>

theorem sealing_loops_agree:
  assumes "length key = 32" "length (buffer st) = 16"
  shows "seal_loop chacha20_xor_sse2x4 (mac26 st) key nonce rounds pm =
           seal_loop chacha20_xor_hoisted (mac26 st) key nonce rounds pm \<and>
         seal_loop chacha20_xor_avx2 (mac26 st) key nonce rounds pm =
           seal_loop chacha20_xor_hoisted (mac26 st) key nonce rounds pm \<and>
         seal_loop chacha20_xor_sse2x4 poly1305_x4 key nonce rounds pm =
           seal_loop chacha20_xor_hoisted (mac26 st) key nonce rounds pm \<and>
         seal_loop chacha20_xor_avx2 poly1305_x4 key nonce rounds pm =
           seal_loop chacha20_xor_hoisted (mac26 st) key nonce rounds pm"
proof -
  have cong: "seal_loop cipher mac key nonce rounds pm = seal_loop cipher' mac' key nonce rounds pm"
    if "\<And>c page. cipher key c nonce page = cipher' key c nonce page" "\<And>page. mac key page = mac' key page"
    for cipher cipher' :: xor_fun and mac mac'
    by (induction rounds arbitrary: pm) (auto simp: that Let_def split: prod.splits)
  have x: "chacha20_xor_sse2x4 key c nonce page = chacha20_xor_hoisted key c nonce page"
    "chacha20_xor_avx2 key c nonce page = chacha20_xor_hoisted key c nonce page" for c page
    by (simp_all add: clear.xor_is_stream hoisted.xor_is_stream chacha20_xor_sse2x4_def
        chacha20_xor_avx2_def wide_loop_stream)
  have m: "poly1305_x4 key page = mac26 st key page" for page
    using assms by (simp add: poly1305_x4_mac mac26_def tag26_mac)
  show ?thesis by (intro conjI cong x m refl)
qed

theorem sealing_loops_agree_witness:
  "seal_loop chacha20_xor_avx2 poly1305_x4 (replicate 32 1) (replicate 12 2) [0, 1] (replicate 100 0, []) =
   seal_loop chacha20_xor_hoisted
     (mac26 \<lparr>pr = [], ph = [], pad = [], leftover = 0, buffer = replicate 16 0, final = False\<rparr>)
     (replicate 32 1) (replicate 12 2) [0, 1] (replicate 100 0, [])"
  using sealing_loops_agree [of "replicate 32 1"
    "\<lparr>pr = [], ph = [], pad = [], leftover = 0, buffer = replicate 16 0, final = False\<rparr>"
    "replicate 12 2" "[0, 1]" "(replicate 100 0, [])"] by simp

end
