(* ===== verification/Api_Header.thy ===== *)
theory Api_Header
  imports Prelude "HOL-Library.Code_Target_Numeral"
begin

text \<open>
  The vocabulary of the public header \<open>include/cyboudb.h\<close>: the version, the status codes, the
  column types and codecs, the feature and open flags, the creation options and the storage errors
  of \<open>include/constants.inc\<close> that reach a caller through \<open>cyboudb_errcode\<close>.  Every macro family is
  a datatype with the function giving the C value of each member and the partial inverse a caller
  uses to read a value back; the C values themselves are the ones the header defines.
\<close>

section \<open>Version\<close>

definition CybouDB_VERSION :: string where
  "CybouDB_VERSION = ''0.7.0-dev''"

definition CybouDB_VERSION_MAJOR :: int where "CybouDB_VERSION_MAJOR = 0"
definition CybouDB_VERSION_MINOR :: int where "CybouDB_VERSION_MINOR = 7"
definition CybouDB_VERSION_PATCH :: int where "CybouDB_VERSION_PATCH = 0"

section \<open>Return and status codes\<close>

datatype status = OK | ROW | DONE | ERROR | BUSY | MISUSE | NOMEM

primrec status_code :: "status \<Rightarrow> int" where
  "status_code OK = 0"
| "status_code ROW = 100"
| "status_code DONE = 101"
| "status_code ERROR = -1"
| "status_code BUSY = -2"
| "status_code MISUSE = -3"
| "status_code NOMEM = -4"

definition status_of_code :: "int \<Rightarrow> status option" where
  "status_of_code c =
    (if c = 0 then Some OK else if c = 100 then Some ROW else if c = 101 then Some DONE
     else if c = -1 then Some ERROR else if c = -2 then Some BUSY
     else if c = -3 then Some MISUSE else if c = -4 then Some NOMEM else None)"

section \<open>Data types and codecs\<close>

datatype coltype = INT32 | INT64 | FLOAT32 | BOOL | TEXT | BLOB | VECTOR

primrec type_code :: "coltype \<Rightarrow> nat" where
  "type_code INT32 = 1"
| "type_code INT64 = 2"
| "type_code FLOAT32 = 3"
| "type_code BOOL = 4"
| "type_code TEXT = 5"
| "type_code BLOB = 6"
| "type_code VECTOR = 7"

definition type_of_code :: "nat \<Rightarrow> coltype option" where
  "type_of_code c =
    (if c = 1 then Some INT32 else if c = 2 then Some INT64 else if c = 3 then Some FLOAT32
     else if c = 4 then Some BOOL else if c = 5 then Some TEXT else if c = 6 then Some BLOB
     else if c = 7 then Some VECTOR else None)"

datatype codec = CODEC_RAW | CODEC_CONST | CODEC_FOR

primrec codec_code :: "codec \<Rightarrow> nat" where
  "codec_code CODEC_RAW = 0"
| "codec_code CODEC_CONST = 1"
| "codec_code CODEC_FOR = 2"

section \<open>Flags\<close>

definition FEATURE_COMPRESSION :: u32 where "FEATURE_COMPRESSION = 0x0200"
definition FEATURE_VECTOR :: u32 where "FEATURE_VECTOR = 0x0800"
definition OPEN_READONLY :: u32 where "OPEN_READONLY = 0x0001"
definition OPEN_READWRITE :: u32 where "OPEN_READWRITE = 0x0002"

text \<open>The flags a database can only be given when it is made; one is implemented.\<close>

definition CREATE_QUEUE_LEASES :: u32 where "CREATE_QUEUE_LEASES = 0x0001"
definition CREATE_KNOWN :: u32 where "CREATE_KNOWN = CREATE_QUEUE_LEASES"

record create_options =
  struct_size :: u32
  flags :: u32

section \<open>Storage errors\<close>

text \<open>The result codes of the engine that the operations of this development return.\<close>

datatype db_error =
    E_CREATE | E_OPEN | E_EXISTS | E_FULL | E_READONLY | E_SYNC | E_STATE | E_GENERATION | E_BITMAP
  | E_CATALOG | E_SCHEMA | E_NOTFOUND | E_CATALOG_FULL | E_ROWS | E_PAX | E_VALUE | E_BUSY | E_CURSOR | E_RETAINED | E_LEASE | E_SEAL

primrec error_code :: "db_error \<Rightarrow> int" where
  "error_code E_CREATE = 2"
| "error_code E_OPEN = 3"
| "error_code E_EXISTS = 14"
| "error_code E_FULL = 15"
| "error_code E_READONLY = 18"
| "error_code E_SYNC = 19"
| "error_code E_STATE = 22"
| "error_code E_GENERATION = 23"
| "error_code E_BITMAP = 24"
| "error_code E_CATALOG = 26"
| "error_code E_SCHEMA = 27"
| "error_code E_NOTFOUND = 28"
| "error_code E_CATALOG_FULL = 29"
| "error_code E_ROWS = 30"
| "error_code E_PAX = 31"
| "error_code E_VALUE = 32"
| "error_code E_BUSY = 33"
| "error_code E_CURSOR = 34"
| "error_code E_RETAINED = 35"
| "error_code E_LEASE = 37"
| "error_code E_SEAL = 42"

section \<open>What a caller can read off a code\<close>

lemma status_of_code_iff: "status_of_code c = Some s \<longleftrightarrow> c = status_code s"
  by (cases s) (auto simp: status_of_code_def)

lemma type_of_code_iff: "type_of_code c = Some t \<longleftrightarrow> c = type_code t"
  by (cases t) (auto simp: type_of_code_def)

lemma status_code_inject [simp]: "status_code s = status_code t \<longleftrightarrow> s = t"
  by (cases s; cases t) simp_all

lemma error_code_positive: "0 < error_code e"
  by (cases e) simp_all

text \<open>The status codes are what the header promises a caller can rely on: each of them, and
  nothing else, reads back as the status it names; a code is negative exactly for the four failures,
  and the two answers of a step are the only codes that are positive; the type codes read back
  likewise and are exactly one to seven.\<close>

theorem header_codes_roundtrip:
  "(\<forall>c s. status_of_code c = Some s \<longleftrightarrow> c = status_code s)
   \<and> (\<forall>s. status_code s < 0 \<longleftrightarrow> s \<in> {ERROR, BUSY, MISUSE, NOMEM})
   \<and> (\<forall>s. 0 < status_code s \<longleftrightarrow> s \<in> {ROW, DONE})
   \<and> (\<forall>c t. type_of_code c = Some t \<longleftrightarrow> c = type_code t)
   \<and> range type_code = {1..7}"
proof -
  have "range type_code = {1, 2, 3, 4, 5, 6, 7}"
  proof
    show "range type_code \<subseteq> {1, 2, 3, 4, 5, 6, 7}"
    proof
      fix c assume "c \<in> range type_code"
      then obtain t where "c = type_code t" by auto
      then show "c \<in> {1, 2, 3, 4, 5, 6, 7}" by (cases t) simp_all
    qed
    show "{1, 2, 3, 4, 5, 6, 7} \<subseteq> range type_code"
      using rangeI [of type_code INT32] rangeI [of type_code INT64] rangeI [of type_code FLOAT32]
        rangeI [of type_code BOOL] rangeI [of type_code TEXT] rangeI [of type_code BLOB]
        rangeI [of type_code VECTOR]
      by simp
  qed
  moreover have "({1, 2, 3, 4, 5, 6, 7} :: nat set) = {1..7}" by auto
  moreover have "status_code s < 0 \<longleftrightarrow> s \<in> {ERROR, BUSY, MISUSE, NOMEM}"
    and "0 < status_code s \<longleftrightarrow> s \<in> {ROW, DONE}" for s
    by (cases s; simp)+
  ultimately show ?thesis by (simp add: status_of_code_iff type_of_code_iff)
qed

end
