(* ===== verification/Lease_Queue.thy ===== *)
theory Lease_Queue
  imports Api_Header
begin

text \<open>
  Durable queues with leases, \<open>src/core/queue.asm\<close>.  A queue page is the record \<open>queue\<close>: the
  positions, the time floor and the directory of segments; a segment page is its summary
  \<open>QSEG_READY_AT\<close> and its sixty-two slots; a slot is the payload with its state, its deadline and
  its token.  A payload is one byte string whether the engine keeps it in the slot or in an extent
  chain.  Positions and times are natural numbers; the places where the 64-bit field matters, the
  last token and a deadline past the end of the clock, are written out.  \<open>q_sealed\<close> says whether
  the page's checksum is the one of its contents: \<open>db_catalog_edit\<close> stamps the page and only
  \<open>db_catalog_seal\<close> makes it whole again, so an operation that fails in between leaves it false.

  Every operation returns the queue it leaves behind, also when it fails.
\<close>

abbreviation (input) QUEUE_SEG_SLOTS :: nat where "QUEUE_SEG_SLOTS \<equiv> 62"
abbreviation (input) Q_MAX_SEGMENTS :: nat where "Q_MAX_SEGMENTS \<equiv> 495"

definition U64_MAX :: nat where "U64_MAX = 2 ^ 64 - 1"

section \<open>State\<close>

datatype slot_state = HELD | CLAIMED | ACKED

record slot =
  sl_payload :: string
  sl_state :: slot_state
  sl_until :: nat
  sl_token :: nat

record seg =
  seg_ready_at :: nat
  seg_slots :: "slot list"

record queue =
  q_head :: nat
  q_tail :: nat
  q_claim :: nat
  q_first_seg :: nat
  q_time_floor :: nat
  q_entries :: "seg list"
  q_sealed :: bool

text \<open>The page \<open>CREATE QUEUE\<close> publishes, a slot nothing wrote, and a segment page fresh from the
  allocator, which hands pages out zeroed.\<close>

definition new_queue :: queue where
  "new_queue = \<lparr>q_head = 0, q_tail = 0, q_claim = 0, q_first_seg = 0, q_time_floor = 0,
     q_entries = [], q_sealed = True\<rparr>"

definition blank_slot :: slot where
  "blank_slot = \<lparr>sl_payload = [], sl_state = HELD, sl_until = 0, sl_token = 0\<rparr>"

definition blank_seg :: seg where
  "blank_seg = \<lparr>seg_ready_at = 0, seg_slots = replicate QUEUE_SEG_SLOTS blank_slot\<rparr>"

section \<open>Where a position lives\<close>

definition slot_in :: "queue \<Rightarrow> nat \<Rightarrow> slot" where
  "slot_in q p = seg_slots (q_entries q ! (p div QUEUE_SEG_SLOTS - q_first_seg q))
     ! (p mod QUEUE_SEG_SLOTS)"

text \<open>The directory lookup, with the unsigned comparison that also refuses a segment before the
  first.\<close>

definition queue_slot_at :: "queue \<Rightarrow> nat \<Rightarrow> slot option" where
  "queue_slot_at q p =
    (if p div QUEUE_SEG_SLOTS < q_first_seg q
        \<or> length (q_entries q) \<le> p div QUEUE_SEG_SLOTS - q_first_seg q
     then None else Some (slot_in q p))"

definition lease_find_slot :: "queue \<Rightarrow> nat \<Rightarrow> slot option" where
  "lease_find_slot q p =
    (if p < q_head q \<or> q_tail q \<le> p then None else queue_slot_at q p)"

text \<open>Writing one slot: the segment page is copied, the slot changed in the copy and the directory
  entry pointed at it.\<close>

definition edit_slot :: "queue \<Rightarrow> nat \<Rightarrow> (slot \<Rightarrow> slot) \<Rightarrow> queue" where
  "edit_slot q p f =
    (let i = p div QUEUE_SEG_SLOTS - q_first_seg q; j = p mod QUEUE_SEG_SLOTS; g = q_entries q ! i
     in q\<lparr>q_entries := (q_entries q)[i := g\<lparr>seg_slots := (seg_slots g)[j := f (seg_slots g ! j)]\<rparr>]\<rparr>)"

text \<open>The writable queue page: head, tail and cursor are put back after the stamp, the checksum is
  not.\<close>

definition lease_edit_slot :: "queue \<Rightarrow> nat \<Rightarrow> (slot \<Rightarrow> slot) \<Rightarrow> queue" where
  "lease_edit_slot q p f = (edit_slot q p f)\<lparr>q_sealed := False\<rparr>"

definition db_catalog_seal :: "queue \<Rightarrow> queue" where
  "db_catalog_seal q = q\<lparr>q_sealed := True\<rparr>"

section \<open>Enqueue and dequeue\<close>

definition db_queue_depth :: "queue \<Rightarrow> nat" where
  "db_queue_depth q = q_tail q - q_head q"

definition db_queue_push :: "queue \<Rightarrow> string \<Rightarrow> queue \<times> db_error option" where
  "db_queue_push q bytes =
    (if 2 ^ 32 \<le> length bytes then (q, Some E_VALUE)
     else
       let s = q_tail q div QUEUE_SEG_SLOTS;
           base = (if q_entries q = [] then s else q_first_seg q);
           i = s - base
       in if s < base \<or> (length (q_entries q) \<le> i \<and> Q_MAX_SEGMENTS \<le> i) then (q, Some E_FULL)
          else
            let entries = (if i < length (q_entries q) then q_entries q
                           else q_entries q @ [blank_seg]);
                q1 = q\<lparr>q_entries := entries, q_first_seg := base\<rparr>;
                q2 = edit_slot q1 (q_tail q) (\<lambda>_. blank_slot\<lparr>sl_payload := bytes\<rparr>)
            in (db_catalog_seal (q2\<lparr>q_tail := q_tail q + 1, q_claim := q_head q\<rparr>), None))"

definition db_queue_peek :: "queue \<Rightarrow> db_error + nat" where
  "db_queue_peek q =
    (if q_head q = q_tail q then Inl E_NOTFOUND
     else Inr (length (sl_payload (slot_in q (q_head q)))))"

text \<open>What the directory keeps once the head has moved to \<open>h\<close>.\<close>

definition move_head :: "queue \<Rightarrow> nat \<Rightarrow> queue" where
  "move_head q h =
    q\<lparr>q_head := h,
      q_entries := (if h = q_tail q then []
                    else drop (h div QUEUE_SEG_SLOTS - q_first_seg q) (q_entries q)),
      q_first_seg := h div QUEUE_SEG_SLOTS\<rparr>"

definition db_queue_pop :: "queue \<Rightarrow> queue \<times> (db_error + string)" where
  "db_queue_pop q =
    (if q_head q = q_tail q then (q, Inl E_NOTFOUND)
     else case queue_slot_at q (q_head q) of
       None \<Rightarrow> (q, Inl E_STATE)
     | Some s \<Rightarrow>
         (db_catalog_seal ((move_head q (q_head q + 1))\<lparr>q_claim := q_head q + 1\<rparr>),
          Inr (sl_payload s)))"

section \<open>The search for a claimable message\<close>

definition claimable :: "nat \<Rightarrow> slot \<Rightarrow> bool" where
  "claimable now s = (case sl_state s of HELD \<Rightarrow> True | CLAIMED \<Rightarrow> sl_until s \<le> now | ACKED \<Rightarrow> False)"

lemma next_seg_after: "(p :: nat) < (p div 62 + 1) * 62"
  using div_mult_mod_eq [of p 62] mod_less_divisor [of 62 p] by (simp add: algebra_simps)

text \<open>\<open>hand\<close> is the segment whose page is in hand.  Entering a segment reads its summary, and a
  deadline still ahead steps over the whole of it.\<close>

function sc_next :: "queue \<Rightarrow> nat \<Rightarrow> nat \<Rightarrow> nat option \<Rightarrow> nat option" where
  "sc_next q now p hand =
    (if q_tail q \<le> p then None
     else if hand \<noteq> Some (p div QUEUE_SEG_SLOTS)
           \<and> now < seg_ready_at (q_entries q ! (p div QUEUE_SEG_SLOTS - q_first_seg q))
     then sc_next q now ((p div QUEUE_SEG_SLOTS + 1) * QUEUE_SEG_SLOTS) (Some (p div QUEUE_SEG_SLOTS))
     else if claimable now (slot_in q p) then Some p
     else sc_next q now (p + 1) (Some (p div QUEUE_SEG_SLOTS)))"
  by pat_completeness auto

termination
  using next_seg_after
  by (relation "measure (\<lambda>(q, now, p, hand). q_tail q - p)") (auto intro!: diff_less_mono2)

declare sc_next.simps [simp del]

definition db_queue_scan_claimable :: "bool \<Rightarrow> queue \<Rightarrow> nat \<Rightarrow> nat option" where
  "db_queue_scan_claimable leases q now = (if leases then sc_next q now (q_head q) None else None)"

section \<open>Segment summaries\<close>

text \<open>The live slots of the segment with index \<open>s\<close>: its positions clipped to head and tail.\<close>

definition live_slots :: "queue \<Rightarrow> nat \<Rightarrow> slot list" where
  "live_slots q s = map (slot_in q)
     [max (q_head q) (s * QUEUE_SEG_SLOTS) ..< min (q_tail q) ((s + 1) * QUEUE_SEG_SLOTS)]"

text \<open>Zero for a free message, else the least deadline among the claims, else what it started
  with.\<close>

fun ready_walk :: "slot list \<Rightarrow> nat \<Rightarrow> nat" where
  "ready_walk [] best = best"
| "ready_walk (s # ss) best =
    (case sl_state s of
       HELD \<Rightarrow> 0
     | CLAIMED \<Rightarrow> ready_walk ss (if best \<le> sl_until s then best else sl_until s)
     | ACKED \<Rightarrow> ready_walk ss best)"

definition lease_seg_refresh :: "bool \<Rightarrow> queue \<Rightarrow> nat \<Rightarrow> queue" where
  "lease_seg_refresh leases q p =
    (if \<not> leases then q
     else let s = p div QUEUE_SEG_SLOTS; i = s - q_first_seg q
          in q\<lparr>q_entries := (q_entries q)
                 [i := (q_entries q ! i)\<lparr>seg_ready_at := ready_walk (live_slots q s) U64_MAX\<rparr>]\<rparr>)"

definition lease_summaries_valid :: "bool \<Rightarrow> queue \<Rightarrow> bool" where
  "lease_summaries_valid leases q \<longleftrightarrow>
    (leases \<longrightarrow> (\<forall>i < length (q_entries q).
       seg_ready_at (q_entries q ! i) \<le> ready_walk (live_slots q (i + q_first_seg q)) U64_MAX))"

section \<open>What a commit proves of a queue page\<close>

definition db_queue_segments_valid :: "bool \<Rightarrow> queue \<Rightarrow> bool" where
  "db_queue_segments_valid leases q \<longleftrightarrow>
    q_head q \<le> q_tail q \<and> length (q_entries q) \<le> Q_MAX_SEGMENTS
    \<and> q_head q div QUEUE_SEG_SLOTS = q_first_seg q
    \<and> (if q_head q = q_tail q then q_entries q = []
       else (q_tail q - 1) div QUEUE_SEG_SLOTS + 1 = q_first_seg q + length (q_entries q))
    \<and> (\<not> leases \<longrightarrow> (\<forall>g \<in> set (q_entries q). seg_ready_at g = 0))"

definition queue_page_valid :: "bool \<Rightarrow> queue \<Rightarrow> bool" where
  "queue_page_valid leases q \<longleftrightarrow>
    q_sealed q
    \<and> (if leases then q_head q \<le> q_claim q \<and> q_claim q \<le> q_tail q
       else q_time_floor q = 0 \<and> q_head q = q_claim q)
    \<and> db_queue_segments_valid leases q
    \<and> lease_summaries_valid leases q"

text \<open>The deep pass over the records, which \<open>cyboudb check\<close> adds.\<close>

definition slot_valid :: "bool \<Rightarrow> slot \<Rightarrow> bool" where
  "slot_valid leases s =
    (if leases then
       (case sl_state s of
          HELD \<Rightarrow> sl_until s = 0
        | CLAIMED \<Rightarrow> 0 < sl_until s \<and> 0 < sl_token s
        | ACKED \<Rightarrow> sl_until s = 0 \<and> 0 < sl_token s)
     else sl_state s = HELD \<and> sl_until s = 0 \<and> sl_token s = 0)"

section \<open>Leases\<close>

definition lease_now :: "queue \<Rightarrow> nat \<Rightarrow> nat" where
  "lease_now q now = (if q_time_floor q \<le> now then now else q_time_floor q)"

definition db_queue_claim ::
    "bool \<Rightarrow> queue \<Rightarrow> nat \<Rightarrow> nat \<Rightarrow> queue \<times> (db_error + nat \<times> nat)" where
  "db_queue_claim leases q now duration =
    (if duration = 0 then (q, Inl E_VALUE)
     else if \<not> leases then (q, Inl E_STATE)
     else
       let t = lease_now q now
       in case db_queue_scan_claimable leases q t of
            None \<Rightarrow> (q, Inl E_NOTFOUND)
          | Some p \<Rightarrow>
              (case lease_find_slot q p of
                 None \<Rightarrow> (q, Inl E_VALUE)
               | Some s \<Rightarrow>
                   if sl_token s = U64_MAX then (q, Inl E_VALUE)
                   else
                     let q1 = lease_edit_slot q p (\<lambda>s. s\<lparr>sl_token := sl_token s + 1\<rparr>)
                     in if U64_MAX < t + duration then (q1, Inl E_VALUE)
                        else
                          let q2 = edit_slot q1 p (\<lambda>s. s\<lparr>sl_until := t + duration, sl_state := CLAIMED\<rparr>);
                              q3 = lease_seg_refresh leases q2 p;
                              q4 = q3\<lparr>q_claim := max (q_claim q3) (p + 1), q_time_floor := t\<rparr>
                          in (db_catalog_seal q4, Inr (p, sl_token s + 1))))"

text \<open>What \<open>ACK\<close>, \<open>NACK\<close> and \<open>RENEW\<close> need first: the proof that the caller still holds the
  message.  The deadline is not consulted.\<close>

definition lease_hold :: "bool \<Rightarrow> queue \<Rightarrow> nat \<Rightarrow> nat \<Rightarrow> db_error option" where
  "lease_hold leases q p token =
    (if \<not> leases then Some E_STATE
     else case lease_find_slot q p of
       None \<Rightarrow> Some E_LEASE
     | Some s \<Rightarrow> if sl_state s \<noteq> CLAIMED \<or> sl_token s \<noteq> token then Some E_LEASE else None)"

function ah_step :: "queue \<Rightarrow> nat \<Rightarrow> nat" where
  "ah_step q h =
    (if q_tail q \<le> h then h
     else case queue_slot_at q h of
       None \<Rightarrow> h
     | Some s \<Rightarrow> if sl_state s = ACKED then ah_step q (h + 1) else h)"
  by pat_completeness auto

termination
  by (relation "measure (\<lambda>(q, h). q_tail q - h)") auto

declare ah_step.simps [simp del]

definition lease_advance_head :: "queue \<Rightarrow> queue" where
  "lease_advance_head q =
    (let h = ah_step q (q_head q) in if h = q_head q then q else move_head q h)"

definition db_queue_ack :: "bool \<Rightarrow> queue \<Rightarrow> nat \<Rightarrow> nat \<Rightarrow> queue \<times> db_error option" where
  "db_queue_ack leases q p token =
    (case lease_hold leases q p token of
       Some e \<Rightarrow> (q, Some e)
     | None \<Rightarrow>
         let q1 = lease_edit_slot q p (\<lambda>s. s\<lparr>sl_state := ACKED, sl_until := 0\<rparr>);
             q2 = lease_seg_refresh leases q1 p
         in (db_catalog_seal (lease_advance_head q2), None))"

definition db_queue_nack :: "bool \<Rightarrow> queue \<Rightarrow> nat \<Rightarrow> nat \<Rightarrow> queue \<times> db_error option" where
  "db_queue_nack leases q p token =
    (case lease_find_slot q p of
       None \<Rightarrow> (q, Some E_LEASE)
     | Some s \<Rightarrow>
         if sl_token s = U64_MAX then (q, Some E_VALUE)
         else case lease_hold leases q p token of
           Some e \<Rightarrow> (q, Some e)
         | None \<Rightarrow>
             let q1 = lease_edit_slot q p
                        (\<lambda>s. s\<lparr>sl_token := sl_token s + 1, sl_state := HELD, sl_until := 0\<rparr>)
             in (db_catalog_seal (lease_seg_refresh leases q1 p), None))"

definition db_queue_renew ::
    "bool \<Rightarrow> queue \<Rightarrow> nat \<Rightarrow> nat \<Rightarrow> nat \<Rightarrow> nat \<Rightarrow> queue \<times> db_error option" where
  "db_queue_renew leases q p token now duration =
    (if duration = 0 then (q, Some E_VALUE)
     else if \<not> leases then (q, Some E_STATE)
     else
       let t = lease_now q now
       in case lease_hold leases q p token of
            Some e \<Rightarrow> (q, Some e)
          | None \<Rightarrow>
              if U64_MAX < t + duration then (lease_edit_slot q p id, Some E_VALUE)
              else
                let q1 = lease_edit_slot q p (\<lambda>s. s\<lparr>sl_until := t + duration\<rparr>);
                    q2 = lease_seg_refresh leases q1 p
                in (db_catalog_seal (q2\<lparr>q_time_floor := t\<rparr>), None))"

end
