(* ===== verification/Lease_Laws.thy ===== *)
theory Lease_Laws
  imports Lease_Queue
begin

text \<open>
  What the queue operations keep and promise.  \<open>queue_shape\<close> is the part of a valid page every
  operation needs and every operation keeps; \<open>look\<close>, the live messages as a partial map from
  positions, is the abstract state, and each operation is described by what it does to that map.
  The locale \<open>ticketed\<close> states what a lease store promises about tickets and derives, once, that a
  spent ticket is never accepted again.
\<close>

section \<open>Shape\<close>

definition queue_shape :: "queue \<Rightarrow> bool" where
  "queue_shape q \<longleftrightarrow>
    q_head q \<le> q_tail q \<and> q_head q div QUEUE_SEG_SLOTS = q_first_seg q
    \<and> (if q_head q = q_tail q then q_entries q = []
       else (q_tail q - 1) div QUEUE_SEG_SLOTS + 1 = q_first_seg q + length (q_entries q))
    \<and> (\<forall>g \<in> set (q_entries q). length (seg_slots g) = QUEUE_SEG_SLOTS)"

definition live :: "queue \<Rightarrow> nat \<Rightarrow> bool" where
  "live q p \<longleftrightarrow> q_head q \<le> p \<and> p < q_tail q"

lemma shape_index:
  assumes "queue_shape q" and "live q p"
  shows "q_first_seg q \<le> p div 62" and "p div 62 - q_first_seg q < length (q_entries q)"
proof -
  have lt: "q_head q \<noteq> q_tail q" "q_head q \<le> p" "p \<le> q_tail q - 1"
    using assms by (auto simp: live_def)
  from lt(2) have "q_head q div 62 \<le> p div 62" by (rule div_le_mono)
  then show first: "q_first_seg q \<le> p div 62" using assms(1) by (simp add: queue_shape_def)
  from lt(3) have "p div 62 \<le> (q_tail q - 1) div 62" by (rule div_le_mono)
  moreover have "(q_tail q - 1) div 62 + 1 = q_first_seg q + length (q_entries q)"
    using assms(1) lt(1) by (simp add: queue_shape_def)
  ultimately show "p div 62 - q_first_seg q < length (q_entries q)" using first by linarith
qed

lemma shape_seg_length:
  assumes "queue_shape q" and "i < length (q_entries q)"
  shows "length (seg_slots (q_entries q ! i)) = 62"
  using assms by (auto simp: queue_shape_def)

lemma find_slot_live:
  assumes "queue_shape q"
  shows "lease_find_slot q p = (if live q p then Some (slot_in q p) else None)"
proof (cases "live q p")
  case True
  note shape_index [OF assms this]
  with True show ?thesis by (auto simp: lease_find_slot_def queue_slot_at_def live_def)
qed (auto simp: lease_find_slot_def live_def)

abbreviation look :: "queue \<Rightarrow> nat \<Rightarrow> slot option" where
  "look \<equiv> lease_find_slot"

lemma position_eqI: "p div 62 = p' div 62 \<Longrightarrow> p mod 62 = p' mod 62 \<Longrightarrow> p = (p' :: nat)"
  by (metis div_mult_mod_eq)

lemma shape_transfer:
  assumes "queue_shape q" and "q_head q' = q_head q" and "q_tail q' = q_tail q"
    and "q_first_seg q' = q_first_seg q" and len: "length (q_entries q') = length (q_entries q)"
    and "\<And>i. i < length (q_entries q) \<Longrightarrow> length (seg_slots (q_entries q' ! i)) = 62"
  shows "queue_shape q'"
proof -
  have "\<forall>g \<in> set (q_entries q'). length (seg_slots g) = 62"
    using assms(6) len by (metis in_set_conv_nth)
  moreover have "q_entries q' = [] \<longleftrightarrow> q_entries q = []" using len by (metis length_0_conv)
  ultimately show ?thesis using assms(1-4) len unfolding queue_shape_def by (simp split: if_splits)
qed

section \<open>Writing a slot\<close>

lemma edit_slot_fields [simp]:
  "q_head (edit_slot q p f) = q_head q" "q_tail (edit_slot q p f) = q_tail q"
  "q_claim (edit_slot q p f) = q_claim q" "q_first_seg (edit_slot q p f) = q_first_seg q"
  "q_time_floor (edit_slot q p f) = q_time_floor q" "q_sealed (edit_slot q p f) = q_sealed q"
  "length (q_entries (edit_slot q p f)) = length (q_entries q)"
  by (simp_all add: edit_slot_def Let_def)

lemma live_cong [simp]:
  "live (edit_slot q p f) = live q"
  "live (q\<lparr>q_sealed := b\<rparr>) = live q" "live (q\<lparr>q_claim := c\<rparr>) = live q"
  "live (q\<lparr>q_time_floor := t\<rparr>) = live q" "live (q\<lparr>q_entries := es\<rparr>) = live q"
  by (simp_all add: live_def fun_eq_iff)

lemma shape_cong [simp]:
  "queue_shape (q\<lparr>q_sealed := b\<rparr>) = queue_shape q" "queue_shape (q\<lparr>q_claim := c\<rparr>) = queue_shape q"
  "queue_shape (q\<lparr>q_time_floor := t\<rparr>) = queue_shape q"
  by (simp_all add: queue_shape_def)

lemma slot_in_cong [simp]:
  "slot_in (q\<lparr>q_sealed := b\<rparr>) = slot_in q" "slot_in (q\<lparr>q_claim := c\<rparr>) = slot_in q"
  "slot_in (q\<lparr>q_time_floor := t\<rparr>) = slot_in q"
  by (simp_all add: slot_in_def fun_eq_iff)

lemma look_cong [simp]:
  "look (q\<lparr>q_sealed := b\<rparr>) = look q" "look (q\<lparr>q_claim := c\<rparr>) = look q"
  "look (q\<lparr>q_time_floor := t\<rparr>) = look q"
  by (simp_all add: fun_eq_iff lease_find_slot_def queue_slot_at_def)

lemma entries_edit:
  "q_entries (edit_slot q p f) =
    (q_entries q)[p div 62 - q_first_seg q :=
       (q_entries q ! (p div 62 - q_first_seg q))\<lparr>seg_slots :=
          (seg_slots (q_entries q ! (p div 62 - q_first_seg q)))[p mod 62 := f (slot_in q p)]\<rparr>]"
  by (simp add: edit_slot_def Let_def slot_in_def)

lemma shape_edit [simp]:
  assumes "queue_shape q"
  shows "queue_shape (edit_slot q p f)"
proof (rule shape_transfer [OF assms])
  fix i assume i: "i < length (q_entries q)"
  show "length (seg_slots (q_entries (edit_slot q p f) ! i)) = 62"
    using shape_seg_length [OF assms i] i
    by (cases "i = p div 62 - q_first_seg q") (simp_all add: entries_edit)
qed simp_all

lemma slot_in_edit:
  assumes "queue_shape q" and "live q p" and "live q p'"
  shows "slot_in (edit_slot q p f) p' = (if p' = p then f (slot_in q p) else slot_in q p')"
proof -
  note i = shape_index [OF assms(1,2)] and i' = shape_index [OF assms(1,3)]
  have len: "p mod 62 < length (seg_slots (q_entries q ! (p div 62 - q_first_seg q)))"
    using shape_seg_length [OF assms(1) i(2)] by simp
  consider "p' = p" | "p' div 62 \<noteq> p div 62" | "p' div 62 = p div 62" "p' mod 62 \<noteq> p mod 62"
    using position_eqI by blast
  then show ?thesis
  proof cases
    case 1
    with i(2) len show ?thesis unfolding slot_in_def [of "edit_slot q p f"] by (simp add: entries_edit)
  next
    case 2
    then have "p' div 62 - q_first_seg q \<noteq> p div 62 - q_first_seg q" using i(1) i'(1) by linarith
    with 2 show ?thesis unfolding slot_in_def [of "edit_slot q p f"] slot_in_def [of q p']
      by (auto simp: entries_edit)
  next
    case 3
    then have "p' \<noteq> p" by auto
    with 3 i(2) show ?thesis unfolding slot_in_def [of "edit_slot q p f"] slot_in_def [of q p']
      by (simp add: entries_edit)
  qed
qed

lemma look_edit:
  assumes "queue_shape q" and "live q p"
  shows "look (edit_slot q p f) = (look q)(p \<mapsto> f (slot_in q p))"
proof
  fix p'
  show "look (edit_slot q p f) p' = ((look q)(p \<mapsto> f (slot_in q p))) p'"
    using slot_in_edit [OF assms] assms by (simp add: find_slot_live)
qed

lemma look_lease_edit:
  assumes "queue_shape q" and "live q p"
  shows "look (lease_edit_slot q p f) = (look q)(p \<mapsto> f (slot_in q p))"
  using look_edit [OF assms] by (simp add: lease_edit_slot_def)

section \<open>Refreshing a summary\<close>

lemma refresh_fields [simp]:
  "q_head (lease_seg_refresh l q p) = q_head q" "q_tail (lease_seg_refresh l q p) = q_tail q"
  "q_claim (lease_seg_refresh l q p) = q_claim q"
  "q_first_seg (lease_seg_refresh l q p) = q_first_seg q"
  "q_time_floor (lease_seg_refresh l q p) = q_time_floor q"
  "q_sealed (lease_seg_refresh l q p) = q_sealed q"
  "length (q_entries (lease_seg_refresh l q p)) = length (q_entries q)"
  by (simp_all add: lease_seg_refresh_def Let_def)

lemma refresh_slots:
  "seg_slots (q_entries (lease_seg_refresh l q p) ! i) = seg_slots (q_entries q ! i)"
  if "i < length (q_entries q)"
  using that by (cases "i = p div 62 - q_first_seg q") (simp_all add: lease_seg_refresh_def Let_def)

lemma shape_refresh [simp]: "queue_shape (lease_seg_refresh l q p)" if "queue_shape q"
  by (rule shape_transfer [OF that]) (simp_all add: refresh_slots shape_seg_length that)

lemma live_refresh [simp]: "live (lease_seg_refresh l q p) = live q"
  by (simp add: live_def fun_eq_iff)

lemma slot_in_refresh:
  "slot_in (lease_seg_refresh l q p) p' = slot_in q p'" if "queue_shape q" and "live q p'"
  using refresh_slots [OF shape_index(2) [OF that]] by (simp add: slot_in_def)

lemma look_refresh [simp]: "look (lease_seg_refresh l q p) = look q" if "queue_shape q"
  using that by (auto simp: fun_eq_iff find_slot_live slot_in_refresh)

section \<open>Moving the head\<close>

lemma shape_move_head:
  assumes "queue_shape q" and "q_head q \<le> h" and "h \<le> q_tail q"
  shows "queue_shape (move_head q h)"
proof (cases "h = q_tail q")
  case False
  then have h: "live q h" using assms by (simp add: live_def)
  note i = shape_index [OF assms(1) h]
  have "(q_tail q - 1) div 62 + 1 = q_first_seg q + length (q_entries q)"
    using assms(1) h by (auto simp: queue_shape_def live_def)
  with i False assms show ?thesis
    by (auto simp: queue_shape_def move_head_def dest!: in_set_dropD)
qed (auto simp: queue_shape_def move_head_def)

lemma look_move_head:
  assumes "queue_shape q" and "q_head q \<le> h" and "h \<le> q_tail q"
  shows "look (move_head q h) p = (if p < h then None else look q p)"
proof -
  have shape: "queue_shape (move_head q h)" by (rule shape_move_head [OF assms])
  have live: "live (move_head q h) p \<longleftrightarrow> live q p \<and> h \<le> p"
    using assms by (auto simp: live_def move_head_def)
  show ?thesis
  proof (cases "live q p \<and> h \<le> p")
    case True
    then have h: "live q h" and "h \<noteq> q_tail q" using assms by (auto simp: live_def)
    note ih = shape_index [OF assms(1) h]
    have "h div 62 \<le> p div 62" using True by (simp add: div_le_mono)
    then have "slot_in (move_head q h) p = slot_in q p"
      using \<open>h \<noteq> q_tail q\<close> ih by (simp add: slot_in_def move_head_def)
    with True live shape assms(1) show ?thesis by (simp add: find_slot_live)
  next
    case False
    with live shape assms(1) show ?thesis by (auto simp: find_slot_live)
  qed
qed

lemma ah_step_bounds: "h \<le> ah_step q h \<and> (h \<le> q_tail q \<longrightarrow> ah_step q h \<le> q_tail q)"
proof (induction q h rule: ah_step.induct)
  case (1 q h)
  then show ?case by (subst (1 2) ah_step.simps) (auto split: option.splits)
qed

lemma ah_step_acked:
  assumes "queue_shape q" and "q_head q \<le> h"
  shows "h \<le> p \<Longrightarrow> p < ah_step q h \<Longrightarrow> live q p \<and> sl_state (slot_in q p) = ACKED"
  using assms(2)
proof (induction q h rule: ah_step.induct)
  case (1 q h)
  show ?case
  proof (cases "q_tail q \<le> h")
    case True
    with "1.prems" show ?thesis by (simp add: ah_step.simps [of q h])
  next
    case False
    show ?thesis
    proof (cases "queue_slot_at q h")
      case None
      with False "1.prems" show ?thesis by (simp add: ah_step.simps [of q h])
    next
      case (Some s)
      then have s: "s = slot_in q h" by (auto simp: queue_slot_at_def split: if_splits)
      show ?thesis
      proof (cases "sl_state s = ACKED")
        case True
        have "ah_step q h = ah_step q (h + 1)"
          using False Some True by (simp add: ah_step.simps [of q h])
        then show ?thesis
          using "1.IH" [OF False Some True] "1.prems" False True s
          by (cases "p = h") (auto simp: live_def)
      next
        case False
        with \<open>\<not> q_tail q \<le> h\<close> Some "1.prems" show ?thesis by (simp add: ah_step.simps [of q h])
      qed
    qed
  qed
qed

section \<open>The search\<close>

lemma sc_next_sound:
  "sc_next q now p hand = Some r \<Longrightarrow> p \<le> r \<and> r < q_tail q \<and> claimable now (slot_in q r)"
proof (induction q now p hand rule: sc_next.induct)
  case (1 q now p hand)
  show ?case
  proof (cases "q_tail q \<le> p")
    case True
    with "1.prems" show ?thesis by (simp add: sc_next.simps [of q now p])
  next
    case False
    let ?skip = "hand \<noteq> Some (p div 62) \<and> now < seg_ready_at (q_entries q ! (p div 62 - q_first_seg q))"
    show ?thesis
    proof (cases ?skip)
      case True
      then have "sc_next q now ((p div 62 + 1) * 62) (Some (p div 62)) = Some r"
        using "1.prems" False by (simp add: sc_next.simps [of q now p])
      from "1.IH"(1) [OF False True this] next_seg_after [of p] show ?thesis by linarith
    next
      case no: False
      show ?thesis
      proof (cases "claimable now (slot_in q p)")
        case True
        with "1.prems" False no show ?thesis by (simp add: sc_next.simps [of q now p] del: not_Some_eq)
      next
        case nc: False
        then have "sc_next q now (p + 1) (Some (p div 62)) = Some r"
          using "1.prems" False no by (simp add: sc_next.simps [of q now p])
        from "1.IH"(2) [OF False no nc this] show ?thesis by linarith
      qed
    qed
  qed
qed

lemma scan_sound:
  assumes "db_queue_scan_claimable l q now = Some p"
  shows "l" and "live q p" and "claimable now (slot_in q p)"
  using assms sc_next_sound [of q now "q_head q" None p]
  by (auto simp: db_queue_scan_claimable_def live_def split: if_splits)

section \<open>What each operation does to the live messages\<close>

definition enqueued :: "string \<Rightarrow> slot" where
  "enqueued b = blank_slot\<lparr>sl_payload := b\<rparr>"

lemma shape_nonempty: "queue_shape q \<Longrightarrow> q_entries q = [] \<longleftrightarrow> q_head q = q_tail q"
  by (auto simp: queue_shape_def split: if_splits)

lemma edit_slot_tail: "edit_slot (q\<lparr>q_tail := n\<rparr>) p f = (edit_slot q p f)\<lparr>q_tail := n\<rparr>"
  by (simp add: edit_slot_def Let_def)

lemma push_law:
  assumes "queue_shape q" and "db_queue_push q b = (q', None)"
  shows "queue_shape q'" and "look q' = (look q)(q_tail q \<mapsto> enqueued b)"
    and "q_tail q' = q_tail q + 1" and "q_head q' = q_head q"
proof -
  define s where "s = q_tail q div 62"
  define base where "base = (if q_entries q = [] then s else q_first_seg q)"
  define es where "es = (if s - base < length (q_entries q) then q_entries q else q_entries q @ [blank_seg])"
  define q1 where "q1 = q\<lparr>q_entries := es, q_first_seg := base, q_tail := q_tail q + 1\<rparr>"
  have q': "q' = (edit_slot q1 (q_tail q) (\<lambda>_. enqueued b))\<lparr>q_claim := q_head q, q_sealed := True\<rparr>"
    using assms(2)
    by (simp add: db_queue_push_def Let_def q1_def es_def base_def s_def db_catalog_seal_def
        enqueued_def edit_slot_tail split: if_splits)
  have ht: "q_head q \<le> q_tail q" and first: "q_head q div 62 = q_first_seg q"
    using assms(1) by (simp_all add: queue_shape_def)
  have base: "q_head q div 62 = base"
    using first shape_nonempty [OF assms(1)] by (auto simp: base_def s_def)
  have n: "s + 1 = base + length es"
  proof (cases "q_entries q = []")
    case True
    then show ?thesis by (simp add: es_def base_def)
  next
    case False
    then have b: "base = q_first_seg q" by (simp add: base_def)
    have ne: "q_head q \<noteq> q_tail q" using False shape_nonempty [OF assms(1)] by simp
    then have tl: "q_tail q = Suc (q_tail q - 1)" using ht by simp
    have l: "(q_tail q - 1) div 62 + 1 = base + length (q_entries q)"
      using assms(1) ne b by (simp add: queue_shape_def)
    have "s = (q_tail q - 1) div 62 \<or> s = (q_tail q - 1) div 62 + 1"
      unfolding s_def by (subst (1 3) tl) (simp add: div_Suc)
    moreover have "base \<le> s" unfolding base [symmetric] s_def using ht by (rule div_le_mono)
    ultimately show ?thesis using l by (auto simp: es_def)
  qed
  have seglen: "\<forall>g \<in> set es. length (seg_slots g) = 62"
    using assms(1) by (auto simp: es_def queue_shape_def blank_seg_def)
  have shape: "queue_shape q1"
    using ht base n seglen by (simp add: q1_def queue_shape_def s_def)
  have tail: "live q1 (q_tail q)" using ht by (simp add: q1_def live_def)
  show "queue_shape q'" by (simp add: q' shape)
  show "q_tail q' = q_tail q + 1" "q_head q' = q_head q" by (simp_all add: q' q1_def)
  have "look q1 p = look q p" if "p \<noteq> q_tail q" for p
  proof (cases "live q p")
    case True
    note i = shape_index [OF assms(1) True]
    have "base = q_first_seg q" using i by (auto simp: base_def)
    with i have "slot_in q1 p = slot_in q p" by (auto simp: slot_in_def q1_def es_def nth_append)
    moreover have "live q1 p" using True by (auto simp: live_def q1_def)
    ultimately show ?thesis using True shape assms(1) by (simp add: find_slot_live)
  next
    case False
    then have "\<not> live q1 p" using that by (auto simp: live_def q1_def)
    with False shape assms(1) show ?thesis by (simp add: find_slot_live)
  qed
  then show "look q' = (look q)(q_tail q \<mapsto> enqueued b)"
    by (auto simp: q' fun_eq_iff look_edit [OF shape tail])
qed

lemma pop_law:
  assumes "queue_shape q" and "db_queue_pop q = (q', Inr b)"
  shows "queue_shape q'" and "\<exists>s. look q (q_head q) = Some s \<and> sl_payload s = b"
    and "look q' p = (if p < q_head q + 1 then None else look q p)"
    and "q_tail q' = q_tail q" and "q_head q' = q_head q + 1"
proof -
  have ne: "q_head q \<noteq> q_tail q" using assms(2) by (auto simp: db_queue_pop_def)
  with assms(1) have live: "live q (q_head q)" by (simp add: live_def queue_shape_def)
  have bounds: "q_head q \<le> q_head q + 1" "q_head q + 1 \<le> q_tail q" using live by (simp_all add: live_def)
  obtain s where s: "queue_slot_at q (q_head q) = Some s" "b = sl_payload s"
    and q': "q' = db_catalog_seal ((move_head q (q_head q + 1))\<lparr>q_claim := q_head q + 1\<rparr>)"
    using assms(2) ne by (auto simp: db_queue_pop_def split: option.splits)
  show "queue_shape q'" using shape_move_head [OF assms(1) bounds] by (simp add: q' db_catalog_seal_def)
  show "\<exists>s. look q (q_head q) = Some s \<and> sl_payload s = b"
    using s live by (simp add: lease_find_slot_def live_def)
  show "look q' p = (if p < q_head q + 1 then None else look q p)"
    using look_move_head [OF assms(1) bounds] by (simp add: q' db_catalog_seal_def)
  show "q_tail q' = q_tail q" "q_head q' = q_head q + 1" by (simp_all add: q' db_catalog_seal_def move_head_def)
qed

definition raised :: "slot \<Rightarrow> slot" where
  "raised s = s\<lparr>sl_token := sl_token s + 1\<rparr>"

definition claimed :: "slot \<Rightarrow> nat \<Rightarrow> slot" where
  "claimed s until = (raised s)\<lparr>sl_until := until, sl_state := CLAIMED\<rparr>"

lemma claim_law:
  assumes "queue_shape q" and "db_queue_claim l q now d = (q', Inr (p, t))"
  shows "l" and "queue_shape q'" and "live q p" and "claimable (lease_now q now) (slot_in q p)"
    and "t = sl_token (slot_in q p) + 1" and "lease_now q now + d \<le> U64_MAX" and "0 < d"
    and "look q' = (look q)(p \<mapsto> claimed (slot_in q p) (lease_now q now + d))"
    and "q_head q' = q_head q" and "q_tail q' = q_tail q" and "q_time_floor q' = lease_now q now"
    and "q_sealed q'"
proof -
  obtain s where scan: "db_queue_scan_claimable l q (lease_now q now) = Some p"
    and s: "look q p = Some s" and t: "t = sl_token s + 1" and d: "0 < d"
    and until: "lease_now q now + d \<le> U64_MAX" and l: l
    and q': "q' = db_catalog_seal ((lease_seg_refresh l (edit_slot (lease_edit_slot q p raised) p
        (\<lambda>s. s\<lparr>sl_until := lease_now q now + d, sl_state := CLAIMED\<rparr>)) p)
        \<lparr>q_claim := max (q_claim q) (p + 1), q_time_floor := lease_now q now\<rparr>)"
    using assms(2)
    by (auto simp: db_queue_claim_def Let_def lease_edit_slot_def not_less raised_def [abs_def] split: if_splits option.splits)
  show l by (rule l)
  show live: "live q p" and "claimable (lease_now q now) (slot_in q p)" using scan_sound [OF scan] by auto
  have s': "s = slot_in q p" using s live assms(1) by (simp add: find_slot_live)
  show "t = sl_token (slot_in q p) + 1" using t s' by simp
  show "lease_now q now + d \<le> U64_MAX" and "0 < d" by (fact until, fact d)
  define q1 where "q1 = lease_edit_slot q p raised"
  have shape1: "queue_shape q1" and live1: "live q1 p"
    using assms(1) live by (simp_all add: q1_def lease_edit_slot_def)
  have in1: "slot_in q1 p = raised (slot_in q p)"
    using slot_in_edit [OF assms(1) live live] by (simp add: q1_def lease_edit_slot_def)
  show "queue_shape q'" using shape1 by (simp add: q' q1_def [symmetric] db_catalog_seal_def)
  have "look q' = look (edit_slot q1 p (\<lambda>s. s\<lparr>sl_until := lease_now q now + d, sl_state := CLAIMED\<rparr>))"
    using shape1 by (simp add: q' q1_def [symmetric] db_catalog_seal_def)
  also have "\<dots> = (look q1)(p \<mapsto> claimed (slot_in q p) (lease_now q now + d))"
    by (simp add: look_edit [OF shape1 live1] in1 claimed_def)
  also have "\<dots> = (look q)(p \<mapsto> claimed (slot_in q p) (lease_now q now + d))"
    by (simp add: q1_def look_lease_edit [OF assms(1) live])
  finally show "look q' = (look q)(p \<mapsto> claimed (slot_in q p) (lease_now q now + d))" .
  show "q_head q' = q_head q" "q_tail q' = q_tail q" "q_time_floor q' = lease_now q now" "q_sealed q'"
    by (simp_all add: q' db_catalog_seal_def lease_edit_slot_def)
qed

lemma claim_outcomes:
  "(\<exists>r. snd (db_queue_claim l q now d) = Inr r) \<or> fst (db_queue_claim l q now d) = q
   \<or> (\<exists>p. db_queue_scan_claimable l q (lease_now q now) = Some p
        \<and> fst (db_queue_claim l q now d) = lease_edit_slot q p raised
        \<and> snd (db_queue_claim l q now d) = Inl E_VALUE)"
  by (simp add: db_queue_claim_def Let_def raised_def [abs_def] split: option.split)

lemma claim_refused:
  assumes "queue_shape q" and "db_queue_claim l q now d = (q', Inl e)"
  shows "q' = q \<or> (e = E_VALUE \<and> queue_shape q' \<and> q_tail q' = q_tail q \<and>
    (\<exists>p. live q p \<and> look q' = (look q)(p \<mapsto> raised (slot_in q p))))"
proof (cases "q' = q")
  case False
  then obtain p where p: "db_queue_scan_claimable l q (lease_now q now) = Some p"
    and q': "q' = lease_edit_slot q p raised" and "e = E_VALUE"
    using claim_outcomes [of l q now d] assms(2) by auto
  from scan_sound(2) [OF p] have "live q p" .
  with assms(1) \<open>e = E_VALUE\<close> have "queue_shape q' \<and> q_tail q' = q_tail q"
    and "look q' = (look q)(p \<mapsto> raised (slot_in q p))"
    by (simp_all add: q' look_lease_edit) (simp add: lease_edit_slot_def)
  with \<open>live q p\<close> \<open>e = E_VALUE\<close> show ?thesis by blast
qed simp

lemma hold_iff:
  assumes "queue_shape q"
  shows "lease_hold l q p t = None \<longleftrightarrow>
    l \<and> (\<exists>s. look q p = Some s \<and> sl_state s = CLAIMED \<and> sl_token s = t)"
  by (auto simp: lease_hold_def split: option.splits if_splits)

definition finished :: "slot \<Rightarrow> slot" where
  "finished s = s\<lparr>sl_state := ACKED, sl_until := 0\<rparr>"

definition handed_back :: "slot \<Rightarrow> slot" where
  "handed_back s = s\<lparr>sl_token := sl_token s + 1, sl_state := HELD, sl_until := 0\<rparr>"

text \<open>An acknowledgement finishes the message and then the head passes every finished message at
  the front, so what it leaves of a live position is the position or nothing.\<close>

lemma ack_law:
  assumes "queue_shape q" and "db_queue_ack l q p t = (q', None)"
  shows "l" and "live q p" and "sl_state (slot_in q p) = CLAIMED" and "sl_token (slot_in q p) = t"
    and "queue_shape q'" and "q_tail q' = q_tail q" and "q_head q \<le> q_head q'" and "q_head q' \<le> q_tail q"
    and "look q' r = (if r < q_head q' then None else ((look q)(p \<mapsto> finished (slot_in q p))) r)"
    and "q_head q \<le> r \<Longrightarrow> r < q_head q' \<Longrightarrow>
      \<exists>s. ((look q)(p \<mapsto> finished (slot_in q p))) r = Some s \<and> sl_state s = ACKED"
    and "q_time_floor q' = q_time_floor q" and "q_sealed q'" and "q_claim q' = q_claim q"
proof -
  have hold: "lease_hold l q p t = None" using assms(2) by (auto simp: db_queue_ack_def split: option.splits)
  then obtain s where l: l and s: "look q p = Some s" "sl_state s = CLAIMED" "sl_token s = t"
    using hold_iff [OF assms(1)] by blast
  then show l by simp
  show live: "live q p" and "sl_state (slot_in q p) = CLAIMED" and "sl_token (slot_in q p) = t"
    using s assms(1) by (auto simp: find_slot_live split: if_splits)
  define q1 where "q1 = lease_seg_refresh l (lease_edit_slot q p finished) p"
  have shape1: "queue_shape q1" using assms(1) by (simp add: q1_def lease_edit_slot_def)
  have look1: "look q1 = (look q)(p \<mapsto> finished (slot_in q p))"
    using assms(1) live look_lease_edit [OF assms(1) live] by (simp add: q1_def lease_edit_slot_def)
  have f1: "q_head q1 = q_head q" "q_tail q1 = q_tail q" "q_time_floor q1 = q_time_floor q"
    "q_claim q1 = q_claim q"
    by (simp_all add: q1_def lease_edit_slot_def)
  define h where "h = ah_step q1 (q_head q)"
  have "q' = db_catalog_seal (lease_advance_head q1)"
    using assms(2) hold by (simp add: db_queue_ack_def Let_def q1_def finished_def [abs_def])
  then have q': "q' = db_catalog_seal (if h = q_head q then q1 else move_head q1 h)"
    by (simp add: lease_advance_head_def Let_def h_def f1)
  have h: "q_head q1 \<le> h" "h \<le> q_tail q1"
    using ah_step_bounds [of "q_head q" q1] shape1 f1 by (auto simp: h_def queue_shape_def)
  have q'': "queue_shape q' \<and> q_head q' = h \<and> q_tail q' = q_tail q \<and>
      look q' r = (if r < h then None else look q1 r) \<and> q_time_floor q' = q_time_floor q \<and> q_sealed q'
      \<and> q_claim q' = q_claim q" for r
  proof (cases "h = q_head q")
    case True
    have "look q1 r = None" if "r < q_head q" using that f1 by (simp add: lease_find_slot_def)
    with True shape1 f1 show ?thesis by (simp add: q' db_catalog_seal_def)
  next
    case False
    with shape_move_head [OF shape1 h] look_move_head [OF shape1 h] f1 show ?thesis
      by (simp add: q' db_catalog_seal_def) (simp add: move_head_def)
  qed
  show "queue_shape q'" "q_tail q' = q_tail q" "q_time_floor q' = q_time_floor q" "q_sealed q'"
    "q_claim q' = q_claim q" using q'' by auto
  show "q_head q \<le> q_head q'" "q_head q' \<le> q_tail q" using q'' h f1 by auto
  show "look q' r = (if r < q_head q' then None else ((look q)(p \<mapsto> finished (slot_in q p))) r)"
    using q'' [of r] by (simp add: look1)
  assume r: "q_head q \<le> r" "r < q_head q'"
  then have "live q1 r \<and> sl_state (slot_in q1 r) = ACKED"
    using ah_step_acked [OF shape1, of "q_head q" r] q'' [of r] f1 by (simp add: h_def)
  then show "\<exists>s. ((look q)(p \<mapsto> finished (slot_in q p))) r = Some s \<and> sl_state s = ACKED"
    using shape1 by (simp add: look1 [symmetric] find_slot_live)
qed

lemma ack_refused: "db_queue_ack l q p t = (q', Some e) \<Longrightarrow> q' = q"
  by (auto simp: db_queue_ack_def Let_def split: option.splits)

lemma nack_law:
  assumes "queue_shape q" and "db_queue_nack l q p t = (q', None)"
  shows "live q p" and "sl_state (slot_in q p) = CLAIMED" and "sl_token (slot_in q p) = t"
    and "queue_shape q'" and "q_tail q' = q_tail q" and "q_head q' = q_head q"
    and "look q' = (look q)(p \<mapsto> handed_back (slot_in q p))"
    and "q_time_floor q' = q_time_floor q" and "q_sealed q'" and "q_claim q' = q_claim q" and "l"
proof -
  have hold: "lease_hold l q p t = None"
    and q': "q' = db_catalog_seal (lease_seg_refresh l (lease_edit_slot q p handed_back) p)"
    using assms(2)
    by (auto simp: db_queue_nack_def Let_def handed_back_def [abs_def] split: option.splits if_splits)
  then obtain s where l: l and s: "look q p = Some s" "sl_state s = CLAIMED" "sl_token s = t"
    using hold_iff [OF assms(1)] by blast
  show live: "live q p" and "sl_state (slot_in q p) = CLAIMED" and "sl_token (slot_in q p) = t"
    using s assms(1) by (auto simp: find_slot_live split: if_splits)
  show "queue_shape q'" "q_tail q' = q_tail q" "q_head q' = q_head q" "q_sealed q'"
    "q_time_floor q' = q_time_floor q" "q_claim q' = q_claim q" l
    using assms(1) l by (simp_all add: q' db_catalog_seal_def lease_edit_slot_def)
  show "look q' = (look q)(p \<mapsto> handed_back (slot_in q p))"
    using assms(1) look_lease_edit [OF assms(1) live]
    by (simp add: q' db_catalog_seal_def lease_edit_slot_def)
qed

lemma nack_refused: "db_queue_nack l q p t = (q', Some e) \<Longrightarrow> q' = q"
  by (auto simp: db_queue_nack_def Let_def split: option.splits if_splits)

lemma renew_law:
  assumes "queue_shape q" and "db_queue_renew l q p t now d = (q', None)"
  shows "live q p" and "sl_state (slot_in q p) = CLAIMED" and "sl_token (slot_in q p) = t"
    and "queue_shape q'" and "q_tail q' = q_tail q" and "q_head q' = q_head q"
    and "look q' = (look q)(p \<mapsto> (slot_in q p)\<lparr>sl_until := lease_now q now + d\<rparr>)"
    and "q_time_floor q' = lease_now q now" and "q_sealed q'" and "q_claim q' = q_claim q" and "l"
    and "0 < d" and "lease_now q now + d \<le> U64_MAX"
proof -
  have hold: "lease_hold l q p t = None" and d: "0 < d" "lease_now q now + d \<le> U64_MAX"
    and q': "q' = db_catalog_seal ((lease_seg_refresh l (lease_edit_slot q p
        (\<lambda>s. s\<lparr>sl_until := lease_now q now + d\<rparr>)) p)\<lparr>q_time_floor := lease_now q now\<rparr>)"
    using assms(2) by (auto simp: db_queue_renew_def Let_def not_less split: option.splits if_splits)
  show "0 < d" "lease_now q now + d \<le> U64_MAX" by fact+
  obtain s where l: l and s: "look q p = Some s" "sl_state s = CLAIMED" "sl_token s = t"
    using hold hold_iff [OF assms(1)] by blast
  show live: "live q p" and "sl_state (slot_in q p) = CLAIMED" and "sl_token (slot_in q p) = t"
    using s assms(1) by (auto simp: find_slot_live split: if_splits)
  show "queue_shape q'" "q_tail q' = q_tail q" "q_head q' = q_head q" "q_sealed q'"
    "q_time_floor q' = lease_now q now" "q_claim q' = q_claim q" l
    using assms(1) l by (simp_all add: q' db_catalog_seal_def lease_edit_slot_def)
  show "look q' = (look q)(p \<mapsto> (slot_in q p)\<lparr>sl_until := lease_now q now + d\<rparr>)"
    using assms(1) look_lease_edit [OF assms(1) live]
    by (simp add: q' db_catalog_seal_def lease_edit_slot_def)
qed

lemma renew_outcomes:
  "snd (db_queue_renew l q p t now d) = None \<or> fst (db_queue_renew l q p t now d) = q
   \<or> (lease_hold l q p t = None \<and> fst (db_queue_renew l q p t now d) = lease_edit_slot q p id)"
  by (simp add: db_queue_renew_def Let_def split: option.split)

lemma renew_refused:
  assumes "queue_shape q" and "db_queue_renew l q p t now d = (q', Some e)"
  shows "queue_shape q' \<and> look q' = look q \<and> q_tail q' = q_tail q"
proof (cases "q' = q")
  case False
  then have hold: "lease_hold l q p t = None" and q': "q' = lease_edit_slot q p id"
    using renew_outcomes [of l q p t now d] assms(2) by auto
  from hold have "live q p" using hold_iff [OF assms(1)] by (auto simp: find_slot_live assms(1) split: if_splits)
  then have "look q' = look q"
    using look_lease_edit [OF assms(1), of p id] by (simp add: q' fun_upd_idem find_slot_live assms(1))
  moreover have "queue_shape q' \<and> q_tail q' = q_tail q" using assms(1) by (simp add: q' lease_edit_slot_def)
  ultimately show ?thesis by blast
qed (simp add: assms(1))

end
