(* ===== verification/Lease_Safety.thy ===== *)
theory Lease_Safety
  imports Lease_Laws
begin

text \<open>
  Tickets.  \<open>lq_step\<close> is any one operation any client may perform on a queue, with the queue it
  leaves behind, refused or not; a history is a sequence of such steps.  The locale \<open>ticketed\<close> is
  the interface a lease store offers to a worker holding a ticket \<open>(position, token)\<close>: what it may
  assume the other clients can do to the message meanwhile.
\<close>

section \<open>Histories of a queue\<close>

inductive lq_step :: "bool \<Rightarrow> queue \<Rightarrow> queue \<Rightarrow> bool" for l where
  enqueue: "db_queue_push q b = (q', r) \<Longrightarrow> lq_step l q q'"
| dequeue: "db_queue_pop q = (q', m) \<Longrightarrow> lq_step l q q'"
| claim: "db_queue_claim l q now d = (q', c) \<Longrightarrow> lq_step l q q'"
| ack: "db_queue_ack l q p t = (q', r) \<Longrightarrow> lq_step l q q'"
| nack: "db_queue_nack l q p t = (q', r) \<Longrightarrow> lq_step l q q'"
| renew: "db_queue_renew l q p t now d = (q', r) \<Longrightarrow> lq_step l q q'"

inductive_cases lq_stepE: "lq_step l q q'"

section \<open>Spent tickets\<close>

text \<open>The token \<open>t\<close> no longer finishes what the map holds: the message is gone, or its token has
  moved on, or it is not claimed.\<close>

definition spent :: "slot option \<Rightarrow> nat \<Rightarrow> bool" where
  "spent v t = (case v of None \<Rightarrow> True
     | Some s \<Rightarrow> t < sl_token s \<or> (t = sl_token s \<and> sl_state s \<noteq> CLAIMED))"

text \<open>What can become of a message: it may disappear, its token may rise, and at the same token it
  is not claimed again.\<close>

definition evolves :: "slot option \<Rightarrow> slot option \<Rightarrow> bool" where
  "evolves v w = (case v of None \<Rightarrow> w = None
     | Some a \<Rightarrow> (case w of None \<Rightarrow> True
         | Some b \<Rightarrow> sl_token a < sl_token b
             \<or> (sl_token a = sl_token b \<and> (sl_state a \<noteq> CLAIMED \<longrightarrow> sl_state b \<noteq> CLAIMED))))"

lemma evolves_refl [simp]: "evolves v v"
  by (simp add: evolves_def split: option.split)

lemma evolves_spent: "evolves v w \<Longrightarrow> spent v t \<Longrightarrow> spent w t"
  by (auto simp: evolves_def spent_def split: option.splits)

locale ticketed =
  fixes ok :: "'s \<Rightarrow> bool"
    and view :: "'s \<Rightarrow> nat \<Rightarrow> slot option"
    and bound :: "'s \<Rightarrow> nat"
    and step :: "'s \<Rightarrow> 's \<Rightarrow> bool"
    and finish :: "'s \<Rightarrow> nat \<Rightarrow> nat \<Rightarrow> bool"
  assumes step_ok: "ok s \<Longrightarrow> step s s' \<Longrightarrow> ok s'"
    and step_bound: "ok s \<Longrightarrow> step s s' \<Longrightarrow> bound s \<le> bound s'"
    and step_evolves: "ok s \<Longrightarrow> step s s' \<Longrightarrow> p < bound s \<Longrightarrow> evolves (view s p) (view s' p)"
    and finish_iff: "ok s \<Longrightarrow> finish s p t \<longleftrightarrow>
      (\<exists>m. view s p = Some m \<and> sl_state m = CLAIMED \<and> sl_token m = t)"
begin

lemma spent_refused: "ok s \<Longrightarrow> spent (view s p) t \<Longrightarrow> \<not> finish s p t"
  by (auto simp: finish_iff spent_def)

lemma spent_forever:
  assumes "step\<^sup>*\<^sup>* s s'" and "ok s" and "p < bound s" and "spent (view s p) t"
  shows "ok s' \<and> p < bound s' \<and> spent (view s' p) t"
  using assms
proof (induction rule: rtranclp_induct)
  case (step s1 s2)
  then have ok: "ok s1" "p < bound s1" "spent (view s1 p) t" by auto
  have "ok s2" by (rule step_ok [OF ok(1) step.hyps(2)])
  moreover have "p < bound s2" using step_bound [OF ok(1) step.hyps(2)] ok(2) by simp
  moreover have "spent (view s2 p) t"
    by (rule evolves_spent [OF step_evolves [OF ok(1) step.hyps(2) ok(2)] ok(3)])
  ultimately show ?case by blast
qed simp

lemma spent_never_finishes:
  assumes "step\<^sup>*\<^sup>* s s'" and "ok s" and "p < bound s" and "spent (view s p) t"
  shows "\<not> finish s' p t"
  using spent_forever [OF assms] spent_refused by blast

lemma one_holder: "ok s \<Longrightarrow> finish s p t \<Longrightarrow> finish s p t' \<Longrightarrow> t = t'"
  by (auto simp: finish_iff)

end

section \<open>The queue of the engine is such a store\<close>

lemma push_refused: "db_queue_push q b = (q', Some e) \<Longrightarrow> q' = q"
  by (auto simp: db_queue_push_def Let_def split: if_splits)

lemma pop_refused: "db_queue_pop q = (q', Inl e) \<Longrightarrow> q' = q"
  by (auto simp: db_queue_pop_def split: if_splits option.splits)

lemma look_bound: "look q p = Some s \<Longrightarrow> p < q_tail q"
  by (auto simp: lease_find_slot_def split: if_splits)

lemma look_slot_in: "queue_shape q \<Longrightarrow> live q p \<Longrightarrow> look q p = Some (slot_in q p)"
  by (simp add: find_slot_live)

definition lq_evolves :: "queue \<Rightarrow> queue \<Rightarrow> bool" where
  "lq_evolves q q' \<longleftrightarrow>
    queue_shape q' \<and> q_tail q \<le> q_tail q' \<and> (\<forall>p < q_tail q. evolves (look q p) (look q' p))"

lemma lq_evolves_refl: "queue_shape q \<Longrightarrow> lq_evolves q q"
  by (simp add: lq_evolves_def)

lemma lq_evolves_upd:
  assumes "queue_shape q" and "live q r" and "queue_shape q'" and "q_tail q' = q_tail q"
    and "look q' = (look q)(r \<mapsto> m)" and "evolves (Some (slot_in q r)) (Some m)"
  shows "lq_evolves q q'"
  using assms look_slot_in [OF assms(1,2)] by (simp add: lq_evolves_def)

lemma evolves_gone [simp]: "evolves v None"
  by (simp add: evolves_def split: option.split)

lemma evolves_push:
  assumes "queue_shape q" and "db_queue_push q b = (q', r)"
  shows "lq_evolves q q'"
proof (cases r)
  case None
  with assms(2) push_law [OF assms(1)] show ?thesis by (simp add: lq_evolves_def)
next
  case (Some e)
  with push_refused assms(2) have "q' = q" by blast
  with lq_evolves_refl [OF assms(1)] show ?thesis by simp
qed

lemma evolves_pop:
  assumes "queue_shape q" and "db_queue_pop q = (q', m)"
  shows "lq_evolves q q'"
proof (cases m)
  case (Inl e)
  with pop_refused assms(2) have "q' = q" by blast
  with lq_evolves_refl [OF assms(1)] show ?thesis by simp
next
  case (Inr b)
  note law = pop_law [OF assms(1) assms(2) [unfolded Inr]]
  show ?thesis by (simp add: lq_evolves_def law(1,3,4))
qed

lemma evolves_claim:
  assumes "queue_shape q" and "db_queue_claim l q now d = (q', c)"
  shows "lq_evolves q q'"
proof (cases c)
  case (Inl e)
  have up: "evolves (Some s) (Some (raised s))" for s by (simp add: evolves_def raised_def)
  from claim_refused [OF assms(1) assms(2) [unfolded Inl]] show ?thesis
    using lq_evolves_refl [OF assms(1)] lq_evolves_upd [OF assms(1)] up by blast
next
  case (Inr pt)
  obtain r t where "pt = (r, t)" by (cases pt)
  note law = claim_law [OF assms(1) assms(2) [unfolded Inr this]]
  show ?thesis
    by (rule lq_evolves_upd [OF assms(1) law(3,2,10,8)]) (simp add: evolves_def claimed_def raised_def)
qed

lemma evolves_ack:
  assumes "queue_shape q" and "db_queue_ack l q r t = (q', e)"
  shows "lq_evolves q q'"
proof (cases e)
  case None
  note law = ack_law [OF assms(1) assms(2) [unfolded None]]
  have "evolves (look q p) (look q' p)" for p
    using look_slot_in [OF assms(1) law(2)]
    by (simp add: law(9)) (simp add: evolves_def finished_def split: option.split)
  with law(5,6) show ?thesis by (simp add: lq_evolves_def)
next
  case (Some x)
  with ack_refused assms(2) have "q' = q" by blast
  with lq_evolves_refl [OF assms(1)] show ?thesis by simp
qed

lemma evolves_nack:
  assumes "queue_shape q" and "db_queue_nack l q r t = (q', e)"
  shows "lq_evolves q q'"
proof (cases e)
  case None
  note law = nack_law [OF assms(1) assms(2) [unfolded None]]
  show ?thesis
    by (rule lq_evolves_upd [OF assms(1) law(1,4,5,7)]) (simp add: evolves_def handed_back_def)
next
  case (Some x)
  with nack_refused assms(2) have "q' = q" by blast
  with lq_evolves_refl [OF assms(1)] show ?thesis by simp
qed

lemma evolves_renew:
  assumes "queue_shape q" and "db_queue_renew l q r t now d = (q', e)"
  shows "lq_evolves q q'"
proof (cases e)
  case None
  note law = renew_law [OF assms(1) assms(2) [unfolded None]]
  show ?thesis by (rule lq_evolves_upd [OF assms(1) law(1,4,5,7)]) (simp add: evolves_def)
next
  case (Some x)
  from renew_refused [OF assms(1) assms(2) [unfolded Some]] show ?thesis by (simp add: lq_evolves_def)
qed

lemma lq_step_law:
  assumes "queue_shape q" and "lq_step l q q'"
  shows "lq_evolves q q'"
  using assms(2)
  by (rule lq_stepE) (blast intro: evolves_push [OF assms(1)] evolves_pop [OF assms(1)]
      evolves_claim [OF assms(1)] evolves_ack [OF assms(1)] evolves_nack [OF assms(1)]
      evolves_renew [OF assms(1)])+

definition ack_accepted :: "bool \<Rightarrow> queue \<Rightarrow> nat \<Rightarrow> nat \<Rightarrow> bool" where
  "ack_accepted l q p t \<longleftrightarrow> snd (db_queue_ack l q p t) = None"

lemma ack_accepted_iff:
  assumes "queue_shape q"
  shows "ack_accepted True q p t \<longleftrightarrow> (\<exists>m. look q p = Some m \<and> sl_state m = CLAIMED \<and> sl_token m = t)"
  using hold_iff [OF assms, of True p t]
  by (auto simp: ack_accepted_def db_queue_ack_def Let_def split: option.split)

interpretation lease: ticketed queue_shape look q_tail "lq_step True" "ack_accepted True"
  by unfold_locales (use lq_step_law ack_accepted_iff in \<open>auto simp: lq_evolves_def\<close>)

lemma shape_new_queue: "queue_shape new_queue"
  by (simp add: queue_shape_def new_queue_def)

lemma shape_reachable: "(lq_step l)\<^sup>*\<^sup>* q q' \<Longrightarrow> queue_shape q \<Longrightarrow> queue_shape q'"
  by (induction rule: rtranclp_induct) (use lq_step_law in \<open>auto simp: lq_evolves_def\<close>)

section \<open>Properties\<close>

text \<open>A queue with one message, and that message claimed at time 1000 for thirty milliseconds.\<close>

definition one_held :: queue where
  "one_held = fst (db_queue_push new_queue ''alpha'')"

definition one_claimed :: queue where
  "one_claimed = fst (db_queue_claim True one_held 1000 30)"

lemma shape_one_held: "queue_shape one_held"
  by code_simp

lemma shape_one_claimed: "queue_shape one_claimed"
  by code_simp

lemma claim_one_held: "db_queue_claim True one_held 1000 30 = (one_claimed, Inr (0, 1))"
  by (simp add: one_claimed_def prod_eq_iff) code_simp

text \<open>C22 A finished message is finished once: after an \<open>ACK\<close> was accepted, no history of
  enqueues, dequeues, claims, acknowledgements, returns and renewals by any clients leads to a queue
  that accepts that ticket again.\<close>

theorem ack_at_most_once:
  assumes "queue_shape q" and "db_queue_ack True q p t = (q', None)" and "(lq_step True)\<^sup>*\<^sup>* q' q''"
  shows "\<not> ack_accepted True q'' p t"
proof (rule lease.spent_never_finishes [OF assms(3)])
  note law = ack_law [OF assms(1,2)]
  show "queue_shape q'" by (rule law(5))
  show "p < q_tail q'" using law(2,6) by (simp add: live_def)
  show "spent (look q' p) t"
    using law(4) by (simp add: law(9)) (simp add: spent_def finished_def)
qed

theorem ack_at_most_once_witness:
  "snd (db_queue_ack True one_claimed 0 1) = None
   \<and> \<not> ack_accepted True (fst (db_queue_push (fst (db_queue_ack True one_claimed 0 1)) ''beta'')) 0 1"
proof -
  have ok: "snd (db_queue_ack True one_claimed 0 1) = None" by code_simp
  then have "db_queue_ack True one_claimed 0 1 = (fst (db_queue_ack True one_claimed 0 1), None)"
    by (simp add: prod_eq_iff)
  moreover have "(lq_step True)\<^sup>*\<^sup>* q (fst (db_queue_push q ''beta''))" for q
    using lq_step.enqueue [of q "''beta''" _ _ True] by (metis prod.collapse r_into_rtranclp)
  ultimately show ?thesis using ack_at_most_once [OF shape_one_claimed] ok by blast
qed


text \<open>C23 A returned or stolen message does not accept its old ticket: once a \<open>NACK\<close> was accepted,
  or another claim took the position, the ticket that held it is refused in every later state,
  whatever the clients do.\<close>

theorem superseded_ticket_refused:
  assumes "queue_shape q"
    and "db_queue_nack True q p t = (q', None)
         \<or> (db_queue_claim True q now d = (q', Inr (p, t')) \<and> t < t')"
    and "(lq_step True)\<^sup>*\<^sup>* q' q''"
  shows "\<not> ack_accepted True q'' p t"
  using assms(2)
proof
  assume nack: "db_queue_nack True q p t = (q', None)"
  note law = nack_law [OF assms(1) nack]
  show ?thesis
  proof (rule lease.spent_never_finishes [OF assms(3)])
    show "queue_shape q'" by (rule law(4))
    show "p < q_tail q'" using law(1,5) by (simp add: live_def)
    show "spent (look q' p) t" using law(3) by (simp add: law(7) spent_def handed_back_def)
  qed
next
  assume claim: "db_queue_claim True q now d = (q', Inr (p, t')) \<and> t < t'"
  then have c: "db_queue_claim True q now d = (q', Inr (p, t'))" by simp
  note law = claim_law [OF assms(1) c]
  show ?thesis
  proof (rule lease.spent_never_finishes [OF assms(3)])
    show "queue_shape q'" by (rule law(2))
    show "p < q_tail q'" using law(3,10) by (simp add: live_def)
    show "spent (look q' p) t" using claim law(5) by (simp add: law(8) spent_def claimed_def raised_def)
  qed
qed

theorem superseded_ticket_refused_witness:
  "snd (db_queue_nack True one_claimed 0 1) = None
   \<and> \<not> ack_accepted True (fst (db_queue_nack True one_claimed 0 1)) 0 1"
proof -
  have ok: "snd (db_queue_nack True one_claimed 0 1) = None" by code_simp
  then have "db_queue_nack True one_claimed 0 1 = (fst (db_queue_nack True one_claimed 0 1), None)"
    by (simp add: prod_eq_iff)
  with superseded_ticket_refused [OF shape_one_claimed disjI1 rtranclp.rtrancl_refl] ok show ?thesis by blast
qed


text \<open>The ticket, not the deadline, decides: in a state reached after a claim in which nobody
  touched that message, its \<open>ACK\<close> is accepted however late, and at any moment at most one token is
  accepted for a position.\<close>

theorem late_ack_accepted:
  assumes "queue_shape q" and "db_queue_claim True q now d = (q', Inr (p, t))"
    and "(lq_step True)\<^sup>*\<^sup>* q' q''" and "look q'' p = look q' p"
  shows "ack_accepted True q'' p t \<and> (\<forall>t'. ack_accepted True q'' p t' \<longrightarrow> t' = t)"
proof -
  note law = claim_law [OF assms(1,2)]
  have shape: "queue_shape q''" by (rule shape_reachable [OF assms(3) law(2)])
  have "ack_accepted True q'' p t"
    using law(5) by (simp add: ack_accepted_iff [OF shape] assms(4) law(8) claimed_def raised_def)
  with lease.one_holder [OF shape] show ?thesis by blast
qed

theorem late_ack_accepted_witness:
  "ack_accepted True one_claimed 0 1 \<and> {t. ack_accepted True one_claimed 0 t} = {1}"
  using late_ack_accepted [OF shape_one_held claim_one_held rtranclp.rtrancl_refl refl] by auto

end
