(* ===== verification/Lease_Valid.thy ===== *)
theory Lease_Valid
  imports Lease_Safety
begin

text \<open>
  The search and the page a commit accepts.  With summaries a commit accepts, the search that skips
  segments finds the message a plain walk finds; and the lease operations keep the page one a commit
  accepts as long as nothing was enqueued behind a claim.  An enqueue behind a claim does not: it
  leaves the summary of the tail segment alone and winds the claim cursor back, and the last section
  proves what the next commit then says.
\<close>

section \<open>The skipping search finds what a walk finds\<close>

lemma ready_walk_le: "ready_walk ss best \<le> best"
  by (induction ss best rule: ready_walk.induct) (auto split: slot_state.split intro: le_trans)

lemma ready_walk_none:
  "now < ready_walk ss best \<Longrightarrow> s \<in> set ss \<Longrightarrow> \<not> claimable now s"
proof (induction ss best rule: ready_walk.induct)
  case (2 s' ss best)
  then show ?case
    using ready_walk_le [of ss "if best \<le> sl_until s' then best else sl_until s'"]
    by (auto simp: claimable_def split: slot_state.splits if_splits)
qed simp

lemma live_slots_set:
  "live q p \<Longrightarrow> slot_in q p \<in> set (live_slots q (p div 62))"
  using next_seg_after [of p] by (auto simp: live_slots_def live_def mult.commute)

lemma summary_none:
  assumes "queue_shape q" and "lease_summaries_valid True q" and "live q p"
    and "now < seg_ready_at (q_entries q ! (p div 62 - q_first_seg q))"
  shows "\<not> claimable now (slot_in q p)"
proof -
  note i = shape_index [OF assms(1,3)]
  have "seg_ready_at (q_entries q ! (p div 62 - q_first_seg q)) \<le> ready_walk (live_slots q (p div 62)) U64_MAX"
    using assms(2) i by (auto simp: lease_summaries_valid_def)
  with assms(4) have "now < ready_walk (live_slots q (p div 62)) U64_MAX" by simp
  then show ?thesis by (rule ready_walk_none) (rule live_slots_set [OF assms(3)])
qed

abbreviation first_claimable :: "queue \<Rightarrow> nat \<Rightarrow> nat \<Rightarrow> nat option" where
  "first_claimable q now p \<equiv> find (\<lambda>r. claimable now (slot_in q r)) [p ..< q_tail q]"

lemma find_skip: "(\<And>r. p \<le> r \<Longrightarrow> r < p' \<Longrightarrow> r < n \<Longrightarrow> \<not> P r) \<Longrightarrow> p \<le> p' \<Longrightarrow>
    find P [p ..< n] = find P [p' ..< n]"
proof (induction "p' - p" arbitrary: p)
  case (Suc k)
  show ?case
  proof (cases "p < n")
    case True
    have "find P [p ..< n] = find P [Suc p ..< n]"
      using Suc.hyps(2) Suc.prems(1) [of p] True by (simp add: upt_conv_Cons)
    also have "\<dots> = find P [p' ..< n]"
      using Suc.hyps(2) Suc.prems by (intro Suc.hyps(1)) auto
    finally show ?thesis .
  qed (use Suc.prems(2) in simp)
qed simp

lemma sc_next_find:
  assumes "queue_shape q" and "lease_summaries_valid True q"
  shows "q_head q \<le> p \<Longrightarrow> sc_next q now p hand = first_claimable q now p"
proof (induction "q_tail q - p" arbitrary: p hand rule: less_induct)
  case less
  show ?case
  proof (cases "q_tail q \<le> p")
    case True
    then show ?thesis by (simp add: sc_next.simps [of q now p])
  next
    case False
    then have live: "live q p" using less.prems by (simp add: live_def)
    let ?nxt = "(p div 62 + 1) * 62"
    note after = next_seg_after [of p]
    show ?thesis
    proof (cases "hand \<noteq> Some (p div 62) \<and> now < seg_ready_at (q_entries q ! (p div 62 - q_first_seg q))")
      case True
      have "\<not> claimable now (slot_in q r)" if r: "p \<le> r" "r < ?nxt" "r < q_tail q" for r
      proof -
        have "r div 62 = p div 62" using r(1,2) by (intro div_nat_eqI) (auto simp: mult.commute
              intro: order_trans [OF times_div_less_eq_dividend])
        moreover have "live q r" using r less.prems by (simp add: live_def)
        ultimately show ?thesis using summary_none [OF assms, of r now] True by simp
      qed
      then have "first_claimable q now p = first_claimable q now ?nxt"
        using after by (intro find_skip) auto
      moreover have "sc_next q now p hand = sc_next q now ?nxt (Some (p div 62))"
        using True False by (subst sc_next.simps) simp
      moreover have "sc_next q now ?nxt (Some (p div 62)) = first_claimable q now ?nxt"
        using after False less.prems by (intro less.hyps) linarith+
      ultimately show ?thesis by simp
    next
      case no: False
      show ?thesis
      proof (cases "claimable now (slot_in q p)")
        case True
        then show ?thesis using False no by (subst sc_next.simps) (auto simp: upt_conv_Cons)
      next
        case nc: False
        have "sc_next q now p hand = sc_next q now (p + 1) (Some (p div 62))"
          using False no nc by (subst sc_next.simps) auto
        also have "\<dots> = first_claimable q now (p + 1)"
          using False less.prems by (intro less.hyps) linarith+
        finally show ?thesis using False nc by (simp add: upt_conv_Cons)
      qed
    qed
  qed
qed

lemma scan_is_first:
  assumes "queue_shape q" and "lease_summaries_valid True q"
  shows "db_queue_scan_claimable True q now = first_claimable q now (q_head q)"
  by (simp add: db_queue_scan_claimable_def sc_next_find [OF assms])

text \<open>C24 On a queue page of the right shape whose summaries the validator accepts, the search that skips
  whole segments on one summary each answers what the plain walk from the head answers: the first live
  position that is free or whose lease has lapsed, and nothing exactly when there is none.  The
  condition on the summaries is needed: an enqueue behind claims leaves one for which the two differ.\<close>

theorem scan_is_first_claimable:
  assumes "queue_shape q" and "lease_summaries_valid True q"
  shows "db_queue_scan_claimable True q now =
    find (\<lambda>p. claimable now (slot_in q p)) [q_head q ..< q_tail q]"
  by (rule scan_is_first [OF assms])

theorem scan_is_first_claimable_witness:
  "db_queue_scan_claimable True one_claimed 1029 =
     find (\<lambda>p. claimable 1029 (slot_in one_claimed p)) [q_head one_claimed ..< q_tail one_claimed]
   \<and> db_queue_scan_claimable True one_claimed 1029 = None
   \<and> db_queue_scan_claimable True one_claimed 1030 = Some 0"
proof -
  have "lease_summaries_valid True one_claimed" by code_simp
  moreover have "db_queue_scan_claimable True one_claimed 1029 = None" by code_simp
  moreover have "db_queue_scan_claimable True one_claimed 1030 = Some 0" by code_simp
  ultimately show ?thesis using scan_is_first_claimable [OF shape_one_claimed] by blast
qed

section \<open>Summaries and the operations\<close>

lemma seg_positions:
  "r \<in> set [max h (s * 62) ..< min n ((s + 1) * 62)] \<longleftrightarrow> h \<le> r \<and> r < n \<and> r div 62 = (s :: nat)"
proof -
  have "r div 62 = s \<longleftrightarrow> s * 62 \<le> r \<and> r < (s + 1) * 62"
    using div_nat_eqI [of 62 s r] next_seg_after [of r] times_div_less_eq_dividend [of 62 r]
    by (auto simp: mult.commute)
  then show ?thesis by auto
qed

lemma live_slots_cong:
  assumes "q_head q' = q_head q" and "q_tail q' = q_tail q"
    and "\<And>r. live q r \<Longrightarrow> r div 62 = s \<Longrightarrow> slot_in q' r = slot_in q r"
  shows "live_slots q' s = live_slots q s"
  unfolding live_slots_def assms(1,2)
proof (rule map_cong [OF refl])
  fix r assume "r \<in> set [max (q_head q) (s * 62) ..< min (q_tail q) ((s + 1) * 62)]"
  then show "slot_in q' r = slot_in q r" using assms(3) by (simp only: seg_positions live_def)
qed

lemma live_slots_refresh: "queue_shape q \<Longrightarrow> live_slots (lease_seg_refresh l q p) s = live_slots q s"
  by (rule live_slots_cong) (simp_all add: slot_in_refresh)

lemma ready_at_edit [simp]:
  "seg_ready_at (q_entries (edit_slot q p f) ! i) = seg_ready_at (q_entries q ! i)"
  if "i < length (q_entries q)"
  using that by (cases "i = p div 62 - q_first_seg q") (simp_all add: entries_edit)

lemma ready_at_refresh:
  "seg_ready_at (q_entries (lease_seg_refresh True q p) ! i) =
    (if i = p div 62 - q_first_seg q then ready_walk (live_slots q (p div 62)) U64_MAX
     else seg_ready_at (q_entries q ! i))"
  if "i < length (q_entries q)"
  using that by (simp add: lease_seg_refresh_def Let_def)

lemma summaries_edit_refresh:
  assumes "queue_shape q" and "live q p" and "lease_summaries_valid True q"
  shows "lease_summaries_valid True (lease_seg_refresh True (lease_edit_slot q p f) p)"
proof -
  define q1 where "q1 = lease_edit_slot q p f"
  have shape1: "queue_shape q1" using assms(1) by (simp add: q1_def lease_edit_slot_def)
  have f1: "q_head q1 = q_head q" "q_tail q1 = q_tail q" "q_first_seg q1 = q_first_seg q"
    "length (q_entries q1) = length (q_entries q)" by (simp_all add: q1_def lease_edit_slot_def)
  note i0 = shape_index [OF assms(1,2)]
  have "seg_ready_at (q_entries (lease_seg_refresh True q1 p) ! i)
      \<le> ready_walk (live_slots (lease_seg_refresh True q1 p) (i + q_first_seg q)) U64_MAX"
    if i: "i < length (q_entries q)" for i
  proof (cases "i = p div 62 - q_first_seg q")
    case True
    with i0 have "i + q_first_seg q = p div 62" by simp
    with True i f1 show ?thesis by (simp add: ready_at_refresh live_slots_refresh [OF shape1])
  next
    case False
    then have ne: "i + q_first_seg q \<noteq> p div 62" using i0 by auto
    have "live_slots q1 (i + q_first_seg q) = live_slots q (i + q_first_seg q)"
    proof (rule live_slots_cong)
      fix r assume "live q r" "r div 62 = i + q_first_seg q"
      with ne slot_in_edit [OF assms(1,2) this(1)] show "slot_in q1 r = slot_in q r"
        by (auto simp: q1_def lease_edit_slot_def)
    qed (simp_all add: f1)
    moreover have "seg_ready_at (q_entries q1 ! i) = seg_ready_at (q_entries q ! i)"
      using i by (simp add: q1_def lease_edit_slot_def)
    ultimately show ?thesis using False i f1 assms(3)
      by (simp add: ready_at_refresh live_slots_refresh [OF shape1] lease_summaries_valid_def)
  qed
  then show ?thesis by (simp add: lease_summaries_valid_def q1_def [symmetric] f1)
qed

lemma ready_walk_mono: "best \<le> best' \<Longrightarrow> ready_walk ss best \<le> ready_walk ss best'"
  by (induction ss arbitrary: best best') (auto split: slot_state.split)

lemma ready_walk_suffix: "ready_walk (xs @ ys) best \<le> ready_walk ys best"
proof (induction xs arbitrary: best)
  case (Cons x xs)
  have "ready_walk (xs @ ys) b \<le> ready_walk ys best" if "b \<le> best" for b
    using Cons.IH [of b] ready_walk_mono [OF that, of ys] by simp
  then show ?case by (simp split: slot_state.split)
qed simp

lemma slot_in_move_head:
  assumes "queue_shape q" and "q_head q \<le> h" and "h \<le> q_tail q" and "live q r" and "h \<le> r"
  shows "slot_in (move_head q h) r = slot_in q r"
proof -
  have "live (move_head q h) r" using assms(4,5) by (simp add: live_def move_head_def)
  then show ?thesis
    using look_move_head [OF assms(1-3), of r] assms(4,5)
    by (simp add: look_slot_in [OF assms(1)] look_slot_in [OF shape_move_head [OF assms(1-3)]])
qed

lemma summaries_move_head:
  assumes "queue_shape q" and "q_head q \<le> h" and "h \<le> q_tail q" and "lease_summaries_valid True q"
  shows "lease_summaries_valid True (move_head q h)"
proof (cases "h = q_tail q")
  case False
  then have h: "live q h" using assms(2,3) by (simp add: live_def)
  note i0 = shape_index [OF assms(1) h]
  define k where "k = h div 62 - q_first_seg q"
  have fs: "h div 62 = k + q_first_seg q" using i0 by (simp add: k_def)
  have "seg_ready_at (q_entries (move_head q h) ! i)
      \<le> ready_walk (live_slots (move_head q h) (i + h div 62)) U64_MAX"
    if i: "i < length (q_entries q) - k" for i
  proof -
    define s where "s = i + h div 62"
    define m where "m = min (q_tail q) ((s + 1) * 62)"
    define lo where "lo = max (q_head q) (s * 62)"
    define hi where "hi = max h (s * 62)"
    have "lo \<le> hi" using assms(2) by (simp add: lo_def hi_def)
    have "live_slots (move_head q h) s = map (slot_in (move_head q h)) [hi ..< m]"
      by (simp add: live_slots_def move_head_def hi_def m_def)
    also have "\<dots> = map (slot_in q) [hi ..< m]"
    proof (rule map_cong [OF refl])
      fix r assume "r \<in> set [hi ..< m]"
      then have "h \<le> r" "live q r" using assms(2) by (auto simp: hi_def m_def live_def)
      then show "slot_in (move_head q h) r = slot_in q r" by (intro slot_in_move_head [OF assms(1-3)])
    qed
    finally have new: "live_slots (move_head q h) s = map (slot_in q) [hi ..< m]" .
    have "\<exists>xs. live_slots q s = xs @ map (slot_in q) [hi ..< m]"
    proof (cases "hi \<le> m")
      case True
      then have "[lo ..< m] = [lo ..< hi] @ [hi ..< m]" using \<open>lo \<le> hi\<close>
        by (metis le_Suc_ex upt_add_eq_append)
      then have "live_slots q s = map (slot_in q) [lo ..< hi] @ map (slot_in q) [hi ..< m]"
        by (simp add: live_slots_def lo_def m_def)
      then show ?thesis by blast
    qed simp
    then have "ready_walk (live_slots q s) U64_MAX \<le> ready_walk (live_slots (move_head q h) s) U64_MAX"
      using ready_walk_suffix new by fastforce
    moreover have "seg_ready_at (q_entries q ! (k + i)) \<le> ready_walk (live_slots q s) U64_MAX"
    proof -
      have "k + i < length (q_entries q)" using i by simp
      moreover have "s = k + i + q_first_seg q" by (simp add: s_def fs)
      ultimately show ?thesis using assms(4) by (auto simp: lease_summaries_valid_def)
    qed
    moreover have "q_entries (move_head q h) ! i = q_entries q ! (k + i)"
      using False i by (simp add: move_head_def k_def)
    ultimately show ?thesis by (simp add: s_def)
  qed
  with False show ?thesis by (simp add: lease_summaries_valid_def move_head_def k_def)
qed (simp add: lease_summaries_valid_def move_head_def)

lemma summaries_cong [simp]:
  "lease_summaries_valid l (q\<lparr>q_sealed := b\<rparr>) = lease_summaries_valid l q"
  "lease_summaries_valid l (q\<lparr>q_claim := c\<rparr>) = lease_summaries_valid l q"
  "lease_summaries_valid l (q\<lparr>q_time_floor := t\<rparr>) = lease_summaries_valid l q"
  by (simp_all add: lease_summaries_valid_def live_slots_def)

section \<open>The page invariant of a queue being worked\<close>

definition queue_ok :: "queue \<Rightarrow> bool" where
  "queue_ok q \<longleftrightarrow> queue_page_valid True q \<and> queue_shape q
    \<and> (\<forall>p s. look q p = Some s \<longrightarrow> slot_valid True s \<and> (0 < sl_token s \<longrightarrow> p < q_claim q))"

lemma queue_okD:
  assumes "queue_ok q"
  shows "queue_shape q" "lease_summaries_valid True q" "q_head q \<le> q_claim q" "q_claim q \<le> q_tail q"
    "length (q_entries q) \<le> 495" "q_sealed q"
  using assms by (simp_all add: queue_ok_def queue_page_valid_def db_queue_segments_valid_def)

lemma queue_okI:
  assumes "queue_shape q" and "lease_summaries_valid True q" and "q_head q \<le> q_claim q"
    and "q_claim q \<le> q_tail q" and "length (q_entries q) \<le> 495" and "q_sealed q"
    and "\<And>p s. look q p = Some s \<Longrightarrow> slot_valid True s \<and> (0 < sl_token s \<longrightarrow> p < q_claim q)"
  shows "queue_ok q"
  using assms
  by (simp add: queue_ok_def queue_page_valid_def db_queue_segments_valid_def queue_shape_def
      split: if_splits)

lemma queue_ok_slot:
  assumes "queue_ok q" and "live q p"
  shows "slot_valid True (slot_in q p)" and "0 < sl_token (slot_in q p) \<longrightarrow> p < q_claim q"
  using assms look_slot_in [OF queue_okD(1) [OF assms(1)] assms(2)] by (auto simp: queue_ok_def)

text \<open>Rewriting one live slot, refreshing its segment and sealing.\<close>

lemma queue_ok_rewrite:
  assumes ok: "queue_ok q" and live: "live q p" and valid: "slot_valid True (f (slot_in q p))"
    and q': "q' = (lease_seg_refresh True (lease_edit_slot q p f) p)
               \<lparr>q_claim := c, q_time_floor := t, q_sealed := True\<rparr>"
    and c: "q_claim q \<le> c" "c \<le> q_tail q" "0 < sl_token (f (slot_in q p)) \<longrightarrow> p < c"
  shows "queue_ok q'"
proof (rule queue_okI)
  note D = queue_okD [OF ok]
  show "queue_shape q'" using D(1) by (simp add: q' lease_edit_slot_def)
  have "lease_summaries_valid True (lease_seg_refresh True (lease_edit_slot q p f) p)"
    by (rule summaries_edit_refresh [OF D(1) live D(2)])
  then show "lease_summaries_valid True q'"
    by (simp add: q')
  show "q_head q' \<le> q_claim q'" "q_claim q' \<le> q_tail q'" "length (q_entries q') \<le> 495" "q_sealed q'"
    using D c by (simp_all add: q' lease_edit_slot_def)
  have look': "look q' = (look q)(p \<mapsto> f (slot_in q p))"
    using D(1) look_lease_edit [OF D(1) live] by (simp add: q' lease_edit_slot_def)
  fix r s assume s: "look q' r = Some s"
  have "slot_valid True s \<and> (0 < sl_token s \<longrightarrow> r < c)"
  proof (cases "r = p")
    case True
    with s look' valid c(3) show ?thesis by simp
  next
    case False
    with s look' ok have "slot_valid True s \<and> (0 < sl_token s \<longrightarrow> r < q_claim q)"
      by (simp add: queue_ok_def)
    with c(1) show ?thesis by (meson less_le_trans)
  qed
  then show "slot_valid True s \<and> (0 < sl_token s \<longrightarrow> r < q_claim q')" by (simp add: q')
qed

lemma edit_slot_sealed: "edit_slot (q\<lparr>q_sealed := b\<rparr>) p f = (edit_slot q p f)\<lparr>q_sealed := b\<rparr>"
  by (simp add: edit_slot_def Let_def)

lemma edit_edit:
  assumes "queue_shape q" and "live q p"
  shows "edit_slot (edit_slot q p f) p g = edit_slot q p (\<lambda>s. g (f s))"
proof -
  note i = shape_index(2) [OF assms]
  have "p mod 62 < length (seg_slots (q_entries q ! (p div 62 - q_first_seg q)))"
    using shape_seg_length [OF assms(1) i] by simp
  with i show ?thesis by (simp add: edit_slot_def Let_def)
qed

lemma queue_ok_claim:
  assumes "queue_ok q" and "lease_now q now + d \<le> U64_MAX" and "db_queue_claim True q now d = (q', c)"
  shows "queue_ok q'"
proof (cases c)
  case (Inl e)
  have "fst (db_queue_claim True q now d) = q"
    using assms(2,3) Inl by (auto simp: db_queue_claim_def Let_def split: if_splits option.splits)
  with assms(1,3) show ?thesis by simp
next
  case (Inr pt)
  obtain p t where "pt = (p, t)" by (cases pt)
  with assms(3) Inr have claim: "db_queue_claim True q now d = (q', Inr (p, t))" by simp
  note D = queue_okD [OF assms(1)] and law = claim_law [OF queue_okD(1) [OF assms(1)] claim]
  have "q' = (lease_seg_refresh True (edit_slot (lease_edit_slot q p raised) p
       (\<lambda>s. s\<lparr>sl_until := lease_now q now + d, sl_state := CLAIMED\<rparr>)) p)
       \<lparr>q_claim := max (q_claim q) (p + 1), q_time_floor := lease_now q now, q_sealed := True\<rparr>"
    using claim
    by (simp add: db_queue_claim_def Let_def lease_edit_slot_def db_catalog_seal_def raised_def [abs_def]
        split: if_splits option.splits)
  also have "edit_slot (lease_edit_slot q p raised) p (\<lambda>s. s\<lparr>sl_until := lease_now q now + d, sl_state := CLAIMED\<rparr>)
      = lease_edit_slot q p (\<lambda>s. claimed s (lease_now q now + d))"
    by (simp add: lease_edit_slot_def edit_slot_sealed edit_edit [OF D(1) law(3)] claimed_def)
  finally show ?thesis
  proof (rule queue_ok_rewrite [OF assms(1) law(3), rotated])
    show "slot_valid True (claimed (slot_in q p) (lease_now q now + d))"
      using law(7) by (simp add: slot_valid_def claimed_def raised_def)
  qed (use law(3) D(4) in \<open>auto simp: live_def\<close>)
qed

lemma queue_ok_nack:
  assumes "queue_ok q" and "db_queue_nack True q p t = (q', e)"
  shows "queue_ok q'"
proof (cases e)
  case None
  note D = queue_okD [OF assms(1)] and law = nack_law [OF queue_okD(1) [OF assms(1)] assms(2) [unfolded None]]
  have q': "q' = (lease_seg_refresh True (lease_edit_slot q p handed_back) p)
       \<lparr>q_claim := q_claim q, q_time_floor := q_time_floor q, q_sealed := True\<rparr>"
    using assms(2) None
    by (simp add: db_queue_nack_def Let_def lease_edit_slot_def db_catalog_seal_def handed_back_def [abs_def]
        split: if_splits option.splits)
      (simp add: lease_seg_refresh_def Let_def edit_slot_def)
  note slot = queue_ok_slot [OF assms(1) law(1)]
  show ?thesis
  proof (rule queue_ok_rewrite [OF assms(1) law(1) _ q'])
    show "slot_valid True (handed_back (slot_in q p))" by (simp add: slot_valid_def handed_back_def)
    show "0 < sl_token (handed_back (slot_in q p)) \<longrightarrow> p < q_claim q"
      using slot law(2) by (simp add: slot_valid_def)
  qed (use D(4) in simp_all)
next
  case (Some x)
  with nack_refused assms(2) have "q' = q" by blast
  with assms(1) show ?thesis by simp
qed

lemma queue_ok_renew:
  assumes "queue_ok q" and "lease_now q now + d \<le> U64_MAX" and "db_queue_renew True q p t now d = (q', e)"
  shows "queue_ok q'"
proof (cases e)
  case None
  note D = queue_okD [OF assms(1)] and law = renew_law [OF queue_okD(1) [OF assms(1)] assms(3) [unfolded None]]
  have q': "q' = (lease_seg_refresh True (lease_edit_slot q p (\<lambda>s. s\<lparr>sl_until := lease_now q now + d\<rparr>)) p)
       \<lparr>q_claim := q_claim q, q_time_floor := lease_now q now, q_sealed := True\<rparr>"
    using assms(3) None
    by (simp add: db_queue_renew_def Let_def lease_edit_slot_def db_catalog_seal_def
        split: if_splits option.splits)
      (simp add: lease_seg_refresh_def Let_def edit_slot_def)
  note slot = queue_ok_slot [OF assms(1) law(1)]
  show ?thesis
  proof (rule queue_ok_rewrite [OF assms(1) law(1) _ q'])
    show "slot_valid True ((slot_in q p)\<lparr>sl_until := lease_now q now + d\<rparr>)"
      using slot law(2,12) by (simp add: slot_valid_def)
    show "0 < sl_token ((slot_in q p)\<lparr>sl_until := lease_now q now + d\<rparr>) \<longrightarrow> p < q_claim q"
      using slot by simp
  qed (use D(4) in simp_all)
next
  case (Some x)
  have "fst (db_queue_renew True q p t now d) = q"
    using assms(2,3) Some by (auto simp: db_queue_renew_def Let_def split: if_splits option.splits)
  with assms(1,3) show ?thesis by simp
qed

lemma queue_ok_ack:
  assumes "queue_ok q" and "db_queue_ack True q p t = (q', e)"
  shows "queue_ok q'"
proof (cases e)
  case None
  note D = queue_okD [OF assms(1)]
  note law = ack_law [OF queue_okD(1) [OF assms(1)] assms(2) [unfolded None]]
  note slot = queue_ok_slot [OF assms(1) law(2)]
  define q1 where "q1 = (lease_seg_refresh True (lease_edit_slot q p finished) p)
       \<lparr>q_claim := q_claim q, q_time_floor := q_time_floor q, q_sealed := True\<rparr>"
  have token: "0 < sl_token (slot_in q p)" using slot law(3) by (simp add: slot_valid_def)
  have ok1: "queue_ok q1"
    by (rule queue_ok_rewrite [OF assms(1) law(2) _ q1_def])
      (use token slot D(4) in \<open>simp_all add: slot_valid_def finished_def\<close>)
  have look1: "look q1 = (look q)(p \<mapsto> finished (slot_in q p))"
    using D(1) look_lease_edit [OF D(1) law(2)] by (simp add: q1_def lease_edit_slot_def)
  note D1 = queue_okD [OF ok1]
  have f1: "q_head q1 = q_head q" "q_tail q1 = q_tail q" "q_claim q1 = q_claim q"
    by (simp_all add: q1_def lease_edit_slot_def)
  have q': "\<exists>h. q_head q \<le> h \<and> h \<le> q_tail q \<and> q' = (if h = q_head q then q1 else move_head q1 h)"
  proof -
    define q2 where "q2 = lease_seg_refresh True (lease_edit_slot q p finished) p"
    have f2: "q_head q2 = q_head q" "q_tail q2 = q_tail q" by (simp_all add: q2_def lease_edit_slot_def)
    have q1: "q1 = q2\<lparr>q_sealed := True\<rparr>"
      by (simp add: q1_def q2_def lease_edit_slot_def lease_seg_refresh_def Let_def edit_slot_def)
    have "q' = db_catalog_seal (lease_advance_head q2)"
      using assms(2) None law(1)
      by (simp add: db_queue_ack_def Let_def q2_def finished_def [abs_def] split: option.splits)
    then have "q' = (if ah_step q2 (q_head q) = q_head q then q1 else move_head q1 (ah_step q2 (q_head q)))"
      by (simp add: lease_advance_head_def Let_def f2 db_catalog_seal_def q1 move_head_def)
    moreover have "q_head q \<le> ah_step q2 (q_head q) \<and> ah_step q2 (q_head q) \<le> q_tail q"
      using ah_step_bounds [of "q_head q" q2] D(3,4) f2 by simp
    ultimately show ?thesis by blast
  qed
  then obtain h where h: "q_head q \<le> h" "h \<le> q_tail q"
    and q': "q' = (if h = q_head q then q1 else move_head q1 h)" by blast
  show ?thesis
  proof (cases "h = q_head q")
    case True
    with ok1 q' show ?thesis by simp
  next
    case False
    then have qm: "q' = move_head q1 h" using q' by simp
    have h1: "q_head q1 \<le> h" "h \<le> q_tail q1" using h f1 by simp_all
    have head': "q_head q' = h" by (simp add: qm move_head_def)
    have "h - 1 < q_claim q"
    proof -
      have "q_head q \<le> h - 1" "h - 1 < q_head q'" using False h head' by linarith+
      from law(10) [OF this] obtain s
        where "((look q)(p \<mapsto> finished (slot_in q p))) (h - 1) = Some s" "sl_state s = ACKED" by blast
      then have "look q1 (h - 1) = Some s" by (simp add: look1)
      with ok1 have "slot_valid True s" "0 < sl_token s \<longrightarrow> h - 1 < q_claim q1"
        unfolding queue_ok_def by blast+
      with \<open>sl_state s = ACKED\<close> f1 show ?thesis by (simp add: slot_valid_def)
    qed
    then have "h \<le> q_claim q'" by (simp add: qm move_head_def f1)
    show ?thesis
    proof (rule queue_okI)
      show "queue_shape q'" by (simp add: qm shape_move_head [OF D1(1) h1])
      show "lease_summaries_valid True q'" by (simp add: qm summaries_move_head [OF D1(1) h1 D1(2)])
      show "q_head q' \<le> q_claim q'" using \<open>h \<le> q_claim q'\<close> head' by simp
      show "q_claim q' \<le> q_tail q'" "length (q_entries q') \<le> 495" "q_sealed q'"
        using D1(4,5,6) by (auto simp: qm move_head_def intro: order_trans [OF diff_le_self])
      fix r s assume "look q' r = Some s"
      then have "look q1 r = Some s" by (simp add: qm look_move_head [OF D1(1) h1] split: if_splits)
      then show "slot_valid True s \<and> (0 < sl_token s \<longrightarrow> r < q_claim q')"
        using ok1 by (simp add: queue_ok_def qm move_head_def)
    qed
  qed
next
  case (Some x)
  with ack_refused assms(2) have "q' = q" by blast
  with assms(1) show ?thesis by simp
qed

section \<open>A queue that is filled and then worked\<close>

text \<open>What the workers do once the jobs are queued, one call after the other, whatever it answers.\<close>

datatype worker_call = W_claim nat nat | W_ack nat nat | W_nack nat nat | W_renew nat nat nat nat

fun worked :: "queue \<Rightarrow> worker_call \<Rightarrow> queue" where
  "worked q (W_claim now d) = fst (db_queue_claim True q now d)"
| "worked q (W_ack p t) = fst (db_queue_ack True q p t)"
| "worked q (W_nack p t) = fst (db_queue_nack True q p t)"
| "worked q (W_renew p t now d) = fst (db_queue_renew True q p t now d)"

text \<open>Calls whose deadline is a number the page can hold.\<close>

fun in_range :: "queue \<Rightarrow> worker_call \<Rightarrow> bool" where
  "in_range q (W_claim now d) = (lease_now q now + d \<le> U64_MAX)"
| "in_range q (W_renew p t now d) = (lease_now q now + d \<le> U64_MAX)"
| "in_range q c = True"

fun all_in_range :: "queue \<Rightarrow> worker_call list \<Rightarrow> bool" where
  "all_in_range q [] = True"
| "all_in_range q (c # cs) = (in_range q c \<and> all_in_range (worked q c) cs)"

lemma queue_ok_worked: "queue_ok q \<Longrightarrow> in_range q c \<Longrightarrow> queue_ok (worked q c)"
  by (cases c)
    (auto intro: queue_ok_claim [OF _ _ prod.collapse [symmetric]] queue_ok_ack [OF _ prod.collapse [symmetric]]
      queue_ok_nack [OF _ prod.collapse [symmetric]] queue_ok_renew [OF _ _ prod.collapse [symmetric]])

lemma queue_ok_history: "queue_ok q \<Longrightarrow> all_in_range q cs \<Longrightarrow> queue_ok (foldl worked q cs)"
  by (induction cs arbitrary: q) (simp_all add: queue_ok_worked)

lemma worked_out_of_range: "\<not> in_range q c \<Longrightarrow> worked q c = q \<or> \<not> q_sealed (worked q c)"
  by (cases c) (auto simp: db_queue_claim_def db_queue_renew_def Let_def lease_edit_slot_def not_le split: option.splits)

text \<open>A queue nobody has claimed from.\<close>

definition unclaimed :: "queue \<Rightarrow> bool" where
  "unclaimed q \<longleftrightarrow> queue_shape q \<and> q_sealed q \<and> q_claim q = q_head q \<and> length (q_entries q) \<le> 495
    \<and> (\<forall>g \<in> set (q_entries q). seg_ready_at g = 0)
    \<and> (\<forall>p s. look q p = Some s \<longrightarrow> slot_valid True s \<and> sl_token s = 0)"

lemma unclaimed_new: "unclaimed new_queue"
  by (simp add: unclaimed_def shape_new_queue) (simp add: new_queue_def lease_find_slot_def)

lemma unclaimed_ok: "unclaimed q \<Longrightarrow> queue_ok q"
  by (rule queue_okI) (auto simp: unclaimed_def lease_summaries_valid_def queue_shape_def)

lemma push_fields:
  assumes "queue_shape q" and "db_queue_push q b = (q', None)"
  shows "q_sealed q'" and "q_claim q' = q_head q'" and "length (q_entries q) \<le> 495 \<Longrightarrow> length (q_entries q') \<le> 495"
    and "map seg_ready_at (q_entries q') = map seg_ready_at (q_entries q)
      \<or> map seg_ready_at (q_entries q') = map seg_ready_at (q_entries q) @ [0]"
proof -
  define i where "i = q_tail q div 62 - (if q_entries q = [] then q_tail q div 62 else q_first_seg q)"
  define es where "es = (if i < length (q_entries q) then q_entries q else q_entries q @ [blank_seg])"
  define q1 where "q1 = q\<lparr>q_entries := es,
     q_first_seg := (if q_entries q = [] then q_tail q div 62 else q_first_seg q)\<rparr>"
  have q': "q' = (edit_slot q1 (q_tail q) (\<lambda>_. enqueued b))
      \<lparr>q_tail := q_tail q + 1, q_claim := q_head q, q_sealed := True\<rparr>"
    and room: "i < length (q_entries q) \<or> i < 495"
    using assms(2)
    by (auto simp: db_queue_push_def Let_def q1_def es_def i_def db_catalog_seal_def enqueued_def
        split: if_splits)
  show "q_sealed q'" "q_claim q' = q_head q'" by (simp_all add: q' q1_def)
  have "map seg_ready_at (q_entries q') = map seg_ready_at es"
    by (rule nth_equalityI) (simp_all add: q' q1_def)
  then show "map seg_ready_at (q_entries q') = map seg_ready_at (q_entries q)
      \<or> map seg_ready_at (q_entries q') = map seg_ready_at (q_entries q) @ [0]"
    by (simp add: es_def blank_seg_def)
  assume le: "length (q_entries q) \<le> 495"
  show "length (q_entries q') \<le> 495"
  proof (cases "i < length (q_entries q)")
    case False
    have len: "length (q_entries q') = length (q_entries q) + 1" using False by (simp add: q' q1_def es_def)
    have "(q_tail q' - 1) div 62 + 1 = q_first_seg q' + length (q_entries q')"
      using push_law(1,3,4) [OF assms] assms(1) unfolding queue_shape_def
      by (metis Suc_eq_plus1 Suc_n_not_le_n)
    moreover have "q_tail q' - 1 = q_tail q" "q_first_seg q' = (if q_entries q = [] then q_tail q div 62 else q_first_seg q)"
      by (simp_all add: q' q1_def)
    ultimately have "length (q_entries q') = i + 1" using len by (auto simp: i_def split: if_splits)
    with room False show ?thesis by simp
  qed (use le in \<open>simp add: q' q1_def es_def\<close>)
qed

lemma unclaimed_push:
  assumes "unclaimed q" and "db_queue_push q b = (q', r)"
  shows "unclaimed q'"
proof (cases r)
  case None
  have shape: "queue_shape q" using assms(1) by (simp add: unclaimed_def)
  note law = push_law [OF shape assms(2) [unfolded None]] and f = push_fields [OF shape assms(2) [unfolded None]]
  have "seg_ready_at g = 0" if "g \<in> set (q_entries q')" for g
  proof -
    from that have "seg_ready_at g \<in> set (map seg_ready_at (q_entries q'))" by simp
    with f(4) assms(1) show ?thesis by (auto simp: unclaimed_def simp del: set_map)
        (metis (no_types, lifting) imageE set_map)+
  qed
  with law f assms(1) show ?thesis
    by (auto simp: unclaimed_def enqueued_def blank_slot_def slot_valid_def split: if_splits)
next
  case (Some e)
  with push_refused assms(2) have "q' = q" by blast
  with assms(1) show ?thesis by simp
qed

fun fill :: "queue \<Rightarrow> string list \<Rightarrow> queue" where
  "fill q [] = q"
| "fill q (b # bs) = fill (fst (db_queue_push q b)) bs"

lemma unclaimed_fill: "unclaimed q \<Longrightarrow> unclaimed (fill q bs)"
proof (induction bs arbitrary: q)
  case (Cons b bs)
  have "unclaimed (fst (db_queue_push q b))"
    by (rule unclaimed_push [OF Cons.prems, of b _ "snd (db_queue_push q b)"]) simp
  then show ?case by (simp add: Cons.IH)
qed simp

text \<open>C25 A queue that is filled first and worked afterwards can be committed as long as no call asks for a
  deadline past \<open>2 ^ 64 - 1\<close>: after any enqueues into a new queue and any history of such claims,
  acknowledgements, returns and renewals by any number of workers, the queue page is one the validator
  accepts, with every live slot coherent.  A call of any kind keeps it so exactly when its deadline can
  be held or it changes nothing; a claim or renewal that finds its message and overflows leaves a page
  that no commit accepts.\<close>

theorem filled_then_worked_commits:
  assumes "all_in_range (fill new_queue msgs) calls" and "q = foldl worked (fill new_queue msgs) calls"
  shows "queue_page_valid True q \<and> (\<forall>p s. look q p = Some s \<longrightarrow> slot_valid True s)
    \<and> (\<forall>c. queue_page_valid True (worked q c) \<longleftrightarrow> in_range q c \<or> worked q c = q)"
proof -
  have ok: "queue_ok q"
    unfolding assms(2) by (rule queue_ok_history [OF unclaimed_ok [OF unclaimed_fill [OF unclaimed_new]] assms(1)])
  have "queue_page_valid True (worked q c) \<longleftrightarrow> in_range q c \<or> worked q c = q" for c
  proof (cases "in_range q c")
    case True
    then show ?thesis using queue_ok_worked [OF ok True] by (simp add: queue_ok_def)
  next
    case False
    then show ?thesis using worked_out_of_range [OF False] ok by (auto simp: queue_ok_def queue_page_valid_def)
  qed
  with ok show ?thesis by (simp add: queue_ok_def)
qed

theorem filled_then_worked_commits_witness:
  "queue_page_valid True (foldl worked (fill new_queue [''alpha'', ''beta'']) [W_claim 7 30, W_ack 0 1])
   \<and> \<not> queue_page_valid True (worked (foldl worked (fill new_queue [''alpha'', ''beta'']) [W_claim 7 30, W_ack 0 1])
         (W_claim 8 U64_MAX))"
proof -
  define q where "q = foldl worked (fill new_queue [''alpha'', ''beta'']) [W_claim 7 30, W_ack 0 1]"
  have "all_in_range (fill new_queue [''alpha'', ''beta'']) [W_claim 7 30, W_ack 0 1]" by code_simp
  note law = filled_then_worked_commits [OF this q_def]
  have "\<not> in_range q (W_claim 8 U64_MAX)" "q_sealed (worked q (W_claim 8 U64_MAX)) \<noteq> q_sealed q"
    unfolding q_def by code_simp+
  then show ?thesis unfolding q_def [symmetric] using law by metis
qed

section \<open>Liveness\<close>

text \<open>C26 Nothing claimable is lost: on a queue the validator accepts, a claim takes the first live
  message that is free or whose lease has lapsed, with the token raised by one and the deadline it
  asked for, and it comes back empty only when no live message is claimable.\<close>

theorem claim_takes_first:
  assumes "queue_shape q" and "lease_summaries_valid True q" and "0 < d"
    and "lease_now q now + d \<le> U64_MAX" and "\<forall>p. live q p \<longrightarrow> sl_token (slot_in q p) < U64_MAX"
  shows "case snd (db_queue_claim True q now d) of
      Inl e \<Rightarrow> e = E_NOTFOUND \<and> (\<forall>p. live q p \<longrightarrow> \<not> claimable (lease_now q now) (slot_in q p))
    | Inr (p, t) \<Rightarrow> live q p \<and> claimable (lease_now q now) (slot_in q p)
        \<and> (\<forall>r. live q r \<and> claimable (lease_now q now) (slot_in q r) \<longrightarrow> p \<le> r)
        \<and> t = sl_token (slot_in q p) + 1
        \<and> look (fst (db_queue_claim True q now d)) p =
            Some (claimed (slot_in q p) (lease_now q now + d))"
proof -
  let ?now = "lease_now q now"
  have scan: "db_queue_scan_claimable True q ?now = find (\<lambda>p. claimable ?now (slot_in q p)) [q_head q ..< q_tail q]"
    by (rule scan_is_first [OF assms(1,2)])
  show ?thesis
  proof (cases "db_queue_scan_claimable True q ?now")
    case None
    then have "db_queue_claim True q now d = (q, Inl E_NOTFOUND)"
      using assms(3) by (simp add: db_queue_claim_def Let_def)
    moreover have "\<not> claimable ?now (slot_in q p)" if "live q p" for p
      using None that unfolding scan find_None_iff by (auto simp: live_def)
    ultimately show ?thesis by simp
  next
    case (Some p)
    note sound = scan_sound [OF Some]
    have "look q p = Some (slot_in q p)" by (rule look_slot_in [OF assms(1) sound(2)])
    then obtain q' where claim: "db_queue_claim True q now d = (q', Inr (p, sl_token (slot_in q p) + 1))"
      using assms(3,4,5) Some sound(2) by (fastforce simp: db_queue_claim_def Let_def)
    note law = claim_law [OF assms(1) claim]
    have "p \<le> r" if "live q r" "claimable ?now (slot_in q r)" for r
    proof (rule ccontr)
      assume "\<not> p \<le> r"
      obtain i where i: "i < q_tail q - q_head q" "p = q_head q + i"
          "\<forall>j<i. \<not> claimable ?now (slot_in q (q_head q + j))"
        using Some unfolding scan find_Some_iff by (auto simp del: upt_Suc)
      with \<open>\<not> p \<le> r\<close> that(1) have "r - q_head q < i" "q_head q + (r - q_head q) = r"
        by (auto simp: live_def)
      with i(3) that(2) show False by metis
    qed
    with claim law sound show ?thesis by simp
  qed
qed

theorem claim_takes_first_witness:
  "queue_shape one_held \<and> snd (db_queue_claim True one_held 1000 30) = Inr (0, 1)
   \<and> live one_held 0 \<and> claimable (lease_now one_held 1000) (slot_in one_held 0)"
proof -
  have "lease_summaries_valid True one_held" and "lease_now one_held 1000 + 30 \<le> U64_MAX"
    by code_simp+
  moreover have "\<forall>p. live one_held p \<longrightarrow> sl_token (slot_in one_held p) < U64_MAX"
  proof -
    have "q_head one_held = 0" "q_tail one_held = 1" "sl_token (slot_in one_held 0) < U64_MAX"
      by code_simp+
    then show ?thesis by (simp add: live_def)
  qed
  ultimately show ?thesis
    using claim_takes_first [OF shape_one_held, of 30 1000] claim_one_held shape_one_held by simp
qed

section \<open>An enqueue behind a claim\<close>





text \<open>C39 An enqueue winds the claim cursor back: after any \<open>ENQUEUE\<close>, and before another claim moves
  the cursor, the accepted \<open>ACK\<close> of the message at the head leaves a page every commit refuses,
  because the head passes the cursor.\<close>

theorem ack_of_head_after_enqueue_refused:
  assumes "queue_shape q" and "db_queue_push q b = (q1, None)"
    and "db_queue_ack True q1 (q_head q1) t = (q2, None)"
  shows "q_claim q2 < q_head q2 \<and> \<not> queue_page_valid True q2"
proof -
  note law = push_law [OF assms(1,2)] and f = push_fields [OF assms(1,2)]
  note ack = ack_law [OF law(1) assms(3)]
  have "q_head q2 \<noteq> q_head q1"
  proof
    assume eq: "q_head q2 = q_head q1"
    define q3 where "q3 = lease_seg_refresh True (lease_edit_slot q1 (q_head q1) finished) (q_head q1)"
    have shape: "queue_shape q3" using law(1) by (simp add: q3_def lease_edit_slot_def)
    have f3: "q_head q3 = q_head q1" "q_tail q3 = q_tail q1" by (simp_all add: q3_def lease_edit_slot_def)
    have "look q3 (q_head q1) = Some (finished (slot_in q1 (q_head q1)))"
      using law(1) look_lease_edit [OF law(1) ack(2)] by (simp add: q3_def lease_edit_slot_def)
    then have at: "queue_slot_at q3 (q_head q1) = Some (finished (slot_in q1 (q_head q1)))"
      by (simp add: lease_find_slot_def split: if_splits)
    have "ah_step q3 (q_head q1) = ah_step q3 (q_head q1 + 1)"
      using at ack(2) f3 by (subst ah_step.simps) (simp add: finished_def live_def)
    then have adv: "q_head q1 < ah_step q3 (q_head q1)"
      using ah_step_bounds [of "q_head q1 + 1" q3] by simp
    have "q2 = db_catalog_seal (lease_advance_head q3)"
      using assms(3)
      by (simp add: db_queue_ack_def Let_def q3_def finished_def [abs_def] split: option.splits)
    then have "q_head q2 = ah_step q3 (q_head q1)"
      using adv f3 by (simp add: lease_advance_head_def Let_def db_catalog_seal_def move_head_def)
    with adv eq show False by simp
  qed
  with ack(7,13) f(2) have "q_claim q2 < q_head q2" by simp
  then show ?thesis by (simp add: queue_page_valid_def)
qed

text \<open>Two jobs, the first claimed, and a third enqueued while it is being worked.\<close>

definition busy_queue :: queue where
  "busy_queue = fst (db_queue_claim True (fill new_queue [''alpha'', ''beta'']) 1000 30)"

theorem ack_of_head_after_enqueue_refused_witness:
  "snd (db_queue_push busy_queue ''gamma'') = None
   \<and> queue_page_valid True (fst (db_queue_push busy_queue ''gamma''))
   \<and> snd (db_queue_ack True (fst (db_queue_push busy_queue ''gamma'')) 0 1) = None
   \<and> \<not> queue_page_valid True (fst (db_queue_ack True (fst (db_queue_push busy_queue ''gamma'')) 0 1))"
proof -
  have "queue_shape busy_queue" and ok: "snd (db_queue_push busy_queue ''gamma'') = None"
    "queue_page_valid True (fst (db_queue_push busy_queue ''gamma''))"
    "snd (db_queue_ack True (fst (db_queue_push busy_queue ''gamma'')) 0 1) = None"
    and head: "q_head (fst (db_queue_push busy_queue ''gamma'')) = 0"
    by code_simp+
  moreover from ok have
    "db_queue_push busy_queue ''gamma'' = (fst (db_queue_push busy_queue ''gamma''), None)"
    "db_queue_ack True (fst (db_queue_push busy_queue ''gamma'')) 0 1 =
      (fst (db_queue_ack True (fst (db_queue_push busy_queue ''gamma'')) 0 1), None)"
    by (simp_all add: prod_eq_iff)
  ultimately show ?thesis
    using ack_of_head_after_enqueue_refused [of busy_queue "''gamma''" _ 1] by (simp add: head)
qed

end
