(* ===== verification/Sql_Text.thy ===== *)
theory Sql_Text
  imports Api_Header "HOL-Library.Char_ord"
begin

text \<open>
  From SQL text to a statement: the lexer \<open>src/sql/tokenizer.asm\<close> and the part of the parser
  \<open>src/sql/parser.asm\<close> that reads transaction control, the definitions and drops of tables, queues,
  streams and cursors, \<open>INSERT\<close>, and every queue and stream operation.  The tokenizer's context is
  the text that is left, so a peek is a call whose rest is not used.

  A parse has four outcomes: the statement and the text behind it, the error code and message of the
  parser, \<open>Outside\<close> for a construct this theory does not describe (\<open>SELECT\<close>, \<open>UPDATE\<close>, \<open>DELETE\<close>,
  indexes, expressions, placeholders, floating-point and vector literals), and \<open>Hangs\<close> where the
  parser's loop does not end.
\<close>

section \<open>Tokens\<close>

datatype token =
    T_eof | T_error | T_kw string | T_ident string | T_int string | T_float string
  | T_string string | T_blob string | T_punct string

text \<open>The keyword table; a spelling beside the token it stands for.\<close>

definition kw_table_entries :: "(string \<times> string) list" where
  "kw_table_entries =
    map (\<lambda>k. (k, k))
      [''create'', ''table'', ''insert'', ''into'', ''values'', ''select'', ''from'', ''where'', ''null'',
       ''true'', ''false'', ''is'', ''not'', ''and'', ''or'', ''count'', ''int32'', ''int64'', ''float32'',
       ''bool'', ''text'', ''blob''] @
    [(''integer'', ''int32''), (''bigint'', ''int64''), (''real'', ''float32''), (''boolean'', ''bool'')] @
    map (\<lambda>k. (k, k))
      [''update'', ''set'', ''delete'', ''join'', ''inner'', ''left'', ''on'', ''as'', ''order'', ''by'',
       ''limit'', ''offset'', ''vector'', ''asc'', ''desc'', ''drop'', ''l2_distance'', ''cosine_distance'',
       ''begin'', ''transaction''] @
    [(''work'', ''transaction'')] @
    map (\<lambda>k. (k, k))
      [''commit'', ''rollback'', ''index'', ''unique'', ''queue'', ''enqueue'', ''dequeue'', ''stream'',
       ''append'', ''to'', ''cursor'', ''read'', ''trim'', ''before'', ''claim'', ''ack'', ''nack'',
       ''renew'', ''for'', ''at'', ''token'']"

definition lower :: "char \<Rightarrow> char" where
  "lower c = (if CHR ''A'' \<le> c \<and> c \<le> CHR ''Z'' then char_of (of_char c + 32 :: nat) else c)"

definition is_digit :: "char \<Rightarrow> bool" where
  "is_digit c \<longleftrightarrow> CHR ''0'' \<le> c \<and> c \<le> CHR ''9''"

definition is_alpha :: "char \<Rightarrow> bool" where
  "is_alpha c \<longleftrightarrow> c = CHR ''_'' \<or> (CHR ''A'' \<le> c \<and> c \<le> CHR ''Z'') \<or> (CHR ''a'' \<le> c \<and> c \<le> CHR ''z'')"

definition ident_char :: "char \<Rightarrow> bool" where
  "ident_char c \<longleftrightarrow> is_alpha c \<or> is_digit c"

abbreviation (input) quote :: char where "quote \<equiv> CHR 39"
abbreviation (input) newline :: char where "newline \<equiv> CHR 10"

section \<open>The tokenizer\<close>

definition comment_loop :: "string \<Rightarrow> string" where
  "comment_loop s = dropWhile (\<lambda>c. c \<noteq> newline) s"

function skip_ws :: "string \<Rightarrow> string" where
  "skip_ws [] = []"
| "skip_ws (c # cs) =
    (if c = CHR '' '' \<or> c = CHR 9 \<or> c = CHR 13 \<or> c = newline then skip_ws cs
     else if c = CHR ''-'' \<and> cs \<noteq> [] \<and> hd cs = CHR ''-'' then skip_ws (comment_loop (tl cs))
     else c # cs)"
  by pat_completeness auto
termination
  by (relation "measure length")
     (auto simp: comment_loop_def intro!: le_imp_less_Suc order_trans [OF length_dropWhile_le])

text \<open>The body of a string literal, behind its opening quote: the raw bytes and the rest.\<close>

fun str_loop :: "string \<Rightarrow> (string \<times> string) option" where
  "str_loop [] = None"
| "str_loop (c # cs) =
    (if c \<noteq> quote then map_option (\<lambda>(b, r). (c # b, r)) (str_loop cs)
     else case cs of
       [] \<Rightarrow> Some ([], [])
     | d # ds \<Rightarrow>
         if d = quote then map_option (\<lambda>(b, r). (quote # quote # b, r)) (str_loop ds)
         else Some ([], cs))"

definition lex_string :: "(string \<Rightarrow> token) \<Rightarrow> string \<Rightarrow> token \<times> string" where
  "lex_string lit s = (case str_loop s of None \<Rightarrow> (T_error, []) | Some (b, r) \<Rightarrow> (lit b, r))"

definition lex_ident :: "string \<Rightarrow> token \<times> string" where
  "lex_ident s =
    (let w = takeWhile ident_char s; r = dropWhile ident_char s
     in case map_of kw_table_entries (map lower w) of
          Some k \<Rightarrow> (T_kw k, r)
        | None \<Rightarrow> (T_ident w, r))"

definition lex_number :: "string \<Rightarrow> token \<times> string" where
  "lex_number s =
    (let w = takeWhile is_digit s; r = dropWhile is_digit s
     in case r of
          d # e # r' \<Rightarrow>
            if d = CHR ''.'' \<and> is_digit e
            then (T_float (w @ d # takeWhile is_digit (e # r')), dropWhile is_digit (e # r'))
            else (T_int w, r)
        | _ \<Rightarrow> (T_int w, r))"

text \<open>Operators of more than one character, the longest first.\<close>

definition lex_lt :: "string \<Rightarrow> token \<times> string" where
  "lex_lt cs =
    (case cs of
       d # e # r \<Rightarrow>
         if d = CHR ''-'' then (if e = CHR ''>'' then (T_punct ''<->'', r) else (T_punct ''<'', cs))
         else if d = CHR ''='' then (if e = CHR ''>'' then (T_punct ''<=>'', r) else (T_punct ''<='', e # r))
         else if d = CHR ''>'' then (T_punct ''!='', e # r)
         else (T_punct ''<'', cs)
     | [d] \<Rightarrow>
         if d = CHR ''='' then (T_punct ''<='', [])
         else if d = CHR ''>'' then (T_punct ''!='', [])
         else (T_punct ''<'', cs)
     | [] \<Rightarrow> (T_punct ''<'', []))"

definition start_token :: "char \<Rightarrow> string \<Rightarrow> token \<times> string" where
  "start_token c cs =
    (if c \<in> set '',?;[]()*+.='' then (T_punct [c], cs)
     else if c = CHR ''!'' then
       (if cs \<noteq> [] \<and> hd cs = CHR ''='' then (T_punct ''!='', tl cs) else (T_error, cs))
     else if c = CHR ''<'' then lex_lt cs
     else if c = CHR ''>'' then
       (if cs \<noteq> [] \<and> hd cs = CHR ''='' then (T_punct ''>='', tl cs) else (T_punct ''>'', cs))
     else if c = CHR ''-'' then (T_punct ''-'', cs)
     else if (c = CHR ''X'' \<or> c = CHR ''x'') \<and> cs \<noteq> [] \<and> hd cs = quote then lex_string T_blob (tl cs)
     else if is_alpha c then lex_ident (c # cs)
     else if is_digit c then lex_number (c # cs)
     else if c = quote then lex_string T_string cs
     else (T_error, cs))"

definition sql_tok_next :: "string \<Rightarrow> token \<times> string" where
  "sql_tok_next s = (case skip_ws s of [] \<Rightarrow> (T_eof, []) | c # cs \<Rightarrow> start_token c cs)"

section \<open>Literals\<close>

datatype literal = L_null | L_int int | L_bool bool | L_text string | L_blob string

text \<open>A decimal accumulated in a 64-bit register; a carry out of it ends the loop.\<close>

fun int_loop :: "nat \<Rightarrow> string \<Rightarrow> nat option" where
  "int_loop acc [] = Some acc"
| "int_loop acc (c # cs) =
    (let v = acc * 10 + (of_char c - 48) in if 2 ^ 64 \<le> v then None else int_loop v cs)"

definition parse_number :: "bool \<Rightarrow> string \<Rightarrow> int option" where
  "parse_number neg ds =
    (case int_loop 0 ds of
       None \<Rightarrow> None
     | Some v \<Rightarrow>
         if neg then (if 2 ^ 63 < v then None else Some (- int v))
         else if 2 ^ 63 \<le> v then None else Some (int v))"

fun string_decode :: "string \<Rightarrow> string" where
  "string_decode [] = []"
| "string_decode (c # cs) = c # (if c = quote then string_decode (tl cs) else string_decode cs)"

definition hex_nibble :: "char \<Rightarrow> nat option" where
  "hex_nibble c =
    (if is_digit c then Some (of_char c - 48)
     else if CHR ''a'' \<le> c \<and> c \<le> CHR ''f'' then Some (of_char c - 87)
     else if CHR ''A'' \<le> c \<and> c \<le> CHR ''F'' then Some (of_char c - 55)
     else None)"

fun blob_decode :: "string \<Rightarrow> string option" where
  "blob_decode [] = Some []"
| "blob_decode [c] = None"
| "blob_decode (c # d # cs) =
    (case (hex_nibble c, hex_nibble d, blob_decode cs) of
       (Some h, Some l, Some b) \<Rightarrow> Some (char_of (h * 16 + l) # b)
     | _ \<Rightarrow> None)"

section \<open>The parser\<close>

datatype 'a presult = Got 'a string | Bad int string | Outside | Hangs

definition pbind :: "'a presult \<Rightarrow> ('a \<Rightarrow> string \<Rightarrow> 'b presult) \<Rightarrow> 'b presult" where
  "pbind p f = (case p of Got x s \<Rightarrow> f x s | Bad c m \<Rightarrow> Bad c m | Outside \<Rightarrow> Outside | Hangs \<Rightarrow> Hangs)"

abbreviation (input) SQL_ERR_SYNTAX :: int where "SQL_ERR_SYNTAX \<equiv> 1"

text \<open>One token of a given kind, else the message of the error handler it jumps to.\<close>

definition p_tok :: "string \<Rightarrow> token \<Rightarrow> string \<Rightarrow> unit presult" where
  "p_tok msg t s = (case sql_tok_next s of (t', r) \<Rightarrow> if t' = t then Got () r else Bad SQL_ERR_SYNTAX msg)"

abbreviation (input) p_kw :: "string \<Rightarrow> string \<Rightarrow> unit presult" where
  "p_kw k \<equiv> p_tok ''syntax error near token'' (T_kw k)"

definition p_name :: "string \<Rightarrow> string \<Rightarrow> string presult" where
  "p_name msg s =
    (case sql_tok_next s of (T_ident n, r) \<Rightarrow> Got n r | _ \<Rightarrow> Bad SQL_ERR_SYNTAX msg)"

abbreviation (input) p_object :: "string \<Rightarrow> string presult" where
  "p_object \<equiv> p_name ''expected table name''"

definition p_number :: "bool \<Rightarrow> string \<Rightarrow> string \<Rightarrow> literal presult" where
  "p_number neg ds r =
    (case parse_number neg ds of
       Some i \<Rightarrow> Got (L_int i) r
     | None \<Rightarrow> Bad SQL_ERR_SYNTAX ''integer literal overflow'')"

definition parse_primary :: "string \<Rightarrow> literal presult" where
  "parse_primary s =
    (case sql_tok_next s of (t, r) \<Rightarrow>
       (case t of
          T_int ds \<Rightarrow> p_number False ds r
        | T_string b \<Rightarrow> Got (L_text (string_decode b)) r
        | T_blob b \<Rightarrow>
            (case blob_decode b of
               Some x \<Rightarrow> Got (L_blob x) r
             | None \<Rightarrow> Bad SQL_ERR_SYNTAX ''BLOB literal must contain only an even number of hex digits'')
        | T_kw k \<Rightarrow>
            if k = ''true'' then Got (L_bool True) r
            else if k = ''false'' then Got (L_bool False) r
            else if k = ''null'' then Got L_null r
            else if k \<in> set [''not'', ''l2_distance'', ''cosine_distance''] then Outside
            else Bad SQL_ERR_SYNTAX ''expected expression''
        | T_punct p \<Rightarrow>
            if p = ''+'' \<or> p = ''-'' then
              (case sql_tok_next r of
                 (T_int ds, r') \<Rightarrow> p_number (p = ''-'') ds r'
               | (T_float ds, r') \<Rightarrow> Outside
               | _ \<Rightarrow> Bad SQL_ERR_SYNTAX ''expected expression'')
            else if p \<in> set [''('', ''['', ''?''] then Outside
            else Bad SQL_ERR_SYNTAX ''expected expression''
        | T_ident n \<Rightarrow> Outside
        | T_float ds \<Rightarrow> Outside
        | _ \<Rightarrow> Bad SQL_ERR_SYNTAX ''expected expression''))"

text \<open>A literal that has to be an integer, as the 64-bit register that carries it.\<close>

definition p_u64 :: "string \<Rightarrow> nat presult" where
  "p_u64 s = pbind (parse_primary s) (\<lambda>l r.
     case l of L_int i \<Rightarrow> Got (nat (i mod 2 ^ 64)) r | _ \<Rightarrow> Bad SQL_ERR_SYNTAX ''syntax error near token'')"

text \<open>Column definitions.\<close>

record coldef =
  cd_name :: string
  cd_type :: coltype
  cd_nullable :: bool

definition p_coltype :: "string \<Rightarrow> coltype presult" where
  "p_coltype s =
    (case sql_tok_next s of (T_kw k, r) \<Rightarrow>
       if k = ''int32'' then Got INT32 r else if k = ''int64'' then Got INT64 r
       else if k = ''float32'' then Got FLOAT32 r else if k = ''bool'' then Got BOOL r
       else if k = ''text'' then Got TEXT r else if k = ''blob'' then Got BLOB r
       else if k = ''vector'' then Outside
       else Bad SQL_ERR_SYNTAX ''expected column data type (INT32, INT64, FLOAT32, BOOL)''
     | _ \<Rightarrow> Bad SQL_ERR_SYNTAX ''expected column data type (INT32, INT64, FLOAT32, BOOL)'')"

definition p_nullable :: "string \<Rightarrow> bool presult" where
  "p_nullable s =
    (case sql_tok_next s of (t, r) \<Rightarrow>
       if t = T_kw ''null'' then Got True r
       else if t = T_kw ''not'' then pbind (p_kw ''null'' r) (\<lambda>_ r'. Got False r')
       else Got True s)"

text \<open>\<open>n\<close> counts the columns still allowed; the loop ends at \<open>)\<close>, at an error, or when the
  sixty-fifth column begins.\<close>

fun col_loop :: "nat \<Rightarrow> string \<Rightarrow> coldef list presult" where
  "col_loop 0 s = Bad SQL_ERR_SYNTAX ''column count exceeds maximum of 64''"
| "col_loop (Suc n) s =
    pbind (p_name ''expected column name'' s) (\<lambda>c s1.
    pbind (p_coltype s1) (\<lambda>t s2.
    pbind (p_nullable s2) (\<lambda>nl s3.
      let d = \<lparr>cd_name = c, cd_type = t, cd_nullable = nl\<rparr>
      in case sql_tok_next s3 of (k, s4) \<Rightarrow>
           if k = T_punct '','' then pbind (col_loop n s4) (\<lambda>ds s5. Got (d # ds) s5)
           else if k = T_punct '')'' then Got [d] s4
           else Bad SQL_ERR_SYNTAX (''expected ','' @ [quote]))))"

text \<open>The column list of an \<open>INSERT\<close> is skipped token by token; nothing but \<open>)\<close> ends the loop.\<close>

partial_function (option) insert_skip_cols :: "string \<Rightarrow> string option" where
  "insert_skip_cols s =
    (case sql_tok_next s of (t, r) \<Rightarrow> if t = T_punct '')'' then Some r else insert_skip_cols r)"

declare insert_skip_cols.simps [code]

fun val_loop :: "nat \<Rightarrow> string \<Rightarrow> literal list presult" where
  "val_loop 0 s = Bad SQL_ERR_SYNTAX ''column count exceeds maximum of 64''"
| "val_loop (Suc n) s =
    pbind (parse_primary s) (\<lambda>l s1.
      case sql_tok_next s1 of (k, s2) \<Rightarrow>
        if k = T_punct '','' then pbind (val_loop n s2) (\<lambda>ls s3. Got (l # ls) s3)
        else if k = T_punct '')'' then Got [l] s2
        else Bad SQL_ERR_SYNTAX (''expected ')'' @ [quote]))"

fun row_loop :: "nat \<Rightarrow> string \<Rightarrow> literal list list presult" where
  "row_loop 0 s = Bad SQL_ERR_SYNTAX ''row count exceeds maximum of 256''"
| "row_loop (Suc n) s =
    pbind (p_tok (''expected '('' @ [quote]) (T_punct ''('') s) (\<lambda>_ s1.
    pbind (val_loop 64 s1) (\<lambda>row s2.
      case sql_tok_next s2 of (k, s3) \<Rightarrow>
        if k = T_punct '','' then pbind (row_loop n s3) (\<lambda>rows s4. Got (row # rows) s4)
        else Got [row] s2))"

section \<open>Statements\<close>

datatype ast =
    Begin | Commit | Rollback
  | Create_table string "coldef list" | Create_queue string | Create_stream string
  | Create_cursor string string
  | Drop_table string | Drop_queue string | Drop_stream string | Drop_cursor string string
  | Insert string "literal list list"
  | Enqueue string literal | Append string literal
  | Dequeue string | Claim string nat | Ack string nat nat | Nack string nat nat
  | Renew string nat nat nat
  | Read string string | Trim string nat

text \<open>An optional \<open>TRANSACTION\<close> or \<open>WORK\<close>.\<close>

definition p_work :: "ast \<Rightarrow> string \<Rightarrow> ast presult" where
  "p_work a s =
    (case sql_tok_next s of (t, r) \<Rightarrow> if t = T_kw ''transaction'' then Got a r else Got a s)"

definition parse_create :: "string \<Rightarrow> ast presult" where
  "parse_create s =
    (case sql_tok_next s of (t, r) \<Rightarrow>
       if t = T_kw ''index'' \<or> t = T_kw ''unique'' then Outside
       else if t = T_kw ''queue'' then pbind (p_object r) (\<lambda>n r1. Got (Create_queue n) r1)
       else if t = T_kw ''stream'' then pbind (p_object r) (\<lambda>n r1. Got (Create_stream n) r1)
       else if t = T_kw ''cursor'' then
         pbind (p_object r) (\<lambda>c r1. pbind (p_kw ''on'' r1) (\<lambda>_ r2.
         pbind (p_object r2) (\<lambda>n r3. Got (Create_cursor c n) r3)))
       else if t = T_kw ''table'' then
         pbind (p_object r) (\<lambda>n r1.
         pbind (p_tok (''expected '('' @ [quote]) (T_punct ''('') r1) (\<lambda>_ r2.
         pbind (col_loop 64 r2) (\<lambda>ds r3. Got (Create_table n ds) r3)))
       else Bad SQL_ERR_SYNTAX ''syntax error near token'')"

definition parse_drop :: "string \<Rightarrow> ast presult" where
  "parse_drop s =
    (case sql_tok_next s of (t, r) \<Rightarrow>
       if t = T_kw ''index'' then Outside
       else if t = T_kw ''queue'' then pbind (p_object r) (\<lambda>n r1. Got (Drop_queue n) r1)
       else if t = T_kw ''stream'' then pbind (p_object r) (\<lambda>n r1. Got (Drop_stream n) r1)
       else if t = T_kw ''cursor'' then
         pbind (p_object r) (\<lambda>c r1. pbind (p_kw ''on'' r1) (\<lambda>_ r2.
         pbind (p_object r2) (\<lambda>n r3. Got (Drop_cursor c n) r3)))
       else if t = T_kw ''table'' then pbind (p_object r) (\<lambda>n r1. Got (Drop_table n) r1)
       else Bad SQL_ERR_SYNTAX ''syntax error near token'')"

definition parse_insert :: "string \<Rightarrow> ast presult" where
  "parse_insert s =
    pbind (p_kw ''into'' s) (\<lambda>_ r1. pbind (p_object r1) (\<lambda>n r2.
      let after = (case sql_tok_next r2 of (t, r3) \<Rightarrow>
                     if t = T_punct ''('' then
                       (case insert_skip_cols r3 of None \<Rightarrow> Hangs | Some r4 \<Rightarrow> Got () r4)
                     else Got () r2)
      in pbind after (\<lambda>_ r5. pbind (p_tok ''expected VALUES keyword'' (T_kw ''values'') r5) (\<lambda>_ r6.
         pbind (row_loop 256 r6) (\<lambda>rows r7. Got (Insert n rows) r7)))))"

definition parse_payload :: "string \<Rightarrow> (string \<Rightarrow> literal \<Rightarrow> ast) \<Rightarrow> string \<Rightarrow> ast presult" where
  "parse_payload k f s =
    pbind (p_kw k s) (\<lambda>_ r1. pbind (p_object r1) (\<lambda>n r2.
    pbind (p_kw ''values'' r2) (\<lambda>_ r3.
    pbind (p_tok ''syntax error near token'' (T_punct ''('') r3) (\<lambda>_ r4.
    pbind (parse_primary r4) (\<lambda>l r5.
    pbind (p_tok ''syntax error near token'' (T_punct '')'') r5) (\<lambda>_ r6. Got (f n l) r6))))))"

definition parse_claim :: "string \<Rightarrow> ast presult" where
  "parse_claim s =
    pbind (p_kw ''from'' s) (\<lambda>_ r1. pbind (p_object r1) (\<lambda>n r2.
    pbind (p_kw ''for'' r2) (\<lambda>_ r3. pbind (p_u64 r3) (\<lambda>d r4. Got (Claim n d) r4))))"

definition parse_ticket :: "(string \<Rightarrow> nat \<Rightarrow> nat \<Rightarrow> string \<Rightarrow> ast presult) \<Rightarrow> string \<Rightarrow> ast presult" where
  "parse_ticket k s =
    pbind (p_kw ''from'' s) (\<lambda>_ r1. pbind (p_object r1) (\<lambda>n r2.
    pbind (p_kw ''at'' r2) (\<lambda>_ r3. pbind (p_u64 r3) (\<lambda>pos r4.
    pbind (p_kw ''token'' r4) (\<lambda>_ r5. pbind (p_u64 r5) (\<lambda>tok r6. k n pos tok r6))))))"

definition parse_renew :: "string \<Rightarrow> ast presult" where
  "parse_renew = parse_ticket (\<lambda>n pos tok r.
     pbind (p_kw ''for'' r) (\<lambda>_ r1. pbind (p_u64 r1) (\<lambda>d r2. Got (Renew n pos tok d) r2)))"

definition parse_read :: "string \<Rightarrow> ast presult" where
  "parse_read s =
    pbind (p_kw ''from'' s) (\<lambda>_ r1. pbind (p_object r1) (\<lambda>n r2.
    pbind (p_kw ''as'' r2) (\<lambda>_ r3. pbind (p_object r3) (\<lambda>c r4. Got (Read n c) r4))))"

definition parse_trim :: "string \<Rightarrow> ast presult" where
  "parse_trim s =
    pbind (p_kw ''stream'' s) (\<lambda>_ r1. pbind (p_object r1) (\<lambda>n r2.
    pbind (p_kw ''before'' r2) (\<lambda>_ r3. pbind (p_u64 r3) (\<lambda>pos r4. Got (Trim n pos) r4))))"

definition parse_statement :: "string \<Rightarrow> string \<Rightarrow> ast presult" where
  "parse_statement k s =
    (if k = ''create'' then parse_create s
     else if k = ''insert'' then parse_insert s
     else if k = ''drop'' then parse_drop s
     else if k \<in> set [''select'', ''update'', ''delete''] then Outside
     else if k = ''begin'' then p_work Begin s
     else if k = ''commit'' then p_work Commit s
     else if k = ''rollback'' then p_work Rollback s
     else if k = ''enqueue'' then parse_payload ''into'' Enqueue s
     else if k = ''append'' then parse_payload ''to'' Append s
     else if k = ''read'' then parse_read s
     else if k = ''trim'' then parse_trim s
     else if k = ''dequeue'' then
       pbind (p_kw ''from'' s) (\<lambda>_ r1. pbind (p_object r1) (\<lambda>n r2. Got (Dequeue n) r2))
     else if k = ''claim'' then parse_claim s
     else if k = ''ack'' then parse_ticket (\<lambda>n pos tok r. Got (Ack n pos tok) r) s
     else if k = ''nack'' then parse_ticket (\<lambda>n pos tok r. Got (Nack n pos tok) r) s
     else if k = ''renew'' then parse_renew s
     else Bad SQL_ERR_SYNTAX ''syntax error near token'')"

text \<open>An optional semicolon, and then nothing but white space and comments.\<close>

definition check_eof :: "ast \<Rightarrow> string \<Rightarrow> ast presult" where
  "check_eof a s =
    (let r = (case sql_tok_next s of (t, r') \<Rightarrow> if t = T_punct '';'' then r' else s)
     in case sql_tok_next r of (t, r') \<Rightarrow>
          if t = T_eof then Got a r' else Bad SQL_ERR_SYNTAX ''unexpected token'')"

definition sql_parse :: "string \<Rightarrow> ast presult" where
  "sql_parse s =
    (case sql_tok_next s of
       (T_kw k, r) \<Rightarrow> pbind (parse_statement k r) check_eof
     | _ \<Rightarrow> Bad SQL_ERR_SYNTAX ''syntax error near token'')"

end
