(* ===== verification/Streams.thy ===== *)
theory Streams
  imports Lease_Queue "HOL-Library.Multiset"
begin

text \<open>
  Append-only streams, \<open>src/core/stream.asm\<close> and the append of \<open>src/core/queue.asm\<close>.  A stream page
  is the record \<open>stream\<close>: the position of the oldest record kept, the records from there on, and the
  table of cursors.  \<open>S_END\<close> is the first position plus the number of records; the segment directory
  (\<open>S_FIRST_SEG\<close>, \<open>S_SEGMENTS\<close>) is a function of the two positions, which is what the validator
  demands of it, and is written out where the code tests it.  A cursor is a name and the next
  position it will read.
\<close>

abbreviation (input) S_MAX_SEGMENTS :: nat where "S_MAX_SEGMENTS \<equiv> 463"
abbreviation (input) S_MAX_CURSORS :: nat where "S_MAX_CURSORS \<equiv> 8"
abbreviation (input) SCUR_NAME_MAX :: nat where "SCUR_NAME_MAX \<equiv> 23"

record stream =
  s_first :: nat
  s_records :: "string list"
  s_cursors :: "(string \<times> nat) list"

definition new_stream :: stream where
  "new_stream = \<lparr>s_first = 0, s_records = [], s_cursors = []\<rparr>"

definition s_end :: "stream \<Rightarrow> nat" where
  "s_end s = s_first s + length (s_records s)"

text \<open>The segment directory the two positions determine: where it starts and how many entries.\<close>

definition s_first_seg :: "stream \<Rightarrow> nat" where
  "s_first_seg s = s_first s div QUEUE_SEG_SLOTS"

definition s_segments :: "stream \<Rightarrow> nat" where
  "s_segments s =
    (if s_records s = [] then 0 else (s_end s - 1) div QUEUE_SEG_SLOTS + 1 - s_first_seg s)"

section \<open>Validation\<close>

definition stream_page_valid :: "stream \<Rightarrow> bool" where
  "stream_page_valid s \<longleftrightarrow>
    length (s_cursors s) \<le> S_MAX_CURSORS
    \<and> (\<forall>(n, p) \<in> set (s_cursors s). n \<noteq> [] \<and> s_first s \<le> p \<and> p \<le> s_end s)
    \<and> distinct (map fst (s_cursors s))
    \<and> s_segments s \<le> S_MAX_SEGMENTS"

section \<open>Operations\<close>

definition db_stream_append :: "stream \<Rightarrow> string \<Rightarrow> stream \<times> db_error option" where
  "db_stream_append s bytes =
    (if 2 ^ 32 \<le> length bytes then (s, Some E_VALUE)
     else
       let g = s_end s div QUEUE_SEG_SLOTS;
           base = (if s_segments s = 0 then g else s_first_seg s);
           i = g - base
       in if s_segments s \<le> i \<and> S_MAX_SEGMENTS \<le> i then (s, Some E_FULL)
          else (s\<lparr>s_records := s_records s @ [bytes]\<rparr>, None))"

text \<open>The index of the cursor with a name, scanning the first \<open>S_CURSORS\<close> slots.\<close>

fun cursor_find :: "string \<Rightarrow> (string \<times> nat) list \<Rightarrow> nat option" where
  "cursor_find n [] = None"
| "cursor_find n ((m, p) # cs) = (if m = n then Some 0 else map_option Suc (cursor_find n cs))"

definition db_stream_cursor_find :: "stream \<Rightarrow> string \<Rightarrow> nat option" where
  "db_stream_cursor_find s n = cursor_find n (s_cursors s)"

definition db_stream_cursor_add :: "stream \<Rightarrow> string \<Rightarrow> stream \<times> db_error option" where
  "db_stream_cursor_add s n =
    (if n = [] \<or> SCUR_NAME_MAX < length n then (s, Some E_VALUE)
     else if db_stream_cursor_find s n \<noteq> None then (s, Some E_SCHEMA)
     else if S_MAX_CURSORS \<le> length (s_cursors s) then (s, Some E_FULL)
     else (s\<lparr>s_cursors := s_cursors s @ [(n, s_first s)]\<rparr>, None))"

text \<open>The last cursor moves into the hole.\<close>

definition db_stream_cursor_drop :: "stream \<Rightarrow> string \<Rightarrow> stream \<times> db_error option" where
  "db_stream_cursor_drop s n =
    (case db_stream_cursor_find s n of
       None \<Rightarrow> (s, Some E_CURSOR)
     | Some i \<Rightarrow>
         let cs = s_cursors s; k = length cs - 1
         in (s\<lparr>s_cursors := take k (cs[i := cs ! k])\<rparr>, None))"

definition db_stream_peek :: "stream \<Rightarrow> string \<Rightarrow> db_error + (nat \<times> nat)" where
  "db_stream_peek s n =
    (case db_stream_cursor_find s n of
       None \<Rightarrow> Inl E_CURSOR
     | Some i \<Rightarrow>
         let p = snd (s_cursors s ! i)
         in if s_end s \<le> p then Inl E_NOTFOUND
            else if p < s_first s then Inl E_STATE
            else Inr (length (s_records s ! (p - s_first s)), i))"

definition db_stream_read :: "stream \<Rightarrow> nat \<Rightarrow> stream \<times> (db_error + string)" where
  "db_stream_read s i =
    (if length (s_cursors s) \<le> i then (s, Inl E_STATE)
     else
       let (n, p) = s_cursors s ! i
       in if s_end s \<le> p then (s, Inl E_NOTFOUND)
          else if p < s_first s then (s, Inl E_STATE)
          else (s\<lparr>s_cursors := (s_cursors s)[i := (n, p + 1)]\<rparr>,
                Inr (s_records s ! (p - s_first s))))"

definition db_stream_trim :: "stream \<Rightarrow> nat \<Rightarrow> stream \<times> db_error option" where
  "db_stream_trim s pos =
    (if s_end s < pos then (s, Some E_VALUE)
     else if pos \<le> s_first s then (s, None)
     else if \<exists>c \<in> set (s_cursors s). snd c < pos then (s, Some E_RETAINED)
     else (s\<lparr>s_first := pos, s_records := drop (pos - s_first s) (s_records s)\<rparr>, None))"

section \<open>Cursors as a finite map\<close>

lemma cursor_find_Some:
  "cursor_find n cs = Some i \<Longrightarrow> i < length cs \<and> fst (cs ! i) = n \<and> map_of cs n = Some (snd (cs ! i))"
  by (induction n cs arbitrary: i rule: cursor_find.induct) (auto split: if_splits)

lemma cursor_find_None: "cursor_find n cs = None \<longleftrightarrow> n \<notin> fst ` set cs"
  by (induction n cs rule: cursor_find.induct) auto

lemma map_of_cursor_update:
  assumes "distinct (map fst cs)" and "i < length cs" and "fst c = fst (cs ! i)"
  shows "map_of (cs[i := c]) = (map_of cs)(fst (cs ! i) \<mapsto> snd c)"
    and "map fst (cs[i := c]) = map fst cs"
proof -
  show keys: "map fst (cs[i := c]) = map fst cs"
    using assms(2,3) by (simp add: map_update list_update_same_conv)
  show "map_of (cs[i := c]) = (map_of cs)(fst (cs ! i) \<mapsto> snd c)"
  proof
    fix n
    show "map_of (cs[i := c]) n = ((map_of cs)(fst (cs ! i) \<mapsto> snd c)) n"
      using assms
    proof (induction cs arbitrary: i)
      case (Cons a cs)
      show ?case
      proof (cases i)
        case 0
        then show ?thesis using Cons.prems(3) by (cases a; cases c) auto
      next
        case (Suc j)
        have "fst a \<noteq> fst (cs ! j)"
          using Cons.prems(1,2) Suc by (metis distinct.simps(2) length_Cons list.simps(9) not_less_eq nth_map nth_mem length_map)
        with Suc Cons show ?thesis by (cases a) auto
      qed
    qed simp
  qed
qed

text \<open>Dropping a cursor by moving the last one into its place.\<close>

lemma take_update_last:
  assumes "i < length cs"
  shows "mset (take (length cs - 1) (cs[i := cs ! (length cs - 1)])) = mset cs - {#cs ! i#}"
proof -
  obtain ds d where cs: "cs = ds @ [d]" using assms by (cases cs rule: rev_cases) auto
  show ?thesis
  proof (cases "i = length ds")
    case True
    then show ?thesis by (simp add: cs)
  next
    case False
    then have "i < length ds" using assms by (simp add: cs)
    then show ?thesis
      by (simp add: cs list_update_append nth_append mset_update add_mset_diff_bothsides)
  qed
qed

lemma drop_cursor:
  assumes "distinct (map fst cs)" and "i < length cs"
    and "cs' = take (length cs - 1) (cs[i := cs ! (length cs - 1)])"
  shows "set cs' = set cs - {cs ! i}" and "distinct (map fst cs')"
    and "map_of cs' = (map_of cs)(fst (cs ! i) := None)" and "length cs' = length cs - 1"
proof -
  have m: "mset cs' = mset cs - {#cs ! i#}" using take_update_last [OF assms(2)] by (simp add: assms(3))
  have mem: "cs ! i \<in># mset cs" using assms(2) by simp
  have d: "distinct cs" using assms(1) by (simp add: distinct_map)
  show s: "set cs' = set cs - {cs ! i}"
  proof (rule set_eqI)
    fix x
    have "count (mset cs) x = (if x \<in> set cs then 1 else 0)" using d distinct_count_atmost_1 [of cs] by blast
    then show "x \<in> set cs' \<longleftrightarrow> x \<in> set cs - {cs ! i}"
      using m mem by (auto simp: set_mset_mset [symmetric] in_diff_count simp del: set_mset_mset split: if_splits)
  qed
  show len: "length cs' = length cs - 1" using assms(2,3) by simp
  have "card (set cs') = length cs'"
    using d assms(2) by (simp add: s len distinct_card)
  then show dist: "distinct (map fst cs')"
    using assms(1) by (auto simp: distinct_map card_distinct s intro: inj_on_subset)
  show "map_of cs' = (map_of cs)(fst (cs ! i) := None)"
  proof
    fix n
    show "map_of cs' n = ((map_of cs)(fst (cs ! i) := None)) n"
    proof (cases "n = fst (cs ! i)")
      case True
      have "n \<notin> fst ` set cs'"
        using assms(1,2) s True by (auto simp: distinct_map inj_on_def)
      then show ?thesis using True by (simp add: map_of_eq_None_iff)
    next
      case False
      have "map_of cs' n = Some v \<longleftrightarrow> map_of cs n = Some v" for v
        using False by (auto simp: map_of_eq_Some_iff [OF dist] map_of_eq_Some_iff [OF assms(1)] s
            dest: arg_cong [where f = fst])
      with False show ?thesis by (cases "map_of cs n"; cases "map_of cs' n") auto
    qed
  qed
qed

section \<open>The invariant\<close>

lemma append_outcome:
  assumes "db_stream_append s b = (s', None)"
  shows "s' = s\<lparr>s_records := s_records s @ [b]\<rparr>"
    and "s_segments s \<le> S_MAX_SEGMENTS \<Longrightarrow> s_segments s' \<le> S_MAX_SEGMENTS"
proof -
  show *: "s' = s\<lparr>s_records := s_records s @ [b]\<rparr>"
    using assms by (auto simp: db_stream_append_def Let_def split: if_splits)
  assume le: "s_segments s \<le> S_MAX_SEGMENTS"
  define g where "g = s_end s div 62"
  have seg': "s_segments s' = g + 1 - s_first_seg s"
    by (simp add: * s_segments_def s_end_def s_first_seg_def g_def)
  show "s_segments s' \<le> S_MAX_SEGMENTS"
  proof (cases "s_records s = []")
    case True
    then have "g = s_first_seg s" by (simp add: g_def s_end_def s_first_seg_def)
    then show ?thesis by (simp add: seg')
  next
    case False
    then have seg: "s_segments s = (s_end s - 1) div 62 + 1 - s_first_seg s" by (simp add: s_segments_def)
    have "s_first_seg s \<le> (s_end s - 1) div 62"
      using False by (simp add: s_first_seg_def s_end_def div_le_mono) (metis Suc_leI add_diff_assoc div_le_mono length_greater_0_conv le_add1 One_nat_def)
    then have pos: "0 < s_segments s" by (simp add: seg)
    have "\<not> (s_segments s \<le> g - s_first_seg s \<and> S_MAX_SEGMENTS \<le> g - s_first_seg s)"
      using assms pos by (auto simp: db_stream_append_def Let_def g_def split: if_splits)
    moreover have "g \<le> (s_end s - 1) div 62 + 1" by (simp add: g_def)
    ultimately show ?thesis using le by (simp add: seg') linarith
  qed
qed

lemma append_valid: "stream_page_valid s \<Longrightarrow> stream_page_valid (fst (db_stream_append s b))"
  using append_outcome [of s b "fst (db_stream_append s b)"]
  by (cases "snd (db_stream_append s b)")
     (auto simp: stream_page_valid_def s_end_def prod_eq_iff db_stream_append_def Let_def split: if_splits)

lemma cursor_add_valid: "stream_page_valid s \<Longrightarrow> stream_page_valid (fst (db_stream_cursor_add s n))"
  by (auto simp: stream_page_valid_def db_stream_cursor_add_def db_stream_cursor_find_def s_end_def
      s_segments_def s_first_seg_def cursor_find_None image_iff)

lemma cursor_drop_valid: "stream_page_valid s \<Longrightarrow> stream_page_valid (fst (db_stream_cursor_drop s n))"
proof (cases "db_stream_cursor_find s n")
  case (Some i)
  assume valid: "stream_page_valid s"
  then have d: "distinct (map fst (s_cursors s))" by (simp add: stream_page_valid_def)
  have i: "i < length (s_cursors s)"
    using cursor_find_Some Some by (fastforce simp: db_stream_cursor_find_def)
  note drop_cursor [OF d i refl]
  with valid show ?thesis
    by (auto simp: Some db_stream_cursor_drop_def Let_def stream_page_valid_def s_end_def s_segments_def
        s_first_seg_def)
qed (simp add: db_stream_cursor_drop_def)

lemma read_valid: "stream_page_valid s \<Longrightarrow> stream_page_valid (fst (db_stream_read s i))"
proof -
  assume valid: "stream_page_valid s"
  then have d: "distinct (map fst (s_cursors s))" by (simp add: stream_page_valid_def)
  show ?thesis
  proof (cases "\<exists>s' b. db_stream_read s i = (s', Inr b)")
    case True
    then obtain n p where i: "i < length (s_cursors s)" "s_cursors s ! i = (n, p)" "p < s_end s" "s_first s \<le> p"
      and eq: "fst (db_stream_read s i) = s\<lparr>s_cursors := (s_cursors s)[i := (n, p + 1)]\<rparr>"
      by (auto simp: db_stream_read_def split: if_splits prod.splits)
    have mem: "(n, p) \<in> set (s_cursors s)" using i by (metis nth_mem)
    have keys: "map fst ((s_cursors s)[i := (n, p + 1)]) = map fst (s_cursors s)"
      by (rule map_of_cursor_update(2) [OF d i(1)]) (simp add: i(2))
    show ?thesis
      unfolding eq using valid keys i(3,4) mem
      by (auto simp: stream_page_valid_def s_end_def s_segments_def s_first_seg_def
          dest!: set_update_subset_insert [THEN subsetD])
  next
    case False
    then have "fst (db_stream_read s i) = s" by (auto simp: db_stream_read_def split: if_splits prod.splits)
    with valid show ?thesis by simp
  qed
qed

lemma trim_valid: "stream_page_valid s \<Longrightarrow> stream_page_valid (fst (db_stream_trim s pos))"
proof -
  assume valid: "stream_page_valid s"
  have seg: "s_segments (s\<lparr>s_first := pos, s_records := drop (pos - s_first s) (s_records s)\<rparr>) \<le> s_segments s"
    if "s_first s < pos" "pos \<le> s_end s"
  proof (cases "pos = s_end s")
    case True
    then show ?thesis by (simp add: s_segments_def s_end_def)
  next
    case False
    have "s_first s div 62 \<le> pos div 62" using that by (simp add: div_le_mono)
    with False that show ?thesis
      by (auto simp: s_segments_def s_end_def s_first_seg_def add.commute intro!: diff_le_mono2)
  qed
  show ?thesis
  proof (cases "s_end s < pos \<or> pos \<le> s_first s \<or> (\<exists>c \<in> set (s_cursors s). snd c < pos)")
    case True
    then have "fst (db_stream_trim s pos) = s" by (auto simp: db_stream_trim_def)
    with valid show ?thesis by simp
  next
    case False
    then have "fst (db_stream_trim s pos) = s\<lparr>s_first := pos, s_records := drop (pos - s_first s) (s_records s)\<rparr>"
      by (auto simp: db_stream_trim_def)
    with valid seg False show ?thesis
      by (force simp: stream_page_valid_def s_end_def)
  qed
qed

section \<open>What a reader sees\<close>

text \<open>A run of a stream as reader \<open>n\<close> lives through it: \<open>app\<close> collects the records appended since
  the run began, \<open>seen\<close> those the reader was handed.  Others may append, read, come, go and trim; an
  operation that is refused changes nothing.\<close>

inductive reader_run :: "string \<Rightarrow> stream \<Rightarrow> string list \<Rightarrow> string list \<Rightarrow> stream \<Rightarrow> bool" for n s0 where
  start: "reader_run n s0 [] [] s0"
| append: "reader_run n s0 app seen s \<Longrightarrow> db_stream_append s b = (s', None)
    \<Longrightarrow> reader_run n s0 (app @ [b]) seen s'"
| read: "reader_run n s0 app seen s \<Longrightarrow> db_stream_cursor_find s n = Some i
    \<Longrightarrow> db_stream_read s i = (s', Inr b) \<Longrightarrow> reader_run n s0 app (seen @ [b]) s'"
| other_read: "reader_run n s0 app seen s \<Longrightarrow> db_stream_cursor_find s m = Some i \<Longrightarrow> m \<noteq> n
    \<Longrightarrow> reader_run n s0 app seen (fst (db_stream_read s i))"
| add: "reader_run n s0 app seen s \<Longrightarrow> m \<noteq> n
    \<Longrightarrow> reader_run n s0 app seen (fst (db_stream_cursor_add s m))"
| drop: "reader_run n s0 app seen s \<Longrightarrow> m \<noteq> n
    \<Longrightarrow> reader_run n s0 app seen (fst (db_stream_cursor_drop s m))"
| trim: "reader_run n s0 app seen s \<Longrightarrow> reader_run n s0 app seen (fst (db_stream_trim s pos))"

text \<open>The cursor of the reader stands behind what it has seen, and what it has seen followed by what
  the stream still holds for it is what the stream held for it at first followed by the appends.\<close>

definition reader_at :: "string \<Rightarrow> stream \<Rightarrow> nat \<Rightarrow> string list \<Rightarrow> bool" where
  "reader_at n s p rest \<longleftrightarrow> stream_page_valid s \<and> map_of (s_cursors s) n = Some p
     \<and> rest = drop (p - s_first s) (s_records s)"

lemma reader_at_cong:
  assumes "reader_at n s p rest" and "stream_page_valid s'" and "map_of (s_cursors s') n = map_of (s_cursors s) n"
    and "s_first s' = s_first s" and "s_records s' = s_records s"
  shows "reader_at n s' p rest"
  using assms by (simp add: reader_at_def)

lemma reader_at_bounds: "reader_at n s p rest \<Longrightarrow> s_first s \<le> p \<and> p \<le> s_end s"
  by (auto simp: reader_at_def stream_page_valid_def dest!: map_of_SomeD)

lemma reader_at_append:
  assumes "reader_at n s p rest" and "db_stream_append s b = (s', None)"
  shows "reader_at n s' p (rest @ [b])"
proof -
  have "stream_page_valid s'"
    using append_valid [of s b] assms by (simp add: reader_at_def)
  moreover have "p - s_first s \<le> length (s_records s)"
    using reader_at_bounds [OF assms(1)] by (auto simp: s_end_def)
  ultimately show ?thesis
    using assms(1) append_outcome(1) [OF assms(2)] by (simp add: reader_at_def)
qed

lemma reader_at_read:
  assumes at: "reader_at n s p rest" and find: "db_stream_cursor_find s n = Some i"
    and read: "db_stream_read s i = (s', Inr b)"
  shows "reader_at n s' (p + 1) (tl rest)" and "rest = b # tl rest"
proof -
  have i: "i < length (s_cursors s)" "s_cursors s ! i = (n, p)"
    using cursor_find_Some [of n "s_cursors s" i] find at
    by (auto simp: db_stream_cursor_find_def reader_at_def prod_eq_iff)
  have d: "distinct (map fst (s_cursors s))" using at by (simp add: reader_at_def stream_page_valid_def)
  have r: "p < s_end s" "b = s_records s ! (p - s_first s)" "s' = s\<lparr>s_cursors := (s_cursors s)[i := (n, p + 1)]\<rparr>"
    using read i by (auto simp: db_stream_read_def split: if_splits)
  have lt: "p - s_first s < length (s_records s)"
    using r(1) reader_at_bounds [OF at] by (auto simp: s_end_def)
  show rest: "rest = b # tl rest"
    using at r(2) lt by (simp add: reader_at_def Cons_nth_drop_Suc [symmetric])
  have "map_of ((s_cursors s)[i := (n, p + 1)]) n = Some (p + 1)"
    using map_of_cursor_update(1) [OF d i(1), of "(n, p + 1)"] by (simp add: i(2))
  moreover have "stream_page_valid s'" using read_valid [of s i] at read by (simp add: reader_at_def)
  moreover have "p + 1 - s_first s = Suc (p - s_first s)"
    using reader_at_bounds [OF at] by linarith
  ultimately show "reader_at n s' (p + 1) (tl rest)"
    using at by (simp add: reader_at_def r(3) tl_drop drop_Suc)
qed

lemma reader_at_trim:
  assumes "reader_at n s p rest"
  shows "reader_at n (fst (db_stream_trim s pos)) p rest"
proof (cases "fst (db_stream_trim s pos) = s")
  case False
  then have t: "fst (db_stream_trim s pos) = s\<lparr>s_first := pos, s_records := drop (pos - s_first s) (s_records s)\<rparr>"
    and le: "\<forall>c \<in> set (s_cursors s). pos \<le> snd c" and first: "s_first s < pos"
    by (auto simp: db_stream_trim_def split: if_splits)
  have "pos \<le> p" using le assms by (auto simp: reader_at_def dest!: map_of_SomeD)
  moreover have "stream_page_valid (fst (db_stream_trim s pos))"
    using assms trim_valid by (simp add: reader_at_def)
  ultimately show ?thesis
    using assms first unfolding t by (simp add: reader_at_def)
qed (use assms in simp)

lemma reader_at_others:
  assumes at: "reader_at n s p rest" and "m \<noteq> n"
  shows "reader_at n (fst (db_stream_cursor_add s m)) p rest"
    and "reader_at n (fst (db_stream_cursor_drop s m)) p rest"
    and "db_stream_cursor_find s m = Some i \<Longrightarrow> reader_at n (fst (db_stream_read s i)) p rest"
proof -
  have valid: "stream_page_valid s" and d: "distinct (map fst (s_cursors s))"
    using at by (simp_all add: reader_at_def stream_page_valid_def)
  show "reader_at n (fst (db_stream_cursor_add s m)) p rest"
    by (rule reader_at_cong [OF at cursor_add_valid [OF valid]])
       (use \<open>m \<noteq> n\<close> in \<open>auto simp: db_stream_cursor_add_def map_add_def split: option.split\<close>)
  show "reader_at n (fst (db_stream_cursor_drop s m)) p rest"
  proof (rule reader_at_cong [OF at cursor_drop_valid [OF valid]])
    show "map_of (s_cursors (fst (db_stream_cursor_drop s m))) n = map_of (s_cursors s) n"
      using \<open>m \<noteq> n\<close> drop_cursor(3) [OF d _ refl] cursor_find_Some [of m "s_cursors s"]
      by (auto simp: db_stream_cursor_drop_def db_stream_cursor_find_def Let_def split: option.split)
  qed (auto simp: db_stream_cursor_drop_def Let_def split: option.split)
  assume find: "db_stream_cursor_find s m = Some i"
  show "reader_at n (fst (db_stream_read s i)) p rest"
  proof (rule reader_at_cong [OF at read_valid [OF valid]])
    have i: "i < length (s_cursors s)" "fst (s_cursors s ! i) = m"
      using cursor_find_Some find by (fastforce simp: db_stream_cursor_find_def)+
    obtain q where q: "s_cursors s ! i = (m, q)" using i(2) by (cases "s_cursors s ! i") auto
    show "map_of (s_cursors (fst (db_stream_read s i))) n = map_of (s_cursors s) n"
      using \<open>m \<noteq> n\<close> map_of_cursor_update(1) [OF d i(1), of "(m, q + 1)"] i q
      by (auto simp: db_stream_read_def)
  qed (auto simp: db_stream_read_def split: prod.split)
qed

lemma reader_run_at:
  assumes "reader_run n s0 app seen s" and "reader_at n s0 p0 held"
  shows "\<exists>rest. reader_at n s (p0 + length seen) rest \<and> held @ app = seen @ rest"
  using assms(1)
proof induction
  case start
  then show ?case using assms(2) by auto
next
  case (append app seen s b s')
  then show ?case using reader_at_append by fastforce
next
  case (read app seen s i s' b)
  then obtain rest where rest: "reader_at n s (p0 + length seen) rest" "held @ app = seen @ rest" by blast
  note r = reader_at_read [OF rest(1) read.hyps(2,3)]
  have "held @ app = (seen @ [b]) @ tl rest" using rest(2) r(2) by (metis append.assoc append_Cons append_Nil)
  with r(1) show ?case by (auto simp: add.assoc)
next
  case (other_read app seen s m i)
  then show ?case using reader_at_others(3) by blast
next
  case (add app seen s m)
  then show ?case using reader_at_others(1) by blast
next
  case (drop app seen s m)
  then show ?case using reader_at_others(2) by blast
next
  case (trim app seen s pos)
  then show ?case using reader_at_trim by blast
qed

text \<open>C28 A durable reader of a stream is given every record once and in order: whatever others
  append, read, trim, add and drop, the records it has been handed are exactly the next ones from
  where its cursor stood, followed in the stream by the ones it has not been handed yet, and the page
  stays one the validator accepts.\<close>

theorem reader_sees_every_record:
  assumes "stream_page_valid s0" and "map_of (s_cursors s0) n = Some p0" and "reader_run n s0 app seen s"
  shows "map_of (s_cursors s) n = Some (p0 + length seen)
    \<and> seen @ drop (p0 + length seen - s_first s) (s_records s) = drop (p0 - s_first s0) (s_records s0) @ app
    \<and> stream_page_valid s"
  using reader_run_at [OF assms(3), of p0 "drop (p0 - s_first s0) (s_records s0)"] assms(1,2)
  by (auto simp: reader_at_def)

definition audit_stream :: stream where
  "audit_stream = \<lparr>s_first = 3, s_records = [''done: alpha'', ''done: beta''], s_cursors = [(''reporting'', 4)]\<rparr>"

theorem reader_sees_every_record_witness:
  "reader_run ''reporting'' audit_stream [] [''done: beta''] (fst (db_stream_read audit_stream 0))
   \<and> map_of (s_cursors (fst (db_stream_read audit_stream 0))) ''reporting'' = Some 5"
proof -
  have valid: "stream_page_valid audit_stream" and at: "map_of (s_cursors audit_stream) ''reporting'' = Some 4"
    by code_simp+
  have "db_stream_cursor_find audit_stream ''reporting'' = Some 0"
    and "snd (db_stream_read audit_stream 0) = Inr ''done: beta''" by code_simp+
  then have run: "reader_run ''reporting'' audit_stream [] ([] @ [''done: beta'']) (fst (db_stream_read audit_stream 0))"
    by (intro reader_run.read [OF reader_run.start]) (simp_all add: prod_eq_iff)
  from reader_sees_every_record [OF valid at run] run show ?thesis by simp
qed

text \<open>C29 A trim drops exactly the records before its position and never leaves a reader behind: it is
  accepted exactly when the stream has come that far and no reader stands before the position (or it
  has nothing to drop).  The stream then starts at the position, or where it started if that is
  further; every position from there on holds the record it held, and so do the readers' cursors and
  what is unread behind them.  A refusal changes nothing.\<close>

theorem trim_keeps_every_unread_record:
  "case db_stream_trim s pos of (s', r) \<Rightarrow>
    (r = None \<longleftrightarrow> pos \<le> s_end s \<and> (pos \<le> s_first s \<or> (\<forall>c \<in> set (s_cursors s). pos \<le> snd c)))
    \<and> s_cursors s' = s_cursors s \<and> s_end s' = s_end s
    \<and> (r = None \<longrightarrow> s_first s' = max (s_first s) pos
        \<and> (\<forall>p. s_first s' \<le> p \<and> p < s_end s \<longrightarrow> s_records s' ! (p - s_first s') = s_records s ! (p - s_first s)))
    \<and> (\<forall>c \<in> set (s_cursors s). drop (snd c - s_first s') (s_records s') = drop (snd c - s_first s) (s_records s))
    \<and> (r \<noteq> None \<longrightarrow> s' = s)"
proof (cases "s_end s < pos \<or> pos \<le> s_first s \<or> (\<exists>c \<in> set (s_cursors s). snd c < pos)")
  case True
  then show ?thesis by (auto simp: db_stream_trim_def Bex_def Ball_def not_le split_paired_Ex)
next
  case False
  then have eq: "db_stream_trim s pos =
      (s\<lparr>s_first := pos, s_records := drop (pos - s_first s) (s_records s)\<rparr>, None)"
    by (auto simp: db_stream_trim_def)
  have "drop (snd c - pos) (drop (pos - s_first s) (s_records s)) = drop (snd c - s_first s) (s_records s)"
    if "c \<in> set (s_cursors s)" for c
  proof -
    have "pos \<le> snd c" and "s_first s \<le> pos" using that False by (auto simp: not_less not_le)
    then have "snd c - pos + (pos - s_first s) = snd c - s_first s" by linarith
    then show ?thesis by simp
  qed
  with False show ?thesis by (auto simp: eq s_end_def not_less)
qed

theorem trim_keeps_every_unread_record_witness:
  "stream_page_valid audit_stream \<and> snd (db_stream_trim audit_stream 5) = Some E_RETAINED
   \<and> snd (db_stream_trim audit_stream 4) = None"
proof -
  have valid: "stream_page_valid audit_stream" by code_simp
  have c: "s_cursors audit_stream = [(''reporting'', 4)]" "s_end audit_stream = 5" "s_first audit_stream = 3"
    by code_simp+
  have "snd (db_stream_trim audit_stream 5) = Some E_RETAINED" by code_simp
  moreover have "snd (db_stream_trim audit_stream 4) = None"
    using trim_keeps_every_unread_record [of 4 audit_stream] by (auto simp: c split: prod.splits)
  ultimately show ?thesis using valid by simp
qed

end
