(* ===== verification/Catalog.thy ===== *)
theory Catalog
  imports Sql_Text Streams
begin

text \<open>
  The catalog, the binder and the executor for the statements of \<open>Sql_Text\<close>:
  \<open>src/core/catalog.asm\<close>, \<open>src/sql/binder.asm\<close> and \<open>src/sql/executor.asm\<close>.  A catalog is the
  directory in its order: identifiers beside the name and the object an entry's page defines.  A
  table is its columns and its rows; queues and streams are the objects of their own theories.

  The binder answers with a plan, which holds the identifier the name had at that moment, with the
  code and message of a refusal, or with \<open>Unmodelled\<close> where a value outside \<open>Sql_Text\<close> would be
  needed; \<open>Null_read\<close> is the place where the code follows a null pointer.
\<close>

section \<open>Objects\<close>

datatype cell = C_null | C_int int | C_bool bool | C_text string | C_blob string

datatype dobj = Tab "coldef list" "cell list list" | Que queue | Str stream

type_synonym catalog = "(nat \<times> string \<times> dobj) list"

abbreviation (input) CAT_MAX_TABLES :: nat where "CAT_MAX_TABLES \<equiv> 251"

definition db_catalog_page :: "catalog \<Rightarrow> nat \<Rightarrow> dobj option" where
  "db_catalog_page cat i = map_option snd (map_of cat i)"

text \<open>Publishing a new page in an entry.\<close>

definition cat_set :: "catalog \<Rightarrow> nat \<Rightarrow> dobj \<Rightarrow> catalog" where
  "cat_set cat i ob = map (\<lambda>(j, n, old). (j, n, if j = i then ob else old)) cat"

definition same_name :: "string \<Rightarrow> string \<Rightarrow> bool" where
  "same_name a b \<longleftrightarrow> map lower a = map lower b"

fun catalog_find_object :: "catalog \<Rightarrow> string \<Rightarrow> (nat \<times> dobj) option" where
  "catalog_find_object [] n = None"
| "catalog_find_object ((i, m, ob) # cat) n =
    (if length n \<le> 31 \<and> same_name m n then Some (i, ob) else catalog_find_object cat n)"

definition catalog_find_table :: "catalog \<Rightarrow> string \<Rightarrow> (nat \<times> coldef list) option" where
  "catalog_find_table cat n =
    (case catalog_find_object cat n of Some (i, Tab cols rows) \<Rightarrow> Some (i, cols) | _ \<Rightarrow> None)"

definition catalog_find_queue :: "catalog \<Rightarrow> string \<Rightarrow> nat option" where
  "catalog_find_queue cat n =
    (case catalog_find_object cat n of Some (i, Que q) \<Rightarrow> Some i | _ \<Rightarrow> None)"

definition catalog_find_stream :: "catalog \<Rightarrow> string \<Rightarrow> nat option" where
  "catalog_find_stream cat n =
    (case catalog_find_object cat n of Some (i, Str s) \<Rightarrow> Some i | _ \<Rightarrow> None)"

text \<open>The identifier a new object is given: one past the last the directory holds.\<close>

definition next_id :: "catalog \<Rightarrow> nat" where
  "next_id cat = (if cat = [] then 1 else fst (last cat) + 1)"

section \<open>What a commit proves\<close>

definition object_valid :: "bool \<Rightarrow> dobj \<Rightarrow> bool" where
  "object_valid leases ob =
    (case ob of
       Tab cols rows \<Rightarrow> cols \<noteq> [] \<and> length cols \<le> 64 \<and> distinct (map cd_name cols)
     | Que q \<Rightarrow> queue_page_valid leases q
     | Str s \<Rightarrow> stream_page_valid s)"

definition db_catalog_validate :: "bool \<Rightarrow> catalog \<Rightarrow> bool" where
  "db_catalog_validate leases cat \<longleftrightarrow>
    length cat \<le> CAT_MAX_TABLES
    \<and> sorted_wrt (<) (map fst cat) \<and> 0 \<notin> set (map fst cat)
    \<and> distinct (map (fst \<circ> snd) cat)
    \<and> (\<forall>(i, n, ob) \<in> set cat. n \<noteq> [] \<and> object_valid leases ob)"

section \<open>Putting and dropping entries\<close>

text \<open>The scan over the directory.  An entry with the same identifier may only be replaced by a
  schema, and only when the word at offset 40 of its page is zero: \<open>CAT_DATA_ROOT\<close> of a table,
  \<open>Q_HEAD\<close> of a queue, \<open>S_FIRST\<close> of a stream.  Any other entry must have another name.\<close>

definition root_word_zero :: "dobj \<Rightarrow> bool" where
  "root_word_zero ob =
    (case ob of Tab cols rows \<Rightarrow> rows = [] | Que q \<Rightarrow> q_head q = 0 | Str s \<Rightarrow> s_first s = 0)"

definition is_schema :: "dobj \<Rightarrow> bool" where
  "is_schema ob = (case ob of Tab cols rows \<Rightarrow> True | _ \<Rightarrow> False)"

fun put_scan :: "catalog \<Rightarrow> nat \<Rightarrow> string \<Rightarrow> dobj \<Rightarrow> db_error option" where
  "put_scan [] i n ob = None"
| "put_scan ((j, m, old) # cat) i n ob =
    (if j = i then (if is_schema ob \<and> root_word_zero old then put_scan cat i n ob else Some E_STATE)
     else if m = n then Some E_SCHEMA
     else put_scan cat i n ob)"

definition put_entry :: "catalog \<Rightarrow> nat \<Rightarrow> string \<Rightarrow> dobj \<Rightarrow> catalog" where
  "put_entry cat i n ob =
    takeWhile (\<lambda>e. fst e < i) cat @ [(i, n, ob)] @ dropWhile (\<lambda>e. fst e \<le> i) cat"

text \<open>\<open>guard\<close> is the state of the connection that every mutation tests, \<open>valid\<close> the verdict of
  \<open>current_valid\<close> on the staged graph.\<close>

definition catalog_put_common ::
    "db_error option \<Rightarrow> bool \<Rightarrow> catalog \<Rightarrow> nat \<Rightarrow> string \<Rightarrow> dobj \<Rightarrow> catalog \<times> db_error option" where
  "catalog_put_common guard valid cat i n ob =
    (case guard of
       Some e \<Rightarrow> (cat, Some e)
     | None \<Rightarrow>
         if i = 0 \<or> n = [] then (cat, Some E_SCHEMA)
         else if \<not> valid then (cat, Some E_CATALOG)
         else case put_scan cat i n ob of
           Some e \<Rightarrow> (cat, Some e)
         | None \<Rightarrow>
             if map_of cat i = None \<and> CAT_MAX_TABLES \<le> length cat then (cat, Some E_CATALOG_FULL)
             else (put_entry cat i n ob, None))"

definition db_catalog_drop ::
    "db_error option \<Rightarrow> bool \<Rightarrow> catalog \<Rightarrow> nat \<Rightarrow> catalog \<times> db_error option" where
  "db_catalog_drop guard valid cat i =
    (case guard of
       Some e \<Rightarrow> (cat, Some e)
     | None \<Rightarrow>
         if i = 0 then (cat, Some E_NOTFOUND)
         else if \<not> valid then (cat, Some E_CATALOG)
         else if map_of cat i = None then (cat, Some E_NOTFOUND)
         else (filter (\<lambda>e. fst e \<noteq> i) cat, None))"

section \<open>The binder\<close>

datatype plan =
    P_begin | P_commit | P_rollback
  | P_create nat string dobj
  | P_create_cursor nat string | P_drop_cursor nat string
  | P_drop nat
  | P_insert nat "cell list list"
  | P_enqueue nat string | P_append nat string
  | P_dequeue nat | P_claim nat nat | P_ack nat nat nat | P_nack nat nat nat
  | P_renew nat nat nat nat
  | P_read nat string | P_trim nat nat
  | P_other

datatype 'a bres = Bound 'a | Refused int string | Unmodelled | Null_read

abbreviation (input) SQL_ERR_TABLE_NOT_FOUND :: int where "SQL_ERR_TABLE_NOT_FOUND \<equiv> 3"
abbreviation (input) SQL_ERR_DUPLICATE_TABLE :: int where "SQL_ERR_DUPLICATE_TABLE \<equiv> 5"
abbreviation (input) SQL_ERR_DUPLICATE_COLUMN :: int where "SQL_ERR_DUPLICATE_COLUMN \<equiv> 6"
abbreviation (input) SQL_ERR_TYPE_MISMATCH :: int where "SQL_ERR_TYPE_MISMATCH \<equiv> 7"
abbreviation (input) SQL_ERR_NOT_NULLABLE :: int where "SQL_ERR_NOT_NULLABLE \<equiv> 8"
abbreviation (input) SQL_ERR_VALUE_COUNT :: int where "SQL_ERR_VALUE_COUNT \<equiv> 9"
abbreviation (input) SQL_ERR_NO_STORAGE :: int where "SQL_ERR_NO_STORAGE \<equiv> 10"

definition bbind :: "'a bres \<Rightarrow> ('a \<Rightarrow> 'b bres) \<Rightarrow> 'b bres" where
  "bbind b f = (case b of Bound x \<Rightarrow> f x | Refused c m \<Rightarrow> Refused c m | Unmodelled \<Rightarrow> Unmodelled
     | Null_read \<Rightarrow> Null_read)"

definition bad_tbl_len :: "'a bres" where
  "bad_tbl_len = Refused SQL_ERR_SYNTAX ''table name exceeds 31 characters''"

definition type_mismatch :: "'a bres" where
  "type_mismatch = Refused SQL_ERR_TYPE_MISMATCH ''type mismatch in expression or literal''"

text \<open>\<open>CREATE TABLE\<close>: each column against the ones before it.\<close>

fun bind_columns :: "string list \<Rightarrow> coldef list \<Rightarrow> unit bres" where
  "bind_columns seen [] = Bound ()"
| "bind_columns seen (d # ds) =
    (if 23 < length (cd_name d) then Refused SQL_ERR_SYNTAX ''column name exceeds 23 characters''
     else if cd_name d \<in> set seen
     then Refused SQL_ERR_DUPLICATE_COLUMN ''duplicate column name in table definition''
     else bind_columns (cd_name d # seen) ds)"

definition bind_create :: "catalog \<Rightarrow> string \<Rightarrow> dobj \<Rightarrow> plan bres" where
  "bind_create cat n ob =
    (if 31 < length n then bad_tbl_len
     else if catalog_find_object cat n \<noteq> None
     then Refused SQL_ERR_DUPLICATE_TABLE ''table already exists''
     else bbind (case ob of Tab cols rows \<Rightarrow> bind_columns [] cols | _ \<Rightarrow> Bound ())
            (\<lambda>_. Bound (P_create (next_id cat) n ob)))"

text \<open>One cell of an \<open>INSERT\<close>.\<close>

definition bind_cell :: "coldef \<Rightarrow> literal \<Rightarrow> cell bres" where
  "bind_cell d l =
    (case l of
       L_null \<Rightarrow>
         if cd_nullable d then Bound C_null
         else Refused SQL_ERR_NOT_NULLABLE ''cannot insert NULL into non-nullable column''
     | L_int i \<Rightarrow>
         (case cd_type d of
            INT64 \<Rightarrow> Bound (C_int i)
          | INT32 \<Rightarrow> if - (2 ^ 31) \<le> i \<and> i < 2 ^ 31 then Bound (C_int i) else type_mismatch
          | BOOL \<Rightarrow> if i = 0 then Bound (C_bool False) else if i = 1 then Bound (C_bool True)
                     else type_mismatch
          | FLOAT32 \<Rightarrow> Unmodelled
          | _ \<Rightarrow> type_mismatch)
     | L_bool b \<Rightarrow> if cd_type d = BOOL then Bound (C_bool b) else type_mismatch
     | L_text t \<Rightarrow> if cd_type d = TEXT then Bound (C_text t) else type_mismatch
     | L_blob t \<Rightarrow> if cd_type d = BLOB then Bound (C_blob t) else type_mismatch)"

text \<open>As many cells as the table has columns are read from every row; a row that ran out has a null
  pointer there.\<close>

fun bind_row :: "coldef list \<Rightarrow> literal list \<Rightarrow> cell list bres" where
  "bind_row [] ls = Bound []"
| "bind_row (d # ds) [] = Null_read"
| "bind_row (d # ds) (l # ls) =
    bbind (bind_cell d l) (\<lambda>c. bbind (bind_row ds ls) (\<lambda>cs. Bound (c # cs)))"

fun bind_rows :: "coldef list \<Rightarrow> literal list list \<Rightarrow> cell list list bres" where
  "bind_rows ds [] = Bound []"
| "bind_rows ds (r # rs) =
    bbind (bind_row ds r) (\<lambda>c. bbind (bind_rows ds rs) (\<lambda>cs. Bound (c # cs)))"

definition bind_insert :: "catalog \<Rightarrow> string \<Rightarrow> literal list list \<Rightarrow> plan bres" where
  "bind_insert cat n rows =
    (case catalog_find_table cat n of
       None \<Rightarrow> Refused SQL_ERR_TABLE_NOT_FOUND ''table not found in catalog''
     | Some (i, cols) \<Rightarrow>
         if length (hd rows) \<noteq> length cols
         then Refused SQL_ERR_VALUE_COUNT ''row value count does not match column count''
         else bbind (bind_rows cols rows) (\<lambda>cells. Bound (P_insert i cells)))"

definition bind_payload :: "literal \<Rightarrow> (string \<Rightarrow> plan) \<Rightarrow> plan bres" where
  "bind_payload l f =
    (let go = (\<lambda>b. if 2 ^ 32 \<le> length b
                   then Refused SQL_ERR_TYPE_MISMATCH ''message longer than four gigabytes''
                   else Bound (f b))
     in case l of L_text b \<Rightarrow> go b | L_blob b \<Rightarrow> go b
        | _ \<Rightarrow> Refused SQL_ERR_TYPE_MISMATCH ''a queue message is TEXT or BLOB'')"

definition bind_queue :: "catalog \<Rightarrow> string \<Rightarrow> (nat \<Rightarrow> plan bres) \<Rightarrow> plan bres" where
  "bind_queue cat n f =
    (if 31 < length n then bad_tbl_len
     else case catalog_find_queue cat n of
       None \<Rightarrow> Refused SQL_ERR_TABLE_NOT_FOUND ''queue not found in catalog''
     | Some i \<Rightarrow> f i)"

definition bind_stream :: "catalog \<Rightarrow> string \<Rightarrow> (nat \<Rightarrow> plan bres) \<Rightarrow> plan bres" where
  "bind_stream cat n f =
    (if 31 < length n then bad_tbl_len
     else case catalog_find_stream cat n of
       None \<Rightarrow> Refused SQL_ERR_TABLE_NOT_FOUND ''stream not found in catalog''
     | Some i \<Rightarrow> f i)"

text \<open>The two names of a cursor statement and of \<open>READ\<close>.\<close>

definition bind_cursor_common :: "catalog \<Rightarrow> string \<Rightarrow> string \<Rightarrow> (nat \<Rightarrow> plan) \<Rightarrow> plan bres" where
  "bind_cursor_common cat n c f =
    (if 31 < length n then bad_tbl_len
     else if 23 < length c \<or> c = []
     then Refused SQL_ERR_SYNTAX ''a cursor name is 1 to 23 characters''
     else bind_stream cat n (\<lambda>i. Bound (f i)))"

definition bind_lease :: "bool \<Rightarrow> catalog \<Rightarrow> string \<Rightarrow> (nat \<Rightarrow> plan) \<Rightarrow> plan bres" where
  "bind_lease leases cat n f =
    (if \<not> leases then Refused SQL_ERR_NO_STORAGE ''database was not created with queue leases''
     else bind_queue cat n (\<lambda>i. Bound (f i)))"

definition bind_drop :: "catalog \<Rightarrow> string \<Rightarrow> plan bres" where
  "bind_drop cat n =
    (if 31 < length n then bad_tbl_len
     else case catalog_find_table cat n of
       None \<Rightarrow> Refused SQL_ERR_TABLE_NOT_FOUND ''table not found in catalog''
     | Some (i, cols) \<Rightarrow> Bound (P_drop i))"

fun sql_bind :: "bool \<Rightarrow> catalog \<Rightarrow> ast \<Rightarrow> plan bres" where
  "sql_bind leases cat Begin = Bound P_begin"
| "sql_bind leases cat Commit = Bound P_commit"
| "sql_bind leases cat Rollback = Bound P_rollback"
| "sql_bind leases cat (Create_table n ds) = bind_create cat n (Tab ds [])"
| "sql_bind leases cat (Create_queue n) = bind_create cat n (Que new_queue)"
| "sql_bind leases cat (Create_stream n) = bind_create cat n (Str new_stream)"
| "sql_bind leases cat (Create_cursor c n) = bind_cursor_common cat n c (\<lambda>i. P_create_cursor i c)"
| "sql_bind leases cat (Drop_cursor c n) = bind_cursor_common cat n c (\<lambda>i. P_drop_cursor i c)"
| "sql_bind leases cat (Drop_table n) = bind_drop cat n"
| "sql_bind leases cat (Drop_queue n) = bind_queue cat n (\<lambda>i. Bound (P_drop i))"
| "sql_bind leases cat (Drop_stream n) = bind_stream cat n (\<lambda>i. Bound (P_drop i))"
| "sql_bind leases cat (Insert n rows) = bind_insert cat n rows"
| "sql_bind leases cat (Enqueue n l) = bind_queue cat n (\<lambda>i. bind_payload l (P_enqueue i))"
| "sql_bind leases cat (Append n l) = bind_stream cat n (\<lambda>i. bind_payload l (P_append i))"
| "sql_bind leases cat (Dequeue n) = bind_queue cat n (\<lambda>i. Bound (P_dequeue i))"
| "sql_bind leases cat (Claim n d) = bind_lease leases cat n (\<lambda>i. P_claim i d)"
| "sql_bind leases cat (Ack n p t) = bind_lease leases cat n (\<lambda>i. P_ack i p t)"
| "sql_bind leases cat (Nack n p t) = bind_lease leases cat n (\<lambda>i. P_nack i p t)"
| "sql_bind leases cat (Renew n p t d) = bind_lease leases cat n (\<lambda>i. P_renew i p t d)"
| "sql_bind leases cat (Read n c) = bind_cursor_common cat n c (\<lambda>i. P_read i c)"
| "sql_bind leases cat (Trim n p) = bind_stream cat n (\<lambda>i. Bound (P_trim i p))"

section \<open>The executor\<close>

text \<open>What an execution hands back: nothing, a message with the ticket of a claim, no message, or the
  code and message of a failure; \<open>A_unknown\<close> for a plan outside this model and for an \<open>INSERT\<close>
  whose table is no longer the one it was bound to.\<close>

datatype answer =
  A_done | A_took string "(nat \<times> nat) option" | A_empty | A_fail int string | A_unknown

definition storage_error :: "db_error \<Rightarrow> answer" where
  "storage_error e = A_fail (error_code e)
     (if e = E_LEASE then ''the lease was reclaimed, or that message is not claimed''
      else ''storage execution failed'')"

abbreviation (input) oom_error :: answer where
  "oom_error \<equiv> A_fail SQL_ERR_NO_STORAGE ''memory arena capacity exceeded''"

text \<open>The arena a message is copied into is laid over the statement's scan state and decode buffer;
  allocations are rounded up to eight bytes and never empty.\<close>

definition EXEC_ARENA :: nat where "EXEC_ARENA = 34264"

definition arena_holds :: "nat \<Rightarrow> bool" where
  "arena_holds n \<longleftrightarrow> (max 1 n + 7) div 8 * 8 \<le> EXEC_ARENA"

text \<open>An operation on one page.  A refusal before \<open>db_catalog_edit\<close> is reported as it is; after that
  the connection's own refusal comes first, and what the operation left is what is staged.\<close>

definition on_page ::
    "db_error option \<Rightarrow> catalog \<Rightarrow> nat \<Rightarrow> dobj \<Rightarrow> dobj \<times> db_error option \<Rightarrow> catalog \<times> db_error option" where
  "on_page guard cat i old r =
    (case r of
       (new, e) \<Rightarrow>
         if new = old \<and> e \<noteq> None then (cat, e)
         else case guard of Some g \<Rightarrow> (cat, Some g) | None \<Rightarrow> (cat_set cat i new, e))"

definition on_queue ::
    "db_error option \<Rightarrow> catalog \<Rightarrow> nat \<Rightarrow> (queue \<Rightarrow> queue \<times> db_error option) \<Rightarrow> catalog \<times> db_error option" where
  "on_queue guard cat i f =
    (case db_catalog_page cat i of
       Some (Que q) \<Rightarrow> on_page guard cat i (Que q) (apfst Que (f q))
     | _ \<Rightarrow> (cat, Some E_STATE))"

definition on_stream ::
    "db_error option \<Rightarrow> catalog \<Rightarrow> nat \<Rightarrow> (stream \<Rightarrow> stream \<times> db_error option) \<Rightarrow> catalog \<times> db_error option" where
  "on_stream guard cat i f =
    (case db_catalog_page cat i of
       Some (Str s) \<Rightarrow> on_page guard cat i (Str s) (apfst Str (f s))
     | _ \<Rightarrow> (cat, Some E_STATE))"

definition storage_done :: "catalog \<times> db_error option \<Rightarrow> catalog \<times> answer" where
  "storage_done r = (case r of (cat, None) \<Rightarrow> (cat, A_done) | (cat, Some e) \<Rightarrow> (cat, storage_error e))"

text \<open>\<open>DEQUEUE\<close>: the length first, then the buffer, then the message.\<close>

definition exec_dequeue :: "db_error option \<Rightarrow> catalog \<Rightarrow> nat \<Rightarrow> catalog \<times> answer" where
  "exec_dequeue guard cat i =
    (case db_catalog_page cat i of
       Some (Que q) \<Rightarrow>
         (case db_queue_peek q of
            Inl e \<Rightarrow> if e = E_NOTFOUND then (cat, A_empty) else (cat, storage_error e)
          | Inr n \<Rightarrow>
              if \<not> arena_holds n then (cat, oom_error)
              else case db_queue_pop q of
                (q', Inr b) \<Rightarrow>
                  (case guard of Some g \<Rightarrow> (cat, storage_error g)
                   | None \<Rightarrow> (cat_set cat i (Que q'), A_took b None))
              | (q', Inl e) \<Rightarrow> if e = E_NOTFOUND then (cat, A_empty) else (cat, storage_error e))
     | _ \<Rightarrow> (cat, storage_error E_STATE))"

text \<open>\<open>CLAIM\<close>: the claim is staged before the bytes are fetched.\<close>

definition exec_claim ::
    "bool \<Rightarrow> db_error option \<Rightarrow> nat \<Rightarrow> catalog \<Rightarrow> nat \<Rightarrow> nat \<Rightarrow> catalog \<times> answer" where
  "exec_claim leases guard now cat i d =
    (case db_catalog_page cat i of
       Some (Que q) \<Rightarrow>
         (case db_queue_claim leases q now d of
            (q', Inl e) \<Rightarrow>
              if e = E_NOTFOUND then (cat, A_empty)
              else storage_done (on_page guard cat i (Que q) (Que q', Some e))
          | (q', Inr (p, t)) \<Rightarrow>
              (case guard of
                 Some g \<Rightarrow> (cat, storage_error g)
               | None \<Rightarrow>
                   let cat' = cat_set cat i (Que q')
                   in case lease_find_slot q' p of
                        None \<Rightarrow> (cat', A_empty)
                      | Some s \<Rightarrow>
                          if arena_holds (length (sl_payload s))
                          then (cat', A_took (sl_payload s) (Some (p, t)))
                          else (cat', oom_error)))
     | _ \<Rightarrow> (cat, storage_error E_STATE))"

definition exec_read :: "db_error option \<Rightarrow> catalog \<Rightarrow> nat \<Rightarrow> string \<Rightarrow> catalog \<times> answer" where
  "exec_read guard cat i c =
    (case db_catalog_page cat i of
       Some (Str s) \<Rightarrow>
         (case db_stream_peek s c of
            Inl e \<Rightarrow> if e = E_NOTFOUND then (cat, A_empty) else (cat, storage_error e)
          | Inr (n, k) \<Rightarrow>
              if \<not> arena_holds n then (cat, oom_error)
              else case db_stream_read s k of
                (s', Inr b) \<Rightarrow>
                  (case guard of Some g \<Rightarrow> (cat, storage_error g)
                   | None \<Rightarrow> (cat_set cat i (Str s'), A_took b None))
              | (s', Inl e) \<Rightarrow> if e = E_NOTFOUND then (cat, A_empty) else (cat, storage_error e))
     | _ \<Rightarrow> (cat, storage_error E_STATE))"

text \<open>\<open>INSERT\<close>: the rows go behind the ones the table has.\<close>

definition cell_fits :: "coldef \<Rightarrow> cell \<Rightarrow> bool" where
  "cell_fits d c =
    (case c of
       C_null \<Rightarrow> cd_nullable d
     | C_int i \<Rightarrow> cd_type d = INT64 \<or> (cd_type d = INT32 \<and> - (2 ^ 31) \<le> i \<and> i < 2 ^ 31)
     | C_bool b \<Rightarrow> cd_type d = BOOL
     | C_text t \<Rightarrow> cd_type d = TEXT
     | C_blob t \<Rightarrow> cd_type d = BLOB)"

definition exec_insert ::
    "db_error option \<Rightarrow> bool \<Rightarrow> catalog \<Rightarrow> nat \<Rightarrow> cell list list \<Rightarrow> catalog \<times> answer" where
  "exec_insert guard valid cat i rows =
    (case db_catalog_page cat i of
       None \<Rightarrow> (cat, storage_error E_NOTFOUND)
     | Some ob \<Rightarrow>
         (case guard of
            Some g \<Rightarrow> (cat, storage_error g)
          | None \<Rightarrow>
              if \<not> valid then (cat, storage_error E_CATALOG)
              else case ob of
                Tab cols old \<Rightarrow>
                  if list_all (list_all2 cell_fits cols) rows
                  then (cat_set cat i (Tab cols (old @ rows)), A_done)
                  else (cat, A_unknown)
              | _ \<Rightarrow> (cat, A_unknown)))"

text \<open>\<open>TRIM\<close> to a position already behind the beginning is answered before the page is edited.\<close>

definition exec_trim :: "db_error option \<Rightarrow> catalog \<Rightarrow> nat \<Rightarrow> nat \<Rightarrow> catalog \<times> answer" where
  "exec_trim guard cat i p =
    (case db_catalog_page cat i of
       Some (Str s) \<Rightarrow>
         if p \<le> s_end s \<and> p \<le> s_first s then (cat, A_done)
         else storage_done (on_page guard cat i (Str s) (apfst Str (db_stream_trim s p)))
     | _ \<Rightarrow> (cat, storage_error E_STATE))"

fun sql_execute_batch ::
    "bool \<Rightarrow> db_error option \<Rightarrow> bool \<Rightarrow> nat \<Rightarrow> catalog \<Rightarrow> plan \<Rightarrow> catalog \<times> answer" where
  "sql_execute_batch leases guard valid now cat (P_create i n ob) =
    storage_done (catalog_put_common guard valid cat i n ob)"
| "sql_execute_batch leases guard valid now cat (P_drop i) =
    storage_done (db_catalog_drop guard valid cat i)"
| "sql_execute_batch leases guard valid now cat (P_insert i rows) =
    exec_insert guard valid cat i rows"
| "sql_execute_batch leases guard valid now cat (P_create_cursor i c) =
    storage_done (on_stream guard cat i (\<lambda>s. db_stream_cursor_add s c))"
| "sql_execute_batch leases guard valid now cat (P_drop_cursor i c) =
    storage_done (on_stream guard cat i (\<lambda>s. db_stream_cursor_drop s c))"
| "sql_execute_batch leases guard valid now cat (P_append i b) =
    storage_done (on_stream guard cat i (\<lambda>s. db_stream_append s b))"
| "sql_execute_batch leases guard valid now cat (P_trim i p) =
    exec_trim guard cat i p"
| "sql_execute_batch leases guard valid now cat (P_enqueue i b) =
    storage_done (on_queue guard cat i (\<lambda>q. db_queue_push q b))"
| "sql_execute_batch leases guard valid now cat (P_ack i p t) =
    storage_done (on_queue guard cat i (\<lambda>q. db_queue_ack leases q p t))"
| "sql_execute_batch leases guard valid now cat (P_nack i p t) =
    storage_done (on_queue guard cat i (\<lambda>q. db_queue_nack leases q p t))"
| "sql_execute_batch leases guard valid now cat (P_renew i p t d) =
    storage_done (on_queue guard cat i (\<lambda>q. db_queue_renew leases q p t now d))"
| "sql_execute_batch leases guard valid now cat (P_dequeue i) = exec_dequeue guard cat i"
| "sql_execute_batch leases guard valid now cat (P_claim i d) = exec_claim leases guard now cat i d"
| "sql_execute_batch leases guard valid now cat (P_read i c) = exec_read guard cat i c"
| "sql_execute_batch leases guard valid now cat pl = (cat, A_unknown)"

end
