(* ===== verification/Connection.thy ===== *)
theory Connection
  imports Catalog
begin

text \<open>
  The public interface of \<open>include/cyboudb.h\<close> for a connection and its statements, as
  \<open>src/api/cyboudb_c.asm\<close> implements it over \<open>db_commit\<close>, \<open>db_rollback\<close> and \<open>db_close\<close> of
  \<open>src/core/database.asm\<close>.

  A connection is the record \<open>conn\<close>.  \<open>cn_gens\<close> is the file: the catalogs of the generations whose
  superblock reached the disk, the newest first, so a crash leaves its head and nothing else;
  \<open>cn_staged\<close> is the catalog the descriptor's root names.  Statements are found by their handle, a
  handle that is not in the map is one whose magic word does not match.  Connection, text and out
  pointers are those of a caller that has them; a null statement handle is \<open>None\<close>.

  What the code cannot decide is a list of events, one consumed at every place where memory, storage
  or the disk may refuse: nothing goes wrong at \<open>Fine\<close> (and when the list is empty), \<open>No_memory\<close>
  lets the allocation fail, \<open>Storage_fails\<close> lets a storage call return that error and leave that
  catalog staged, \<open>Sync_fails\<close> lets a flush fail with the new superblock on the disk or not, and
  \<open>Elsewhere\<close> answers for a statement outside \<open>Sql_Text\<close>.  The readings of the wall clock are a
  second list.
\<close>

section \<open>State\<close>

datatype event =
    Fine | No_memory | Storage_fails db_error catalog | Sync_fails bool
  | Elsewhere catalog answer

datatype stmt_state = STATE_INIT | STATE_SCANNING | STATE_DONE | STATE_ERROR | STATE_COUNT_DELIVER

record stmt =
  st_state :: stmt_state
  st_plan :: plan
  st_message :: "string option"
  st_ticket :: "nat \<times> nat"
  st_errcode :: int
  st_errmsg :: string

record conn =
  cn_open :: bool
  cn_rw :: bool
  cn_leases :: bool
  cn_failed :: bool
  cn_gens :: "catalog list"
  cn_generation :: nat
  cn_staged :: catalog
  cn_tx :: bool
  cn_tx_id :: nat
  cn_validated :: bool
  cn_errcode :: int
  cn_errmsg :: string
  cn_stmt_count :: nat
  cn_stmts :: "nat \<rightharpoonup> stmt"
  cn_next :: nat
  cn_events :: "event list"
  cn_clock :: "nat list"

text \<open>The generation a reader of the file would pick.\<close>

definition cn_live :: "conn \<Rightarrow> catalog" where
  "cn_live c = (case cn_gens c of [] \<Rightarrow> [] | g # gs \<Rightarrow> g)"

definition next_event :: "conn \<Rightarrow> event \<times> conn" where
  "next_event c = (case cn_events c of [] \<Rightarrow> (Fine, c) | e # es \<Rightarrow> (e, c\<lparr>cn_events := es\<rparr>))"

definition os_wall_ms :: "conn \<Rightarrow> nat \<times> conn" where
  "os_wall_ms c = (case cn_clock c of [] \<Rightarrow> (0, c) | t # ts \<Rightarrow> (t, c\<lparr>cn_clock := ts\<rparr>))"

text \<open>What every mutation tests first.\<close>

definition mutation_guard :: "conn \<Rightarrow> db_error option" where
  "mutation_guard c =
    (if \<not> cn_rw c then Some E_READONLY
     else if cn_failed c then Some E_STATE
     else if cn_generation c = U64_MAX then Some E_GENERATION
     else None)"

section \<open>Commit, rollback, close\<close>

definition db_commit :: "conn \<Rightarrow> conn \<times> db_error option" where
  "db_commit c =
    (if cn_failed c then (c, Some E_STATE)
     else if cn_generation c = U64_MAX then (c, Some E_GENERATION)
     else if \<not> cn_rw c then (c, Some E_READONLY)
     else case next_event c of (ev, c1) \<Rightarrow>
       if \<not> db_catalog_validate (cn_leases c1) (cn_staged c1) then (c1, Some E_BITMAP)
       else case ev of
         Storage_fails e cat \<Rightarrow> (c1, Some E_BITMAP)
       | Sync_fails reached \<Rightarrow>
           (c1\<lparr>cn_failed := True,
               cn_gens := (if reached then cn_staged c1 # cn_gens c1 else cn_gens c1)\<rparr>, Some E_SYNC)
       | _ \<Rightarrow>
           (c1\<lparr>cn_gens := cn_staged c1 # cn_gens c1, cn_generation := cn_generation c1 + 1,
               cn_validated := False\<rparr>, None))"

definition db_rollback :: "conn \<Rightarrow> conn \<times> db_error option" where
  "db_rollback c =
    (if cn_failed c then (c, Some E_STATE)
     else if \<not> cn_rw c then (c, Some E_READONLY)
     else (c\<lparr>cn_staged := cn_live c, cn_validated := False, cn_tx := False\<rparr>, None))"

definition db_close :: "conn \<Rightarrow> conn" where
  "db_close c = (if cn_tx c then fst (db_rollback c) else c)\<lparr>cn_rw := False\<rparr>"

section \<open>Errors\<close>

definition api_error_clear :: "conn \<Rightarrow> conn" where
  "api_error_clear c = c\<lparr>cn_errcode := 0, cn_errmsg := []\<rparr>"

text \<open>The code always, the message only when there is one.\<close>

definition api_error_report :: "conn \<Rightarrow> nat \<Rightarrow> stmt \<Rightarrow> int \<Rightarrow> string \<Rightarrow> conn" where
  "api_error_report c k st code msg =
    c\<lparr>cn_errcode := code,
      cn_errmsg := (if msg = [] then cn_errmsg c else take 255 msg),
      cn_stmts := (cn_stmts c)(k \<mapsto> st\<lparr>st_errcode := code,
        st_errmsg := (if msg = [] then st_errmsg st else take 127 msg)\<rparr>)\<rparr>"

definition str_ok :: string where "str_ok = ''ok''"
definition str_busy :: string where
  "str_busy = ''busy: finalize all statements before closing the database''"
definition str_nomem :: string where "str_nomem = ''out of memory preparing statement''"
definition str_tx_active :: string where "str_tx_active = ''cannot BEGIN inside active transaction''"
definition str_no_tx_commit :: string where "str_no_tx_commit = ''no active transaction to COMMIT''"
definition str_no_tx_rollback :: string where
  "str_no_tx_rollback = ''no active transaction to ROLLBACK''"
definition str_readonly :: string where "str_readonly = ''database is read-only''"

definition cyboudb_errmsg :: "conn \<Rightarrow> string" where
  "cyboudb_errmsg c = (if cn_errmsg c = [] then str_ok else cn_errmsg c)"

definition cyboudb_errcode :: "conn \<Rightarrow> int" where
  "cyboudb_errcode c = cn_errcode c"

section \<open>Opening and creating\<close>

text \<open>A database file: its generations and the capability decided when it was made.\<close>

record dbfile =
  f_gens :: "catalog list"
  f_generation :: nat
  f_leases :: bool

definition new_conn :: "u32 \<Rightarrow> dbfile \<Rightarrow> event list \<Rightarrow> nat list \<Rightarrow> conn" where
  "new_conn fl f evs clock =
    \<lparr>cn_open = True, cn_rw = (and fl OPEN_READWRITE \<noteq> 0), cn_leases = f_leases f, cn_failed = False,
     cn_gens = f_gens f, cn_generation = f_generation f,
     cn_staged = (case f_gens f of [] \<Rightarrow> [] | g # gs \<Rightarrow> g),
     cn_tx = False, cn_tx_id = 0, cn_validated = False, cn_errcode = 0, cn_errmsg = [],
     cn_stmt_count = 0, cn_stmts = Map.empty, cn_next = 0, cn_events = evs, cn_clock = clock\<rparr>"

text \<open>The events of an open are the allocation of the handle and \<open>db_open\<close>.\<close>

fun pop_event :: "event list \<Rightarrow> event \<times> event list" where
  "pop_event [] = (Fine, [])"
| "pop_event (e # es) = (e, es)"

definition cyboudb_open ::
    "string option \<Rightarrow> u32 \<Rightarrow> bool \<Rightarrow> (string \<rightharpoonup> dbfile) \<Rightarrow> event list \<Rightarrow> nat list \<Rightarrow> status \<times> conn option" where
  "cyboudb_open path fl out_db files evs clock =
    (case path of
       None \<Rightarrow> (MISUSE, None)
     | Some p \<Rightarrow>
         if \<not> out_db then (MISUSE, None)
         else case pop_event evs of (e1, evs1) \<Rightarrow>
           if e1 = No_memory then (NOMEM, None)
           else case pop_event evs1 of (e2, evs2) \<Rightarrow>
             (case e2 of
                Storage_fails e cat \<Rightarrow> (if e = E_BUSY then BUSY else ERROR, None)
              | _ \<Rightarrow>
                  (case files p of
                     None \<Rightarrow> (ERROR, None)
                   | Some f \<Rightarrow> (OK, Some (new_conn fl f evs2 clock)))))"

text \<open>The page counts the creators accept: both copies of the allocation map, the three fixed pages
  and something left.\<close>

definition pages_ok :: "nat \<Rightarrow> bool" where
  "pages_ok n \<longleftrightarrow> n \<le> 16112 * 1024 \<and> 2 * ((n + 16111) div 16112) + 3 < n"

definition db_create :: "bool \<Rightarrow> string \<Rightarrow> nat \<Rightarrow> (string \<rightharpoonup> dbfile) \<Rightarrow> (string \<rightharpoonup> dbfile) option" where
  "db_create leases p pages files =
    (if \<not> pages_ok pages \<or> files p \<noteq> None then None
     else Some (files(p \<mapsto> \<lparr>f_gens = [[]], f_generation = 1, f_leases = leases\<rparr>)))"

definition cyboudb_create_with_options ::
    "string option \<Rightarrow> nat \<Rightarrow> create_options option \<Rightarrow> bool \<Rightarrow> (string \<rightharpoonup> dbfile) \<Rightarrow> event list \<Rightarrow> nat list
     \<Rightarrow> status \<times> conn option" where
  "cyboudb_create_with_options path pages options out_db files evs clock =
    (case path of
       None \<Rightarrow> (MISUSE, None)
     | Some p \<Rightarrow>
         if \<not> out_db then (MISUSE, None)
         else if (case options of None \<Rightarrow> False
                  | Some opt \<Rightarrow> struct_size opt < 8 \<or> and (flags opt) (not CREATE_KNOWN) \<noteq> 0)
         then (MISUSE, None)
         else
           let leases = (case options of None \<Rightarrow> False
                         | Some opt \<Rightarrow> and (flags opt) CREATE_QUEUE_LEASES \<noteq> 0)
           in case pop_event evs of (e1, evs1) \<Rightarrow>
                (case e1 of
                   Storage_fails e cat \<Rightarrow> (ERROR, None)
                 | _ \<Rightarrow>
                     (case db_create leases p pages files of
                        None \<Rightarrow> (ERROR, None)
                      | Some files' \<Rightarrow>
                          cyboudb_open path OPEN_READWRITE True files' evs1 clock)))"

definition cyboudb_create ::
    "string option \<Rightarrow> nat \<Rightarrow> bool \<Rightarrow> (string \<rightharpoonup> dbfile) \<Rightarrow> event list \<Rightarrow> nat list \<Rightarrow> status \<times> conn option" where
  "cyboudb_create path pages out_db = cyboudb_create_with_options path pages None out_db"

text \<open>Closing frees the handle; the connection that is returned is the file it leaves.\<close>

definition cyboudb_close :: "conn \<Rightarrow> conn \<times> status" where
  "cyboudb_close c =
    (if cn_stmt_count c \<noteq> 0
     then (c\<lparr>cn_errcode := status_code BUSY, cn_errmsg := str_busy\<rparr>, BUSY)
     else if cn_open c then ((db_close c)\<lparr>cn_open := False\<rparr>, OK)
     else (c, OK))"

section \<open>Prepare\<close>

definition c_str :: "string \<Rightarrow> string" where
  "c_str s = takeWhile (\<lambda>c. c \<noteq> CHR 0x00) s"

text \<open>A statement outside \<open>Sql_Text\<close> is answered by an event.  So is, in this model, a text on which the
  parser does not come back at all (\<open>Hangs\<close>, an \<open>INSERT\<close> whose column list is not closed): what is
  proved of \<open>cyboudb_prepare\<close> is about the calls that return.\<close>

definition compile :: "bool \<Rightarrow> catalog \<Rightarrow> string \<Rightarrow> plan bres" where
  "compile leases cat sql =
    (case sql_parse (c_str sql) of
       Got a r \<Rightarrow> sql_bind leases cat a
     | Bad code msg \<Rightarrow> Refused code msg
     | _ \<Rightarrow> Unmodelled)"

definition new_stmt :: "plan \<Rightarrow> stmt" where
  "new_stmt pl = \<lparr>st_state = STATE_INIT, st_plan = pl, st_message = None, st_ticket = (0, 0),
     st_errcode = 0, st_errmsg = []\<rparr>"

definition add_stmt :: "conn \<Rightarrow> plan \<Rightarrow> conn \<times> status \<times> nat option" where
  "add_stmt c pl =
    (c\<lparr>cn_stmt_count := cn_stmt_count c + 1, cn_stmts := (cn_stmts c)(cn_next c \<mapsto> new_stmt pl),
       cn_next := cn_next c + 1\<rparr>, OK, Some (cn_next c))"

definition prep_fail :: "conn \<Rightarrow> int \<Rightarrow> string \<Rightarrow> conn \<times> status \<times> nat option" where
  "prep_fail c code msg = (c\<lparr>cn_errcode := code, cn_errmsg := take 71 msg\<rparr>, ERROR, None)"

definition cyboudb_prepare :: "conn \<Rightarrow> string \<Rightarrow> conn \<times> status \<times> nat option" where
  "cyboudb_prepare c sql =
    (if \<not> cn_open c then (c, MISUSE, None)
     else case next_event c of (ev, c1) \<Rightarrow>
       if ev = No_memory
       then (c1\<lparr>cn_errcode := status_code NOMEM, cn_errmsg := str_nomem\<rparr>, NOMEM, None)
       else case compile (cn_leases c1) (cn_staged c1) sql of
         Bound pl \<Rightarrow> add_stmt c1 pl
       | Refused code msg \<Rightarrow> prep_fail c1 code msg
       | _ \<Rightarrow>
           (case ev of
              Elsewhere cat (A_fail code msg) \<Rightarrow> prep_fail c1 code msg
            | _ \<Rightarrow> add_stmt c1 P_other))"

section \<open>Step\<close>

definition put_stmt :: "conn \<Rightarrow> nat \<Rightarrow> stmt \<Rightarrow> conn" where
  "put_stmt c k st = c\<lparr>cn_stmts := (cn_stmts c)(k \<mapsto> st)\<rparr>"

definition step_mutation_error :: "conn \<Rightarrow> nat \<Rightarrow> stmt \<Rightarrow> int \<Rightarrow> string \<Rightarrow> conn \<times> status" where
  "step_mutation_error c k st code msg =
    (api_error_report c k (st\<lparr>st_state := STATE_ERROR\<rparr>) code msg, ERROR)"

definition step_done :: "conn \<Rightarrow> nat \<Rightarrow> stmt \<Rightarrow> conn \<times> status" where
  "step_done c k st = (put_stmt c k (st\<lparr>st_state := STATE_DONE\<rparr>), DONE)"

definition step_begin :: "conn \<Rightarrow> nat \<Rightarrow> stmt \<Rightarrow> conn \<times> status" where
  "step_begin c k st =
    (if st_state st = STATE_DONE then (c, DONE)
     else if \<not> cn_rw c then step_mutation_error c k st (status_code ERROR) str_readonly
     else if cn_tx c then step_mutation_error c k st (status_code ERROR) str_tx_active
     else step_done (c\<lparr>cn_tx := True, cn_tx_id := cn_tx_id c + 1\<rparr>) k st)"

text \<open>A refused commit discards what it staged; the rollback's own result does not displace the
  reason.\<close>

definition step_commit :: "conn \<Rightarrow> nat \<Rightarrow> stmt \<Rightarrow> conn \<times> status" where
  "step_commit c k st =
    (if st_state st = STATE_DONE then (c, DONE)
     else if \<not> cn_tx c then step_mutation_error c k st (status_code ERROR) str_no_tx_commit
     else case db_commit c of (c1, r) \<Rightarrow>
       (let c2 = c1\<lparr>cn_tx := False\<rparr>
        in case r of
             None \<Rightarrow> step_done c2 k st
           | Some e \<Rightarrow> step_mutation_error (fst (db_rollback c2)) k st (error_code e) []))"

definition step_rollback :: "conn \<Rightarrow> nat \<Rightarrow> stmt \<Rightarrow> conn \<times> status" where
  "step_rollback c k st =
    (if st_state st = STATE_DONE then (c, DONE)
     else if \<not> cn_tx c then step_mutation_error c k st (status_code ERROR) str_no_tx_rollback
     else case db_rollback c of (c1, r) \<Rightarrow>
       (let c2 = c1\<lparr>cn_tx := False\<rparr>
        in case r of
             None \<Rightarrow> step_done c2 k st
           | Some e \<Rightarrow> step_mutation_error c2 k st (error_code e) []))"

text \<open>One run of the executor: the clock for the statements that read it, the walk over the staged
  graph for those that ask for it, and the event of the storage layer.\<close>

definition uses_clock :: "plan \<Rightarrow> bool" where
  "uses_clock pl = (case pl of P_claim i d \<Rightarrow> True | P_renew i p t d \<Rightarrow> True | _ \<Rightarrow> False)"

definition walks :: "plan \<Rightarrow> bool" where
  "walks pl = (case pl of P_create i n ob \<Rightarrow> True | P_drop i \<Rightarrow> True | P_insert i rows \<Rightarrow> True | _ \<Rightarrow> False)"

definition current_valid :: "conn \<Rightarrow> bool" where
  "current_valid c \<longleftrightarrow> cn_validated c \<or> db_catalog_validate (cn_leases c) (cn_staged c)"

definition execute :: "conn \<Rightarrow> plan \<Rightarrow> conn \<times> answer" where
  "execute c pl =
    (case next_event c of (ev, c1) \<Rightarrow>
     case (if uses_clock pl then os_wall_ms c1 else (0, c1)) of (now, c2) \<Rightarrow>
       let g = mutation_guard c2; v = current_valid c2;
           c3 = c2\<lparr>cn_validated := cn_validated c2 \<or> (walks pl \<and> g = None \<and> v)\<rparr>
       in case sql_execute_batch (cn_leases c3) g v now (cn_staged c3) pl of (cat, a) \<Rightarrow>
         (case ev of
            Storage_fails e cat' \<Rightarrow>
              if g = None then (c3\<lparr>cn_staged := cat'\<rparr>, storage_error e) else (c3\<lparr>cn_staged := cat\<rparr>, a)
          | Elsewhere cat' a' \<Rightarrow>
              if a = A_unknown \<and> g = None then (c3\<lparr>cn_staged := cat'\<rparr>, a') else (c3\<lparr>cn_staged := cat\<rparr>, a)
          | _ \<Rightarrow> (c3\<lparr>cn_staged := cat\<rparr>, a)))"

definition autocommit :: "conn \<Rightarrow> conn \<times> db_error option" where
  "autocommit c = (if cn_rw c \<and> \<not> cn_tx c then db_commit c else (c, None))"

text \<open>\<open>CREATE TABLE\<close> calls the catalog itself and has no message to report.\<close>

definition fail_message :: "plan \<Rightarrow> string \<Rightarrow> string" where
  "fail_message pl msg = (case pl of P_create i n (Tab cols rows) \<Rightarrow> [] | _ \<Rightarrow> msg)"

definition step_drop :: "conn \<Rightarrow> nat \<Rightarrow> stmt \<Rightarrow> conn \<times> status" where
  "step_drop c k st =
    (if st_state st = STATE_DONE then (c, DONE)
     else case execute c (st_plan st) of (c1, a) \<Rightarrow>
       (case a of
          A_fail code msg \<Rightarrow> step_mutation_error c1 k st code (fail_message (st_plan st) msg)
        | _ \<Rightarrow>
            (case autocommit c1 of
               (c2, None) \<Rightarrow> step_done c2 k st
             | (c2, Some e) \<Rightarrow> step_mutation_error c2 k st (error_code e) [])))"

text \<open>\<open>DEQUEUE\<close>, \<open>CLAIM\<close> and \<open>READ\<close>: the state is not latched, and the message is kept in the
  statement before the commit is tried.\<close>

definition step_dequeue :: "conn \<Rightarrow> nat \<Rightarrow> stmt \<Rightarrow> conn \<times> status" where
  "step_dequeue c k st =
    (case execute c (st_plan st) of (c1, a) \<Rightarrow>
       let st1 = (case a of
                    A_took b tk \<Rightarrow> st\<lparr>st_message := Some b,
                      st_ticket := (case tk of None \<Rightarrow> st_ticket st | Some t \<Rightarrow> t)\<rparr>
                  | _ \<Rightarrow> st\<lparr>st_message := None\<rparr>)
       in case a of
            A_fail code msg \<Rightarrow> step_mutation_error c1 k st1 code msg
          | _ \<Rightarrow>
              (case autocommit c1 of
                 (c2, None) \<Rightarrow> (put_stmt c2 k st1, if st_message st1 = None then DONE else ROW)
               | (c2, Some e) \<Rightarrow> step_mutation_error c2 k st1 (error_code e) []))"

text \<open>A statement outside \<open>Sql_Text\<close> may hand back rows and may be exhausted.\<close>

definition step_other :: "conn \<Rightarrow> nat \<Rightarrow> stmt \<Rightarrow> conn \<times> status" where
  "step_other c k st =
    (case execute c P_other of (c1, a) \<Rightarrow>
       (case a of
          A_fail code msg \<Rightarrow> step_mutation_error c1 k st code msg
        | A_took b tk \<Rightarrow> (put_stmt c1 k (st\<lparr>st_state := STATE_SCANNING\<rparr>), ROW)
        | _ \<Rightarrow>
            (case autocommit c1 of
               (c2, None) \<Rightarrow> step_done c2 k st
             | (c2, Some e) \<Rightarrow> step_mutation_error c2 k st (error_code e) [])))"

definition cyboudb_step :: "conn \<Rightarrow> nat option \<Rightarrow> conn \<times> status" where
  "cyboudb_step c h =
    (case h of
       None \<Rightarrow> (c, MISUSE)
     | Some k \<Rightarrow>
         (case cn_stmts c k of
            None \<Rightarrow> (c, MISUSE)
          | Some st \<Rightarrow>
              let c0 = api_error_clear c
              in case st_plan st of
                   P_begin \<Rightarrow> step_begin c0 k st
                 | P_commit \<Rightarrow> step_commit c0 k st
                 | P_rollback \<Rightarrow> step_rollback c0 k st
                 | P_dequeue i \<Rightarrow> step_dequeue c0 k st
                 | P_claim i d \<Rightarrow> step_dequeue c0 k st
                 | P_read i r \<Rightarrow> step_dequeue c0 k st
                 | P_other \<Rightarrow> step_other c0 k st
                 | _ \<Rightarrow> step_drop c0 k st))"

section \<open>Reset, finalize, message, ticket\<close>

definition cyboudb_reset :: "conn \<Rightarrow> nat option \<Rightarrow> conn \<times> status" where
  "cyboudb_reset c h =
    (case h of
       None \<Rightarrow> (c, MISUSE)
     | Some k \<Rightarrow>
         (case cn_stmts c k of
            None \<Rightarrow> (c, MISUSE)
          | Some st \<Rightarrow> (put_stmt c k (st\<lparr>st_state := STATE_INIT\<rparr>), OK)))"

definition cyboudb_finalize :: "conn \<Rightarrow> nat option \<Rightarrow> conn \<times> status" where
  "cyboudb_finalize c h =
    (case h of
       None \<Rightarrow> (c, OK)
     | Some k \<Rightarrow>
         (case cn_stmts c k of
            None \<Rightarrow> (c, MISUSE)
          | Some st \<Rightarrow>
              (c\<lparr>cn_stmts := (cn_stmts c)(k := None), cn_stmt_count := cn_stmt_count c - 1\<rparr>, OK)))"

definition hands_message :: "plan \<Rightarrow> bool" where
  "hands_message pl =
    (case pl of P_dequeue i \<Rightarrow> True | P_claim i d \<Rightarrow> True | P_read i r \<Rightarrow> True | _ \<Rightarrow> False)"

text \<open>The bytes, when there are any and the buffer holds them; the length is zeroed first.\<close>

definition cyboudb_message :: "conn \<Rightarrow> nat option \<Rightarrow> nat \<Rightarrow> status \<times> string" where
  "cyboudb_message c h capacity =
    (case h of
       None \<Rightarrow> (MISUSE, [])
     | Some k \<Rightarrow>
         (case cn_stmts c k of
            None \<Rightarrow> (MISUSE, [])
          | Some st \<Rightarrow>
              if \<not> hands_message (st_plan st) then (MISUSE, [])
              else case st_message st of
                None \<Rightarrow> (MISUSE, [])
              | Some b \<Rightarrow> if capacity < length b then (MISUSE, []) else (OK, b)))"

definition cyboudb_claim_ticket :: "conn \<Rightarrow> nat option \<Rightarrow> status \<times> (nat \<times> nat) option" where
  "cyboudb_claim_ticket c h =
    (case h of
       None \<Rightarrow> (MISUSE, None)
     | Some k \<Rightarrow>
         (case cn_stmts c k of
            None \<Rightarrow> (MISUSE, None)
          | Some st \<Rightarrow>
              (case st_plan st of
                 P_claim i d \<Rightarrow>
                   if st_message st = None then (MISUSE, None) else (OK, Some (st_ticket st))
               | _ \<Rightarrow> (MISUSE, None))))"

section \<open>One-shot execution\<close>

partial_function (option) exec_step_loop :: "conn \<Rightarrow> nat option \<Rightarrow> (conn \<times> status) option" where
  "exec_step_loop c h =
    (case cyboudb_step c h of (c1, s) \<Rightarrow> if s = ROW then exec_step_loop c1 h else Some (c1, s))"

declare exec_step_loop.simps [code]

definition cyboudb_exec :: "conn \<Rightarrow> string \<Rightarrow> (conn \<times> status) option" where
  "cyboudb_exec c sql =
    (case cyboudb_prepare c sql of (c1, s, h) \<Rightarrow>
       if s \<noteq> OK then Some (c1, s)
       else case exec_step_loop c1 h of
         None \<Rightarrow> None
       | Some (c2, s2) \<Rightarrow>
           (case cyboudb_finalize c2 h of (c3, s3) \<Rightarrow> Some (c3, if s2 = DONE then OK else s2)))"

end
