(* ===== verification/Connection_Laws.thy ===== *)
theory Connection_Laws
  imports Connection
begin

text \<open>
  What the calls of the interface do to a connection, one law per call: which of them touch the
  database at all (\<open>same_db\<close>), what a successful one staged, which of them publish a generation,
  and that the statement table and its counter agree.
\<close>

section \<open>Calls that leave the database alone\<close>

definition same_db :: "conn \<Rightarrow> conn \<Rightarrow> bool" where
  "same_db c c' \<longleftrightarrow>
    cn_open c' = cn_open c \<and> cn_rw c' = cn_rw c \<and> cn_leases c' = cn_leases c \<and> cn_failed c' = cn_failed c
    \<and> cn_gens c' = cn_gens c \<and> cn_generation c' = cn_generation c \<and> cn_staged c' = cn_staged c
    \<and> cn_tx c' = cn_tx c"

lemma same_db_refl [simp]: "same_db c c"
  by (simp add: same_db_def)

lemma same_db_trans [trans]: "same_db a b \<Longrightarrow> same_db b c \<Longrightarrow> same_db a c"
  by (simp add: same_db_def)

lemma same_db_next_event: "next_event c = (ev, c') \<Longrightarrow> same_db c c'"
  by (auto simp: next_event_def same_db_def split: list.splits)

lemma same_db_clock: "os_wall_ms c = (t, c') \<Longrightarrow> same_db c c'"
  by (auto simp: os_wall_ms_def same_db_def split: list.splits)

lemma same_db_simps [simp]:
  "same_db c (api_error_clear c)"
  "same_db c (put_stmt c k st)"
  "same_db c (api_error_report c k st code msg)"
  "same_db c (c\<lparr>cn_validated := v\<rparr>)"
  "same_db c (fst (add_stmt c pl))"
  "same_db c (fst (prep_fail c code msg))"
  by (simp_all add: same_db_def api_error_clear_def put_stmt_def api_error_report_def add_stmt_def prep_fail_def)

lemma same_db_live: "same_db c c' \<Longrightarrow> cn_live c' = cn_live c"
  by (simp add: same_db_def cn_live_def)

section \<open>The statement table\<close>

definition stmts_ok :: "conn \<Rightarrow> bool" where
  "stmts_ok c \<longleftrightarrow> finite (dom (cn_stmts c)) \<and> cn_stmt_count c = card (dom (cn_stmts c))
     \<and> (\<forall>k \<in> dom (cn_stmts c). k < cn_next c)"

text \<open>The table of one connection is the table of the other with one entry changed in place.\<close>

definition same_stmts :: "conn \<Rightarrow> conn \<Rightarrow> bool" where
  "same_stmts c c' \<longleftrightarrow> cn_stmts c' = cn_stmts c \<and> cn_stmt_count c' = cn_stmt_count c \<and> cn_next c' = cn_next c"

definition stmts_upd :: "nat \<Rightarrow> conn \<Rightarrow> conn \<Rightarrow> bool" where
  "stmts_upd k c c' \<longleftrightarrow> (\<exists>st. cn_stmts c' = (cn_stmts c)(k \<mapsto> st)) \<and> cn_stmt_count c' = cn_stmt_count c
     \<and> cn_next c' = cn_next c"

lemma same_stmts_refl [simp]: "same_stmts c c"
  by (simp add: same_stmts_def)

lemma same_stmts_trans [trans]: "same_stmts a b \<Longrightarrow> same_stmts b c \<Longrightarrow> same_stmts a c"
  by (simp add: same_stmts_def)

lemma stmts_upd_trans: "same_stmts a b \<Longrightarrow> stmts_upd k b c \<Longrightarrow> stmts_upd k a c"
  by (simp add: same_stmts_def stmts_upd_def)

lemma same_stmts_simps [simp]:
  "same_stmts c (api_error_clear c)" "same_stmts c (c\<lparr>cn_validated := v\<rparr>)" "same_stmts c (c\<lparr>cn_staged := s\<rparr>)"
  "same_stmts c (c\<lparr>cn_tx := b\<rparr>)" "same_stmts c (c\<lparr>cn_tx := b, cn_tx_id := n\<rparr>)"
  "stmts_upd k c (put_stmt c k st)" "stmts_upd k c (api_error_report c k st code msg)"
  by (auto simp: same_stmts_def stmts_upd_def api_error_clear_def put_stmt_def api_error_report_def)

lemma same_stmts_event: "next_event c = (ev, c') \<Longrightarrow> same_stmts c c'"
  by (auto simp: next_event_def same_stmts_def split: list.splits)

lemma same_stmts_clock: "os_wall_ms c = (t, c') \<Longrightarrow> same_stmts c c'"
  by (auto simp: os_wall_ms_def same_stmts_def split: list.splits)

lemma same_stmts_commit: "same_stmts c (fst (db_commit c))"
  using same_stmts_event [of c "fst (next_event c)" "snd (next_event c)"]
  by (auto simp: db_commit_def same_stmts_def split: prod.splits event.splits)

lemma same_stmts_rollback: "same_stmts c (fst (db_rollback c))"
  by (auto simp: db_rollback_def same_stmts_def)

lemma same_stmts_autocommit: "same_stmts c (fst (autocommit c))"
  by (auto simp: autocommit_def intro: same_stmts_commit)

section \<open>The executor at the interface\<close>

definition failing :: "answer \<Rightarrow> bool" where
  "failing a \<longleftrightarrow> (\<exists>code msg. a = A_fail code msg)"

lemma execute_shape:
  assumes "next_event c = (ev, c1)" and "(if uses_clock pl then os_wall_ms c1 else (0, c1)) = (now, c2)"
  shows "\<exists>v cat. fst (execute c pl) = c2\<lparr>cn_validated := v, cn_staged := cat\<rparr>"
proof -
  obtain cat a where r: "sql_execute_batch (cn_leases c2) (mutation_guard c2) (current_valid c2) now (cn_staged c2) pl = (cat, a)"
    by fastforce
  show ?thesis
    by (cases ev) (auto simp: execute_def assms Let_def r)
qed

lemma execute_start:
  assumes "next_event c = (ev, c1)" and "(if uses_clock pl then os_wall_ms c1 else (0, c1)) = (now, c2)"
  shows "same_db c c2" and "same_stmts c c2"
  using same_db_next_event [OF assms(1)] same_db_clock [of c1 now c2] same_stmts_event [OF assms(1)]
    same_stmts_clock [of c1 now c2] assms(2)
  by (auto split: if_splits intro: same_db_trans same_stmts_trans)

lemma execute_frame:
  assumes "execute c pl = (c', a)"
  shows "same_db (c\<lparr>cn_staged := cn_staged c'\<rparr>) c'" and "same_stmts c c'"
proof -
  obtain ev c1 where ev: "next_event c = (ev, c1)" by fastforce
  obtain now c2 where clock: "(if uses_clock pl then os_wall_ms c1 else (0, c1)) = (now, c2)" by fastforce
  obtain v cat where "c' = c2\<lparr>cn_validated := v, cn_staged := cat\<rparr>"
    using execute_shape [OF ev clock] assms by auto
  with execute_start [OF ev clock] show "same_db (c\<lparr>cn_staged := cn_staged c'\<rparr>) c'" and "same_stmts c c'"
    by (simp_all add: same_db_def same_stmts_def)
qed

text \<open>An execution that did not fail did what the executor does, unless the answer came from
  elsewhere.\<close>

lemma execute_answer:
  assumes "execute c pl = (c', a)" and "\<not> failing a"
    and "\<And>v now. snd (sql_execute_batch (cn_leases c) (mutation_guard c) v now (cn_staged c) pl) \<noteq> A_unknown"
  shows "\<exists>v now. sql_execute_batch (cn_leases c) (mutation_guard c) v now (cn_staged c) pl = (cn_staged c', a)"
proof -
  obtain ev c1 where ev: "next_event c = (ev, c1)" by fastforce
  obtain now c2 where clock: "(if uses_clock pl then os_wall_ms c1 else (0, c1)) = (now, c2)" by fastforce
  have db: "same_db c c2"
    using same_db_next_event [OF ev] same_db_clock [of c1 now c2] clock
    by (auto split: if_splits intro: same_db_trans)
  then have eq: "cn_leases c2 = cn_leases c" "cn_staged c2 = cn_staged c" "mutation_guard c2 = mutation_guard c"
    by (simp_all add: same_db_def mutation_guard_def)
  define r where "r = sql_execute_batch (cn_leases c) (mutation_guard c) (current_valid c2) now (cn_staged c) pl"
  have "r = (cn_staged c', a)"
    using assms(1,2) assms(3) [of "current_valid c2" now]
    by (auto simp: execute_def ev clock Let_def eq failing_def storage_error_def r_def [symmetric]
        split: prod.splits event.splits if_splits)
  then show ?thesis by (auto simp: r_def)
qed

section \<open>Commit and rollback\<close>

lemma commit_ok:
  assumes "db_commit c = (c', None)"
  shows "cn_gens c' = cn_staged c # cn_gens c" and "cn_staged c' = cn_staged c" and "cn_tx c' = cn_tx c"
    and "cn_rw c' = cn_rw c" and "cn_leases c' = cn_leases c" and "cn_open c' = cn_open c"
    and "cn_failed c' = cn_failed c" and "\<not> cn_failed c" and "db_catalog_validate (cn_leases c) (cn_staged c)"
    and "cn_generation c' = cn_generation c + 1" and "cn_rw c"
  using assms same_db_next_event [of c "fst (next_event c)" "snd (next_event c)"]
  by (auto simp: db_commit_def same_db_def split: prod.splits event.splits if_splits)

lemma commit_failed:
  assumes "db_commit c = (c', Some e)"
  shows "cn_gens c' = cn_gens c \<or> cn_gens c' = cn_staged c # cn_gens c \<and> cn_failed c'
      \<and> db_catalog_validate (cn_leases c) (cn_staged c)"
    and "cn_staged c' = cn_staged c" and "cn_tx c' = cn_tx c" and "cn_rw c' = cn_rw c"
    and "cn_leases c' = cn_leases c" and "cn_open c' = cn_open c"
  using assms same_db_next_event [of c "fst (next_event c)" "snd (next_event c)"]
  by (auto simp: db_commit_def same_db_def split: prod.splits event.splits if_splits)

lemma rollback_frame:
  assumes "db_rollback c = (c', r)"
  shows "cn_gens c' = cn_gens c" and "cn_rw c' = cn_rw c" and "cn_leases c' = cn_leases c"
    and "cn_open c' = cn_open c" and "cn_failed c' = cn_failed c"
    and "r = None \<Longrightarrow> cn_staged c' = cn_live c \<and> \<not> cn_tx c'"
    and "r = None \<longleftrightarrow> \<not> cn_failed c \<and> cn_rw c"
  using assms by (auto simp: db_rollback_def split: if_splits)

section \<open>Prepare and finalize\<close>

lemma prepare_other:
  "(\<exists>code msg. (case ev of Elsewhere cat (A_fail code msg) \<Rightarrow> prep_fail c code msg | _ \<Rightarrow> add_stmt c P_other)
      = prep_fail c code msg)
   \<or> (case ev of Elsewhere cat (A_fail code msg) \<Rightarrow> prep_fail c code msg | _ \<Rightarrow> add_stmt c P_other)
      = add_stmt c P_other"
  by (cases ev) (auto split: answer.splits)

lemma prepare_law:
  assumes "cyboudb_prepare c sql = (c', s, h)"
  shows "same_db c c'"
    and "s \<noteq> OK \<Longrightarrow> h = None \<and> same_stmts c c'"
    and "s = OK \<Longrightarrow> h = Some (cn_next c) \<and> cn_stmt_count c' = cn_stmt_count c + 1
      \<and> cn_next c' = cn_next c + 1
      \<and> (\<exists>pl. cn_stmts c' = (cn_stmts c)(cn_next c \<mapsto> new_stmt pl)
         \<and> (compile (cn_leases c) (cn_staged c) sql = Bound pl
            \<or> pl = P_other \<and> compile (cn_leases c) (cn_staged c) sql \<in> {Unmodelled, Null_read}))"
    and "s \<in> {OK, ERROR, NOMEM, MISUSE}"
proof -
  obtain ev c1 where ev: "next_event c = (ev, c1)" by fastforce
  note db = same_db_next_event [OF ev] and st = same_stmts_event [OF ev]
  then have eq: "cn_leases c1 = cn_leases c" "cn_staged c1 = cn_staged c" by (simp_all add: same_db_def)
  consider "\<not> cn_open c" | "cn_open c" "ev = No_memory"
    | pl where "cn_open c" "ev \<noteq> No_memory" "compile (cn_leases c) (cn_staged c) sql = Bound pl"
    | code msg where "cn_open c" "ev \<noteq> No_memory" "cyboudb_prepare c sql = prep_fail c1 code msg"
    | "cn_open c" "ev \<noteq> No_memory" "compile (cn_leases c) (cn_staged c) sql \<in> {Unmodelled, Null_read}"
      "cyboudb_prepare c sql = add_stmt c1 P_other"
    using prepare_other [of c1 ev]
    by (cases "cn_open c"; cases "ev = No_memory"; cases "compile (cn_leases c) (cn_staged c) sql")
       (auto simp: cyboudb_prepare_def ev eq)
  note cases = this
  show "same_db c c'" using cases assms db
    by cases (auto simp: cyboudb_prepare_def ev eq same_db_def add_stmt_def prep_fail_def)
  show "s \<in> {OK, ERROR, NOMEM, MISUSE}" using cases assms
    by cases (auto simp: cyboudb_prepare_def ev eq add_stmt_def prep_fail_def)
  show "h = None \<and> same_stmts c c'" if "s \<noteq> OK" using cases assms st that
    by cases (auto simp: cyboudb_prepare_def ev eq same_stmts_def add_stmt_def prep_fail_def)
  show "h = Some (cn_next c) \<and> cn_stmt_count c' = cn_stmt_count c + 1 \<and> cn_next c' = cn_next c + 1
      \<and> (\<exists>pl. cn_stmts c' = (cn_stmts c)(cn_next c \<mapsto> new_stmt pl)
         \<and> (compile (cn_leases c) (cn_staged c) sql = Bound pl
            \<or> pl = P_other \<and> compile (cn_leases c) (cn_staged c) sql \<in> {Unmodelled, Null_read}))" if "s = OK"
    using cases assms st that
    by cases (auto simp: cyboudb_prepare_def ev eq same_stmts_def add_stmt_def prep_fail_def)
qed

lemma finalize_law:
  assumes "cyboudb_finalize c h = (c', s)"
  shows "same_db c c'" and "s \<in> {OK, MISUSE}"
  using assms by (auto simp: cyboudb_finalize_def same_db_def split: option.splits)

section \<open>Step\<close>

definition simple_plan :: "plan \<Rightarrow> bool" where
  "simple_plan pl \<longleftrightarrow> \<not> hands_message pl \<and> pl \<notin> {P_begin, P_commit, P_rollback, P_other}"

lemma step_simple_eq:
  assumes "cn_stmts c k = Some st" and "simple_plan (st_plan st)"
  shows "cyboudb_step c (Some k) = step_drop (api_error_clear c) k st"
  using assms by (cases "st_plan st") (simp_all add: cyboudb_step_def Let_def simple_plan_def hands_message_def)

lemma step_hands_eq:
  assumes "cn_stmts c k = Some st" and "hands_message (st_plan st)"
  shows "cyboudb_step c (Some k) = step_dequeue (api_error_clear c) k st"
  using assms by (cases "st_plan st") (simp_all add: cyboudb_step_def Let_def hands_message_def)

lemma autocommit_tx [simp]: "cn_tx c \<Longrightarrow> autocommit c = (c, None)"
  by (simp add: autocommit_def)

lemma same_db_tx: "same_db c c' \<Longrightarrow> cn_tx c' = cn_tx c"
  by (simp add: same_db_def)

lemma step_drop_tx:
  assumes "cn_tx c" and "st_state st = STATE_INIT" and "execute c (st_plan st) = (c1, a)"
  shows "failing a \<Longrightarrow> \<exists>code msg. step_drop c k st = step_mutation_error c1 k st code msg"
    and "\<not> failing a \<Longrightarrow> step_drop c k st = step_done c1 k st"
proof -
  have tx: "cn_tx c1"
    using execute_frame(1) [OF assms(3)] assms(1) by (simp add: same_db_def)
  show "\<exists>code msg. step_drop c k st = step_mutation_error c1 k st code msg" if f: "failing a"
  proof -
    obtain code msg where "a = A_fail code msg" using f by (auto simp: failing_def)
    with assms have "step_drop c k st = step_mutation_error c1 k st code (fail_message (st_plan st) msg)"
      by (simp add: step_drop_def)
    then show ?thesis by blast
  qed
  show "\<not> failing a \<Longrightarrow> step_drop c k st = step_done c1 k st"
    using assms tx by (cases a) (auto simp: step_drop_def failing_def)
qed

lemma step_dequeue_tx:
  assumes "cn_tx c" and "execute c (st_plan st) = (c1, a)"
  shows "failing a \<Longrightarrow> \<exists>st1 code msg. step_dequeue c k st = step_mutation_error c1 k st1 code msg"
    and "a = A_took b tk \<Longrightarrow> step_dequeue c k st = (put_stmt c1 k (st\<lparr>st_message := Some b,
      st_ticket := (case tk of None \<Rightarrow> st_ticket st | Some t \<Rightarrow> t)\<rparr>), ROW)"
    and "\<not> failing a \<Longrightarrow> (\<And>b tk. a \<noteq> A_took b tk) \<Longrightarrow> step_dequeue c k st = (put_stmt c1 k (st\<lparr>st_message := None\<rparr>), DONE)"
proof -
  have tx: "cn_tx c1"
    using execute_frame(1) [OF assms(2)] assms(1) by (simp add: same_db_def)
  show "\<exists>st1 code msg. step_dequeue c k st = step_mutation_error c1 k st1 code msg" if f: "failing a"
  proof -
    obtain code msg where "a = A_fail code msg" using f by (auto simp: failing_def)
    with assms have "step_dequeue c k st = step_mutation_error c1 k (st\<lparr>st_message := None\<rparr>) code msg"
      by (simp add: step_dequeue_def)
    then show ?thesis by blast
  qed
  show "a = A_took b tk \<Longrightarrow> step_dequeue c k st = (put_stmt c1 k (st\<lparr>st_message := Some b,
      st_ticket := (case tk of None \<Rightarrow> st_ticket st | Some t \<Rightarrow> t)\<rparr>), ROW)"
    using assms tx by (auto simp: step_dequeue_def Let_def)
  show "\<not> failing a \<Longrightarrow> (\<And>b tk. a \<noteq> A_took b tk) \<Longrightarrow> step_dequeue c k st = (put_stmt c1 k (st\<lparr>st_message := None\<rparr>), DONE)"
    using assms tx by (cases a) (auto simp: step_dequeue_def failing_def Let_def)
qed

section \<open>One-shot execution\<close>

lemma step_mutation_error_law:
  "step_mutation_error c k st code msg = (c', s) \<Longrightarrow> same_db c c' \<and> s = ERROR"
  by (auto simp: step_mutation_error_def)

lemma step_done_law: "step_done c k st = (c', s) \<Longrightarrow> same_db c c' \<and> s = DONE"
  by (auto simp: step_done_def)

lemma exec_step_loop_once:
  assumes "cyboudb_step c h = (c1, s)" and "s \<noteq> ROW"
  shows "exec_step_loop c h = Some (c1, s)"
  using assms by (subst exec_step_loop.simps) simp

text \<open>A statement that cannot be compiled, or for which there is no memory, is not run; another is run
  once, unless it hands out messages.\<close>

lemma exec_not_run:
  assumes "cyboudb_prepare c sql = (c1, s, h)" and "s \<noteq> OK"
  shows "cyboudb_exec c sql = Some (c1, s)"
  using assms by (simp add: cyboudb_exec_def)

lemma exec_run:
  assumes "cyboudb_prepare c sql = (c1, OK, h)" and "cyboudb_step c1 h = (c2, s)" and "s \<noteq> ROW"
    and "cyboudb_finalize c2 h = (c3, s3)"
  shows "cyboudb_exec c sql = Some (c3, if s = DONE then OK else s)"
  using assms by (simp add: cyboudb_exec_def exec_step_loop_once)

lemma exec_bound:
  assumes pl: "compile (cn_leases c) (cn_staged c) sql = Bound pl"
    and run: "\<And>c1 k. same_db c c1 \<Longrightarrow> cn_stmts c1 k = Some (new_stmt pl) \<Longrightarrow>
      snd (cyboudb_step c1 (Some k)) \<noteq> ROW \<and> P (fst (cyboudb_step c1 (Some k))) (snd (cyboudb_step c1 (Some k)))"
    and mono: "\<And>c1 c2 s. P c1 s \<Longrightarrow> same_db c1 c2 \<Longrightarrow> P c2 s"
  obtains c' s where "cyboudb_exec c sql = Some (c', s)"
    and "s \<noteq> OK \<and> same_db c c' \<or> (\<exists>s'. s' \<noteq> ROW \<and> s = (if s' = DONE then OK else s') \<and> P c' s')"
proof -
  obtain c1 s h where prep: "cyboudb_prepare c sql = (c1, s, h)" by (metis prod_cases3)
  show thesis
  proof (cases "s = OK")
    case False
    then show thesis using exec_not_run [OF prep] prepare_law(1) [OF prep] that by blast
  next
    case True
    note law = prepare_law(3) [OF prep True]
    have st: "cn_stmts c1 (cn_next c) = Some (new_stmt pl)" using law pl by auto
    obtain c2 s2 where step: "cyboudb_step c1 h = (c2, s2)" by fastforce
    obtain c3 s3 where fin: "cyboudb_finalize c2 h = (c3, s3)" by fastforce
    have r: "s2 \<noteq> ROW" "P c2 s2"
      using run [OF prepare_law(1) [OF prep] st] step law by auto
    have "P c3 s2" using mono [OF r(2) finalize_law(1) [OF fin]] .
    then show thesis using that [OF exec_run [OF prep [unfolded True] step r(1) fin]] r(1) by blast
  qed
qed

lemma exec_begin:
  obtains c' s where "cyboudb_exec c ''BEGIN'' = Some (c', s)"
    and "s = OK \<Longrightarrow> same_db (c\<lparr>cn_tx := True\<rparr>) c' \<and> cn_rw c \<and> \<not> cn_tx c" and "s \<noteq> OK \<Longrightarrow> same_db c c'"
proof -
  have "sql_parse (c_str ''BEGIN'') = Got Begin []" by code_simp
  then have pl: "compile (cn_leases c) (cn_staged c) ''BEGIN'' = Bound P_begin" by (simp add: compile_def)
  show thesis
    by (rule exec_bound [OF pl, where P = "\<lambda>c' s. if s = DONE then same_db (c\<lparr>cn_tx := True\<rparr>) c' \<and> cn_rw c \<and> \<not> cn_tx c
          else s \<noteq> OK \<and> same_db c c'"])
       (auto simp: cyboudb_step_def new_stmt_def Let_def step_begin_def step_mutation_error_def step_done_def
          same_db_def api_error_clear_def api_error_report_def put_stmt_def split: if_splits intro: that)
qed

lemma exec_rollback:
  obtains c' s where "cyboudb_exec c ''ROLLBACK'' = Some (c', s)" and "cn_gens c' = cn_gens c"
    and "cn_leases c' = cn_leases c"
    and "s = OK \<Longrightarrow> cn_staged c' = cn_live c \<and> \<not> cn_tx c' \<and> cn_rw c' = cn_rw c \<and> cn_failed c' = cn_failed c
      \<and> cn_open c' = cn_open c \<and> cn_generation c' = cn_generation c"
proof -
  have "sql_parse (c_str ''ROLLBACK'') = Got Rollback []" by code_simp
  then have pl: "compile (cn_leases c) (cn_staged c) ''ROLLBACK'' = Bound P_rollback" by (simp add: compile_def)
  show thesis
    by (rule exec_bound [OF pl, where P = "\<lambda>c' s. cn_gens c' = cn_gens c \<and> cn_leases c' = cn_leases c \<and> s \<noteq> OK
        \<and> (s = DONE \<longrightarrow> cn_staged c' = cn_live c \<and> \<not> cn_tx c' \<and> cn_rw c' = cn_rw c \<and> cn_failed c' = cn_failed c
             \<and> cn_open c' = cn_open c \<and> cn_generation c' = cn_generation c)"])
       (auto simp: cyboudb_step_def new_stmt_def Let_def step_rollback_def step_mutation_error_def step_done_def
          same_db_def api_error_clear_def api_error_report_def put_stmt_def db_rollback_def cn_live_def
          split: if_splits intro: that)
qed

lemma same_db_commit:
  assumes "same_db c c0" and "db_commit c0 = (c1, r)"
  shows "r = None \<Longrightarrow> cn_gens c1 = cn_staged c # cn_gens c \<and> cn_staged c1 = cn_staged c \<and> cn_rw c1 = cn_rw c
      \<and> cn_leases c1 = cn_leases c \<and> cn_open c1 = cn_open c \<and> cn_failed c1 = cn_failed c
      \<and> cn_generation c1 = cn_generation c + 1 \<and> db_catalog_validate (cn_leases c) (cn_staged c)"
    and "r \<noteq> None \<Longrightarrow> cn_gens c1 = cn_gens c \<or> cn_gens c1 = cn_staged c # cn_gens c \<and> cn_failed c1
      \<and> db_catalog_validate (cn_leases c) (cn_staged c)"
    and "cn_leases c1 = cn_leases c"
  using assms(1) commit_ok [of c0 c1] commit_failed [of c0 c1] assms(2)
  by (cases r; simp add: same_db_def)+

lemma step_commit_law:
  assumes "same_db c c0" and "st_state st \<noteq> STATE_DONE" and "step_commit c0 k st = (c', s)"
  shows "s = DONE \<or> s = ERROR" and "cn_leases c' = cn_leases c"
    and "s = DONE \<Longrightarrow> cn_gens c' = cn_staged c # cn_gens c \<and> cn_staged c' = cn_staged c \<and> \<not> cn_tx c'
      \<and> cn_rw c' = cn_rw c \<and> cn_failed c' = cn_failed c \<and> cn_open c' = cn_open c
      \<and> cn_generation c' = cn_generation c + 1 \<and> db_catalog_validate (cn_leases c) (cn_staged c)"
    and "s \<noteq> DONE \<Longrightarrow> cn_gens c' = cn_gens c \<or> cn_gens c' = cn_staged c # cn_gens c \<and> cn_failed c'
      \<and> db_catalog_validate (cn_leases c) (cn_staged c)"
proof -
  obtain c1 r where cm: "db_commit c0 = (c1, r)" by fastforce
  obtain c2 r2 where rb: "db_rollback (c1\<lparr>cn_tx := False\<rparr>) = (c2, r2)" by fastforce
  note com = same_db_commit [OF assms(1) cm]
  note rbf = rollback_frame [OF rb]
  have "c' = (if \<not> cn_tx c0 then api_error_report c0 k (st\<lparr>st_state := STATE_ERROR\<rparr>) (status_code ERROR) str_no_tx_commit
      else case r of None \<Rightarrow> put_stmt (c1\<lparr>cn_tx := False\<rparr>) k (st\<lparr>st_state := STATE_DONE\<rparr>)
        | Some e \<Rightarrow> api_error_report c2 k (st\<lparr>st_state := STATE_ERROR\<rparr>) (error_code e) [])"
    and s: "s = (if \<not> cn_tx c0 then ERROR else case r of None \<Rightarrow> DONE | Some e \<Rightarrow> ERROR)"
    using assms(2,3)
    by (auto simp: step_commit_def cm rb step_done_def step_mutation_error_def Let_def split: option.splits if_splits)
  note shape = this
  show "s = DONE \<or> s = ERROR" using s by (auto split: option.splits)
  show "cn_leases c' = cn_leases c" using shape(1) com(3) rbf(3) assms(1)
    by (auto simp: put_stmt_def api_error_report_def same_db_def split: option.splits if_splits)
  show "cn_gens c' = cn_staged c # cn_gens c \<and> cn_staged c' = cn_staged c \<and> \<not> cn_tx c'
      \<and> cn_rw c' = cn_rw c \<and> cn_failed c' = cn_failed c \<and> cn_open c' = cn_open c
      \<and> cn_generation c' = cn_generation c + 1 \<and> db_catalog_validate (cn_leases c) (cn_staged c)" if "s = DONE"
    using shape com(1) that by (auto simp: put_stmt_def split: option.splits if_splits)
  show "cn_gens c' = cn_gens c \<or> cn_gens c' = cn_staged c # cn_gens c \<and> cn_failed c'
      \<and> db_catalog_validate (cn_leases c) (cn_staged c)" if "s \<noteq> DONE"
    using shape com(2) rbf(1,5) that assms(1)
    by (auto simp: api_error_report_def same_db_def split: option.splits if_splits)
qed

lemma exec_commit:
  obtains c' s where "cyboudb_exec c ''COMMIT'' = Some (c', s)" and "cn_leases c' = cn_leases c"
    and "s = OK \<Longrightarrow> cn_gens c' = cn_staged c # cn_gens c \<and> cn_staged c' = cn_staged c \<and> \<not> cn_tx c'
      \<and> cn_rw c' = cn_rw c \<and> cn_failed c' = cn_failed c \<and> cn_open c' = cn_open c
      \<and> cn_generation c' = cn_generation c + 1 \<and> db_catalog_validate (cn_leases c) (cn_staged c)"
    and "s \<noteq> OK \<Longrightarrow> cn_gens c' = cn_gens c \<or> cn_gens c' = cn_staged c # cn_gens c \<and> cn_failed c'
      \<and> db_catalog_validate (cn_leases c) (cn_staged c)"
proof -
  have "sql_parse (c_str ''COMMIT'') = Got Commit []" by code_simp
  then have pl: "compile (cn_leases c) (cn_staged c) ''COMMIT'' = Bound P_commit" by (simp add: compile_def)
  define P where "P = (\<lambda>(c' :: conn) s. (s = DONE \<or> s = ERROR) \<and> cn_leases c' = cn_leases c
    \<and> (s = DONE \<longrightarrow> cn_gens c' = cn_staged c # cn_gens c \<and> cn_staged c' = cn_staged c \<and> \<not> cn_tx c'
      \<and> cn_rw c' = cn_rw c \<and> cn_failed c' = cn_failed c \<and> cn_open c' = cn_open c
      \<and> cn_generation c' = cn_generation c + 1 \<and> db_catalog_validate (cn_leases c) (cn_staged c))
    \<and> (s \<noteq> DONE \<longrightarrow> cn_gens c' = cn_gens c \<or> cn_gens c' = cn_staged c # cn_gens c \<and> cn_failed c'
      \<and> db_catalog_validate (cn_leases c) (cn_staged c)))"
  show thesis
  proof (rule exec_bound [OF pl, where P = P])
    fix c1 k assume db: "same_db c c1" and st: "cn_stmts c1 k = Some (new_stmt P_commit)"
    obtain c2 s where step: "step_commit (api_error_clear c1) k (new_stmt P_commit) = (c2, s)" by fastforce
    have eq: "cyboudb_step c1 (Some k) = (c2, s)" using step by (simp add: cyboudb_step_def st new_stmt_def)
    have "same_db c (api_error_clear c1)" using db by (simp add: same_db_def api_error_clear_def)
    note step_commit_law [OF this _ step]
    then have "P c2 s" "s \<noteq> ROW" by (auto simp: P_def new_stmt_def)
    then show "snd (cyboudb_step c1 (Some k)) \<noteq> ROW \<and> P (fst (cyboudb_step c1 (Some k))) (snd (cyboudb_step c1 (Some k)))"
      by (simp add: eq)
  next
    fix c1 c2 s assume "P c1 s" and "same_db c1 c2"
    then show "P c2 s" by (simp add: P_def same_db_def)
  next
    fix c' s assume ex: "cyboudb_exec c ''COMMIT'' = Some (c', s)"
      and out: "s \<noteq> OK \<and> same_db c c' \<or> (\<exists>s'. s' \<noteq> ROW \<and> s = (if s' = DONE then OK else s') \<and> P c' s')"
    show thesis
    proof (rule that [OF ex])
      show "cn_leases c' = cn_leases c" using out by (auto simp: P_def same_db_def)
    qed (use out in \<open>auto simp: P_def same_db_def\<close>)
  qed
qed

text \<open>A statement with no rows, inside a transaction.\<close>

lemma exec_simple:
  assumes "cn_tx c" and "compile (cn_leases c) (cn_staged c) sql = Bound pl" and "simple_plan pl"
    and known: "\<And>v now. snd (sql_execute_batch (cn_leases c) (mutation_guard c) v now (cn_staged c) pl) \<noteq> A_unknown"
  obtains c' s where "cyboudb_exec c sql = Some (c', s)" and "same_db (c\<lparr>cn_staged := cn_staged c'\<rparr>) c'"
    and "s = OK \<Longrightarrow> \<exists>v now a. sql_execute_batch (cn_leases c) (mutation_guard c) v now (cn_staged c) pl = (cn_staged c', a)
      \<and> \<not> failing a"
proof -
  define P where "P = (\<lambda>(c' :: conn) s. s \<noteq> OK \<and> same_db (c\<lparr>cn_staged := cn_staged c'\<rparr>) c'
    \<and> (s = DONE \<longrightarrow> (\<exists>v now a. sql_execute_batch (cn_leases c) (mutation_guard c) v now (cn_staged c) pl = (cn_staged c', a)
      \<and> \<not> failing a)))"
  show thesis
  proof (rule exec_bound [OF assms(2), where P = P])
    fix c1 k assume db: "same_db c c1" and st: "cn_stmts c1 k = Some (new_stmt pl)"
    define c0 where "c0 = api_error_clear c1"
    have db0: "same_db c c0" using db by (simp add: same_db_def api_error_clear_def c0_def)
    then have eq: "cn_leases c0 = cn_leases c" "cn_staged c0 = cn_staged c" "mutation_guard c0 = mutation_guard c" "cn_tx c0"
      using assms(1) by (simp_all add: same_db_def mutation_guard_def)
    obtain c2 a where ex: "execute c0 pl = (c2, a)" by fastforce
    have ex': "execute c0 (st_plan (new_stmt pl)) = (c2, a)" by (simp add: new_stmt_def ex)
    have init: "st_state (new_stmt pl) = STATE_INIT" by (simp add: new_stmt_def)
    have frame: "same_db (c\<lparr>cn_staged := cn_staged c2\<rparr>) c2"
      using execute_frame(1) [OF ex] db0 by (simp add: same_db_def)
    have step: "cyboudb_step c1 (Some k) = step_drop c0 k (new_stmt pl)"
      using step_simple_eq [OF st] assms(3) by (simp add: c0_def new_stmt_def)
    show "snd (cyboudb_step c1 (Some k)) \<noteq> ROW \<and> P (fst (cyboudb_step c1 (Some k))) (snd (cyboudb_step c1 (Some k)))"
    proof (cases "failing a")
      case True
      then obtain code msg where "step_drop c0 k (new_stmt pl) = step_mutation_error c2 k (new_stmt pl) code msg"
        using step_drop_tx(1) [OF eq(4) init ex'] by blast
      with frame show ?thesis
        by (simp add: step P_def step_mutation_error_def same_db_def api_error_report_def)
    next
      case False
      have "\<exists>v now. sql_execute_batch (cn_leases c) (mutation_guard c) v now (cn_staged c) pl = (cn_staged c2, a)"
        using execute_answer [OF ex False] known by (simp add: eq)
      with frame False step_drop_tx(2) [OF eq(4) init ex' False] show ?thesis
        by (simp add: step P_def step_done_def same_db_def put_stmt_def) blast
    qed
  next
    fix c1 c2 s assume "P c1 s" and "same_db c1 c2"
    then show "P c2 s" by (simp add: P_def same_db_def)
  next
    fix c' s assume ex: "cyboudb_exec c sql = Some (c', s)"
      and out: "s \<noteq> OK \<and> same_db c c' \<or> (\<exists>s'. s' \<noteq> ROW \<and> s = (if s' = DONE then OK else s') \<and> P c' s')"
    show thesis
    proof (rule that [OF ex])
      show "same_db (c\<lparr>cn_staged := cn_staged c'\<rparr>) c'" using out by (auto simp: P_def same_db_def)
    qed (use out in \<open>auto simp: P_def split: if_splits\<close>)
  qed
qed

text \<open>A statement the compiler refuses.\<close>

lemma exec_refused:
  assumes "compile (cn_leases c) (cn_staged c) sql = Refused code msg"
  obtains c' s where "cyboudb_exec c sql = Some (c', s)" and "same_db c c'" and "s \<noteq> OK"
proof -
  obtain c1 s h where prep: "cyboudb_prepare c sql = (c1, s, h)" by (metis prod_cases3)
  have "s \<noteq> OK" using prepare_law(3) [OF prep] assms by auto
  then show thesis using exec_not_run [OF prep] prepare_law(1) [OF prep] that by blast
qed

end
