(* ===== verification/Sql_Text_Laws.thy ===== *)
theory Sql_Text_Laws
  imports Sql_Text
begin

text \<open>
  Writing SQL text and reading it back: decimal numbers, string and blob literals, and the statements
  a client puts together with \<open>snprintf\<close>.  The writers \<open>dec\<close>, \<open>sql_quote\<close> and \<open>hex_of\<close> are what a
  client does; \<open>dec\<close> is the conversion \<open>PRIu64\<close> of the C library.
\<close>

section \<open>Numbers\<close>

fun dec :: "nat \<Rightarrow> string" where
  "dec n = (if n < 10 then [char_of (48 + n)] else dec (n div 10) @ [char_of (48 + n mod 10)])"

declare dec.simps [simp del]

definition digit_value :: "char \<Rightarrow> nat" where
  "digit_value c = of_char c - 48"

definition decimal :: "nat \<Rightarrow> string \<Rightarrow> nat" where
  "decimal acc s = foldl (\<lambda>v c. v * 10 + digit_value c) acc s"

lemma decimal_snoc: "decimal acc (s @ [c]) = decimal acc s * 10 + digit_value c"
  by (simp add: decimal_def)

lemma digit_char: "d < 10 \<Longrightarrow> of_char (char_of (48 + d :: nat)) = (48 + d :: nat)"
  by simp

lemma is_digit_char: "d < 10 \<Longrightarrow> is_digit (char_of (48 + d :: nat))"
  by (simp add: is_digit_def less_eq_char_def)

lemma dec_digits: "list_all is_digit (dec n)"
  by (induction n rule: dec.induct) (subst dec.simps, simp add: is_digit_char)

lemma dec_nonempty: "dec n \<noteq> []"
  by (subst dec.simps) simp

lemma decimal_dec: "decimal 0 (dec n) = n"
proof (induction n rule: dec.induct)
  case (1 n)
  show ?case
  proof (cases "n < 10")
    case True
    then show ?thesis by (subst dec.simps) (simp add: decimal_def digit_value_def)
  next
    case False
    then have "decimal 0 (dec n) = n div 10 * 10 + n mod 10"
      using 1 by (subst dec.simps) (simp add: decimal_snoc digit_value_def)
    then show ?thesis by simp
  qed
qed

lemma decimal_mono: "acc \<le> decimal acc s"
proof (induction s arbitrary: acc)
  case (Cons c s)
  have "acc \<le> acc * 10 + digit_value c" by simp
  also have "\<dots> \<le> decimal (acc * 10 + digit_value c) s" by (rule Cons.IH)
  finally show ?case by (simp add: decimal_def)
qed (simp add: decimal_def)

lemma int_loop_decimal:
  "int_loop acc s = (if decimal acc s < 2 ^ 64 \<or> s = [] then Some (decimal acc s) else None)"
proof (induction s arbitrary: acc)
  case (Cons c s)
  define v where "v = acc * 10 + digit_value c"
  have "v \<le> decimal v s" by (rule decimal_mono)
  moreover have "decimal acc (c # s) = decimal v s" by (simp add: decimal_def v_def)
  moreover have "decimal v [] = v" by (simp add: decimal_def)
  ultimately show ?case using Cons.IH [of v] by (cases s) (auto simp: Let_def v_def digit_value_def)
qed (simp add: decimal_def)

lemma parse_number_dec: "n < 2 ^ 63 \<Longrightarrow> parse_number False (dec n) = Some (int n)"
  by (simp add: parse_number_def int_loop_decimal decimal_dec)

lemma is_digit_set: "is_digit c \<Longrightarrow> c \<in> set ''0123456789''"
proof -
  assume "is_digit c"
  then have "(of_char c :: nat) \<in> set [48..<58]"
    unfolding set_upt by (simp add: is_digit_def less_eq_char_def)
  moreover have "c = char_of (of_char c :: nat)" by simp
  ultimately have "c \<in> set (map char_of [48..<58])" by (metis image_eqI list.set_map)
  moreover have "map char_of [48..<58 :: nat] = ''0123456789''" by code_simp
  ultimately show ?thesis by metis
qed

lemma tok_digit:
  assumes "is_digit c"
  shows "sql_tok_next (c # cs) = lex_number (c # cs)"
proof -
  have "sql_tok_next (CHR ''0'' # cs) = lex_number (CHR ''0'' # cs)"
    "sql_tok_next (CHR ''1'' # cs) = lex_number (CHR ''1'' # cs)"
    "sql_tok_next (CHR ''2'' # cs) = lex_number (CHR ''2'' # cs)"
    "sql_tok_next (CHR ''3'' # cs) = lex_number (CHR ''3'' # cs)"
    "sql_tok_next (CHR ''4'' # cs) = lex_number (CHR ''4'' # cs)"
    "sql_tok_next (CHR ''5'' # cs) = lex_number (CHR ''5'' # cs)"
    "sql_tok_next (CHR ''6'' # cs) = lex_number (CHR ''6'' # cs)"
    "sql_tok_next (CHR ''7'' # cs) = lex_number (CHR ''7'' # cs)"
    "sql_tok_next (CHR ''8'' # cs) = lex_number (CHR ''8'' # cs)"
    "sql_tok_next (CHR ''9'' # cs) = lex_number (CHR ''9'' # cs)"
    by code_simp+
  with is_digit_set [OF assms] show ?thesis by auto
qed

lemma tok_dec:
  assumes "c \<noteq> CHR ''.''" and "\<not> is_digit c"
  shows "sql_tok_next (dec n @ c # r) = (T_int (dec n), c # r)" and "sql_tok_next (dec n) = (T_int (dec n), [])"
proof -
  obtain d ds where ds: "dec n = d # ds" using dec_nonempty [of n] by (cases "dec n") auto
  have d: "is_digit d" and all: "list_all is_digit (d # ds)" using dec_digits [of n] by (simp_all add: ds)
  have t: "takeWhile is_digit ((d # ds) @ c # r) = d # ds" "dropWhile is_digit ((d # ds) @ c # r) = c # r"
    using assms(2) all by (auto simp: list_all_iff takeWhile_append dropWhile_append)
  show "sql_tok_next (dec n @ c # r) = (T_int (dec n), c # r)"
    using assms t(1,2) by (simp add: ds tok_digit d lex_number_def Let_def split: list.splits)
  have "dropWhile is_digit ds = []" "takeWhile is_digit ds = ds" using all by (simp_all add: list_all_iff)
  note e = this
  show "sql_tok_next (dec n) = (T_int (dec n), [])"
    by (simp add: e ds tok_digit d lex_number_def Let_def)
qed

section \<open>String literals\<close>

text \<open>Every apostrophe is written twice.\<close>

definition sql_quote :: "string \<Rightarrow> string" where
  "sql_quote s = concat (map (\<lambda>c. if c = quote then [quote, quote] else [c]) s)"

lemma sql_quote_simps [simp]:
  "sql_quote [] = []" "sql_quote (c # s) = (if c = quote then quote # quote # sql_quote s else c # sql_quote s)"
  by (simp_all add: sql_quote_def)

lemma sql_quote_id: "quote \<notin> set s \<Longrightarrow> sql_quote s = s"
  by (induction s) auto

lemma str_loop_quote:
  assumes "r = [] \<or> hd r \<noteq> quote"
  shows "str_loop (sql_quote s @ quote # r) = Some (sql_quote s, r)"
proof (induction s)
  case Nil
  then show ?case using assms by (cases r) auto
qed auto

lemma string_decode_quote: "string_decode (sql_quote s) = s"
  by (induction s) auto

lemma tok_string:
  assumes "r = [] \<or> hd r \<noteq> quote"
  shows "sql_tok_next (quote # sql_quote s @ quote # r) = (T_string (sql_quote s), r)"
  using str_loop_quote [OF assms]
  by (simp add: sql_tok_next_def start_token_def is_alpha_def is_digit_def less_eq_char_def lex_string_def)

section \<open>Blob literals\<close>

definition hex_digit :: "nat \<Rightarrow> char" where
  "hex_digit d = char_of (if d < 10 then 48 + d else 87 + d)"

definition hex_of :: "string \<Rightarrow> string" where
  "hex_of s = concat (map (\<lambda>c. [hex_digit (of_char c div 16), hex_digit (of_char c mod 16)]) s)"

lemma hex_of_simps [simp]:
  "hex_of [] = []"
  "hex_of (c # s) = hex_digit (of_char c div 16) # hex_digit (of_char c mod 16) # hex_of s"
  by (simp_all add: hex_of_def)

lemma hex_nibble_digit: "d < 16 \<Longrightarrow> hex_nibble (hex_digit d) = Some d"
  by (auto simp: hex_nibble_def hex_digit_def is_digit_def less_eq_char_def)

lemma blob_decode_hex: "blob_decode (hex_of s) = Some s"
proof (induction s)
  case (Cons c s)
  have "of_char c < (256 :: nat)" by simp
  then have "of_char c div 16 < (16 :: nat)" by (simp add: less_mult_imp_div_less)
  then show ?case using Cons by (simp add: hex_nibble_digit)
qed simp

lemma hex_no_quote: "quote \<notin> set (hex_of s)"
proof -
  have "list_all (\<lambda>d. hex_digit d \<noteq> quote) [0..<16]" by code_simp
  then have d: "hex_digit d \<noteq> quote" if "d < 16" for d using that by (simp add: list_all_iff)
  have "of_char c div 16 < (16 :: nat)" for c :: char by (simp add: less_mult_imp_div_less)
  then show ?thesis by (induction s) (auto dest: sym [THEN d [THEN notE, rotated]])
qed

lemma tok_blob:
  assumes "r = [] \<or> hd r \<noteq> quote"
  shows "sql_tok_next (CHR ''x'' # quote # hex_of s @ quote # r) = (T_blob (hex_of s), r)"
  using str_loop_quote [OF assms, of "hex_of s"] hex_no_quote [of s]
  by (simp add: sql_tok_next_def start_token_def lex_string_def sql_quote_id)

section \<open>Statements put together by a client\<close>

lemma primary_string:
  assumes "r = [] \<or> hd r \<noteq> quote"
  shows "parse_primary (quote # sql_quote s @ quote # r) = Got (L_text s) r"
  by (simp add: parse_primary_def tok_string [OF assms] string_decode_quote)

lemma primary_blob:
  assumes "r = [] \<or> hd r \<noteq> quote"
  shows "parse_primary (CHR ''x'' # quote # hex_of s @ quote # r) = Got (L_blob s) r"
  by (simp add: parse_primary_def tok_blob [OF assms] blob_decode_hex)

lemma primary_dec:
  assumes "n < 2 ^ 63" and "c \<noteq> CHR ''.''" and "\<not> is_digit c"
  shows "parse_primary (dec n @ c # r) = Got (L_int (int n)) (c # r)"
  using assms by (simp add: parse_primary_def tok_dec p_number_def parse_number_dec)

lemma primary_space: "parse_primary (CHR '' '' # s) = parse_primary s"
  by (simp add: parse_primary_def sql_tok_next_def)

definition insert_text :: "nat \<Rightarrow> string \<Rightarrow> string" where
  "insert_text n p = ''INSERT INTO results VALUES ('' @ dec n @ '', '' @ [quote] @ p @ [quote] @ '')''"

lemma parse_insert_text:
  assumes "n < 2 ^ 63" and "quote \<notin> set p"
  shows "sql_parse (insert_text n p) = Got (Insert ''results'' [[L_int (int n), L_text p]]) []"
proof -
  define r2 where "r2 = CHR '' '' # quote # p @ quote # '')''"
  define r where "r = dec n @ CHR '','' # r2"
  have k: "sql_tok_next (''INSERT INTO results VALUES ('' @ r) = (T_kw ''insert'', '' INTO results VALUES ('' @ r)"
    "sql_tok_next ('' INTO results VALUES ('' @ r) = (T_kw ''into'', '' results VALUES ('' @ r)"
    "sql_tok_next ('' results VALUES ('' @ r) = (T_ident ''results'', '' VALUES ('' @ r)"
    "sql_tok_next ('' VALUES ('' @ r) = (T_kw ''values'', '' ('' @ r)"
    "sql_tok_next ('' ('' @ r) = (T_punct ''('', r)"
    "sql_tok_next (CHR '','' # r2) = (T_punct '','', r2)"
    "sql_tok_next '')'' = (T_punct '')'', [])" "sql_tok_next [] = (T_eof, [])"
    by code_simp+
  note k = this [unfolded append.simps]
  have "\<not> is_digit (CHR '','')" by code_simp
  then have p1: "parse_primary r = Got (L_int (int n)) (CHR '','' # r2)"
    unfolding r_def using assms by (intro primary_dec) simp_all
  have p2: "parse_primary r2 = Got (L_text p) '')''"
    using primary_string [of "'')''" p] assms(2) by (simp add: r2_def primary_space sql_quote_id)
  have two: "(64 :: nat) = Suc (Suc 62)" "(256 :: nat) = Suc 255" by simp_all
  have v: "val_loop 64 r = Got [L_int (int n), L_text p] []"
    unfolding two(1) val_loop.simps(2) by (simp add: p1 p2 k pbind_def)
  have "row_loop 256 ('' ('' @ r) = Got [[L_int (int n), L_text p]] []"
    unfolding two(2) row_loop.simps(2) by (simp add: p_tok_def v k pbind_def)
  then have "parse_insert ('' INTO results VALUES ('' @ r) = Got (Insert ''results'' [[L_int (int n), L_text p]]) []"
    by (simp add: parse_insert_def p_name_def pbind_def k p_tok_def)
  then have "sql_parse (''INSERT INTO results VALUES ('' @ r) = Got (Insert ''results'' [[L_int (int n), L_text p]]) []"
    by (simp add: sql_parse_def parse_statement_def pbind_def check_eof_def k)
  then show ?thesis by (simp add: insert_text_def r_def r2_def)
qed

text \<open>\<open>ENQUEUE\<close> and \<open>APPEND\<close> with one literal.\<close>

lemma parse_payload_literal:
  assumes "parse_primary r = Got l '')''"
  shows "sql_parse (''APPEND TO audit VALUES ('' @ r) = Got (Append ''audit'' l) []"
    and "sql_parse (''ENQUEUE INTO inbox VALUES ('' @ r) = Got (Enqueue ''inbox'' l) []"
proof -
  have k: "sql_tok_next (''APPEND TO audit VALUES ('' @ r) = (T_kw ''append'', '' TO audit VALUES ('' @ r)"
    "sql_tok_next ('' TO audit VALUES ('' @ r) = (T_kw ''to'', '' audit VALUES ('' @ r)"
    "sql_tok_next ('' audit VALUES ('' @ r) = (T_ident ''audit'', '' VALUES ('' @ r)"
    "sql_tok_next (''ENQUEUE INTO inbox VALUES ('' @ r) = (T_kw ''enqueue'', '' INTO inbox VALUES ('' @ r)"
    "sql_tok_next ('' INTO inbox VALUES ('' @ r) = (T_kw ''into'', '' inbox VALUES ('' @ r)"
    "sql_tok_next ('' inbox VALUES ('' @ r) = (T_ident ''inbox'', '' VALUES ('' @ r)"
    "sql_tok_next ('' VALUES ('' @ r) = (T_kw ''values'', '' ('' @ r)"
    "sql_tok_next ('' ('' @ r) = (T_punct ''('', r)"
    "sql_tok_next '')'' = (T_punct '')'', [])" "sql_tok_next [] = (T_eof, [])"
    by code_simp+
  note k = this [unfolded append.simps]
  have "parse_payload ''to'' Append ('' TO audit VALUES ('' @ r) = Got (Append ''audit'' l) []"
    "parse_payload ''into'' Enqueue ('' INTO inbox VALUES ('' @ r) = Got (Enqueue ''inbox'' l) []"
    by (simp_all add: parse_payload_def p_tok_def p_name_def k pbind_def assms)
  note stmt = this
  show "sql_parse (''APPEND TO audit VALUES ('' @ r) = Got (Append ''audit'' l) []"
    using stmt by (simp add: sql_parse_def parse_statement_def pbind_def check_eof_def k)
  show "sql_parse (''ENQUEUE INTO inbox VALUES ('' @ r) = Got (Enqueue ''inbox'' l) []"
    using stmt by (simp add: sql_parse_def parse_statement_def pbind_def check_eof_def k)
qed

text \<open>C40 What a client writes is what the queue is given: any payload, written as a string literal with
  its apostrophes doubled or as a blob literal with two hexadecimal digits a byte, is parsed back as
  exactly those bytes.\<close>

theorem enqueue_literal_roundtrip:
  "sql_parse (''ENQUEUE INTO inbox VALUES ('' @ [quote] @ sql_quote p @ [quote] @ '')'')
     = Got (Enqueue ''inbox'' (L_text p)) []
   \<and> sql_parse (''ENQUEUE INTO inbox VALUES (x'' @ [quote] @ hex_of p @ [quote] @ '')'')
     = Got (Enqueue ''inbox'' (L_blob p)) []"
  using parse_payload_literal(2) [OF primary_string [of "'')''" p]] parse_payload_literal(2) [OF primary_blob [of "'')''" p]]
  by simp

end
