(* ===== verification/Worker.thy ===== *)
theory Worker
  imports Connection_Laws Sql_Text_Laws
begin

text \<open>
  \<open>examples/worker.c\<close>: a queue is drained by a loop that takes a message, records its result in a
  table and writes a line to an audit stream, in one transaction.  The functions of the file are
  translated call by call over \<open>Connection\<close>; what they print is the list of lines they return.
  \<open>None\<close> is a run that never returns, which the interface allows for \<open>cyboudb_exec\<close>.
\<close>

datatype line = Out string | Err string

definition snprintf :: "nat \<Rightarrow> string \<Rightarrow> string" where
  "snprintf cap s = take (cap - 1) s"

section \<open>One job\<close>

definition fail :: "string \<Rightarrow> line" where
  "fail what = Err (''worker: '' @ what @ '' failed'')"

text \<open>The transaction is given up and a reason printed; the result of \<open>ROLLBACK\<close> is not looked at.\<close>

definition give_up :: "conn \<Rightarrow> string \<Rightarrow> (conn \<times> int \<times> bool \<times> line list) option" where
  "give_up c what = map_option (\<lambda>(c', s). (c', 1, False, [fail what])) (cyboudb_exec c ''ROLLBACK'')"

text \<open>The second half of \<open>process_one\<close>: the message is in \<open>payload\<close>, ended by a zero byte.\<close>

definition record_job :: "conn \<Rightarrow> nat \<Rightarrow> string \<Rightarrow> (conn \<times> int \<times> bool \<times> line list) option" where
  "record_job c len payload =
    Option.bind (cyboudb_exec c (snprintf 512 (insert_text len payload))) (\<lambda>(c1, s1).
      if s1 \<noteq> OK then give_up c1 ''INSERT''
      else Option.bind (cyboudb_exec c1 (snprintf 512
             (''APPEND TO audit VALUES ('' @ [quote] @ ''done: '' @ payload @ [quote] @ '')''))) (\<lambda>(c2, s2).
        if s2 \<noteq> OK then give_up c2 ''APPEND''
        else Option.bind (cyboudb_exec c2 ''COMMIT'') (\<lambda>(c3, s3).
          if s3 \<noteq> OK then Some (c3, 1, False, [fail ''COMMIT''])
          else Some (c3, 0, True, [Out (''  processed '' @ payload)]))))"

definition process_one :: "conn \<Rightarrow> (conn \<times> int \<times> bool \<times> line list) option" where
  "process_one c =
    Option.bind (cyboudb_exec c ''BEGIN'') (\<lambda>(c1, s1).
      if s1 \<noteq> OK then Some (c1, 1, False, [fail ''BEGIN''])
      else case cyboudb_prepare c1 ''DEQUEUE FROM inbox'' of (c2, s2, taken) \<Rightarrow>
        if s2 \<noteq> OK then give_up c2 ''prepare DEQUEUE''
        else case cyboudb_step c2 taken of (c3, rc) \<Rightarrow>
          let c4 = fst (cyboudb_finalize c3 taken); (ms, bytes) = cyboudb_message c3 taken 255
          in if rc = DONE then map_option (\<lambda>(c5, s). (c5, 0, False, [])) (cyboudb_exec c4 ''ROLLBACK'')
             else if rc \<noteq> ROW \<or> ms \<noteq> OK then give_up c4 ''DEQUEUE''
             else record_job c4 (length bytes) (c_str bytes))"

section \<open>The program\<close>

text \<open>\<open>processed\<close> is a C \<open>int\<close>, here a natural number.\<close>

partial_function (option) work_loop :: "conn \<Rightarrow> nat \<Rightarrow> line list \<Rightarrow> (conn \<times> bool \<times> nat \<times> line list) option" where
  "work_loop c processed out =
    Option.bind (process_one c) (\<lambda>(c1, rc, did_work, l).
      if rc \<noteq> 0 then Some (c1, False, processed, out @ l)
      else if \<not> did_work then Some (c1, True, processed, out @ l)
      else work_loop c1 (processed + 1) (out @ l))"

declare work_loop.simps [code]

partial_function (option) read_loop :: "conn \<Rightarrow> nat option \<Rightarrow> line list \<Rightarrow> (conn \<times> bool \<times> line list) option" where
  "read_loop c st out =
    (case cyboudb_step c st of (c1, rc) \<Rightarrow>
       if rc \<noteq> ROW then Some (c1, True, out)
       else case cyboudb_message c1 st 255 of (ms, bytes) \<Rightarrow>
         if ms \<noteq> OK then Some (c1, False, out @ [fail ''message''])
         else read_loop c1 st (out @ [Out (''  '' @ c_str bytes)]))"

declare read_loop.simps [code]

text \<open>Statements joined by \<open>||\<close>: the first that is not \<open>CybouDB_OK\<close> ends the row of them.\<close>

fun exec_all :: "conn \<Rightarrow> string list \<Rightarrow> (conn \<times> bool) option" where
  "exec_all c [] = Some (c, True)"
| "exec_all c (sql # sqls) =
    Option.bind (cyboudb_exec c sql) (\<lambda>(c1, s). if s \<noteq> OK then Some (c1, False) else exec_all c1 sqls)"

definition DB_PATH :: string where "DB_PATH = ''build/worker_example.cdb''"

definition schema :: "string list" where
  "schema = [''CREATE TABLE results (size INT64, note TEXT)'', ''CREATE QUEUE inbox'', ''CREATE STREAM audit'',
     ''CREATE CURSOR reporting ON audit'']"

definition jobs :: "string list" where
  "jobs = map (\<lambda>j. ''ENQUEUE INTO inbox VALUES ('' @ [quote] @ j @ [quote] @ '')'') [''alpha'', ''beta'', ''gamma'']"

text \<open>From \<open>READ FROM audit AS reporting\<close> to the end of \<open>main\<close>.\<close>

definition report :: "conn \<Rightarrow> nat \<Rightarrow> line list \<Rightarrow> (int \<times> conn \<times> line list) option" where
  "report c processed out =
    (case cyboudb_prepare c ''READ FROM audit AS reporting'' of (c1, s, st) \<Rightarrow>
       if s \<noteq> OK then Some (1, c1, out @ [fail ''prepare READ''])
       else Option.bind (read_loop c1 st out) (\<lambda>(c2, ok, out2).
         if \<not> ok then Some (1, c2, out2)
         else case cyboudb_close (fst (cyboudb_finalize c2 st)) of (c3, s3) \<Rightarrow>
           if s3 \<noteq> OK then Some (1, c3, out2 @ [fail ''close''])
           else Some (if processed = 3 then 0 else 1, c3, out2 @ [Out ''ok''])))"

definition main :: "(string \<rightharpoonup> dbfile) \<Rightarrow> event list \<Rightarrow> nat list \<Rightarrow> (int \<times> conn option \<times> line list) option" where
  "main files evs clock =
    (case cyboudb_create (Some DB_PATH) 4000 True (files(DB_PATH := None)) evs clock of
       (s, None) \<Rightarrow> Some (1, None, [fail ''create''])
     | (s, Some c) \<Rightarrow>
         if s \<noteq> OK then Some (1, Some c, [fail ''create''])
         else Option.bind (exec_all c schema) (\<lambda>(c1, ok1).
           if \<not> ok1 then Some (1, Some c1, [fail ''schema''])
           else Option.bind (exec_all c1 jobs) (\<lambda>(c2, ok2).
             let out = [Out ''queueing three jobs'']
             in if \<not> ok2 then Some (1, Some c2, out @ [fail ''enqueue''])
                else Option.bind (work_loop c2 0 (out @ [Out ''working''])) (\<lambda>(c3, ok3, processed, out3).
                  if \<not> ok3 then Some (1, Some c3, out3)
                  else map_option (\<lambda>(rc, c4, out4). (rc, Some c4, out4))
                    (report c3 processed (out3 @ [Out (''queue drained after '' @ dec processed @ '' jobs''),
                       Out ''what the reporting reader sees'']))))))"

end
