(* ===== verification/Catalog_Laws.thy ===== *)
theory Catalog_Laws
  imports Catalog
begin

text \<open>
  What the catalog promises its clients, as the locale \<open>directory\<close>: publishing a page changes what is
  found under one identifier and nothing else.  Below it, the abstract content of a queue as the list
  of its waiting messages and what the operations do to it.
\<close>

section \<open>The directory as an interface\<close>

text \<open>A directory is searched by name and read and written by identifier.  What its clients rely on:
  a name is found with the page its identifier has, two names that find one identifier are one name,
  and a write is seen by a read of the same identifier only and moves no name.\<close>

locale directory =
  fixes ok :: "'d \<Rightarrow> bool" and find :: "'d \<Rightarrow> string \<Rightarrow> (nat \<times> 'o) option"
    and page :: "'d \<Rightarrow> nat \<Rightarrow> 'o option" and publish :: "'d \<Rightarrow> nat \<Rightarrow> 'o \<Rightarrow> 'd"
    and alike :: "string \<Rightarrow> string \<Rightarrow> bool"
  assumes find_page: "ok d \<Longrightarrow> find d n = Some (i, ob) \<Longrightarrow> page d i = Some ob"
    and find_alike: "ok d \<Longrightarrow> find d n = Some (i, ob) \<Longrightarrow> find d m = Some (i, ob') \<Longrightarrow> alike n m"
    and find_publish: "find (publish d i ob) n = map_option (\<lambda>(j, old). (j, if j = i then ob else old)) (find d n)"
begin

lemma publish_found: "find d n = Some (i, old) \<Longrightarrow> find (publish d i ob) n = Some (i, ob)"
  by (simp add: find_publish)

lemma publish_other:
  assumes "ok d" and "find d n = Some (i, old)" and "\<not> alike n m"
  shows "find (publish d i ob) m = find d m"
proof (cases "find d m")
  case (Some e)
  obtain j old' where e: "e = (j, old')" by fastforce
  then have "j \<noteq> i" using find_alike [OF assms(1,2)] Some assms(3) by blast
  then show ?thesis by (simp add: find_publish Some e)
qed (simp add: find_publish)

end

definition ids_ok :: "catalog \<Rightarrow> bool" where
  "ids_ok cat \<longleftrightarrow> distinct (map fst cat)"

lemma validate_ids: "db_catalog_validate l cat \<Longrightarrow> ids_ok cat"
  by (auto simp: db_catalog_validate_def ids_ok_def strict_sorted_iff)

lemma find_object_entry:
  "catalog_find_object cat n = Some (i, ob) \<Longrightarrow> \<exists>m. (i, m, ob) \<in> set cat \<and> same_name m n"
  by (induction cat n rule: catalog_find_object.induct) (auto split: if_splits)

lemma ids_ok_entry: "ids_ok cat \<Longrightarrow> (i, e) \<in> set cat \<Longrightarrow> map_of cat i = Some e"
  by (simp add: ids_ok_def)

interpretation dir: directory ids_ok catalog_find_object db_catalog_page cat_set same_name
proof
  fix cat n i ob assume ok: "ids_ok cat" and f: "catalog_find_object cat n = Some (i, ob)"
  show "db_catalog_page cat i = Some ob"
    using find_object_entry [OF f] ids_ok_entry [OF ok] by (auto simp: db_catalog_page_def)
  fix m ob' assume f': "catalog_find_object cat m = Some (i, ob')"
  obtain k where k: "(i, k, ob) \<in> set cat" "same_name k n" using find_object_entry [OF f] by blast
  obtain k' where k': "(i, k', ob') \<in> set cat" "same_name k' m" using find_object_entry [OF f'] by blast
  have "k = k'" using ids_ok_entry [OF ok k(1)] ids_ok_entry [OF ok k'(1)] by simp
  with k(2) k'(2) show "same_name n m" by (simp add: same_name_def)
next
  fix cat i ob n
  show "catalog_find_object (cat_set cat i ob) n
      = map_option (\<lambda>(j, old). (j, if j = i then ob else old)) (catalog_find_object cat n)"
    by (induction cat n rule: catalog_find_object.induct) (auto simp: cat_set_def)
qed

lemma cat_set_keys [simp]: "map fst (cat_set cat i ob) = map fst cat"
  "map (fst \<circ> snd) (cat_set cat i ob) = map (fst \<circ> snd) cat" "length (cat_set cat i ob) = length cat"
  by (simp_all add: cat_set_def split_beta comp_def)

lemma ids_ok_set [simp]: "ids_ok (cat_set cat i ob) = ids_ok cat"
  by (simp add: ids_ok_def)

lemma validate_set:
  assumes "db_catalog_validate l cat" and "object_valid l ob"
  shows "db_catalog_validate l (cat_set cat i ob)"
proof -
  have "n \<noteq> [] \<and> object_valid l ob'" if m: "(j, n, ob') \<in> set (cat_set cat i ob)" for j n ob'
  proof -
    obtain old where "(j, n, old) \<in> set cat" "ob' = (if j = i then ob else old)"
      using m by (auto simp: cat_set_def)
    with assms show ?thesis by (auto simp: db_catalog_validate_def)
  qed
  with assms(1) show ?thesis by (auto simp: db_catalog_validate_def)
qed

lemma find_object_valid:
  "db_catalog_validate l cat \<Longrightarrow> catalog_find_object cat n = Some (i, ob) \<Longrightarrow> object_valid l ob"
  using find_object_entry [of cat n i ob] by (auto simp: db_catalog_validate_def)

section \<open>The messages of a queue\<close>

definition messages :: "queue \<Rightarrow> string list" where
  "messages q = map (\<lambda>p. sl_payload (slot_in q p)) [q_head q ..< q_tail q]"

lemma pop_messages:
  assumes "db_queue_segments_valid l q" and "db_queue_pop q = (q', Inr b)"
  shows "messages q = b # messages q'"
    and "queue_page_valid False q \<Longrightarrow> queue_page_valid False q'"
proof -
  define h where "h = q_head q"
  have ne: "h \<noteq> q_tail q" using assms(2) by (auto simp: db_queue_pop_def h_def)
  have seg: "h < q_tail q" "h div 62 = q_first_seg q"
    "(q_tail q - 1) div 62 + 1 = q_first_seg q + length (q_entries q)"
    using assms(1) ne by (auto simp: db_queue_segments_valid_def h_def)
  have q': "q' = db_catalog_seal ((move_head q (h + 1))\<lparr>q_claim := h + 1\<rparr>)"
    and b: "b = sl_payload (slot_in q h)"
    using assms(2) ne by (auto simp: db_queue_pop_def h_def queue_slot_at_def split: if_splits)
  have mono: "h div 62 \<le> (h + 1) div 62" by (simp add: div_le_mono)
  have in_dir: "(h + 1) div 62 - q_first_seg q < length (q_entries q)" if "h + 1 \<noteq> q_tail q"
  proof -
    have "h + 1 \<le> q_tail q - 1" using that seg(1) by simp
    then have "(h + 1) div 62 \<le> (q_tail q - 1) div 62" by (rule div_le_mono)
    with seg mono show ?thesis by linarith
  qed
  have "slot_in q' p = slot_in q p" if p: "h + 1 \<le> p" "p < q_tail q" for p
  proof -
    have ne': "h + 1 \<noteq> q_tail q" using p by simp
    have "(h + 1) div 62 \<le> p div 62" using p(1) by (rule div_le_mono)
    then have "(h + 1) div 62 - q_first_seg q + (p div 62 - (h + 1) div 62) = p div 62 - q_first_seg q"
      using mono seg(2) by linarith
    then show ?thesis
      using ne' in_dir [OF ne'] by (simp add: q' slot_in_def move_head_def db_catalog_seal_def)
  qed
  then have "messages q' = map (\<lambda>p. sl_payload (slot_in q p)) [h + 1 ..< q_tail q]"
    by (simp add: messages_def) (simp add: q' db_catalog_seal_def move_head_def)
  then show "messages q = b # messages q'"
    using seg(1) by (simp add: messages_def b h_def upt_conv_Cons)
  show "queue_page_valid False q'" if valid: "queue_page_valid False q"
  proof -
    have z: "\<forall>g \<in> set (q_entries q). seg_ready_at g = 0"
      using valid by (auto simp: queue_page_valid_def db_queue_segments_valid_def)
    have len: "length (q_entries q) \<le> Q_MAX_SEGMENTS" and floor: "q_time_floor q = 0"
      using valid by (auto simp: queue_page_valid_def db_queue_segments_valid_def)
    define es where "es = q_entries q'"
    have es: "es = (if h + 1 = q_tail q then [] else drop ((h + 1) div 62 - q_first_seg q) (q_entries q))"
      by (simp add: es_def q' move_head_def db_catalog_seal_def)
    have "\<forall>g \<in> set es. seg_ready_at g = 0" using z by (auto simp: es dest: in_set_dropD)
    moreover have "length es \<le> Q_MAX_SEGMENTS" using len by (auto simp: es)
    moreover have "(q_tail q - 1) div 62 + 1 = (h + 1) div 62 + length es" if "h + 1 \<noteq> q_tail q"
    proof -
      have "length es = length (q_entries q) - ((h + 1) div 62 - q_first_seg q)" using that by (simp add: es)
      with in_dir [OF that] seg mono show ?thesis by linarith
    qed
    moreover have "es = []" if "h + 1 = q_tail q" using that by (simp add: es)
    moreover have "q_head q' = h + 1" "q_tail q' = q_tail q" "q_claim q' = h + 1" "q_first_seg q' = (h + 1) div 62"
      "q_time_floor q' = 0" "q_sealed q'"
      using floor by (simp_all add: q' move_head_def db_catalog_seal_def)
    ultimately show ?thesis
      using seg(1) unfolding queue_page_valid_def db_queue_segments_valid_def lease_summaries_valid_def es_def by simp
  qed
qed

lemma pop_head:
  assumes "db_queue_segments_valid l q" and "messages q = m # ms"
  obtains q' where "db_queue_pop q = (q', Inr m)"
proof -
  have lt: "q_head q < q_tail q" using assms(2) by (auto simp: messages_def intro: ccontr)
  then have seg: "q_head q div 62 = q_first_seg q"
    "(q_tail q - 1) div 62 + 1 = q_first_seg q + length (q_entries q)"
    using assms(1) by (auto simp: db_queue_segments_valid_def)
  have "q_head q div 62 \<le> (q_tail q - 1) div 62" using lt by (intro div_le_mono) simp
  then have "queue_slot_at q (q_head q) = Some (slot_in q (q_head q))"
    using seg by (auto simp: queue_slot_at_def)
  moreover have "sl_payload (slot_in q (q_head q)) = m"
    using assms(2) lt by (simp add: messages_def upt_conv_Cons)
  ultimately show thesis using that lt by (simp add: db_queue_pop_def)
qed

end
