(* ===== verification/Worker_Safety.thy ===== *)
theory Worker_Safety
  imports Worker Catalog_Laws
begin

text \<open>
  What the header of \<open>examples/worker.c\<close> claims: whatever memory, storage and disk refuse, the file
  either is as it was or has exactly one job taken from the queue, recorded in the table and in the
  stream; there is no third outcome.  From it, by induction over crashes and restarts, every job is
  recorded exactly once or still waiting.
\<close>

section \<open>The worker's view of a catalog\<close>

definition inbox :: "catalog \<Rightarrow> string list" where
  "inbox cat = (case catalog_find_object cat ''inbox'' of Some (i, Que q) \<Rightarrow> messages q | _ \<Rightarrow> [])"

definition results :: "catalog \<Rightarrow> cell list list" where
  "results cat = (case catalog_find_object cat ''results'' of Some (i, Tab cols rows) \<Rightarrow> rows | _ \<Rightarrow> [])"

definition audit :: "catalog \<Rightarrow> string list" where
  "audit cat = (case catalog_find_object cat ''audit'' of Some (i, Str s) \<Rightarrow> s_records s | _ \<Rightarrow> [])"

definition audit_stream :: "catalog \<Rightarrow> stream option" where
  "audit_stream cat = (case catalog_find_object cat ''audit'' of Some (i, Str s) \<Rightarrow> Some s | _ \<Rightarrow> None)"

definition result_row :: "string \<Rightarrow> cell list" where
  "result_row m = [C_int (int (length m)), C_text (c_str m)]"

definition audit_line :: "string \<Rightarrow> string" where
  "audit_line m = ''done: '' @ c_str m"

text \<open>The whole effect of one job: the head of the queue is gone, its row and its line are there, and
  no other object is touched.\<close>

definition job_done :: "string \<Rightarrow> catalog \<Rightarrow> catalog \<Rightarrow> bool" where
  "job_done m cat cat' \<longleftrightarrow>
    inbox cat = m # inbox cat' \<and> results cat' = results cat @ [result_row m]
    \<and> audit cat' = audit cat @ [audit_line m]
    \<and> audit_stream cat' = map_option (\<lambda>s. s\<lparr>s_records := s_records s @ [audit_line m]\<rparr>) (audit_stream cat)
    \<and> (\<forall>n. \<not> same_name ''inbox'' n \<and> \<not> same_name ''results'' n \<and> \<not> same_name ''audit'' n \<longrightarrow>
         catalog_find_object cat' n = catalog_find_object cat n)"

lemma names_differ [simp]:
  "\<not> same_name ''inbox'' ''results''" "\<not> same_name ''inbox'' ''audit''" "\<not> same_name ''results'' ''inbox''"
  "\<not> same_name ''results'' ''audit''" "\<not> same_name ''audit'' ''inbox''" "\<not> same_name ''audit'' ''results''"
  by code_simp+

text \<open>Three publications, one for each object, are a job.\<close>

lemma job_doneI:
  assumes ok: "ids_ok cat" and l: "db_queue_segments_valid l q"
    and q: "catalog_find_object cat ''inbox'' = Some (i, Que q)" and pop: "db_queue_pop q = (q', Inr m)"
    and cat1: "cat1 = cat_set cat i (Que q')"
    and t: "catalog_find_object cat1 ''results'' = Some (j, Tab cols rows)"
    and cat2: "cat2 = cat_set cat1 j (Tab cols (rows @ [result_row m]))"
    and s: "catalog_find_object cat2 ''audit'' = Some (k, Str s)"
    and cat3: "cat3 = cat_set cat2 k (Str (s\<lparr>s_records := s_records s @ [audit_line m]\<rparr>))"
  shows "job_done m cat cat3"
proof -
  have ok12: "ids_ok cat1" "ids_ok cat2" using ok by (simp_all add: cat1 cat2)
  have o1: "catalog_find_object cat1 n = catalog_find_object cat n" if "\<not> same_name ''inbox'' n" for n
    unfolding cat1 by (rule dir.publish_other [OF ok q that])
  have o2: "catalog_find_object cat2 n = catalog_find_object cat1 n" if "\<not> same_name ''results'' n" for n
    unfolding cat2 by (rule dir.publish_other [OF ok12(1) t that])
  have o3: "catalog_find_object cat3 n = catalog_find_object cat2 n" if "\<not> same_name ''audit'' n" for n
    unfolding cat3 by (rule dir.publish_other [OF ok12(2) s that])
  have "catalog_find_object cat3 ''inbox'' = Some (i, Que q')"
    using dir.publish_found [OF q, of "Que q'"] by (simp add: o3 o2 cat1)
  moreover have "catalog_find_object cat3 ''results'' = Some (j, Tab cols (rows @ [result_row m]))"
    using dir.publish_found [OF t] by (simp add: o3 cat2)
  moreover have "catalog_find_object cat3 ''audit'' = Some (k, Str (s\<lparr>s_records := s_records s @ [audit_line m]\<rparr>))"
    using dir.publish_found [OF s] by (simp add: cat3)
  moreover have "catalog_find_object cat ''results'' = Some (j, Tab cols rows)" using t by (simp add: o1)
  moreover have "catalog_find_object cat ''audit'' = Some (k, Str s)" using s by (simp add: o1 o2)
  ultimately show ?thesis
    using pop_messages(1) [OF l pop] q o1 o2 o3
    by (simp add: job_done_def inbox_def results_def audit_def audit_stream_def)
qed

section \<open>The three statements\<close>

lemma compile_dequeue:
  "compile l cat ''DEQUEUE FROM inbox'' =
    (case catalog_find_queue cat ''inbox'' of
       None \<Rightarrow> Refused SQL_ERR_TABLE_NOT_FOUND ''queue not found in catalog'' | Some i \<Rightarrow> Bound (P_dequeue i))"
proof -
  have "sql_parse (c_str ''DEQUEUE FROM inbox'') = Got (Dequeue ''inbox'') []" by code_simp
  then show ?thesis by (simp add: compile_def bind_queue_def)
qed

lemma find_queue_iff: "catalog_find_queue cat n = Some i \<longleftrightarrow> (\<exists>q. catalog_find_object cat n = Some (i, Que q))"
  by (auto simp: catalog_find_queue_def split: option.splits dobj.splits)

lemma find_stream_iff: "catalog_find_stream cat n = Some i \<longleftrightarrow> (\<exists>s. catalog_find_object cat n = Some (i, Str s))"
  by (auto simp: catalog_find_stream_def split: option.splits dobj.splits)

lemma find_table_iff:
  "catalog_find_table cat n = Some (i, cols) \<longleftrightarrow> (\<exists>rows. catalog_find_object cat n = Some (i, Tab cols rows))"
  by (auto simp: catalog_find_table_def split: option.splits dobj.splits)

lemma exec_dequeue_cases:
  assumes "ids_ok cat" and "catalog_find_object cat ''inbox'' = Some (i, Que q)"
  shows "exec_dequeue g cat i = (cat', A_took b tk) \<Longrightarrow> \<exists>q'. db_queue_pop q = (q', Inr b) \<and> cat' = cat_set cat i (Que q')"
    and "exec_dequeue g cat i = (cat', A_empty) \<Longrightarrow> cat' = cat \<and> messages q = []"
    and "exec_dequeue g cat i \<noteq> (cat', A_done)" and "snd (exec_dequeue g cat i) \<noteq> A_unknown"
  using dir.find_page [OF assms]
  by (auto simp: exec_dequeue_def db_queue_peek_def db_queue_pop_def storage_error_def messages_def
      split: option.splits if_splits)

text \<open>The text of the \<open>INSERT\<close>, of any message a 255-byte buffer holds.\<close>

lemma dec_length: "n < 1000 \<Longrightarrow> length (dec n) \<le> 3"
proof -
  assume n: "n < 1000"
  have d: "length (dec n) = 1" if "n < 10" for n using that by (subst dec.simps) simp
  have d2: "length (dec n) \<le> 2" if "n < 100" for n using that d [of "n div 10"] d [of n] by (subst dec.simps) auto
  show ?thesis using n d2 [of "n div 10"] d [of n] by (subst dec.simps) auto
qed

lemma c_str_facts: "CHR 0x00 \<notin> set (c_str s)" "length (c_str s) \<le> length s"
  by (auto simp: c_str_def length_takeWhile_le dest: set_takeWhileD)

lemma c_str_id: "CHR 0x00 \<notin> set s \<Longrightarrow> c_str s = s"
  by (auto simp: c_str_def takeWhile_eq_all_conv)

lemma dec_no_nul: "CHR 0x00 \<notin> set (dec n)"
proof
  assume "CHR 0x00 \<in> set (dec n)"
  then have "is_digit (CHR 0x00)" using dec_digits [of n] by (auto simp: list_all_iff)
  moreover have "\<not> is_digit (CHR 0x00)" by code_simp
  ultimately show False by simp
qed

lemma insert_text_fits:
  assumes "length m \<le> 255"
  shows "snprintf 512 (insert_text (length m) (c_str m)) = insert_text (length m) (c_str m)"
    and "c_str (insert_text (length m) (c_str m)) = insert_text (length m) (c_str m)"
proof -
  have "length (insert_text (length m) (c_str m)) \<le> 511"
    using assms dec_length [of "length m"] c_str_facts(2) [of m] by (simp add: insert_text_def)
  then show "snprintf 512 (insert_text (length m) (c_str m)) = insert_text (length m) (c_str m)"
    by (simp add: snprintf_def)
  have "CHR 0x00 \<notin> set (insert_text (length m) (c_str m))"
    using dec_no_nul [of "length m"] c_str_facts(1) [of m] by (simp add: insert_text_def)
  then show "c_str (insert_text (length m) (c_str m)) = insert_text (length m) (c_str m)"
    by (rule c_str_id)
qed

definition append_text :: "string \<Rightarrow> string" where
  "append_text p = ''APPEND TO audit VALUES ('' @ [quote] @ ''done: '' @ p @ [quote] @ '')''"

lemma append_text_fits:
  assumes "length m \<le> 255"
  shows "snprintf 512 (append_text (c_str m)) = append_text (c_str m)"
    and "c_str (append_text (c_str m)) = append_text (c_str m)"
proof -
  show "snprintf 512 (append_text (c_str m)) = append_text (c_str m)"
    using assms c_str_facts(2) [of m] by (simp add: snprintf_def append_text_def)
  have "CHR 0x00 \<notin> set (append_text (c_str m))"
    using c_str_facts(1) [of m] by (simp add: append_text_def)
  then show "c_str (append_text (c_str m)) = append_text (c_str m)" by (rule c_str_id)
qed

definition result_columns :: "coldef list" where
  "result_columns = [\<lparr>cd_name = ''size'', cd_type = INT64, cd_nullable = True\<rparr>,
     \<lparr>cd_name = ''note'', cd_type = TEXT, cd_nullable = True\<rparr>]"

lemma compile_insert:
  assumes "length m \<le> 255" and "quote \<notin> set (c_str m)"
    and "catalog_find_object cat ''results'' = Some (j, Tab result_columns rows)"
  shows "compile l cat (snprintf 512 (insert_text (length m) (c_str m))) = Bound (P_insert j [result_row m])"
proof -
  have "sql_parse (insert_text (length m) (c_str m)) = Got (Insert ''results'' [[L_int (int (length m)), L_text (c_str m)]]) []"
    using assms by (intro parse_insert_text) simp_all
  moreover have "catalog_find_table cat ''results'' = Some (j, result_columns)"
    using assms(3) by (simp add: catalog_find_table_def)
  ultimately show ?thesis
    using assms(1)
    by (simp add: compile_def insert_text_fits bind_insert_def result_columns_def bind_cell_def bbind_def result_row_def)
qed

lemma compile_append:
  assumes "length m \<le> 255" and "quote \<notin> set (c_str m)"
    and "catalog_find_object cat ''audit'' = Some (k, Str s)"
  shows "compile l cat (snprintf 512 (append_text (c_str m))) = Bound (P_append k (audit_line m))"
proof -
  have "quote \<notin> set (''done: '' @ c_str m)" using assms(2) by simp
  then have "parse_primary (quote # (''done: '' @ c_str m) @ quote # '')'') = Got (L_text (audit_line m)) '')''"
    using primary_string [of "'')''" "''done: '' @ c_str m"] by (simp add: sql_quote_id audit_line_def)
  then have "sql_parse (append_text (c_str m)) = Got (Append ''audit'' (L_text (audit_line m))) []"
    using parse_payload_literal(1) by (simp add: append_text_def)
  moreover have "catalog_find_stream cat ''audit'' = Some k" using assms(3) by (auto simp: find_stream_iff)
  moreover have "length (audit_line m) < 2 ^ 32"
    using assms(1) c_str_facts(2) [of m] by (simp add: audit_line_def)
  ultimately show ?thesis
    using assms(1) by (simp add: compile_def append_text_fits bind_stream_def bind_payload_def Let_def)
qed

lemma insert_outcome:
  assumes "ids_ok cat" and "catalog_find_object cat ''results'' = Some (j, Tab result_columns rows)"
  shows "snd (sql_execute_batch l g v now cat (P_insert j [result_row m])) \<noteq> A_unknown"
    and "sql_execute_batch l g v now cat (P_insert j [result_row m]) = (cat', a) \<Longrightarrow> \<not> failing a
      \<Longrightarrow> cat' = cat_set cat j (Tab result_columns (rows @ [result_row m]))"
proof -
  have fits: "list_all2 cell_fits result_columns (result_row m)"
    by (simp add: result_columns_def result_row_def cell_fits_def)
  show "snd (sql_execute_batch l g v now cat (P_insert j [result_row m])) \<noteq> A_unknown"
    "sql_execute_batch l g v now cat (P_insert j [result_row m]) = (cat', a) \<Longrightarrow> \<not> failing a
      \<Longrightarrow> cat' = cat_set cat j (Tab result_columns (rows @ [result_row m]))"
    using dir.find_page [OF assms] fits
    by (auto simp: exec_insert_def storage_error_def failing_def split: option.splits if_splits)
qed

lemma append_outcome_catalog:
  assumes "ids_ok cat" and "catalog_find_object cat ''audit'' = Some (k, Str s)"
  shows "snd (sql_execute_batch l g v now cat (P_append k b)) \<noteq> A_unknown"
    and "sql_execute_batch l g v now cat (P_append k b) = (cat', a) \<Longrightarrow> \<not> failing a
      \<Longrightarrow> cat' = cat_set cat k (Str (s\<lparr>s_records := s_records s @ [b]\<rparr>))"
proof -
  have run: "sql_execute_batch l g v now cat (P_append k b)
      = storage_done (on_page g cat k (Str s) (apfst Str (db_stream_append s b)))"
    using dir.find_page [OF assms] by (simp add: on_stream_def)
  obtain s' e where ap: "db_stream_append s b = (s', e)" by fastforce
  show "snd (sql_execute_batch l g v now cat (P_append k b)) \<noteq> A_unknown"
    by (auto simp: run storage_done_def storage_error_def split: prod.splits option.splits)
  show "cat' = cat_set cat k (Str (s\<lparr>s_records := s_records s @ [b]\<rparr>))"
    if "sql_execute_batch l g v now cat (P_append k b) = (cat', a)" and "\<not> failing a"
  proof -
    have "e = None" "g = None" "cat' = cat_set cat k (Str s')"
      using that(1) [unfolded run] that(2) by (auto simp: ap on_page_def storage_done_def storage_error_def failing_def
          split: option.splits if_splits)
    with append_outcome(1) [of s b s'] ap show ?thesis by simp
  qed
qed

section \<open>Recording a job\<close>

lemma give_up_law:
  obtains c' where "give_up c what = Some (c', 1, False, [fail what])" and "cn_gens c' = cn_gens c"
    and "cn_leases c' = cn_leases c"
proof -
  obtain c' s where "cyboudb_exec c ''ROLLBACK'' = Some (c', s)" "cn_gens c' = cn_gens c" "cn_leases c' = cn_leases c"
    by (rule exec_rollback)
  then show thesis using that by (simp add: give_up_def)
qed

text \<open>How a transaction that stages \<open>cat\<close> from the connection \<open>c\<close> may end.\<close>

definition ends :: "conn \<Rightarrow> catalog \<Rightarrow> conn \<Rightarrow> int \<Rightarrow> bool \<Rightarrow> bool" where
  "ends c cat c' rc did \<longleftrightarrow> cn_leases c' = cn_leases c \<and>
    (if did then rc = 0 \<and> cn_gens c' = cat # cn_gens c \<and> cn_staged c' = cat \<and> \<not> cn_tx c'
       \<and> cn_rw c' = cn_rw c \<and> cn_failed c' = cn_failed c \<and> cn_open c' = cn_open c
       \<and> cn_generation c' = cn_generation c + 1 \<and> db_catalog_validate (cn_leases c) cat
     else rc = 1 \<and> (cn_gens c' = cn_gens c \<or> cn_gens c' = cat # cn_gens c \<and> cn_failed c'
       \<and> db_catalog_validate (cn_leases c) cat))"

lemma record_job_law:
  assumes tx: "cn_tx c" and ok: "ids_ok (cn_staged c)" and m: "length m \<le> 255" "quote \<notin> set (c_str m)"
    and t: "catalog_find_object (cn_staged c) ''results'' = Some (j, Tab result_columns rows)"
    and cat2: "cat2 = cat_set (cn_staged c) j (Tab result_columns (rows @ [result_row m]))"
    and s: "catalog_find_object cat2 ''audit'' = Some (k, Str s)"
    and cat3: "cat3 = cat_set cat2 k (Str (s\<lparr>s_records := s_records s @ [audit_line m]\<rparr>))"
  obtains c' rc did out where "record_job c (length m) (c_str m) = Some (c', rc, did, out)" and "ends c cat3 c' rc did"
proof -
  have ok2: "ids_ok cat2" using ok by (simp add: cat2)
  have p1: "simple_plan (P_insert j [result_row m])" "simple_plan (P_append k (audit_line m))"
    by (simp_all add: simple_plan_def hands_message_def)
  obtain c1 s1 where e1: "cyboudb_exec c (snprintf 512 (insert_text (length m) (c_str m))) = Some (c1, s1)"
    and db1: "same_db (c\<lparr>cn_staged := cn_staged c1\<rparr>) c1"
    and r1: "s1 = OK \<Longrightarrow> \<exists>v now a. sql_execute_batch (cn_leases c) (mutation_guard c) v now (cn_staged c)
        (P_insert j [result_row m]) = (cn_staged c1, a) \<and> \<not> failing a"
    by (rule exec_simple [OF tx compile_insert [OF m t] p1(1) insert_outcome(1) [OF ok t]]) blast
  show thesis
  proof (cases "s1 = OK")
    case False
    obtain c' where g: "give_up c1 ''INSERT'' = Some (c', 1, False, [fail ''INSERT''])" "cn_gens c' = cn_gens c1"
      "cn_leases c' = cn_leases c1" by (rule give_up_law)
    show thesis
      by (rule that [of c' 1 False]) (use False e1 g db1 in \<open>simp_all add: record_job_def ends_def same_db_def\<close>)
  next
    case True
    then have st1: "cn_staged c1 = cat2" using r1 insert_outcome(2) [OF ok t] by (metis cat2)
    have db1': "cn_tx c1" "cn_leases c1 = cn_leases c" "cn_gens c1 = cn_gens c"
      using db1 tx by (simp_all add: same_db_def)
    have ok1: "ids_ok (cn_staged c1)" and s1': "catalog_find_object (cn_staged c1) ''audit'' = Some (k, Str s)"
      using ok2 s by (simp_all add: st1)
    obtain c2 s2 where e2: "cyboudb_exec c1 (snprintf 512 (append_text (c_str m))) = Some (c2, s2)"
      and db2: "same_db (c1\<lparr>cn_staged := cn_staged c2\<rparr>) c2"
      and r2: "s2 = OK \<Longrightarrow> \<exists>v now a. sql_execute_batch (cn_leases c1) (mutation_guard c1) v now (cn_staged c1)
          (P_append k (audit_line m)) = (cn_staged c2, a) \<and> \<not> failing a"
      by (rule exec_simple [OF db1'(1) compile_append [OF m s1'] p1(2) append_outcome_catalog(1) [OF ok1 s1']]) blast
    show thesis
    proof (cases "s2 = OK")
      case False
      obtain c' where g: "give_up c2 ''APPEND'' = Some (c', 1, False, [fail ''APPEND''])" "cn_gens c' = cn_gens c2"
        "cn_leases c' = cn_leases c2" by (rule give_up_law)
      show thesis
        by (rule that [of c' 1 False])
           (use False True e1 e2 g db1 db2 in \<open>simp_all add: record_job_def ends_def same_db_def append_text_def\<close>)
    next
      case ok: True
      then have st2: "cn_staged c2 = cat3"
        using r2 append_outcome_catalog(2) [OF ok2 s] st1 by (metis cat3)
      have "same_db (c\<lparr>cn_staged := cat3\<rparr>) c2" using db1 db2 st2 by (simp add: same_db_def)
      obtain c3 s3 where e3: "cyboudb_exec c2 ''COMMIT'' = Some (c3, s3)" and l3: "cn_leases c3 = cn_leases c2"
        and r3: "s3 = OK \<Longrightarrow> cn_gens c3 = cn_staged c2 # cn_gens c2 \<and> cn_staged c3 = cn_staged c2 \<and> \<not> cn_tx c3
          \<and> cn_rw c3 = cn_rw c2 \<and> cn_failed c3 = cn_failed c2 \<and> cn_open c3 = cn_open c2
          \<and> cn_generation c3 = cn_generation c2 + 1 \<and> db_catalog_validate (cn_leases c2) (cn_staged c2)"
        and f3: "s3 \<noteq> OK \<Longrightarrow> cn_gens c3 = cn_gens c2 \<or> cn_gens c3 = cn_staged c2 # cn_gens c2 \<and> cn_failed c3
          \<and> db_catalog_validate (cn_leases c2) (cn_staged c2)"
        by (rule exec_commit [of c2]) blast
      define out where "out = (if s3 = OK then [Out (''  processed '' @ c_str m)] else [fail ''COMMIT''])"
      have "record_job c (length m) (c_str m) = Some (c3, if s3 = OK then 0 else 1, s3 = OK, out)"
        using True ok e1 e2 e3 by (simp add: record_job_def append_text_def out_def)
      moreover have "ends c cat3 c3 (if s3 = OK then 0 else 1) (s3 = OK)"
        using \<open>same_db (c\<lparr>cn_staged := cat3\<rparr>) c2\<close> l3 r3 f3 by (simp add: ends_def same_db_def)
      ultimately show thesis using that by blast
    qed
  qed
qed

section \<open>Taking a message\<close>

definition worker_catalog :: "catalog \<Rightarrow> bool" where
  "worker_catalog cat \<longleftrightarrow> db_catalog_validate False cat
    \<and> (\<exists>i q. catalog_find_object cat ''inbox'' = Some (i, Que q))
    \<and> (\<exists>j rows. catalog_find_object cat ''results'' = Some (j, Tab result_columns rows))
    \<and> (\<exists>k s. catalog_find_object cat ''audit'' = Some (k, Str s))"

text \<open>A connection between two jobs: nothing staged, no transaction.\<close>

definition idle :: "conn \<Rightarrow> bool" where
  "idle c \<longleftrightarrow> cn_open c \<and> \<not> cn_tx c \<and> \<not> cn_leases c \<and> cn_staged c = cn_live c \<and> worker_catalog (cn_live c)"

text \<open>Taking the head of the queue inside the transaction.\<close>

lemma take_law:
  assumes tx: "cn_tx c" and ok: "ids_ok (cn_staged c)" and st: "cn_stmts c k = Some (new_stmt (P_dequeue i))"
    and q: "catalog_find_object (cn_staged c) ''inbox'' = Some (i, Que q)"
    and step: "cyboudb_step c (Some k) = (c', rc)"
  shows "same_db (c\<lparr>cn_staged := cn_staged c'\<rparr>) c'"
    and "rc = DONE \<Longrightarrow> messages q = []"
    and "rc = ROW \<Longrightarrow> \<exists>q' b st'. db_queue_pop q = (q', Inr b) \<and> cn_staged c' = cat_set (cn_staged c) i (Que q')
      \<and> cn_stmts c' k = Some st' \<and> st_plan st' = P_dequeue i \<and> st_message st' = Some b"
proof -
  define c0 where "c0 = api_error_clear c"
  define st where "st = new_stmt (P_dequeue i)"
  have plan: "st_plan st = P_dequeue i" by (simp add: st_def new_stmt_def)
  have c0: "cn_tx c0" "cn_leases c0 = cn_leases c" "cn_staged c0 = cn_staged c" "same_db c c0"
    using tx by (simp_all add: c0_def api_error_clear_def same_db_def)
  have eq: "cyboudb_step c (Some k) = step_dequeue c0 k st"
    using step_hands_eq [OF st] by (simp add: c0_def st_def new_stmt_def hands_message_def)
  obtain c1 a where ex: "execute c0 (P_dequeue i) = (c1, a)" by fastforce
  have ex': "execute c0 (st_plan st) = (c1, a)" by (simp add: plan ex)
  note tx_step = step_dequeue_tx(1) [OF c0(1) ex', where k = k] step_dequeue_tx(2) [OF c0(1) ex', where k = k]
    step_dequeue_tx(3) [OF c0(1) ex', where k = k]
  note cases = exec_dequeue_cases [OF ok q]
  have frame: "same_db (c\<lparr>cn_staged := cn_staged c1\<rparr>) c1"
    using execute_frame(1) [OF ex] c0(4) by (simp add: same_db_def)
  have answer: "\<exists>g. exec_dequeue g (cn_staged c) i = (cn_staged c1, a)" if "\<not> failing a"
    using execute_answer [OF ex that] cases(4) c0(3) by auto
  consider "failing a" | b tk where "a = A_took b tk" | "\<not> failing a" "\<And>b tk. a \<noteq> A_took b tk"
    by blast
  note three = this
  show "same_db (c\<lparr>cn_staged := cn_staged c'\<rparr>) c'"
    using three
  proof cases
    case 1
    then show ?thesis using tx_step(1) step eq frame
      by (auto simp: step_mutation_error_def same_db_def api_error_report_def)
  next
    case (2 b tk)
    then show ?thesis using tx_step(2) step eq frame by (auto simp: same_db_def put_stmt_def)
  next
    case 3
    then show ?thesis using tx_step(3) step eq frame by (auto simp: same_db_def put_stmt_def)
  qed
  show "messages q = []" if d: "rc = DONE"
    using three
  proof cases
    case 3
    then have "a = A_empty" using answer cases(3,4) by (cases a) (auto simp: failing_def, metis snd_conv)
    then show ?thesis using answer cases(2) by (auto simp: failing_def)
  qed (use tx_step(1,2) step eq d in \<open>auto simp: step_mutation_error_def\<close>)
  show "\<exists>q' b st'. db_queue_pop q = (q', Inr b) \<and> cn_staged c' = cat_set (cn_staged c) i (Que q')
      \<and> cn_stmts c' k = Some st' \<and> st_plan st' = P_dequeue i \<and> st_message st' = Some b" if row: "rc = ROW"
    using three
  proof cases
    case (2 b tk)
    then have nf: "\<not> failing a" by (simp add: failing_def)
    obtain q' where "db_queue_pop q = (q', Inr b)" "cn_staged c1 = cat_set (cn_staged c) i (Que q')"
      using answer [OF nf] cases(1) 2 by blast
    with tx_step(2) [OF 2] step eq plan show ?thesis by (auto simp: put_stmt_def)
  qed (use tx_step(1,3) step eq row in \<open>auto simp: step_mutation_error_def\<close>)
qed

lemma worker_catalog_publish:
  assumes "worker_catalog cat" and "db_catalog_validate False cat3" and "cat3 = cat_set (cat_set (cat_set cat i (Que q)) j
      (Tab result_columns rows)) k (Str s)"
    and "catalog_find_object cat ''inbox'' = Some (i, Que q0)"
    and "catalog_find_object cat ''results'' = Some (j, Tab result_columns rows0)"
    and "catalog_find_object cat ''audit'' = Some (k, Str s0)"
  shows "worker_catalog cat3"
proof -
  have ok: "ids_ok cat" using assms(1) by (auto simp: worker_catalog_def intro: validate_ids)
  have "i \<noteq> j" "i \<noteq> k" "j \<noteq> k"
    using dir.find_page [OF ok assms(4)] dir.find_page [OF ok assms(5)] dir.find_page [OF ok assms(6)] by auto
  with assms(2,4-6) show ?thesis by (simp add: worker_catalog_def assms(3) dir.find_publish)
qed

text \<open>What \<open>process_one\<close> may do to the file.\<close>

definition job_outcome :: "conn \<Rightarrow> conn \<Rightarrow> int \<Rightarrow> bool \<Rightarrow> bool" where
  "job_outcome c c' rc did \<longleftrightarrow>
    (if did then rc = 0 \<and> idle c' \<and> cn_rw c' = cn_rw c \<and> cn_failed c' = cn_failed c
       \<and> cn_generation c' = cn_generation c + 1 \<and> (\<exists>m cat. cn_gens c' = cat # cn_gens c \<and> job_done m (cn_live c) cat \<and> worker_catalog cat)
     else (cn_gens c' = cn_gens c \<and> (rc = 0 \<longrightarrow> inbox (cn_live c) = []))
       \<or> (rc = 1 \<and> cn_failed c' \<and> (\<exists>m cat. cn_gens c' = cat # cn_gens c \<and> job_done m (cn_live c) cat \<and> worker_catalog cat)))"

lemma process_one_law:
  assumes idle: "idle c" and plain: "\<forall>m \<in> set (inbox (cn_live c)). quote \<notin> set (c_str m)"
  obtains c' rc did out where "process_one c = Some (c', rc, did, out)" and "job_outcome c c' rc did"
proof -
  define cat where "cat = cn_live c"
  have wc: "worker_catalog cat" and staged: "cn_staged c = cat" and nl: "\<not> cn_leases c"
    using idle by (simp_all add: idle_def cat_def)
  have ok: "ids_ok cat" using wc by (auto simp: worker_catalog_def intro: validate_ids)
  obtain i q j rows k s where q: "catalog_find_object cat ''inbox'' = Some (i, Que q)"
    and t: "catalog_find_object cat ''results'' = Some (j, Tab result_columns rows)"
    and s: "catalog_find_object cat ''audit'' = Some (k, Str s)"
    using wc by (auto simp: worker_catalog_def)
  have "object_valid False (Que q)" using wc q by (auto simp: worker_catalog_def intro: find_object_valid)
  then have seg: "db_queue_segments_valid False q" by (simp add: object_valid_def queue_page_valid_def)
  obtain c1 s1 where b: "cyboudb_exec c ''BEGIN'' = Some (c1, s1)"
    and b_ok: "s1 = OK \<Longrightarrow> same_db (c\<lparr>cn_tx := True\<rparr>) c1 \<and> cn_rw c \<and> \<not> cn_tx c" and b_no: "s1 \<noteq> OK \<Longrightarrow> same_db c c1"
    by (rule exec_begin [of c]) blast
  show thesis
  proof (cases "s1 = OK")
    case False
    show thesis
      by (rule that [of c1 1 False]) (use False b b_no in \<open>simp_all add: process_one_def job_outcome_def same_db_def\<close>)
  next
    case bg: True
    have db1: "same_db (c\<lparr>cn_tx := True\<rparr>) c1" using b_ok [OF bg] by simp
    obtain c2 s2 h where prep: "cyboudb_prepare c1 ''DEQUEUE FROM inbox'' = (c2, s2, h)" by (metis prod_cases3)
    have db2: "same_db (c\<lparr>cn_tx := True\<rparr>) c2" using db1 prepare_law(1) [OF prep] by (rule same_db_trans)
    show thesis
    proof (cases "s2 = OK")
      case False
      obtain c' where g: "give_up c2 ''prepare DEQUEUE'' = Some (c', 1, False, [fail ''prepare DEQUEUE''])"
        "cn_gens c' = cn_gens c2" by (rule give_up_law [of c2 "''prepare DEQUEUE''"])
      show thesis
        by (rule that [of c' 1 False])
           (use bg False b prep g db2 in \<open>simp_all add: process_one_def job_outcome_def same_db_def\<close>)
    next
      case True
      note law = prepare_law(3) [OF prep True]
      have pl: "compile (cn_leases c1) (cn_staged c1) ''DEQUEUE FROM inbox'' = Bound (P_dequeue i)"
        using db1 staged q by (simp add: compile_dequeue catalog_find_queue_def same_db_def)
      obtain n where h: "h = Some n" and st: "cn_stmts c2 n = Some (new_stmt (P_dequeue i))"
        using law pl by auto
      have c2: "cn_tx c2" "cn_staged c2 = cat" "cn_gens c2 = cn_gens c" "cn_leases c2 = cn_leases c"
        using db2 staged by (simp_all add: same_db_def)
      obtain c3 rc where step: "cyboudb_step c2 h = (c3, rc)" by fastforce
      define c4 where "c4 = fst (cyboudb_finalize c3 h)"
      obtain ms bytes where msg: "cyboudb_message c3 h 255 = (ms, bytes)" by fastforce
      have run: "process_one c = (if rc = DONE then map_option (\<lambda>(c5, s). (c5, 0, False, [])) (cyboudb_exec c4 ''ROLLBACK'')
             else if rc \<noteq> ROW \<or> ms \<noteq> OK then give_up c4 ''DEQUEUE''
             else record_job c4 (length bytes) (c_str bytes))"
        using b bg True prep step msg by (simp add: process_one_def c4_def)
      note take = take_law [OF c2(1) _ st, unfolded c2(2), OF ok q step [unfolded h]]
      have db4: "same_db c3 c4" unfolding c4_def by (rule finalize_law(1) [OF surjective_pairing])
      have db34: "same_db (c2\<lparr>cn_staged := cn_staged c4\<rparr>) c4" using take(1) db4 by (simp add: same_db_def)
      then have gens4: "cn_gens c4 = cn_gens c" using c2(3) by (simp add: same_db_def)
      consider "rc = DONE" | "rc \<noteq> DONE" "rc \<noteq> ROW \<or> ms \<noteq> OK" | "rc = ROW" "ms = OK" by blast
      then show thesis
      proof cases
        case 1
        obtain c5 s5 where rb: "cyboudb_exec c4 ''ROLLBACK'' = Some (c5, s5)" "cn_gens c5 = cn_gens c4"
          by (rule exec_rollback [of c4]) blast
        have "inbox cat = []" using take(2) [OF 1] by (simp add: inbox_def q)
        then show thesis
          by (intro that [of c5 0 False "[]"]) (use 1 run rb gens4 in \<open>simp_all add: job_outcome_def cat_def\<close>)
      next
        case 2
        obtain c' where g: "give_up c4 ''DEQUEUE'' = Some (c', 1, False, [fail ''DEQUEUE''])"
          "cn_gens c' = cn_gens c4" by (rule give_up_law [of c4 "''DEQUEUE''"])
        show thesis
          by (rule that [of c' 1 False]) (use 2 run g gens4 in \<open>simp_all add: job_outcome_def\<close>)
      next
        case 3
        obtain q' m st' where pop: "db_queue_pop q = (q', Inr m)" and c3: "cn_staged c3 = cat_set cat i (Que q')"
          "cn_stmts c3 n = Some st'" "st_plan st' = P_dequeue i" "st_message st' = Some m"
          using take(3) [OF 3(1)] by blast
        have bytes: "bytes = m" "length m \<le> 255"
          using msg 3(2) c3(2-4) by (auto simp: cyboudb_message_def h hands_message_def split: if_splits)
        have "m \<in> set (inbox cat)" using pop_messages(1) [OF seg pop] by (simp add: inbox_def q)
        then have text_m: "quote \<notin> set (c_str m)" using plain by (simp add: cat_def)
        define cat1 where "cat1 = cat_set cat i (Que q')"
        have st4: "cn_staged c4 = cat1" using db4 c3(1) by (simp add: same_db_def cat1_def)
        have ok1: "ids_ok cat1" using ok by (simp add: cat1_def)
        have t1: "catalog_find_object cat1 ''results'' = Some (j, Tab result_columns rows)"
          unfolding cat1_def by (simp add: dir.publish_other [OF ok q] t)
        define cat2 where "cat2 = cat_set cat1 j (Tab result_columns (rows @ [result_row m]))"
        have s2: "catalog_find_object cat2 ''audit'' = Some (k, Str s)"
          unfolding cat2_def by (simp add: dir.publish_other [OF ok1 t1]) (simp add: cat1_def dir.publish_other [OF ok q] s)
        define cat3 where "cat3 = cat_set cat2 k (Str (s\<lparr>s_records := s_records s @ [audit_line m]\<rparr>))"
        have job: "job_done m cat cat3"
          by (rule job_doneI [OF ok seg q pop cat1_def t1 cat2_def s2 cat3_def])
        have tx4: "cn_tx c4" using db34 c2(1) by (simp add: same_db_def)
        obtain c' rc' did out where rj: "record_job c4 (length m) (c_str m) = Some (c', rc', did, out)"
          and e: "ends c4 cat3 c' rc' did"
          by (rule record_job_law [OF tx4 ok1 [folded st4] bytes(2) text_m t1 [folded st4] cat2_def [folded st4] s2 cat3_def])
        have l4: "\<not> cn_leases c4" "cn_open c4" using db34 c2(4) nl db2 idle by (simp_all add: same_db_def idle_def)
        have c4: "cn_rw c4 = cn_rw c" "cn_failed c4 = cn_failed c" "cn_generation c4 = cn_generation c"
          using db34 db2 by (simp_all add: same_db_def)
        have wc3: "worker_catalog cat3" if "db_catalog_validate False cat3"
          by (rule worker_catalog_publish [OF wc that _ q t s]) (simp add: cat3_def cat2_def cat1_def)
        have "idle c'" if did
          using e that l4 wc3 by (simp add: ends_def idle_def cn_live_def)
        then have "job_outcome c c' rc' did"
          using e job gens4 wc3 l4 c4 by (auto simp: ends_def job_outcome_def cat_def)
        then show thesis using that rj run 3 bytes(1) by simp
      qed
    qed
  qed
qed

section \<open>No third outcome\<close>

text \<open>The file after a run: its newest generation is the one it had, or the one with a job done.\<close>

lemma job_outcome_live:
  assumes "job_outcome c c' rc did"
  shows "cn_gens c' = cn_gens c \<or> (\<exists>m. job_done m (cn_live c) (cn_live c') \<and> worker_catalog (cn_live c'))"
  using assms by (auto simp: job_outcome_def cn_live_def split: if_splits)

text \<open>C1 There is no third outcome.  Whatever fails while \<open>process_one\<close> runs -- an allocation, a storage
  call, a flush -- it returns, and the file it leaves either is the one it found or has one new
  generation in which the message at the head of the queue is gone, its row is in \<open>results\<close>, its line
  is in \<open>audit\<close> and no other object differs.  It reports success with a job only in the second case, and
  success without one only when the queue is empty.  The messages must be free of apostrophes, since
  the program pastes them into SQL text.\<close>

theorem worker_no_third_outcome:
  assumes "idle c" and "\<forall>m \<in> set (inbox (cn_live c)). quote \<notin> set (c_str m)"
  shows "\<exists>c' rc did out. process_one c = Some (c', rc, did, out)
    \<and> (cn_gens c' = cn_gens c \<or> (\<exists>m cat. cn_gens c' = cat # cn_gens c \<and> job_done m (cn_live c) cat))
    \<and> (did \<longrightarrow> rc = 0 \<and> idle c' \<and> cn_gens c' \<noteq> cn_gens c)
    \<and> (rc = 0 \<and> \<not> did \<longrightarrow> cn_gens c' = cn_gens c \<and> inbox (cn_live c) = [])"
proof -
  obtain c' rc did out where "process_one c = Some (c', rc, did, out)" and "job_outcome c c' rc did"
    by (rule process_one_law [OF assms])
  then show ?thesis by (intro exI [of _ c'] exI [of _ rc] exI [of _ did] exI [of _ out])
    (auto simp: job_outcome_def split: if_splits)
qed

text \<open>A file with one waiting job, opened with a flush that fails at the commit.\<close>

definition sample_catalog :: catalog where
  "sample_catalog = [(1, ''results'', Tab result_columns []), (2, ''inbox'', Que (fst (db_queue_push new_queue ''job''))),
     (3, ''audit'', Str new_stream)]"

definition sample :: "event list \<Rightarrow> conn" where
  "sample evs = new_conn OPEN_READWRITE \<lparr>f_gens = [sample_catalog], f_generation = 9, f_leases = False\<rparr> evs []"

definition bad_flush :: "event list" where
  "bad_flush = [Fine, Fine, Fine, Fine, Fine, Fine, Fine, Fine, Sync_fails True]"

lemma idle_sample: "idle (sample evs)"
proof -
  have live: "cn_live (sample evs) = sample_catalog" by (simp add: cn_live_def sample_def new_conn_def)
  have "db_catalog_validate False sample_catalog"
    "catalog_find_object sample_catalog ''inbox'' = Some (2, Que (fst (db_queue_push new_queue ''job'')))"
    "catalog_find_object sample_catalog ''results'' = Some (1, Tab result_columns [])"
    "catalog_find_object sample_catalog ''audit'' = Some (3, Str new_stream)"
    by code_simp+
  then have "worker_catalog sample_catalog" by (auto simp: worker_catalog_def)
  then show ?thesis by (simp add: idle_def live) (simp add: sample_def new_conn_def)
qed

lemma inbox_sample: "inbox (cn_live (sample evs)) = [''job'']"
proof -
  have "inbox sample_catalog = [''job'']" by code_simp
  then show ?thesis by (simp add: cn_live_def sample_def new_conn_def)
qed

theorem worker_no_third_outcome_witness:
  "\<exists>c' rc did out. process_one (sample bad_flush) = Some (c', rc, did, out)
    \<and> (cn_gens c' = cn_gens (sample bad_flush)
       \<or> (\<exists>m cat. cn_gens c' = cat # cn_gens (sample bad_flush) \<and> job_done m (cn_live (sample bad_flush)) cat))"
  using worker_no_third_outcome [OF idle_sample [of bad_flush]]
  by (auto simp: inbox_sample c_str_def)

section \<open>Exactly once\<close>

text \<open>The life of the file under workers that may die: a worker takes jobs over a connection between two
  jobs, and at any moment a new connection may be opened on what the disk holds, with its own
  failures ahead.\<close>

inductive service :: "conn \<Rightarrow> conn \<Rightarrow> bool" for c0 where
  start: "service c0 c0"
| job: "service c0 c \<Longrightarrow> idle c \<Longrightarrow> process_one c = Some (c', rc, did, out) \<Longrightarrow> service c0 c'"
| reopen: "service c0 c \<Longrightarrow> service c0 (new_conn OPEN_READWRITE
    \<lparr>f_gens = cn_gens c, f_generation = g, f_leases = False\<rparr> evs clock)"

lemma live_new_conn [simp]: "cn_live (new_conn fl \<lparr>f_gens = cn_gens c, f_generation = g, f_leases = l\<rparr> evs clock) = cn_live c"
  by (simp add: new_conn_def cn_live_def)

lemma live_gens: "cn_gens c' = cn_gens c \<Longrightarrow> cn_live c' = cn_live c"
  by (simp add: cn_live_def)

definition all_rows :: "catalog \<Rightarrow> cell list list" where
  "all_rows cat = results cat @ map result_row (inbox cat)"

definition all_lines :: "catalog \<Rightarrow> string list" where
  "all_lines cat = audit cat @ map audit_line (inbox cat)"

lemma service_invariant:
  assumes "service c0 c" and "worker_catalog (cn_live c0)" and "\<forall>m \<in> set (inbox (cn_live c0)). quote \<notin> set (c_str m)"
  shows "worker_catalog (cn_live c) \<and> set (inbox (cn_live c)) \<subseteq> set (inbox (cn_live c0))
    \<and> all_rows (cn_live c) = all_rows (cn_live c0) \<and> all_lines (cn_live c) = all_lines (cn_live c0)"
  using assms(1)
proof induction
  case start
  then show ?case using assms(2) by simp
next
  case (job c c' rc did out)
  have "\<forall>m \<in> set (inbox (cn_live c)). quote \<notin> set (c_str m)" using job.IH assms(3) by blast
  then obtain c'' rc'' did'' out'' where "process_one c = Some (c'', rc'', did'', out'')" "job_outcome c c'' rc'' did''"
    by (rule process_one_law [OF job.hyps(2)])
  then have "job_outcome c c' rc did" using job.hyps(3) by simp
  from job_outcome_live [OF this] consider "cn_gens c' = cn_gens c"
    | m where "job_done m (cn_live c) (cn_live c')" "worker_catalog (cn_live c')" by blast
  then show ?case
  proof cases
    case 1
    then show ?thesis using job.IH live_gens [OF 1] by simp
  next
    case (2 m)
    then have "inbox (cn_live c) = m # inbox (cn_live c')" "all_rows (cn_live c') = all_rows (cn_live c)"
      "all_lines (cn_live c') = all_lines (cn_live c)"
      by (simp_all add: job_done_def all_rows_def all_lines_def)
    then show ?thesis using job.IH 2(2) by simp
  qed
qed simp

text \<open>C2 Exactly once.  However often workers fail, die and are started again, the rows of \<open>results\<close>
  followed by the rows the waiting messages will give are always the same list, and so are the lines of
  \<open>audit\<close>: no job is lost, none is recorded twice, and the order of the queue is the order of the
  results.\<close>

theorem worker_exactly_once:
  assumes "service c0 c" and "worker_catalog (cn_live c0)" and "\<forall>m \<in> set (inbox (cn_live c0)). quote \<notin> set (c_str m)"
  shows "results (cn_live c) @ map result_row (inbox (cn_live c))
      = results (cn_live c0) @ map result_row (inbox (cn_live c0))
    \<and> audit (cn_live c) @ map audit_line (inbox (cn_live c))
      = audit (cn_live c0) @ map audit_line (inbox (cn_live c0))"
  using service_invariant [OF assms] by (simp add: all_rows_def all_lines_def)

text \<open>A flush that fails, and the worker that comes after.\<close>

theorem worker_exactly_once_witness:
  "\<exists>c. service (sample bad_flush) c \<and> results (cn_live c) @ map result_row (inbox (cn_live c)) = [result_row ''job'']"
proof -
  have plain: "\<forall>m \<in> set (inbox (cn_live (sample bad_flush))). quote \<notin> set (c_str m)"
    by (simp add: inbox_sample c_str_def)
  obtain c' rc did out where run: "process_one (sample bad_flush) = Some (c', rc, did, out)"
    by (rule process_one_law [OF idle_sample plain])
  have s: "service (sample bad_flush) c'" by (rule service.job [OF service.start idle_sample run])
  have w: "worker_catalog (cn_live (sample bad_flush))" using idle_sample by (simp add: idle_def)
  have "results sample_catalog = []" by code_simp
  then have "results (cn_live (sample bad_flush)) = []" by (simp add: cn_live_def sample_def new_conn_def)
  with worker_exactly_once [OF s w plain] s show ?thesis by (auto simp: inbox_sample)
qed

end
