(* ===== verification/Worker_Progress.thy ===== *)
theory Worker_Progress
  imports Worker_Safety
begin

text \<open>
  That the worker gets its work done: when nothing fails, the loop of \<open>examples/worker.c\<close> returns, the
  queue is empty, and every message has its row and its line, in order.
\<close>

section \<open>Calls when nothing fails\<close>

lemma next_event_quiet: "cn_events c = [] \<Longrightarrow> next_event c = (Fine, c)"
  by (simp add: next_event_def)

lemma exec_quiet:
  assumes "cn_open c" and "cn_events c = []" and "compile (cn_leases c) (cn_staged c) sql = Bound pl"
    and "cyboudb_step (fst (add_stmt c pl)) (Some (cn_next c)) = (c2, DONE)"
  shows "cyboudb_exec c sql = Some (fst (cyboudb_finalize c2 (Some (cn_next c))), OK)"
proof -
  have "cyboudb_prepare c sql = (fst (add_stmt c pl), OK, Some (cn_next c))"
    using assms(1-3) by (simp add: cyboudb_prepare_def next_event_quiet add_stmt_def)
  from exec_run [OF this assms(4)] show ?thesis by (cases "cyboudb_finalize c2 (Some (cn_next c))") simp
qed

lemma finalize_events: "cn_events (fst (cyboudb_finalize c h)) = cn_events c"
  "cn_staged (fst (cyboudb_finalize c h)) = cn_staged c"
  by (auto simp: cyboudb_finalize_def split: option.splits)

lemma exec_begin_quiet:
  assumes "cn_open c" and "cn_events c = []" and "cn_rw c" and "\<not> cn_tx c"
  shows "\<exists>c'. cyboudb_exec c ''BEGIN'' = Some (c', OK) \<and> cn_events c' = []"
proof -
  have "sql_parse (c_str ''BEGIN'') = Got Begin []" by code_simp
  then have pl: "compile (cn_leases c) (cn_staged c) ''BEGIN'' = Bound P_begin" by (simp add: compile_def)
  obtain c2 where "cyboudb_step (fst (add_stmt c P_begin)) (Some (cn_next c)) = (c2, DONE)" "cn_events c2 = []"
    using assms by (simp add: cyboudb_step_def add_stmt_def new_stmt_def step_begin_def api_error_clear_def
        step_done_def put_stmt_def)
  then show ?thesis using exec_quiet [OF assms(1,2) pl] finalize_events by metis
qed

lemma exec_commit_quiet:
  assumes "cn_open c" and "cn_events c = []" and "cn_rw c" and "cn_tx c" and "\<not> cn_failed c"
    and "cn_generation c \<noteq> U64_MAX" and "db_catalog_validate (cn_leases c) (cn_staged c)"
  shows "\<exists>c'. cyboudb_exec c ''COMMIT'' = Some (c', OK) \<and> cn_events c' = []"
proof -
  have "sql_parse (c_str ''COMMIT'') = Got Commit []" by code_simp
  then have pl: "compile (cn_leases c) (cn_staged c) ''COMMIT'' = Bound P_commit" by (simp add: compile_def)
  obtain c2 where "cyboudb_step (fst (add_stmt c P_commit)) (Some (cn_next c)) = (c2, DONE)" "cn_events c2 = []"
    using assms by (simp add: cyboudb_step_def add_stmt_def new_stmt_def step_commit_def api_error_clear_def
        db_commit_def next_event_def step_done_def put_stmt_def)
  then show ?thesis using exec_quiet [OF assms(1,2) pl] finalize_events by metis
qed

lemma execute_quiet:
  assumes "cn_events c = []" and "\<not> uses_clock pl"
    and "sql_execute_batch (cn_leases c) (mutation_guard c) (current_valid c) 0 (cn_staged c) pl = (cat, a)"
  shows "\<exists>v. execute c pl = (c\<lparr>cn_validated := v, cn_staged := cat\<rparr>, a)"
  using assms by (auto simp: execute_def next_event_quiet Let_def)

lemma exec_simple_quiet:
  assumes "cn_open c" and "cn_events c = []" and "cn_tx c"
    and pl: "compile (cn_leases c) (cn_staged c) sql = Bound pl" "simple_plan pl" "\<not> uses_clock pl"
    and run: "sql_execute_batch (cn_leases c) (mutation_guard c) (current_valid c) 0 (cn_staged c) pl = (cat, A_done)"
  shows "\<exists>c'. cyboudb_exec c sql = Some (c', OK) \<and> cn_events c' = [] \<and> cn_staged c' = cat"
proof -
  define c0 where "c0 = api_error_clear (fst (add_stmt c pl))"
  have c0: "cn_events c0 = []" "cn_tx c0" "cn_leases c0 = cn_leases c" "mutation_guard c0 = mutation_guard c"
    "current_valid c0 = current_valid c" "cn_staged c0 = cn_staged c"
    using assms(2,3) by (simp_all add: c0_def api_error_clear_def add_stmt_def mutation_guard_def current_valid_def)
  obtain v where ex: "execute c0 pl = (c0\<lparr>cn_validated := v, cn_staged := cat\<rparr>, A_done)"
    using execute_quiet [OF c0(1) pl(3)] run c0 by fastforce
  have st: "cn_stmts (fst (add_stmt c pl)) (cn_next c) = Some (new_stmt pl)" by (simp add: add_stmt_def)
  have plan: "st_plan (new_stmt pl) = pl" "st_state (new_stmt pl) = STATE_INIT" by (simp_all add: new_stmt_def)
  have "cyboudb_step (fst (add_stmt c pl)) (Some (cn_next c))
      = step_done (c0\<lparr>cn_validated := v, cn_staged := cat\<rparr>) (cn_next c) (new_stmt pl)"
    using step_simple_eq [OF st] step_drop_tx(2) [OF c0(2) plan(2)] ex pl(2)
    by (simp add: plan(1) c0_def failing_def)
  then obtain c2 where "cyboudb_step (fst (add_stmt c pl)) (Some (cn_next c)) = (c2, DONE)" "cn_events c2 = []" "cn_staged c2 = cat"
    using c0(1) by (simp add: step_done_def put_stmt_def)
  then show ?thesis using exec_quiet [OF assms(1,2) pl(1)] finalize_events by metis
qed

section \<open>One job, when nothing fails\<close>

text \<open>There is room in the audit stream for \<open>n\<close> more records.\<close>

definition room :: "catalog \<Rightarrow> nat \<Rightarrow> bool" where
  "room cat n \<longleftrightarrow> (case audit_stream cat of
     Some s \<Rightarrow> s_end s + n \<le> (s_first_seg s + S_MAX_SEGMENTS) * QUEUE_SEG_SLOTS | None \<Rightarrow> False)"

lemma append_quiet:
  assumes "s_end s < (s_first_seg s + S_MAX_SEGMENTS) * QUEUE_SEG_SLOTS" and "length b < 2 ^ 32"
  shows "db_stream_append s b = (s\<lparr>s_records := s_records s @ [b]\<rparr>, None)"
proof -
  have "s_end s div 62 < s_first_seg s + 463" using assms(1) by (simp add: less_mult_imp_div_less)
  then show ?thesis using assms(2) by (auto simp: db_stream_append_def Let_def)
qed

definition calm :: "conn \<Rightarrow> nat \<Rightarrow> bool" where
  "calm c n \<longleftrightarrow> idle c \<and> cn_events c = [] \<and> cn_rw c \<and> \<not> cn_failed c \<and> cn_generation c + n < U64_MAX
     \<and> room (cn_live c) n"

lemma record_job_quiet:
  assumes c: "cn_open c" "cn_events c = []" "cn_tx c" "cn_rw c" "\<not> cn_failed c" "cn_generation c < U64_MAX" "\<not> cn_leases c"
    and valid: "db_catalog_validate False (cn_staged c)" and m: "length m \<le> 255" "quote \<notin> set (c_str m)"
    and t: "catalog_find_object (cn_staged c) ''results'' = Some (j, Tab result_columns rows)"
    and s: "catalog_find_object (cn_staged c) ''audit'' = Some (k, Str s)" and rm: "room (cn_staged c) 1"
  shows "\<exists>c' out. record_job c (length m) (c_str m) = Some (c', 0, True, out) \<and> cn_events c' = []"
proof -
  have ok: "ids_ok (cn_staged c)" using valid by (rule validate_ids)
  have guard: "mutation_guard c = None" using c by (simp add: mutation_guard_def)
  define cat2 where "cat2 = cat_set (cn_staged c) j (Tab result_columns (rows @ [result_row m]))"
  have fits: "list_all2 cell_fits result_columns (result_row m)"
    by (simp add: result_columns_def result_row_def cell_fits_def)
  have "sql_execute_batch (cn_leases c) (mutation_guard c) (current_valid c) 0 (cn_staged c) (P_insert j [result_row m])
      = (cat2, A_done)"
    using dir.find_page [OF ok t] fits guard c(7) valid by (simp add: exec_insert_def cat2_def current_valid_def)
  then obtain c1 where e1: "cyboudb_exec c (snprintf 512 (insert_text (length m) (c_str m))) = Some (c1, OK)"
    and c1: "cn_events c1 = []" "cn_staged c1 = cat2"
    using exec_simple_quiet [OF c(1-3) compile_insert [OF m t]]
    by (auto simp: simple_plan_def hands_message_def uses_clock_def)
  have db1: "same_db (c\<lparr>cn_staged := cn_staged c1\<rparr>) c1"
    by (rule exec_simple [OF c(3) compile_insert [OF m t] _ insert_outcome(1) [OF ok t]])
       (use e1 in \<open>simp_all add: simple_plan_def hands_message_def\<close>)
  then have c1': "cn_open c1" "cn_tx c1" "cn_rw c1" "\<not> cn_failed c1" "\<not> cn_leases c1" "cn_generation c1 < U64_MAX"
    using c by (simp_all add: same_db_def)
  have ok2: "ids_ok cat2" using ok by (simp add: cat2_def)
  have s2: "catalog_find_object cat2 ''audit'' = Some (k, Str s)"
    unfolding cat2_def by (simp add: dir.publish_other [OF ok t] s)
  have len: "length (audit_line m) < 2 ^ 32" using m(1) c_str_facts(2) [of m] by (simp add: audit_line_def)
  have ap: "db_stream_append s (audit_line m) = (s\<lparr>s_records := s_records s @ [audit_line m]\<rparr>, None)"
    using rm s len by (intro append_quiet) (simp_all add: room_def audit_stream_def)
  define cat3 where "cat3 = cat_set cat2 k (Str (s\<lparr>s_records := s_records s @ [audit_line m]\<rparr>))"
  have guard1: "mutation_guard c1 = None" using c1' by (simp add: mutation_guard_def)
  have "sql_execute_batch (cn_leases c1) (mutation_guard c1) (current_valid c1) 0 cat2 (P_append k (audit_line m))
      = (cat3, A_done)"
    using dir.find_page [OF ok2 s2] guard1 ap
    by (simp add: on_stream_def on_page_def storage_done_def cat3_def)
  then obtain c2 where e2: "cyboudb_exec c1 (snprintf 512 (append_text (c_str m))) = Some (c2, OK)"
    and c2: "cn_events c2 = []" "cn_staged c2 = cat3"
    using exec_simple_quiet [OF c1'(1) c1(1) c1'(2) compile_append [OF m s2 [folded c1(2)]]]
    by (auto simp: simple_plan_def hands_message_def uses_clock_def c1(2))
  have db2: "same_db (c1\<lparr>cn_staged := cn_staged c2\<rparr>) c2"
    by (rule exec_simple [OF c1'(2) compile_append [OF m s2 [folded c1(2)]] _ append_outcome_catalog(1) [OF ok2 s2, folded c1(2)]])
       (use e2 in \<open>simp_all add: simple_plan_def hands_message_def\<close>)
  then have c2': "cn_open c2" "cn_tx c2" "cn_rw c2" "\<not> cn_failed c2" "\<not> cn_leases c2" "cn_generation c2 \<noteq> U64_MAX"
    using c1' by (simp_all add: same_db_def)
  have "object_valid False (Tab result_columns (rows @ [result_row m]))"
    by (simp add: object_valid_def result_columns_def)
  moreover have "object_valid False (Str s)" by (rule find_object_valid [OF valid s])
  then have "object_valid False (Str (s\<lparr>s_records := s_records s @ [audit_line m]\<rparr>))"
    using append_valid [of s "audit_line m"] by (simp add: object_valid_def ap)
  ultimately have "db_catalog_validate False cat3"
    unfolding cat3_def cat2_def by (intro validate_set valid)
  then obtain c3 where "cyboudb_exec c2 ''COMMIT'' = Some (c3, OK)" "cn_events c3 = []"
    using exec_commit_quiet [OF c2'(1) c2(1) c2'(3,2,4,6)] c2'(5) c2(2) by auto
  then show ?thesis using e1 e2 by (simp add: record_job_def append_text_def)
qed

text \<open>The transaction is open and the \<open>DEQUEUE\<close> prepared.\<close>

lemma begin_quiet:
  assumes "calm c n" and "catalog_find_object (cn_live c) ''inbox'' = Some (i, Que q)"
  obtains c1 c2 h where "cyboudb_exec c ''BEGIN'' = Some (c1, OK)"
    and "cyboudb_prepare c1 ''DEQUEUE FROM inbox'' = (c2, OK, Some h)"
    and "cn_stmts c2 h = Some (new_stmt (P_dequeue i))" and "cn_events c2 = []" and "same_db (c\<lparr>cn_tx := True\<rparr>) c2"
proof -
  have c: "cn_open c" "\<not> cn_tx c" "cn_staged c = cn_live c" "cn_events c = []" "cn_rw c"
    using assms(1) by (auto simp: calm_def idle_def)
  obtain c1 where e1: "cyboudb_exec c ''BEGIN'' = Some (c1, OK)" "cn_events c1 = []"
    using exec_begin_quiet [OF c(1,4,5,2)] by blast
  have db1: "same_db (c\<lparr>cn_tx := True\<rparr>) c1" by (rule exec_begin [of c]) (use e1 in simp)
  have c1: "cn_open c1" "cn_staged c1 = cn_live c" using db1 c by (simp_all add: same_db_def)
  have pl: "compile (cn_leases c1) (cn_staged c1) ''DEQUEUE FROM inbox'' = Bound (P_dequeue i)"
    using assms(2) by (simp add: compile_dequeue catalog_find_queue_def c1(2))
  define c2 where "c2 = fst (add_stmt c1 (P_dequeue i))"
  have "cyboudb_prepare c1 ''DEQUEUE FROM inbox'' = (c2, OK, Some (cn_next c1))"
    using c1(1) e1(2) pl by (simp add: cyboudb_prepare_def next_event_quiet add_stmt_def c2_def)
  moreover have "cn_stmts c2 (cn_next c1) = Some (new_stmt (P_dequeue i))" "cn_events c2 = []"
    using e1(2) by (simp_all add: c2_def add_stmt_def)
  moreover have "same_db (c\<lparr>cn_tx := True\<rparr>) c2" using db1 by (simp add: c2_def add_stmt_def same_db_def)
  ultimately show thesis using that e1(1) by blast
qed

text \<open>What the step does is what the executor does.\<close>

lemma take_quiet:
  assumes "cn_tx c" and "cn_events c = []" and "mutation_guard c = None" and "cn_stmts c h = Some (new_stmt (P_dequeue i))"
    and "exec_dequeue None (cn_staged c) i = (cat, a)"
  shows "a = A_took b None \<Longrightarrow> \<exists>c'. cyboudb_step c (Some h) = (c', ROW) \<and> cyboudb_message c' (Some h) (length b) = (OK, b)
      \<and> (\<forall>n \<ge> length b. cyboudb_message c' (Some h) n = (OK, b)) \<and> cn_events c' = [] \<and> same_db (c\<lparr>cn_staged := cat\<rparr>) c'"
    and "a = A_empty \<Longrightarrow> \<exists>c'. cyboudb_step c (Some h) = (c', DONE) \<and> same_db (c\<lparr>cn_staged := cat\<rparr>) c'"
proof -
  define c0 where "c0 = api_error_clear c"
  define st where "st = new_stmt (P_dequeue i)"
  have c0: "cn_events c0 = []" "cn_tx c0" "cn_staged c0 = cn_staged c" "mutation_guard c0 = None"
    using assms by (simp_all add: c0_def api_error_clear_def mutation_guard_def split: if_splits)
  obtain v where ex: "execute c0 (st_plan st) = (c0\<lparr>cn_validated := v, cn_staged := cat\<rparr>, a)"
    using execute_quiet [OF c0(1), of "P_dequeue i"] c0 assms(5) by (fastforce simp: uses_clock_def st_def new_stmt_def)
  have step: "cyboudb_step c (Some h) = step_dequeue c0 h st"
    using step_hands_eq [OF assms(4)] by (simp add: c0_def st_def hands_message_def new_stmt_def)
  note tx = step_dequeue_tx(2) [OF c0(2) ex] step_dequeue_tx(3) [OF c0(2) ex]
  show "\<exists>c'. cyboudb_step c (Some h) = (c', ROW) \<and> cyboudb_message c' (Some h) (length b) = (OK, b)
      \<and> (\<forall>n \<ge> length b. cyboudb_message c' (Some h) n = (OK, b)) \<and> cn_events c' = [] \<and> same_db (c\<lparr>cn_staged := cat\<rparr>) c'"
    if "a = A_took b None"
    unfolding step tx(1) [OF that] using c0(1)
    by (auto simp: cyboudb_message_def put_stmt_def st_def new_stmt_def hands_message_def same_db_def c0_def api_error_clear_def)
  show "\<exists>c'. cyboudb_step c (Some h) = (c', DONE) \<and> same_db (c\<lparr>cn_staged := cat\<rparr>) c'" if "a = A_empty"
    using tx(2) that unfolding step
    by (auto simp: failing_def put_stmt_def same_db_def c0_def api_error_clear_def)
qed

lemma process_one_quiet:
  assumes calm: "calm c (Suc n)" and head: "inbox (cn_live c) = m # ms" "length m \<le> 255" "quote \<notin> set (c_str m)"
  shows "\<exists>c' out. process_one c = Some (c', 0, True, out) \<and> cn_events c' = []"
proof -
  define cat where "cat = cn_live c"
  have wc: "worker_catalog cat" and c: "cn_open c" "\<not> cn_leases c" "cn_staged c = cat"
      "cn_rw c" "\<not> cn_failed c" "cn_generation c < U64_MAX" and rm: "room cat 1"
    using calm by (auto simp: calm_def idle_def cat_def room_def split: option.splits)
  have valid: "db_catalog_validate False cat" using wc by (simp add: worker_catalog_def)
  have ok: "ids_ok cat" using valid by (rule validate_ids)
  obtain i q j rows k s where q: "catalog_find_object cat ''inbox'' = Some (i, Que q)"
    and t: "catalog_find_object cat ''results'' = Some (j, Tab result_columns rows)"
    and s: "catalog_find_object cat ''audit'' = Some (k, Str s)"
    using wc by (auto simp: worker_catalog_def)
  have qv: "queue_page_valid False q" using find_object_valid [OF valid q] by (simp add: object_valid_def)
  then have seg: "db_queue_segments_valid False q" by (simp add: queue_page_valid_def)
  have msgs: "messages q = m # ms" using head(1) q by (simp add: inbox_def cat_def)
  obtain q' where pop: "db_queue_pop q = (q', Inr m)" by (rule pop_head [OF seg msgs])
  then have len: "db_queue_peek q = Inr (length m)"
    by (auto simp: db_queue_peek_def db_queue_pop_def queue_slot_at_def split: if_splits)
  have "arena_holds (length m)" using head(2) by (simp add: arena_holds_def EXEC_ARENA_def)
  then have deq: "exec_dequeue None cat i = (cat_set cat i (Que q'), A_took m None)"
    using dir.find_page [OF ok q] len pop by (simp add: exec_dequeue_def)
  obtain c1 c2 h where e1: "cyboudb_exec c ''BEGIN'' = Some (c1, OK)"
    and prep: "cyboudb_prepare c1 ''DEQUEUE FROM inbox'' = (c2, OK, Some h)"
    and st: "cn_stmts c2 h = Some (new_stmt (P_dequeue i))" "cn_events c2 = []" and db2: "same_db (c\<lparr>cn_tx := True\<rparr>) c2"
    by (rule begin_quiet [OF calm q [unfolded cat_def]])
  have c2: "cn_tx c2" "cn_staged c2 = cat" "mutation_guard c2 = None"
    using db2 c by (simp_all add: same_db_def mutation_guard_def)
  obtain c3 where step: "cyboudb_step c2 (Some h) = (c3, ROW)" and msg: "cyboudb_message c3 (Some h) 255 = (OK, m)"
    and ev3: "cn_events c3 = []" and db3: "same_db (c2\<lparr>cn_staged := cat_set cat i (Que q')\<rparr>) c3"
    using take_quiet(1) [OF c2(1) st(2) c2(3) st(1), unfolded c2(2), OF deq refl] head(2) by blast
  define c4 where "c4 = fst (cyboudb_finalize c3 (Some h))"
  have run: "process_one c = record_job c4 (length m) (c_str m)"
    using e1 prep step msg by (simp add: process_one_def c4_def)
  have "same_db c3 c4" unfolding c4_def by (rule finalize_law(1) [OF surjective_pairing])
  then have c4: "cn_open c4" "cn_tx c4" "cn_rw c4" "\<not> cn_failed c4" "cn_generation c4 < U64_MAX" "\<not> cn_leases c4"
    "cn_staged c4 = cat_set cat i (Que q')"
    using db3 db2 c by (simp_all add: same_db_def)
  have ev4: "cn_events c4 = []" using ev3 by (simp add: c4_def finalize_events)
  have v4: "db_catalog_validate False (cn_staged c4)"
    unfolding c4(7) using validate_set [OF valid] pop_messages(2) [OF seg pop qv] by (simp add: object_valid_def)
  have t4: "catalog_find_object (cn_staged c4) ''results'' = Some (j, Tab result_columns rows)"
    and s4: "catalog_find_object (cn_staged c4) ''audit'' = Some (k, Str s)"
    unfolding c4(7) by (simp_all add: dir.publish_other [OF ok q] t s)
  have rm4: "room (cn_staged c4) 1" using rm s s4 by (simp add: room_def audit_stream_def)
  show ?thesis
    unfolding run by (rule record_job_quiet [OF c4(1) ev4 c4(2-6) v4 head(2,3) t4 s4 rm4])
qed

lemma process_one_empty:
  assumes calm: "calm c n" and empty: "inbox (cn_live c) = []"
  obtains c' where "process_one c = Some (c', 0, False, [])" and "cn_gens c' = cn_gens c"
proof -
  define cat where "cat = cn_live c"
  have wc: "worker_catalog cat" and c: "cn_staged c = cat" "cn_rw c" "\<not> cn_failed c" "cn_generation c < U64_MAX"
    using calm by (auto simp: calm_def idle_def cat_def)
  have valid: "db_catalog_validate False cat" using wc by (simp add: worker_catalog_def)
  obtain i q where q: "catalog_find_object cat ''inbox'' = Some (i, Que q)" using wc by (auto simp: worker_catalog_def)
  have "queue_page_valid False q" using find_object_valid [OF valid q] by (simp add: object_valid_def)
  then have "q_head q \<le> q_tail q" by (simp add: queue_page_valid_def db_queue_segments_valid_def)
  moreover have "messages q = []" using empty q by (simp add: inbox_def cat_def)
  ultimately have "q_head q = q_tail q" by (auto simp: messages_def)
  then have deq: "exec_dequeue None cat i = (cat, A_empty)"
    using dir.find_page [OF validate_ids [OF valid] q] by (simp add: exec_dequeue_def db_queue_peek_def)
  obtain c1 c2 h where e1: "cyboudb_exec c ''BEGIN'' = Some (c1, OK)"
    and prep: "cyboudb_prepare c1 ''DEQUEUE FROM inbox'' = (c2, OK, Some h)"
    and st: "cn_stmts c2 h = Some (new_stmt (P_dequeue i))" "cn_events c2 = []" and db2: "same_db (c\<lparr>cn_tx := True\<rparr>) c2"
    by (rule begin_quiet [OF calm q [unfolded cat_def]])
  have c2: "cn_tx c2" "cn_staged c2 = cat" "mutation_guard c2 = None"
    using db2 c by (simp_all add: same_db_def mutation_guard_def)
  obtain c3 where step: "cyboudb_step c2 (Some h) = (c3, DONE)" and db3: "same_db (c2\<lparr>cn_staged := cat\<rparr>) c3"
    using take_quiet(2) [OF c2(1) st(2) c2(3) st(1), unfolded c2(2), OF deq refl] by blast
  define c4 where "c4 = fst (cyboudb_finalize c3 (Some h))"
  have "same_db c3 c4" unfolding c4_def by (rule finalize_law(1) [OF surjective_pairing])
  then have gens: "cn_gens c4 = cn_gens c" using db3 db2 by (simp add: same_db_def)
  obtain c5 s5 where rb: "cyboudb_exec c4 ''ROLLBACK'' = Some (c5, s5)" "cn_gens c5 = cn_gens c4"
    by (rule exec_rollback [of c4]) blast
  show thesis
    by (rule that [of c5]) (use e1 prep step rb gens in \<open>simp_all add: process_one_def c4_def split_beta\<close>)
qed

section \<open>The loop\<close>

lemma drain:
  assumes "calm c (length (inbox (cn_live c)))"
    and "\<forall>m \<in> set (inbox (cn_live c)). quote \<notin> set (c_str m) \<and> length m \<le> 255"
  shows "\<exists>c' out'. work_loop c n out = Some (c', True, n + length (inbox (cn_live c)), out')
    \<and> inbox (cn_live c') = [] \<and> results (cn_live c') = results (cn_live c) @ map result_row (inbox (cn_live c))
    \<and> audit (cn_live c') = audit (cn_live c) @ map audit_line (inbox (cn_live c))"
  using assms
proof (induction "inbox (cn_live c)" arbitrary: c n out)
  case Nil
  obtain c' where run: "process_one c = Some (c', 0, False, [])" and "cn_gens c' = cn_gens c"
    by (rule process_one_empty [OF Nil.prems(1) Nil.hyps [symmetric]])
  then have "cn_live c' = cn_live c" by (intro live_gens)
  with run Nil.hyps [symmetric] show ?case by (subst work_loop.simps) simp
next
  case (Cons m ms)
  note head = Cons.hyps(2) [symmetric]
  have plain: "\<forall>m \<in> set (inbox (cn_live c)). quote \<notin> set (c_str m)" using Cons.prems(2) by blast
  have calm: "calm c (Suc (length ms))" using Cons.prems(1) head by simp
  obtain c' out' where run: "process_one c = Some (c', 0, True, out')" and ev: "cn_events c' = []"
    using process_one_quiet [OF calm head] Cons.prems(2) head by auto
  have idle: "idle c" using calm by (simp add: calm_def)
  have "job_outcome c c' 0 True"
    by (rule process_one_law [OF idle plain]) (use run in simp)
  then obtain m' cat where c': "idle c'" "cn_rw c' = cn_rw c" "cn_failed c' = cn_failed c"
    "cn_generation c' = cn_generation c + 1" and live: "cn_live c' = cat" and job: "job_done m' (cn_live c) cat"
    by (auto simp: job_outcome_def cn_live_def)
  have in': "ms = inbox (cn_live c')" "m' = m" using job head live by (simp_all add: job_done_def)
  have "audit_stream cat = map_option (\<lambda>s. s\<lparr>s_records := s_records s @ [audit_line m]\<rparr>) (audit_stream (cn_live c))"
    using job in'(2) by (simp add: job_done_def)
  then have "room cat (length ms)" using calm
    by (auto simp: calm_def room_def s_end_def s_first_seg_def split: option.splits)
  then have calm': "calm c' (length (inbox (cn_live c')))"
    using calm c' ev live in'(1) by (simp add: calm_def)
  have plain': "\<forall>m \<in> set (inbox (cn_live c')). quote \<notin> set (c_str m) \<and> length m \<le> 255"
    using Cons.prems(2) head in'(1) by simp
  obtain c2 out2 where "work_loop c' (n + 1) (out @ out') = Some (c2, True, n + 1 + length ms, out2)"
    "inbox (cn_live c2) = []" "results (cn_live c2) = results (cn_live c') @ map result_row ms"
    "audit (cn_live c2) = audit (cn_live c') @ map audit_line ms"
    using Cons.hyps(1) [OF in'(1) calm' plain', of "n + 1" "out @ out'"] in'(1) by auto
  then show ?case
    using run job live in'(2) head by (subst work_loop.simps) (simp add: job_done_def)
qed

text \<open>C3 The loop gets done.  When nothing fails, every waiting message fits the buffer and has no
  apostrophe, and the stream and the generation counter have room for as many more, the loop returns
  after exactly as many jobs as were waiting, with the queue empty, the results in the order of the
  queue and a line in the audit stream for each.\<close>

theorem worker_drains_queue:
  assumes "calm c (length (inbox (cn_live c)))"
    and "\<forall>m \<in> set (inbox (cn_live c)). quote \<notin> set (c_str m) \<and> length m \<le> 255"
  shows "\<exists>c' out. work_loop c 0 [] = Some (c', True, length (inbox (cn_live c)), out)
    \<and> inbox (cn_live c') = [] \<and> results (cn_live c') = results (cn_live c) @ map result_row (inbox (cn_live c))
    \<and> audit (cn_live c') = audit (cn_live c) @ map audit_line (inbox (cn_live c))"
  using drain [OF assms, of 0 "[]"] by simp

theorem worker_drains_queue_witness:
  "\<exists>c' out. work_loop (sample []) 0 [] = Some (c', True, 1, out) \<and> inbox (cn_live c') = []
     \<and> results (cn_live c') = [[C_int 3, C_text ''job'']]"
proof -
  have c: "cn_live (sample []) = sample_catalog" "cn_events (sample []) = []" "cn_rw (sample [])" "\<not> cn_failed (sample [])"
    "cn_generation (sample []) = 9"
    by (simp_all add: cn_live_def sample_def new_conn_def OPEN_READWRITE_def)
  have "room sample_catalog 1" "results sample_catalog = []" "result_row ''job'' = [C_int 3, C_text ''job'']" by code_simp+
  note s = this
  have n: "length (inbox (cn_live (sample []))) = 1" by (simp add: inbox_sample)
  have "calm (sample []) (length (inbox (cn_live (sample []))))"
    unfolding n using s(1) c by (simp add: calm_def idle_sample U64_MAX_def)
  from worker_drains_queue [OF this] show ?thesis
    using s(2,3) c(1) inbox_sample [of "[]"] by (auto simp: c_str_def)
qed

end
