(* ===== verification/Connection_Progress.thy ===== *)
theory Connection_Progress
  imports Connection_Laws
begin

text \<open>
  A connection on which nothing fails, seen from outside.  \<open>view\<close> is what a client can tell of it: the
  capability, the generation number, the readings the clock will give, whether a transaction is open,
  the catalog on the disk, the catalog staged and the number of statements alive.  Each call is
  described by what it does to the view, so that a program of calls is followed one record update at a
  time.
\<close>

section \<open>Views\<close>

record view =
  v_leases :: bool
  v_generation :: nat
  v_clock :: "nat list"
  v_tx :: bool
  v_live :: catalog
  v_staged :: catalog
  v_count :: nat

definition view :: "conn \<Rightarrow> view" where
  "view c = \<lparr>v_leases = cn_leases c, v_generation = cn_generation c, v_clock = cn_clock c, v_tx = cn_tx c,
     v_live = cn_live c, v_staged = cn_staged c, v_count = cn_stmt_count c\<rparr>"

text \<open>The count is written last.\<close>

lemma view_count_out:
  "v_staged_update f (v_count_update g v) = v_count_update g (v_staged_update f v)"
  "v_clock_update h (v_count_update g v) = v_count_update g (v_clock_update h v)"
  "v_live_update f (v_count_update g v) = v_count_update g (v_live_update f v)"
  "v_generation_update k (v_count_update g v) = v_count_update g (v_generation_update k v)"
  "v_tx_update b (v_count_update g v) = v_count_update g (v_tx_update b v)"
  by (cases v; simp)+

definition stands :: "conn \<Rightarrow> view \<Rightarrow> bool" where
  "stands c v \<longleftrightarrow> view c = v \<and> cn_open c \<and> cn_events c = [] \<and> cn_rw c \<and> \<not> cn_failed c"

text \<open>What the executor is told about the time, and what the readings are afterwards.\<close>

definition now_of :: "plan \<Rightarrow> view \<Rightarrow> nat" where
  "now_of pl v = (if uses_clock pl then case v_clock v of [] \<Rightarrow> 0 | t # ts \<Rightarrow> t else 0)"

definition clock_of :: "plan \<Rightarrow> view \<Rightarrow> nat list" where
  "clock_of pl v = (if uses_clock pl then tl (v_clock v) else v_clock v)"

lemma stands_cong:
  assumes "stands c v" and "cn_open c' = cn_open c" "cn_events c' = cn_events c" "cn_rw c' = cn_rw c" "cn_failed c' = cn_failed c"
  shows "stands c' (view c')"
  using assms by (simp add: stands_def)

lemma stands_api [simp]:
  "stands (api_error_clear c) v = stands c v" "stands (put_stmt c k st) v = stands c v"
  "stands (api_error_report c k st code msg) v = stands c v"
  by (simp_all add: stands_def view_def api_error_clear_def put_stmt_def api_error_report_def cn_live_def)

lemma stands_fields:
  assumes "stands c v"
  shows "cn_leases c = v_leases v" "cn_generation c = v_generation v" "cn_clock c = v_clock v" "cn_tx c = v_tx v"
    "cn_live c = v_live v" "cn_staged c = v_staged v" "cn_stmt_count c = v_count v" "cn_open c" "cn_events c = []" "cn_rw c" "\<not> cn_failed c"
  using assms by (auto simp: stands_def view_def)

lemma guard_view: "stands c v \<Longrightarrow> v_generation v \<noteq> U64_MAX \<Longrightarrow> mutation_guard c = None"
  by (simp add: mutation_guard_def stands_fields)

section \<open>The pieces of a step\<close>

lemma execute_view:
  assumes v: "stands c v" "v_generation v \<noteq> U64_MAX" "db_catalog_validate (v_leases v) (v_staged v)"
    and run: "sql_execute_batch (v_leases v) None True (now_of pl v) (v_staged v) pl = (cat, a)"
  obtains c' where "execute c pl = (c', a)" and "stands c' (v\<lparr>v_staged := cat, v_clock := clock_of pl v\<rparr>)"
    and "cn_stmts c' = cn_stmts c"
proof -
  note f = stands_fields [OF v(1)]
  define c2 where "c2 = c\<lparr>cn_clock := clock_of pl v\<rparr>"
  have clock: "(if uses_clock pl then os_wall_ms c else (0, c)) = (now_of pl v, c2)"
    using f(3) by (cases "v_clock v") (auto simp: now_of_def clock_of_def os_wall_ms_def c2_def)
  have c2: "mutation_guard c2 = None" "current_valid c2" "cn_staged c2 = v_staged v" "cn_leases c2 = v_leases v"
    using guard_view [OF v(1,2)] f v(3) by (simp_all add: c2_def mutation_guard_def current_valid_def)
  define c' where "c' = c2\<lparr>cn_validated := cn_validated c2 \<or> walks pl, cn_staged := cat\<rparr>"
  have "next_event c = (Fine, c)" by (simp add: next_event_def f(9))
  then have "execute c pl = (c', a)"
    using clock c2 run by (simp add: execute_def Let_def c'_def)
  moreover have "stands c' (v\<lparr>v_staged := cat, v_clock := clock_of pl v\<rparr>)"
    using v(1) by (auto simp: stands_def view_def c'_def c2_def cn_live_def)
  ultimately show thesis using that by (simp add: c'_def c2_def)
qed

lemma commit_view:
  assumes v: "stands c v" "v_generation v \<noteq> U64_MAX" "db_catalog_validate (v_leases v) (v_staged v)"
  obtains c' where "db_commit c = (c', None)"
    and "stands c' (v\<lparr>v_live := v_staged v, v_generation := v_generation v + 1\<rparr>)" and "cn_stmts c' = cn_stmts c"
proof -
  note f = stands_fields [OF v(1)]
  have "next_event c = (Fine, c)" by (simp add: next_event_def f(9))
  then have "db_commit c = (c\<lparr>cn_gens := cn_staged c # cn_gens c, cn_generation := cn_generation c + 1,
       cn_validated := False\<rparr>, None)"
    using v(2,3) f by (simp add: db_commit_def)
  moreover have "stands (c\<lparr>cn_gens := cn_staged c # cn_gens c, cn_generation := cn_generation c + 1,
       cn_validated := False\<rparr>) (v\<lparr>v_live := v_staged v, v_generation := v_generation v + 1\<rparr>)"
    using v(1) by (auto simp: stands_def view_def cn_live_def)
  ultimately show thesis using that by simp
qed

text \<open>What a successful statement leaves: staged, and on the disk too unless a transaction is open.\<close>

definition after :: "view \<Rightarrow> plan \<Rightarrow> catalog \<Rightarrow> view" where
  "after v pl cat =
    (if v_tx v then v\<lparr>v_staged := cat, v_clock := clock_of pl v\<rparr>
     else v\<lparr>v_staged := cat, v_clock := clock_of pl v, v_live := cat, v_generation := v_generation v + 1\<rparr>)"

lemma clock_count [simp]:
  "now_of pl (v\<lparr>v_count := n\<rparr>) = now_of pl v" "clock_of pl (v\<lparr>v_count := n\<rparr>) = clock_of pl v"
  by (simp_all add: now_of_def clock_of_def)

lemma after_count [simp]: "after (v\<lparr>v_count := n\<rparr>) pl cat = (after v pl cat)\<lparr>v_count := n\<rparr>"
  by (simp add: after_def clock_of_def)

lemma autocommit_view:
  assumes v: "stands c v" "v_generation v \<noteq> U64_MAX" "db_catalog_validate (v_leases v) (v_staged v)"
  obtains c' where "autocommit c = (c', None)" and "cn_stmts c' = cn_stmts c"
    and "stands c' (if v_tx v then v else v\<lparr>v_live := v_staged v, v_generation := v_generation v + 1\<rparr>)"
proof (cases "v_tx v")
  case True
  then show thesis using that [of c] v(1) stands_fields(4) [OF v(1)] by simp
next
  case False
  obtain c' where "db_commit c = (c', None)" "stands c' (v\<lparr>v_live := v_staged v, v_generation := v_generation v + 1\<rparr>)"
    "cn_stmts c' = cn_stmts c" by (rule commit_view [OF v])
  with False show thesis using that stands_fields(4,10) [OF v(1)] by (simp add: autocommit_def)
qed

lemma execute_commit_view:
  assumes v: "stands c v" "v_generation v \<noteq> U64_MAX" "db_catalog_validate (v_leases v) (v_staged v)"
    and run: "sql_execute_batch (v_leases v) None True (now_of pl v) (v_staged v) pl = (cat, a)"
    and valid: "db_catalog_validate (v_leases v) cat"
  obtains c1 c2 where "execute c pl = (c1, a)" and "autocommit c1 = (c2, None)" and "stands c2 (after v pl cat)"
    and "cn_stmts c2 = cn_stmts c"
proof -
  obtain c1 where ex: "execute c pl = (c1, a)" and s1: "stands c1 (v\<lparr>v_staged := cat, v_clock := clock_of pl v\<rparr>)"
    and st1: "cn_stmts c1 = cn_stmts c" by (rule execute_view [OF v run])
  obtain c2 where ac: "autocommit c1 = (c2, None)" and st2: "cn_stmts c2 = cn_stmts c1" and s2: "stands c2 (after v pl cat)"
    by (rule autocommit_view [OF s1]; cases "v_tx v"; use v(2) valid in \<open>simp add: after_def\<close>)
  show thesis by (rule that [OF ex ac s2]) (simp add: st1 st2)
qed

section \<open>Steps\<close>

lemma step_simple_view:
  assumes v: "stands c v" "v_generation v \<noteq> U64_MAX" "db_catalog_validate (v_leases v) (v_staged v)"
    and st: "cn_stmts c k = Some (new_stmt pl)" "simple_plan pl"
    and run: "sql_execute_batch (v_leases v) None True (now_of pl v) (v_staged v) pl = (cat, A_done)"
    and valid: "db_catalog_validate (v_leases v) cat"
  obtains c' where "cyboudb_step c (Some k) = (c', DONE)" and "stands c' (after v pl cat)" and "cn_stmts c' k \<noteq> None"
proof -
  have v0: "stands (api_error_clear c) v" using v(1) by simp
  obtain c1 c2 where ex: "execute (api_error_clear c) pl = (c1, A_done)" and ac: "autocommit c1 = (c2, None)"
    and s2: "stands c2 (after v pl cat)"
    by (rule execute_commit_view [OF v0 v(2,3) run valid])
  have "cyboudb_step c (Some k) = step_done c2 k (new_stmt pl)"
    using step_simple_eq [OF st(1)] st(2) ex ac by (simp add: step_drop_def new_stmt_def)
  then show thesis using that s2 by (simp add: step_done_def put_stmt_def [symmetric]) (simp add: put_stmt_def)
qed

lemma step_refused_view:
  assumes v: "stands c v" "v_generation v \<noteq> U64_MAX" "db_catalog_validate (v_leases v) (v_staged v)"
    and st: "cn_stmts c k = Some (new_stmt pl)" "simple_plan pl"
    and run: "sql_execute_batch (v_leases v) None True (now_of pl v) (v_staged v) pl = (cat, A_fail code msg)"
  obtains c' where "cyboudb_step c (Some k) = (c', ERROR)" and "stands c' (v\<lparr>v_staged := cat, v_clock := clock_of pl v\<rparr>)"
    and "cn_stmts c' k \<noteq> None" and "cyboudb_errcode c' = code"
proof -
  have v0: "stands (api_error_clear c) v" using v(1) by simp
  obtain c1 where ex: "execute (api_error_clear c) pl = (c1, A_fail code msg)"
    and s1: "stands c1 (v\<lparr>v_staged := cat, v_clock := clock_of pl v\<rparr>)"
    by (rule execute_view [OF v0 v(2,3) run])
  have "cyboudb_step c (Some k) = step_mutation_error c1 k (new_stmt pl) code (fail_message pl msg)"
    using step_simple_eq [OF st(1)] st(2) ex by (simp add: step_drop_def new_stmt_def)
  then show thesis using that s1
    by (simp add: step_mutation_error_def) (simp add: api_error_report_def cyboudb_errcode_def)
qed

text \<open>\<open>DEQUEUE\<close>, \<open>CLAIM\<close> and \<open>READ\<close>; the statement may have been stepped before.\<close>

lemma step_row_view:
  assumes v: "stands c v" "v_generation v \<noteq> U64_MAX" "db_catalog_validate (v_leases v) (v_staged v)"
    and st: "cn_stmts c k = Some st" "st_plan st = pl" "hands_message pl"
    and run: "sql_execute_batch (v_leases v) None True (now_of pl v) (v_staged v) pl = (cat, A_took b tk)"
    and valid: "db_catalog_validate (v_leases v) cat"
  obtains c' st' where "cyboudb_step c (Some k) = (c', ROW)" and "stands c' (after v pl cat)"
    and "cn_stmts c' k = Some st'" and "st_plan st' = pl" and "st_message st' = Some b"
    and "tk = Some t \<Longrightarrow> st_ticket st' = t"
proof -
  have v0: "stands (api_error_clear c) v" using v(1) by simp
  obtain c1 c2 where ex: "execute (api_error_clear c) pl = (c1, A_took b tk)" and ac: "autocommit c1 = (c2, None)"
    and s2: "stands c2 (after v pl cat)"
    by (rule execute_commit_view [OF v0 v(2,3) run valid])
  define st' where "st' = st\<lparr>st_message := Some b, st_ticket := (case tk of None \<Rightarrow> st_ticket st | Some t \<Rightarrow> t)\<rparr>"
  have "cyboudb_step c (Some k) = (put_stmt c2 k st', ROW)"
    using step_hands_eq [OF st(1)] st(2,3) ex ac by (simp add: step_dequeue_def st'_def Let_def)
  then show thesis
    by (rule that [of _ st']) (use s2 st(2) in \<open>simp_all add: st'_def\<close>, simp add: put_stmt_def)
qed

lemma step_empty_view:
  assumes v: "stands c v" "v_generation v \<noteq> U64_MAX" "db_catalog_validate (v_leases v) (v_staged v)"
    and st: "cn_stmts c k = Some st" "st_plan st = pl" "hands_message pl"
    and run: "sql_execute_batch (v_leases v) None True (now_of pl v) (v_staged v) pl = (cat, A_empty)"
    and valid: "db_catalog_validate (v_leases v) cat"
  obtains c' where "cyboudb_step c (Some k) = (c', DONE)" and "stands c' (after v pl cat)" and "cn_stmts c' k \<noteq> None"
proof -
  have v0: "stands (api_error_clear c) v" using v(1) by simp
  obtain c1 c2 where ex: "execute (api_error_clear c) pl = (c1, A_empty)" and ac: "autocommit c1 = (c2, None)"
    and s2: "stands c2 (after v pl cat)"
    by (rule execute_commit_view [OF v0 v(2,3) run valid])
  have "cyboudb_step c (Some k) = (put_stmt c2 k (st\<lparr>st_message := None\<rparr>), DONE)"
    using step_hands_eq [OF st(1)] st(2,3) ex ac by (simp add: step_dequeue_def Let_def)
  then show thesis using that s2 by simp (simp add: put_stmt_def)
qed

section \<open>Whole calls\<close>

lemma prepare_view:
  assumes "stands c v" and "compile (v_leases v) (v_staged v) sql = Bound pl"
  obtains c' k where "cyboudb_prepare c sql = (c', OK, Some k)" and "stands c' (v\<lparr>v_count := v_count v + 1\<rparr>)"
    and "cn_stmts c' k = Some (new_stmt pl)"
proof -
  note f = stands_fields [OF assms(1)]
  have "cyboudb_prepare c sql = add_stmt c pl"
    using assms(2) f by (simp add: cyboudb_prepare_def next_event_def)
  moreover have "stands (fst (add_stmt c pl)) (v\<lparr>v_count := v_count v + 1\<rparr>)"
    using assms(1) by (auto simp: stands_def view_def add_stmt_def cn_live_def)
  ultimately show thesis using that by (simp add: add_stmt_def)
qed

lemma finalize_view:
  assumes "stands c v" and "cn_stmts c k \<noteq> None"
  obtains c' where "cyboudb_finalize c (Some k) = (c', OK)" and "stands c' (v\<lparr>v_count := v_count v - 1\<rparr>)"
    and "cn_errcode c' = cn_errcode c"
  using assms by (auto simp: cyboudb_finalize_def stands_def view_def cn_live_def)

lemma exec_view:
  assumes "stands c v" and "compile (v_leases v) (v_staged v) sql = Bound pl"
    and step: "\<And>c1 k. stands c1 (v\<lparr>v_count := v_count v + 1\<rparr>) \<Longrightarrow> cn_stmts c1 k = Some (new_stmt pl) \<Longrightarrow>
      \<exists>c2. cyboudb_step c1 (Some k) = (c2, s) \<and> stands c2 (v'\<lparr>v_count := v_count v + 1\<rparr>) \<and> cn_stmts c2 k \<noteq> None
        \<and> Q (cn_errcode c2)"
    and s: "s \<noteq> ROW" and count: "v_count v' = v_count v"
  obtains c' where "cyboudb_exec c sql = Some (c', if s = DONE then OK else s)" and "stands c' v'" and "Q (cn_errcode c')"
proof -
  obtain c1 k where prep: "cyboudb_prepare c sql = (c1, OK, Some k)" and s1: "stands c1 (v\<lparr>v_count := v_count v + 1\<rparr>)"
    and st: "cn_stmts c1 k = Some (new_stmt pl)" by (rule prepare_view [OF assms(1,2)])
  obtain c2 where step2: "cyboudb_step c1 (Some k) = (c2, s)" and s2: "stands c2 (v'\<lparr>v_count := v_count v + 1\<rparr>)"
    and st2: "cn_stmts c2 k \<noteq> None" and q: "Q (cn_errcode c2)" using step [OF s1 st] by blast
  obtain c3 where fin: "cyboudb_finalize c2 (Some k) = (c3, OK)" and s3: "stands c3 (v'\<lparr>v_count := v_count v\<rparr>)"
    and e3: "cn_errcode c3 = cn_errcode c2"
    using finalize_view [OF s2 st2] by auto
  have "v'\<lparr>v_count := v_count v\<rparr> = v'" using count by (cases v') simp
  then show thesis using that [OF exec_run [OF prep step2 s fin]] s3 q e3 by simp
qed

lemma exec_done_view:
  assumes v: "stands c v" "v_generation v \<noteq> U64_MAX" "db_catalog_validate (v_leases v) (v_staged v)"
    and pl: "compile (v_leases v) (v_staged v) sql = Bound pl" "simple_plan pl"
    and run: "sql_execute_batch (v_leases v) None True (now_of pl v) (v_staged v) pl = (cat, A_done)"
    and valid: "db_catalog_validate (v_leases v) cat"
  obtains c' where "cyboudb_exec c sql = Some (c', OK)" and "stands c' (after v pl cat)"
proof (rule exec_view [OF v(1) pl(1), where s = DONE and v' = "after v pl cat" and Q = "\<lambda>_. True"])
  fix c1 k assume s1: "stands c1 (v\<lparr>v_count := v_count v + 1\<rparr>)" and st: "cn_stmts c1 k = Some (new_stmt pl)"
  show "\<exists>c2. cyboudb_step c1 (Some k) = (c2, DONE) \<and> stands c2 ((after v pl cat)\<lparr>v_count := v_count v + 1\<rparr>)
      \<and> cn_stmts c2 k \<noteq> None \<and> True"
    by (rule step_simple_view [OF s1 _ _ st pl(2), of cat]) (use v(2,3) run valid in auto)
qed (use that in \<open>simp_all add: after_def\<close>)

lemma exec_error_view:
  assumes v: "stands c v" "v_generation v \<noteq> U64_MAX" "db_catalog_validate (v_leases v) (v_staged v)"
    and pl: "compile (v_leases v) (v_staged v) sql = Bound pl" "simple_plan pl"
    and run: "sql_execute_batch (v_leases v) None True (now_of pl v) (v_staged v) pl = (cat, A_fail code msg)"
  obtains c' where "cyboudb_exec c sql = Some (c', ERROR)" and "stands c' (v\<lparr>v_staged := cat, v_clock := clock_of pl v\<rparr>)"
    and "cyboudb_errcode c' = code"
proof (rule exec_view [OF v(1) pl(1), where s = ERROR and v' = "v\<lparr>v_staged := cat, v_clock := clock_of pl v\<rparr>" and Q = "\<lambda>e. e = code"])
  fix c1 k assume s1: "stands c1 (v\<lparr>v_count := v_count v + 1\<rparr>)" and st: "cn_stmts c1 k = Some (new_stmt pl)"
  show "\<exists>c2. cyboudb_step c1 (Some k) = (c2, ERROR)
      \<and> stands c2 (v\<lparr>v_staged := cat, v_clock := clock_of pl v, v_count := v_count v + 1\<rparr>) \<and> cn_stmts c2 k \<noteq> None
      \<and> cn_errcode c2 = code"
    by (rule step_refused_view [OF s1 _ _ st pl(2), of cat code msg])
       (use v(2,3) run in \<open>auto simp: cyboudb_errcode_def view_count_out\<close>)
qed (use that in \<open>simp_all add: cyboudb_errcode_def\<close>)

lemma exec_begin_view:
  assumes v: "stands c v" "\<not> v_tx v"
  obtains c' where "cyboudb_exec c ''BEGIN'' = Some (c', OK)" and "stands c' (v\<lparr>v_tx := True\<rparr>)"
proof -
  have "sql_parse (c_str ''BEGIN'') = Got Begin []" by code_simp
  then have pl: "compile (v_leases v) (v_staged v) ''BEGIN'' = Bound P_begin" by (simp add: compile_def)
  show thesis
  proof (rule exec_view [OF v(1) pl, where s = DONE and v' = "v\<lparr>v_tx := True\<rparr>" and Q = "\<lambda>_. True"])
    fix c1 k assume s1: "stands c1 (v\<lparr>v_count := v_count v + 1\<rparr>)" and st: "cn_stmts c1 k = Some (new_stmt P_begin)"
    have "cyboudb_step c1 (Some k) = step_done ((api_error_clear c1)\<lparr>cn_tx := True, cn_tx_id := cn_tx_id c1 + 1\<rparr>) k (new_stmt P_begin)"
      using st stands_fields [OF s1] v(2)
      by (simp add: cyboudb_step_def new_stmt_def step_begin_def api_error_clear_def)
    moreover have "stands ((api_error_clear c1)\<lparr>cn_tx := True, cn_tx_id := cn_tx_id c1 + 1\<rparr>) (v\<lparr>v_tx := True, v_count := v_count v + 1\<rparr>)"
      using s1 by (cases v) (auto simp: stands_def view_def api_error_clear_def cn_live_def)
    ultimately show "\<exists>c2. cyboudb_step c1 (Some k) = (c2, DONE) \<and> stands c2 (v\<lparr>v_tx := True, v_count := v_count v + 1\<rparr>)
        \<and> cn_stmts c2 k \<noteq> None \<and> True"
      by (simp add: step_done_def) (simp add: put_stmt_def)
  qed (use that in simp_all)
qed

lemma exec_commit_view:
  assumes v: "stands c v" "v_tx v" "v_generation v \<noteq> U64_MAX" "db_catalog_validate (v_leases v) (v_staged v)"
  obtains c' where "cyboudb_exec c ''COMMIT'' = Some (c', OK)"
    and "stands c' (v\<lparr>v_tx := False, v_live := v_staged v, v_generation := v_generation v + 1\<rparr>)"
proof -
  have "sql_parse (c_str ''COMMIT'') = Got Commit []" by code_simp
  then have pl: "compile (v_leases v) (v_staged v) ''COMMIT'' = Bound P_commit" by (simp add: compile_def)
  show thesis
  proof (rule exec_view [OF v(1) pl, where s = DONE and Q = "\<lambda>_. True"
        and v' = "v\<lparr>v_tx := False, v_live := v_staged v, v_generation := v_generation v + 1\<rparr>"])
    fix c1 k assume s1: "stands c1 (v\<lparr>v_count := v_count v + 1\<rparr>)" and st: "cn_stmts c1 k = Some (new_stmt P_commit)"
    have s0: "stands (api_error_clear c1) (v\<lparr>v_count := v_count v + 1\<rparr>)" using s1 by simp
    obtain c2 where cm: "db_commit (api_error_clear c1) = (c2, None)"
      and s2: "stands c2 (v\<lparr>v_live := v_staged v, v_generation := v_generation v + 1, v_count := v_count v + 1\<rparr>)"
      by (rule commit_view [OF s0]) (use v(3,4) in \<open>simp_all add: view_count_out\<close>)
    have "cyboudb_step c1 (Some k) = step_done (c2\<lparr>cn_tx := False\<rparr>) k (new_stmt P_commit)"
      using st cm stands_fields(4) [OF s0] v(2) by (simp add: cyboudb_step_def new_stmt_def step_commit_def)
    moreover have "stands (c2\<lparr>cn_tx := False\<rparr>) (v\<lparr>v_tx := False, v_live := v_staged v, v_generation := v_generation v + 1, v_count := v_count v + 1\<rparr>)"
      using s2 by (cases v) (auto simp: stands_def view_def cn_live_def)
    ultimately show "\<exists>c2. cyboudb_step c1 (Some k) = (c2, DONE)
        \<and> stands c2 (v\<lparr>v_tx := False, v_live := v_staged v, v_generation := v_generation v + 1, v_count := v_count v + 1\<rparr>)
        \<and> cn_stmts c2 k \<noteq> None \<and> True"
      by (simp add: step_done_def) (simp add: put_stmt_def)
  qed (use that in simp_all)
qed

lemma message_view:
  assumes "cn_stmts c k = Some st" and "hands_message (st_plan st)" and "st_message st = Some b" and "length b \<le> n"
  shows "cyboudb_message c (Some k) n = (OK, b)"
  using assms by (simp add: cyboudb_message_def)

lemma close_view:
  assumes "stands c v" and "v_count v = 0" and "\<not> v_tx v"
  obtains c' where "cyboudb_close c = (c', OK)" and "cn_live c' = v_live v" and "\<not> cn_open c'"
  using assms by (auto simp: cyboudb_close_def db_close_def stands_def view_def cn_live_def)

lemma create_view:
  assumes "files p = None" and "pages_ok n" and "struct_size opt \<ge> 8" and "and (flags opt) (not CREATE_KNOWN) = 0"
  obtains c where "cyboudb_create_with_options (Some p) n (Some opt) True files [] clock = (OK, Some c)"
    and "stands c \<lparr>v_leases = (and (flags opt) CREATE_QUEUE_LEASES \<noteq> 0), v_generation = 1, v_clock = clock, v_tx = False,
      v_live = [], v_staged = [], v_count = 0\<rparr>"
proof -
  have "\<not> struct_size opt < 8" using assms(3) by simp
  with assms(1,2,4) that show thesis
    by (simp add: cyboudb_create_with_options_def db_create_def cyboudb_open_def Let_def)
       (simp add: new_conn_def stands_def view_def cn_live_def OPEN_READWRITE_def)
qed

lemma exec_rollback_view:
  assumes v: "stands c v" "v_tx v"
  obtains c' where "cyboudb_exec c ''ROLLBACK'' = Some (c', OK)" and "stands c' (v\<lparr>v_tx := False, v_staged := v_live v\<rparr>)"
proof -
  have "sql_parse (c_str ''ROLLBACK'') = Got Rollback []" by code_simp
  then have pl: "compile (v_leases v) (v_staged v) ''ROLLBACK'' = Bound P_rollback" by (simp add: compile_def)
  show thesis
  proof (rule exec_view [OF v(1) pl, where s = DONE and Q = "\<lambda>_. True" and v' = "v\<lparr>v_tx := False, v_staged := v_live v\<rparr>"])
    fix c1 k assume s1: "stands c1 (v\<lparr>v_count := v_count v + 1\<rparr>)" and st: "cn_stmts c1 k = Some (new_stmt P_rollback)"
    define c2 where "c2 = (api_error_clear c1)\<lparr>cn_staged := cn_live (api_error_clear c1), cn_validated := False, cn_tx := False\<rparr>"
    have s0: "stands (api_error_clear c1) (v\<lparr>v_count := v_count v + 1\<rparr>)" using s1 by simp
    have "cyboudb_step c1 (Some k) = step_done c2 k (new_stmt P_rollback)"
      using st stands_fields [OF s0] v(2) by (simp add: cyboudb_step_def new_stmt_def step_rollback_def db_rollback_def c2_def)
    moreover have "stands c2 (v\<lparr>v_tx := False, v_staged := v_live v, v_count := v_count v + 1\<rparr>)"
      using s0 by (cases v) (auto simp: stands_def view_def cn_live_def c2_def)
    ultimately show "\<exists>c2. cyboudb_step c1 (Some k) = (c2, DONE)
        \<and> stands c2 (v\<lparr>v_tx := False, v_staged := v_live v, v_count := v_count v + 1\<rparr>) \<and> cn_stmts c2 k \<noteq> None \<and> True"
      by (simp add: step_done_def) (simp add: put_stmt_def)
  qed (use that in simp_all)
qed

section \<open>Between and during transactions\<close>

text \<open>The two views a program of whole statements has: between two statements with no transaction
  open, what is staged is on the disk; during a transaction it is not.\<close>

definition between :: "bool \<Rightarrow> nat \<Rightarrow> nat list \<Rightarrow> catalog \<Rightarrow> view" where
  "between l g ts cat = \<lparr>v_leases = l, v_generation = g, v_clock = ts, v_tx = False, v_live = cat, v_staged = cat, v_count = 0\<rparr>"

definition during :: "bool \<Rightarrow> nat \<Rightarrow> nat list \<Rightarrow> catalog \<Rightarrow> catalog \<Rightarrow> view" where
  "during l g ts live cat = \<lparr>v_leases = l, v_generation = g, v_clock = ts, v_tx = True, v_live = live, v_staged = cat, v_count = 0\<rparr>"

lemma between_fields [simp]:
  "v_leases (between l g ts cat) = l" "v_generation (between l g ts cat) = g" "v_clock (between l g ts cat) = ts"
  "v_tx (between l g ts cat) = False" "v_live (between l g ts cat) = cat" "v_staged (between l g ts cat) = cat"
  "v_count (between l g ts cat) = 0"
  by (simp_all add: between_def)

lemma during_fields [simp]:
  "v_leases (during l g ts live cat) = l" "v_generation (during l g ts live cat) = g" "v_clock (during l g ts live cat) = ts"
  "v_tx (during l g ts live cat) = True" "v_live (during l g ts live cat) = live" "v_staged (during l g ts live cat) = cat"
  "v_count (during l g ts live cat) = 0"
  by (simp_all add: during_def)

lemma clock_between [simp]:
  "clock_of pl (between l g ts cat) = (if uses_clock pl then tl ts else ts)"
  "now_of pl (between l g (t # ts) cat) = (if uses_clock pl then t else 0)"
  "clock_of pl (during l g ts live cat) = (if uses_clock pl then tl ts else ts)"
  "\<not> uses_clock pl \<Longrightarrow> now_of pl (between l g ts cat) = 0" "\<not> uses_clock pl \<Longrightarrow> now_of pl (during l g ts live cat) = 0"
  by (simp_all add: clock_of_def now_of_def)

lemma after_between [simp]:
  "after (between l g ts cat) pl cat' = between l (g + 1) (clock_of pl (between l g ts cat)) cat'"
  "after (during l g ts live cat) pl cat' = during l g (clock_of pl (during l g ts live cat)) live cat'"
  by (simp_all add: after_def between_def during_def clock_of_def)

lemma begin_between:
  assumes "stands c (between l g ts cat)"
  obtains c' where "cyboudb_exec c ''BEGIN'' = Some (c', OK)" and "stands c' (during l g ts cat cat)"
  by (rule exec_begin_view [OF assms]) (use that in \<open>simp_all add: between_def during_def\<close>)

lemma commit_during:
  assumes "stands c (during l g ts live cat)" and "g \<noteq> U64_MAX" and "db_catalog_validate l cat"
  obtains c' where "cyboudb_exec c ''COMMIT'' = Some (c', OK)" and "stands c' (between l (g + 1) ts cat)"
  by (rule exec_commit_view [OF assms(1)]) (use that assms(2,3) in \<open>simp_all add: between_def during_def\<close>)

lemma rollback_during:
  assumes "stands c (during l g ts live cat)"
  obtains c' where "cyboudb_exec c ''ROLLBACK'' = Some (c', OK)" and "stands c' (between l g ts live)"
  by (rule exec_rollback_view [OF assms]) (use that in \<open>simp_all add: between_def during_def\<close>)

lemma plan_kinds [simp]:
  "simple_plan (P_ack i p t)" "simple_plan (P_nack i p t)" "simple_plan (P_renew i p t d)" "simple_plan (P_insert i rs)"
  "simple_plan (P_enqueue i b)" "simple_plan (P_append i b)" "simple_plan (P_create i n ob)" "simple_plan (P_create_cursor i n)"
  "\<not> uses_clock (P_ack i p t)" "\<not> uses_clock (P_nack i p t)" "uses_clock (P_renew i p t d)" "uses_clock (P_claim i d)"
  "\<not> uses_clock (P_insert i rs)" "\<not> uses_clock (P_enqueue i b)" "\<not> uses_clock (P_append i b)" "\<not> uses_clock (P_create i n ob)"
  "\<not> uses_clock (P_create_cursor i n)" "\<not> uses_clock (P_dequeue i)" "\<not> uses_clock (P_read i n)"
  "hands_message (P_claim i d)" "hands_message (P_dequeue i)" "hands_message (P_read i n)"
  by (simp_all add: simple_plan_def hands_message_def uses_clock_def)

end
