(* ===== verification/Worker_Main.thy ===== *)
theory Worker_Main
  imports Worker_Progress Connection_Progress Lease_Valid
begin

text \<open>
  The whole of \<open>examples/worker.c\<close> on storage that does not fail: the schema, the three jobs, the loop
  and the report.  The database of the program is \<open>worker_db\<close>, its three objects; the loop and the
  report are followed for any queue and any stream, \<open>main\<close> for the ones it makes.
\<close>

section \<open>The database of the program\<close>

definition worker_db :: "cell list list \<Rightarrow> queue \<Rightarrow> stream \<Rightarrow> catalog" where
  "worker_db rows q s = [(1, ''results'', Tab result_columns rows), (2, ''inbox'', Que q), (3, ''audit'', Str s)]"

lemma find_worker [simp]:
  "catalog_find_object (worker_db rows q s) ''results'' = Some (1, Tab result_columns rows)"
  "catalog_find_object (worker_db rows q s) ''inbox'' = Some (2, Que q)"
  "catalog_find_object (worker_db rows q s) ''audit'' = Some (3, Str s)"
proof -
  have "same_name ''results'' ''results''" "same_name ''inbox'' ''inbox''" "same_name ''audit'' ''audit''"
    "\<not> same_name ''results'' ''inbox''" "\<not> same_name ''results'' ''audit''" "\<not> same_name ''inbox'' ''audit''" by code_simp+
  then show "catalog_find_object (worker_db rows q s) ''results'' = Some (1, Tab result_columns rows)"
    "catalog_find_object (worker_db rows q s) ''inbox'' = Some (2, Que q)"
    "catalog_find_object (worker_db rows q s) ''audit'' = Some (3, Str s)"
    by (simp_all add: worker_db_def)
qed

lemma page_worker [simp]:
  "db_catalog_page (worker_db rows q s) (Suc 0) = Some (Tab result_columns rows)" "db_catalog_page (worker_db rows q s) 2 = Some (Que q)"
  "db_catalog_page (worker_db rows q s) 3 = Some (Str s)"
  "cat_set (worker_db rows q s) (Suc 0) (Tab result_columns rows') = worker_db rows' q s"
  "cat_set (worker_db rows q s) 2 (Que q') = worker_db rows q' s" "cat_set (worker_db rows q s) 3 (Str s') = worker_db rows q s'"
  by (simp_all add: worker_db_def db_catalog_page_def cat_set_def)

lemma valid_worker: "queue_page_valid False q \<Longrightarrow> stream_page_valid s \<Longrightarrow> db_catalog_validate False (worker_db rows q s)"
  by (simp add: worker_db_def db_catalog_validate_def object_valid_def result_columns_def)

section \<open>One job\<close>

text \<open>The audit stream has a slot for one more record.\<close>

definition has_room :: "stream \<Rightarrow> bool" where
  "has_room s \<longleftrightarrow> s_end s < (s_first_seg s + S_MAX_SEGMENTS) * QUEUE_SEG_SLOTS"

definition logged :: "stream \<Rightarrow> string \<Rightarrow> stream" where
  "logged s b = s\<lparr>s_records := s_records s @ [b]\<rparr>"

lemma append_logged:
  assumes "has_room s" and "length b < 2 ^ 32"
  shows "db_stream_append s b = (logged s b, None)"
  using append_quiet [of s b] assms by (simp add: has_room_def logged_def)

lemma logged_valid: "has_room s \<Longrightarrow> length b < 2 ^ 32 \<Longrightarrow> stream_page_valid s \<Longrightarrow> stream_page_valid (logged s b)"
  using append_valid [of s b] append_logged [of s b] by simp

lemma dequeue_prepared:
  assumes c: "stands c (between False g ts (worker_db rows q s))"
  obtains c1 c2 k where "cyboudb_exec c ''BEGIN'' = Some (c1, OK)" and "cyboudb_prepare c1 ''DEQUEUE FROM inbox'' = (c2, OK, Some k)"
    and "stands c2 ((during False g ts (worker_db rows q s) (worker_db rows q s))\<lparr>v_count := 1\<rparr>)"
    and "cn_stmts c2 k = Some (new_stmt (P_dequeue 2))"
proof -
  obtain c1 where e1: "cyboudb_exec c ''BEGIN'' = Some (c1, OK)"
    and s1: "stands c1 (during False g ts (worker_db rows q s) (worker_db rows q s))" by (rule begin_between [OF c])
  have pl: "compile False (worker_db rows q s) ''DEQUEUE FROM inbox'' = Bound (P_dequeue 2)"
    by (simp add: compile_dequeue catalog_find_queue_def)
  show thesis
    by (rule prepare_view [OF s1, of "''DEQUEUE FROM inbox''" "P_dequeue 2"]) (use that e1 pl in simp_all)
qed

lemma record_job_view:
  assumes c: "stands c (during False g ts disk (worker_db rows q s))" "g < U64_MAX"
    and m: "length m \<le> 255" "quote \<notin> set (c_str m)"
    and ok: "queue_page_valid False q" "stream_page_valid s" "has_room s"
  obtains c' where "record_job c (length m) (c_str m) = Some (c', 0, True, [Out (''  processed '' @ c_str m)])"
    and "stands c' (between False (g + 1) ts (worker_db (rows @ [result_row m]) q (logged s (audit_line m))))"
proof -
  let ?ins = "snprintf 512 (insert_text (length m) (c_str m))" and ?app = "snprintf 512 (append_text (c_str m))"
  let ?rows = "rows @ [result_row m]"
  have g: "g \<noteq> U64_MAX" using c(2) by simp
  have "list_all2 cell_fits result_columns (result_row m)" by (simp add: result_columns_def result_row_def cell_fits_def)
  then have run1: "sql_execute_batch False None True 0 (worker_db rows q s) (P_insert 1 [result_row m]) = (worker_db ?rows q s, A_done)"
    by (simp add: exec_insert_def)
  have len: "length (audit_line m) < 2 ^ 32" using m(1) c_str_facts(2) [of m] by (simp add: audit_line_def)
  have run2: "sql_execute_batch False None True 0 (worker_db ?rows q s) (P_append 3 (audit_line m))
      = (worker_db ?rows q (logged s (audit_line m)), A_done)"
    by (simp add: on_stream_def on_page_def storage_done_def append_logged [OF ok(3) len])
  have valid: "db_catalog_validate False (worker_db rows' q s)" "db_catalog_validate False (worker_db rows' q (logged s (audit_line m)))" for rows'
    using valid_worker ok len logged_valid by simp_all
  obtain c1 where e1: "cyboudb_exec c ?ins = Some (c1, OK)" and s1: "stands c1 (during False g ts disk (worker_db ?rows q s))"
    by (rule exec_done_view [OF c(1), of ?ins "P_insert 1 [result_row m]" "worker_db ?rows q s"])
       (use g run1 valid compile_insert [OF m find_worker(1)] in simp_all)
  obtain c2 where e2: "cyboudb_exec c1 ?app = Some (c2, OK)"
    and s2: "stands c2 (during False g ts disk (worker_db ?rows q (logged s (audit_line m))))"
    by (rule exec_done_view [OF s1, of ?app "P_append 3 (audit_line m)" "worker_db ?rows q (logged s (audit_line m))"])
       (use g run2 valid compile_append [OF m find_worker(3)] in simp_all)
  obtain c3 where e3: "cyboudb_exec c2 ''COMMIT'' = Some (c3, OK)"
    and s3: "stands c3 (between False (g + 1) ts (worker_db ?rows q (logged s (audit_line m))))"
    by (rule commit_during [OF s2 g valid(2)])
  show thesis by (rule that [OF _ s3]) (use e1 e2 e3 in \<open>simp add: record_job_def append_text_def\<close>)
qed

lemma process_one_view:
  assumes c: "stands c (between False g ts (worker_db rows q s))" "g < U64_MAX"
    and q: "queue_page_valid False q" "messages q = m # ms" and m: "length m \<le> 255" "quote \<notin> set (c_str m)"
    and s: "stream_page_valid s" "has_room s"
  obtains c' q' where "process_one c = Some (c', 0, True, [Out (''  processed '' @ c_str m)])"
    and "stands c' (between False (g + 1) ts (worker_db (rows @ [result_row m]) q' (logged s (audit_line m))))"
    and "queue_page_valid False q'" and "messages q' = ms"
proof -
  have seg: "db_queue_segments_valid False q" using q(1) by (simp add: queue_page_valid_def)
  obtain q' where pop: "db_queue_pop q = (q', Inr m)" by (rule pop_head [OF seg q(2)])
  have q': "queue_page_valid False q'" "messages q' = ms" using pop_messages [OF seg pop] q by simp_all
  have "db_queue_peek q = Inr (length m)"
    using pop by (auto simp: db_queue_peek_def db_queue_pop_def queue_slot_at_def split: if_splits)
  moreover have "arena_holds (length m)" using m(1) by (simp add: arena_holds_def EXEC_ARENA_def)
  ultimately have run: "sql_execute_batch False None True 0 (worker_db rows q s) (P_dequeue 2) = (worker_db rows q' s, A_took m None)"
    using pop by (simp add: exec_dequeue_def)
  obtain c1 c2 k where e1: "cyboudb_exec c ''BEGIN'' = Some (c1, OK)" and prep: "cyboudb_prepare c1 ''DEQUEUE FROM inbox'' = (c2, OK, Some k)"
    and s2: "stands c2 ((during False g ts (worker_db rows q s) (worker_db rows q s))\<lparr>v_count := 1\<rparr>)"
    and st2: "cn_stmts c2 k = Some (new_stmt (P_dequeue 2))" by (rule dequeue_prepared [OF c(1)])
  have pl: "st_plan (new_stmt (P_dequeue 2)) = P_dequeue 2" by (simp add: new_stmt_def)
  obtain c3 st where step: "cyboudb_step c2 (Some k) = (c3, ROW)"
    and s3: "stands c3 ((during False g ts (worker_db rows q s) (worker_db rows q' s))\<lparr>v_count := 1\<rparr>)"
    and st3: "cn_stmts c3 k = Some st" "st_plan st = P_dequeue 2" "st_message st = Some m"
    by (rule step_row_view [OF s2 _ _ st2 pl, where cat = "worker_db rows q' s" and b = m and tk = None])
       (use c(2) run valid_worker [OF q(1) s(1)] valid_worker [OF q'(1) s(1)] in auto)
  have msg: "cyboudb_message c3 (Some k) 255 = (OK, m)" by (rule message_view [OF st3(1)]) (use st3 m(1) in simp_all)
  obtain c4 where fin: "cyboudb_finalize c3 (Some k) = (c4, OK)" and s4: "stands c4 (during False g ts (worker_db rows q s) (worker_db rows q' s))"
    by (rule finalize_view [OF s3, of k]) (use st3(1) in \<open>simp_all add: during_def\<close>)
  have run: "process_one c = record_job c4 (length m) (c_str m)"
    using e1 prep step msg fin by (simp add: process_one_def)
  show thesis
    by (rule record_job_view [OF s4 c(2) m q'(1) s]) (use that q' run in simp_all)
qed

lemma process_one_idle:
  assumes c: "stands c (between False g ts (worker_db rows q s))" "g < U64_MAX"
    and q: "queue_page_valid False q" "messages q = []" and s: "stream_page_valid s"
  obtains c' where "process_one c = Some (c', 0, False, [])" and "stands c' (between False g ts (worker_db rows q s))"
proof -
  have "q_head q \<le> q_tail q" using q(1) by (simp add: queue_page_valid_def db_queue_segments_valid_def)
  then have "q_head q = q_tail q" using q(2) by (auto simp: messages_def)
  then have run: "sql_execute_batch False None True 0 (worker_db rows q s) (P_dequeue 2) = (worker_db rows q s, A_empty)"
    by (simp add: exec_dequeue_def db_queue_peek_def)
  obtain c1 c2 k where e1: "cyboudb_exec c ''BEGIN'' = Some (c1, OK)" and prep: "cyboudb_prepare c1 ''DEQUEUE FROM inbox'' = (c2, OK, Some k)"
    and s2: "stands c2 ((during False g ts (worker_db rows q s) (worker_db rows q s))\<lparr>v_count := 1\<rparr>)"
    and st2: "cn_stmts c2 k = Some (new_stmt (P_dequeue 2))" by (rule dequeue_prepared [OF c(1)])
  have pl: "st_plan (new_stmt (P_dequeue 2)) = P_dequeue 2" by (simp add: new_stmt_def)
  obtain c3 where step: "cyboudb_step c2 (Some k) = (c3, DONE)"
    and s3: "stands c3 ((during False g ts (worker_db rows q s) (worker_db rows q s))\<lparr>v_count := 1\<rparr>)" and st3: "cn_stmts c3 k \<noteq> None"
    by (rule step_empty_view [OF s2 _ _ st2 pl, where cat = "worker_db rows q s"])
       (use c(2) run valid_worker [OF q(1) s] in auto)
  obtain c4 where fin: "cyboudb_finalize c3 (Some k) = (c4, OK)" and s4: "stands c4 (during False g ts (worker_db rows q s) (worker_db rows q s))"
    by (rule finalize_view [OF s3 st3]) (simp_all add: during_def)
  obtain c5 where rb: "cyboudb_exec c4 ''ROLLBACK'' = Some (c5, OK)" and s5: "stands c5 (between False g ts (worker_db rows q s))"
    by (rule rollback_during [OF s4])
  show thesis by (rule that [OF _ s5]) (use e1 prep step fin rb in \<open>simp add: process_one_def split_beta\<close>)
qed

section \<open>The loop\<close>

definition all_logged :: "stream \<Rightarrow> string list \<Rightarrow> stream" where
  "all_logged s bs = s\<lparr>s_records := s_records s @ bs\<rparr>"

lemma work_loop_view:
  assumes "stands c (between False g ts (worker_db rows q s))" and "g + length ms < U64_MAX"
    and "queue_page_valid False q" and "messages q = ms" and "\<And>m. m \<in> set ms \<Longrightarrow> length m \<le> 255 \<and> quote \<notin> set (c_str m)"
    and "stream_page_valid s" and "s_end s + length ms \<le> (s_first_seg s + S_MAX_SEGMENTS) * QUEUE_SEG_SLOTS"
  shows "\<exists>c' q'. work_loop c n out = Some (c', True, n + length ms, out @ map (\<lambda>m. Out (''  processed '' @ c_str m)) ms)
    \<and> stands c' (between False (g + length ms) ts (worker_db (rows @ map result_row ms) q' (all_logged s (map audit_line ms))))
    \<and> queue_page_valid False q' \<and> messages q' = [] \<and> stream_page_valid (all_logged s (map audit_line ms))"
  using assms
proof (induction ms arbitrary: c g rows q s n out)
  case Nil
  obtain c' where run: "process_one c = Some (c', 0, False, [])" and s': "stands c' (between False g ts (worker_db rows q s))"
    by (rule process_one_idle [OF Nil.prems(1) _ Nil.prems(3,4,6)]) (use Nil.prems(2) in simp)
  have "all_logged s [] = s" by (simp add: all_logged_def)
  with run s' Nil.prems(3,4,6) show ?case by (subst work_loop.simps) auto
next
  case (Cons m ms)
  have len: "length (audit_line m) < 2 ^ 32" using Cons.prems(5) [of m] c_str_facts(2) [of m] by (simp add: audit_line_def)
  have room: "has_room s" using Cons.prems(7) by (simp add: has_room_def)
  obtain c1 q1 where run: "process_one c = Some (c1, 0, True, [Out (''  processed '' @ c_str m)])"
    and s1: "stands c1 (between False (g + 1) ts (worker_db (rows @ [result_row m]) q1 (logged s (audit_line m))))"
    and q1: "queue_page_valid False q1" "messages q1 = ms"
    by (rule process_one_view [OF Cons.prems(1) _ Cons.prems(3,4) _ _ Cons.prems(6) room]) (use Cons.prems(2,5) in auto)
  have ends: "s_end (logged s (audit_line m)) = s_end s + 1" "s_first_seg (logged s (audit_line m)) = s_first_seg s"
    by (simp_all add: logged_def s_end_def s_first_seg_def)
  have all: "all_logged (logged s (audit_line m)) (map audit_line ms) = all_logged s (map audit_line (m # ms))"
    by (simp add: all_logged_def logged_def)
  have "\<exists>c' q'. work_loop c1 (n + 1) (out @ [Out (''  processed '' @ c_str m)])
      = Some (c', True, n + 1 + length ms, (out @ [Out (''  processed '' @ c_str m)]) @ map (\<lambda>m. Out (''  processed '' @ c_str m)) ms)
    \<and> stands c' (between False (g + 1 + length ms) ts
        (worker_db ((rows @ [result_row m]) @ map result_row ms) q' (all_logged (logged s (audit_line m)) (map audit_line ms))))
    \<and> queue_page_valid False q' \<and> messages q' = [] \<and> stream_page_valid (all_logged (logged s (audit_line m)) (map audit_line ms))"
    by (rule Cons.IH [OF s1 _ q1 _ logged_valid [OF room len Cons.prems(6)]])
       (use Cons.prems(2,5,7) ends in simp_all)
  moreover have "work_loop c n out = work_loop c1 (n + 1) (out @ [Out (''  processed '' @ c_str m)])"
    using run by (simp add: work_loop.simps [of c])
  ultimately show ?case by (simp add: all)
qed

section \<open>The report\<close>

definition read_up_to :: "nat \<Rightarrow> string list \<Rightarrow> string \<Rightarrow> nat \<Rightarrow> stream" where
  "read_up_to f rs n p = \<lparr>s_first = f, s_records = rs, s_cursors = [(n, p)]\<rparr>"

lemma exec_read_next:
  assumes "p < length rs" and "length (rs ! p) \<le> 255"
  shows "exec_read None (worker_db rows q (read_up_to f rs n (f + p))) 3 n
    = (worker_db rows q (read_up_to f rs n (f + Suc p)), A_took (rs ! p) None)"
proof -
  have "arena_holds (length (rs ! p))" using assms(2) by (simp add: arena_holds_def EXEC_ARENA_def)
  with assms(1) show ?thesis
    by (simp add: exec_read_def db_stream_peek_def db_stream_cursor_find_def db_stream_read_def read_up_to_def s_end_def)
qed

lemma exec_read_end:
  "exec_read None (worker_db rows q (read_up_to f rs n (f + length rs))) 3 n = (worker_db rows q (read_up_to f rs n (f + length rs)), A_empty)"
  by (simp add: exec_read_def db_stream_peek_def db_stream_cursor_find_def read_up_to_def s_end_def)

lemma read_up_to_valid:
  "stream_page_valid (read_up_to f rs n (f + p)) \<Longrightarrow> p' \<le> length rs \<Longrightarrow> stream_page_valid (read_up_to f rs n (f + p'))"
  by (auto simp: stream_page_valid_def read_up_to_def s_end_def s_segments_def s_first_seg_def)

text \<open>The loop over \<open>READ\<close> prints every record the reader has not had, in order, and ends.\<close>

lemma read_loop_view:
  assumes "stands c ((between False g ts (worker_db rows q (read_up_to f rs n (f + p))))\<lparr>v_count := 1\<rparr>)"
    and "g + (length rs - p) < U64_MAX" and "p \<le> length rs" and "\<And>b. b \<in> set rs \<Longrightarrow> length b \<le> 255"
    and "cn_stmts c k = Some st" and "st_plan st = P_read 3 n"
    and "queue_page_valid False q" and "stream_page_valid (read_up_to f rs n (f + p))"
  shows "\<exists>c' g'. read_loop c (Some k) out = Some (c', True, out @ map (\<lambda>b. Out (''  '' @ c_str b)) (drop p rs))
    \<and> stands c' ((between False g' ts (worker_db rows q (read_up_to f rs n (f + length rs))))\<lparr>v_count := 1\<rparr>) \<and> cn_stmts c' k \<noteq> None"
  using assms
proof (induction "length rs - p" arbitrary: c g p st out)
  case 0
  then have p: "p = length rs" by simp
  note v = valid_worker [OF "0.prems"(7,8)]
  obtain c1 where step: "cyboudb_step c (Some k) = (c1, DONE)" and st1: "cn_stmts c1 k \<noteq> None"
    and s1: "stands c1 ((between False (g + 1) ts (worker_db rows q (read_up_to f rs n (f + length rs))))\<lparr>v_count := 1\<rparr>)"
    by (rule step_empty_view [OF "0.prems"(1) _ _ "0.prems"(5,6), where cat = "worker_db rows q (read_up_to f rs n (f + p))"])
       (use "0.prems"(2) v exec_read_end p in auto)
  then show ?case using p by (subst read_loop.simps) auto
next
  case (Suc d)
  then have p: "p < length rs" by simp
  have b: "length (rs ! p) \<le> 255" using Suc.prems(4) p by simp
  have valid: "stream_page_valid (read_up_to f rs n (f + Suc p))" by (rule read_up_to_valid [OF Suc.prems(8)]) (use p in simp)
  obtain c1 st1 where step: "cyboudb_step c (Some k) = (c1, ROW)"
    and s1: "stands c1 ((between False (g + 1) ts (worker_db rows q (read_up_to f rs n (f + Suc p))))\<lparr>v_count := 1\<rparr>)"
    and st1: "cn_stmts c1 k = Some st1" "st_plan st1 = P_read 3 n" "st_message st1 = Some (rs ! p)"
    by (rule step_row_view [OF Suc.prems(1) _ _ Suc.prems(5,6), where cat = "worker_db rows q (read_up_to f rs n (f + Suc p))"
          and b = "rs ! p" and tk = None])
       (use Suc.prems(2) valid_worker [OF Suc.prems(7,8)] valid_worker [OF Suc.prems(7) valid] exec_read_next [OF p b] in auto)
  have msg: "cyboudb_message c1 (Some k) 255 = (OK, rs ! p)" by (rule message_view [OF st1(1)]) (use st1 b in simp_all)
  have d: "d = length rs - Suc p" using Suc.hyps(2) by simp
  have "\<exists>c' g'. read_loop c1 (Some k) (out @ [Out (''  '' @ c_str (rs ! p))])
      = Some (c', True, (out @ [Out (''  '' @ c_str (rs ! p))]) @ map (\<lambda>b. Out (''  '' @ c_str b)) (drop (Suc p) rs))
    \<and> stands c' ((between False g' ts (worker_db rows q (read_up_to f rs n (f + length rs))))\<lparr>v_count := 1\<rparr>) \<and> cn_stmts c' k \<noteq> None"
    by (rule Suc.hyps(1) [OF d s1 _ _ Suc.prems(4) st1(1,2) Suc.prems(7) valid]) (use Suc.prems(2) p in auto)
  moreover have "read_loop c (Some k) out = read_loop c1 (Some k) (out @ [Out (''  '' @ c_str (rs ! p))])"
    using step msg by (simp add: read_loop.simps [of c])
  moreover have "drop p rs = rs ! p # drop (Suc p) rs" using p by (simp add: Cons_nth_drop_Suc)
  ultimately show ?case by simp
qed

lemma report_view:
  assumes c: "stands c (between False g ts (worker_db rows q (read_up_to f rs ''reporting'' (f + p))))" "g + length rs < U64_MAX"
    and rs: "p \<le> length rs" "\<And>b. b \<in> set rs \<Longrightarrow> length b \<le> 255"
    and ok: "queue_page_valid False q" "stream_page_valid (read_up_to f rs ''reporting'' (f + p))"
  obtains c' where "report c n out
      = Some (if n = 3 then 0 else 1, c', (out @ map (\<lambda>b. Out (''  '' @ c_str b)) (drop p rs)) @ [Out ''ok''])"
    and "\<not> cn_open c'" and "cn_live c' = worker_db rows q (read_up_to f rs ''reporting'' (f + length rs))"
proof -
  have "sql_parse (c_str ''READ FROM audit AS reporting'') = Got (Read ''audit'' ''reporting'') []" by code_simp
  then have pl: "compile False (worker_db rows q s) ''READ FROM audit AS reporting'' = Bound (P_read 3 ''reporting'')" for s
    by (simp add: compile_def bind_cursor_common_def bind_stream_def catalog_find_stream_def)
  obtain c1 k where prep: "cyboudb_prepare c ''READ FROM audit AS reporting'' = (c1, OK, Some k)"
    and s1: "stands c1 ((between False g ts (worker_db rows q (read_up_to f rs ''reporting'' (f + p))))\<lparr>v_count := 1\<rparr>)"
    and st1: "cn_stmts c1 k = Some (new_stmt (P_read 3 ''reporting''))"
    by (rule prepare_view [OF c(1), of "''READ FROM audit AS reporting''"]) (use pl in simp_all)
  have plan: "st_plan (new_stmt (P_read 3 ''reporting'')) = P_read 3 ''reporting''" by (simp add: new_stmt_def)
  have "\<exists>c2 g'. read_loop c1 (Some k) out = Some (c2, True, out @ map (\<lambda>b. Out (''  '' @ c_str b)) (drop p rs))
    \<and> stands c2 ((between False g' ts (worker_db rows q (read_up_to f rs ''reporting'' (f + length rs))))\<lparr>v_count := 1\<rparr>) \<and> cn_stmts c2 k \<noteq> None"
    by (rule read_loop_view [OF s1 _ rs st1 plan ok]) (use c(2) in simp)
  then obtain c2 g' where loop: "read_loop c1 (Some k) out = Some (c2, True, out @ map (\<lambda>b. Out (''  '' @ c_str b)) (drop p rs))"
    and s2: "stands c2 ((between False g' ts (worker_db rows q (read_up_to f rs ''reporting'' (f + length rs))))\<lparr>v_count := 1\<rparr>)"
    and st2: "cn_stmts c2 k \<noteq> None" by blast
  obtain c3 where fin: "cyboudb_finalize c2 (Some k) = (c3, OK)"
    and s3: "stands c3 ((between False g' ts (worker_db rows q (read_up_to f rs ''reporting'' (f + length rs))))\<lparr>v_count := 0\<rparr>)"
    using finalize_view [OF s2 st2] by auto
  obtain c4 where close: "cyboudb_close c3 = (c4, OK)" "cn_live c4 = worker_db rows q (read_up_to f rs ''reporting'' (f + length rs))" "\<not> cn_open c4"
    by (rule close_view [OF s3]) simp_all
  show thesis by (rule that [OF _ close(3,2)]) (use prep loop fin close(1) in \<open>simp add: report_def\<close>)
qed

section \<open>The whole program\<close>

text \<open>Statements run one after the other on a catalog: \<open>None\<close> when one does not go through.\<close>

fun replay :: "bool \<Rightarrow> catalog \<Rightarrow> string list \<Rightarrow> catalog option" where
  "replay l cat [] = Some cat"
| "replay l cat (sql # sqls) =
    (case compile l cat sql of
       Bound pl \<Rightarrow>
         if simple_plan pl \<and> \<not> uses_clock pl \<and> db_catalog_validate l cat then
           (case sql_execute_batch l None True 0 cat pl of
              (cat', A_done) \<Rightarrow> if db_catalog_validate l cat' then replay l cat' sqls else None
            | _ \<Rightarrow> None)
         else None
     | _ \<Rightarrow> None)"

lemma exec_all_replay:
  assumes "stands c (between l g ts cat)" and "replay l cat sqls = Some cat'" and "g + length sqls < U64_MAX"
  shows "\<exists>c'. exec_all c sqls = Some (c', True) \<and> stands c' (between l (g + length sqls) ts cat')"
  using assms
proof (induction sqls arbitrary: c g cat)
  case Nil
  then show ?case by simp
next
  case (Cons sql sqls)
  obtain pl cat1 where pl: "compile l cat sql = Bound pl" "simple_plan pl" "\<not> uses_clock pl"
    and run: "sql_execute_batch l None True 0 cat pl = (cat1, A_done)" and valid: "db_catalog_validate l cat" "db_catalog_validate l cat1"
    and rest: "replay l cat1 sqls = Some cat'"
    using Cons.prems(2) by (auto split: bres.splits prod.splits answer.splits if_splits)
  obtain c1 where e: "cyboudb_exec c sql = Some (c1, OK)" and s1: "stands c1 (between l (g + 1) ts cat1)"
    by (rule exec_done_view [OF Cons.prems(1), of sql pl cat1]) (use Cons.prems(3) pl run valid in simp_all)
  have "\<exists>c'. exec_all c1 sqls = Some (c', True) \<and> stands c' (between l (g + 1 + length sqls) ts cat')"
    by (rule Cons.IH [OF s1 rest]) (use Cons.prems(3) in simp)
  then show ?case using e by auto
qed

definition queued :: queue where
  "queued = fill new_queue [''alpha'', ''beta'', ''gamma'']"

lemma setup_replays:
  "replay False [] schema = Some (worker_db [] new_queue (read_up_to 0 [] ''reporting'' 0))"
  "replay False (worker_db [] new_queue (read_up_to 0 [] ''reporting'' 0)) jobs = Some (worker_db [] queued (read_up_to 0 [] ''reporting'' 0))"
  by code_simp+

lemma queued_facts:
  "queue_page_valid False queued" "messages queued = [''alpha'', ''beta'', ''gamma'']"
  by code_simp+

text \<open>From the creation of the file to the three jobs queued.\<close>

lemma setup_view:
  obtains c c1 c2 where "cyboudb_create (Some DB_PATH) 4000 True (files(DB_PATH := None)) [] clock = (OK, Some c)"
    and "exec_all c schema = Some (c1, True)" and "exec_all c1 jobs = Some (c2, True)"
    and "stands c2 (between False 8 clock (worker_db [] queued (read_up_to 0 [] ''reporting'' 0)))"
proof -
  have "pages_ok 4000" by code_simp
  then obtain c where create: "cyboudb_create (Some DB_PATH) 4000 True (files(DB_PATH := None)) [] clock = (OK, Some c)"
    and s0: "stands c (between False 1 clock [])"
    by (simp add: cyboudb_create_def cyboudb_create_with_options_def db_create_def cyboudb_open_def Let_def)
       (simp add: new_conn_def stands_def view_def cn_live_def OPEN_READWRITE_def between_def)
  have u: "1 + length schema < U64_MAX" "1 + length schema + length jobs < U64_MAX" by (simp_all add: schema_def jobs_def U64_MAX_def)
  have g: "1 + length schema + length jobs = 8" by (simp add: schema_def jobs_def)
  obtain c1 where e1: "exec_all c schema = Some (c1, True)"
    and s1: "stands c1 (between False (1 + length schema) clock (worker_db [] new_queue (read_up_to 0 [] ''reporting'' 0)))"
    using exec_all_replay [OF s0 setup_replays(1) u(1)] by blast
  obtain c2 where e2: "exec_all c1 jobs = Some (c2, True)"
    and s2: "stands c2 (between False 8 clock (worker_db [] queued (read_up_to 0 [] ''reporting'' 0)))"
    using exec_all_replay [OF s1 setup_replays(2) u(2)] unfolding g by blast
  show thesis by (rule that [OF create e1 e2 s2])
qed

text \<open>C5 The program: \<open>main\<close> of \<open>examples/worker.c\<close>, run on storage that does not fail, returns zero whatever
  else the directory holds; it prints the three jobs as processed and then, from the audit stream, the
  three lines in order, and the file it closes holds the three rows, the three lines and an empty
  queue.\<close>

theorem worker_main_succeeds:
  "\<exists>c. main files [] clock = Some (0, Some c,
      map Out [''queueing three jobs'', ''working'', ''  processed alpha'', ''  processed beta'', ''  processed gamma'',
        ''queue drained after 3 jobs'', ''what the reporting reader sees'', ''  done: alpha'', ''  done: beta'',
        ''  done: gamma'', ''ok''])
    \<and> \<not> cn_open c \<and> inbox (cn_live c) = [] \<and> results (cn_live c) = map result_row [''alpha'', ''beta'', ''gamma'']
    \<and> audit (cn_live c) = map audit_line [''alpha'', ''beta'', ''gamma'']"
proof -
  let ?jobs = "[''alpha'', ''beta'', ''gamma'']" and ?s = "read_up_to 0 [] ''reporting'' 0"
  obtain c c1 c2 where create: "cyboudb_create (Some DB_PATH) 4000 True (files(DB_PATH := None)) [] clock = (OK, Some c)"
    and e1: "exec_all c schema = Some (c1, True)" and e2: "exec_all c1 jobs = Some (c2, True)"
    and s2: "stands c2 (between False 8 clock (worker_db [] queued ?s))" by (rule setup_view)
  have plain: "length m \<le> 255 \<and> quote \<notin> set (c_str m)" if "m \<in> set ?jobs" for m
    using that by (auto simp: c_str_def)
  let ?out = "[Out ''queueing three jobs''] @ [Out ''working'']"
  have "\<exists>c' q'. work_loop c2 0 ?out = Some (c', True, 0 + length ?jobs, ?out @ map (\<lambda>m. Out (''  processed '' @ c_str m)) ?jobs)
    \<and> stands c' (between False (8 + length ?jobs) clock (worker_db ([] @ map result_row ?jobs) q' (all_logged ?s (map audit_line ?jobs))))
    \<and> queue_page_valid False q' \<and> messages q' = [] \<and> stream_page_valid (all_logged ?s (map audit_line ?jobs))"
    by (rule work_loop_view [OF s2 _ queued_facts plain])
       (simp_all add: U64_MAX_def stream_page_valid_def read_up_to_def s_end_def s_segments_def s_first_seg_def)
  then obtain c3 q where loop: "work_loop c2 0 ?out = Some (c3, True, 0 + length ?jobs, ?out @ map (\<lambda>m. Out (''  processed '' @ c_str m)) ?jobs)"
    and s3: "stands c3 (between False (8 + length ?jobs) clock (worker_db (map result_row ?jobs) q (all_logged ?s (map audit_line ?jobs))))"
    and q: "queue_page_valid False q" "messages q = []" and valid: "stream_page_valid (all_logged ?s (map audit_line ?jobs))"
    by (simp only: append_Nil) blast
  have lg: "all_logged ?s (map audit_line ?jobs) = read_up_to 0 (map audit_line ?jobs) ''reporting'' (0 + 0)"
    by (simp add: all_logged_def read_up_to_def)
  have lines: "length b \<le> 255" if "b \<in> set (map audit_line ?jobs)" for b
    using that by (auto simp: audit_line_def c_str_def)
  let ?n = "0 + length ?jobs"
  let ?o3 = "(?out @ map (\<lambda>m. Out (''  processed '' @ c_str m)) ?jobs)
    @ [Out (''queue drained after '' @ dec ?n @ '' jobs''), Out ''what the reporting reader sees'']"
  obtain c4 where rep: "report c3 ?n ?o3 = Some (if ?n = 3 then 0 else 1, c4,
      (?o3 @ map (\<lambda>b. Out (''  '' @ c_str b)) (drop 0 (map audit_line ?jobs))) @ [Out ''ok''])"
    and c4: "\<not> cn_open c4" "cn_live c4 = worker_db (map result_row ?jobs) q (read_up_to 0 (map audit_line ?jobs) ''reporting'' (0 + length (map audit_line ?jobs)))"
    by (rule report_view [OF s3 [unfolded lg] _ _ lines q(1) valid [unfolded lg], of ?n ?o3]) (simp_all add: U64_MAX_def)
  have lns: "(?o3 @ map (\<lambda>b. Out (''  '' @ c_str b)) (drop 0 (map audit_line ?jobs))) @ [Out ''ok'']
      = map Out [''queueing three jobs'', ''working'', ''  processed alpha'', ''  processed beta'', ''  processed gamma'',
        ''queue drained after 3 jobs'', ''what the reporting reader sees'', ''  done: alpha'', ''  done: beta'', ''  done: gamma'', ''ok'']"
    by code_simp
  have "(if ?n = 3 then 0 else 1 :: int) = 0" by simp
  then have "main files [] clock = Some (0, Some c4, map Out [''queueing three jobs'', ''working'', ''  processed alpha'', ''  processed beta'',
      ''  processed gamma'', ''queue drained after 3 jobs'', ''what the reporting reader sees'', ''  done: alpha'', ''  done: beta'',
      ''  done: gamma'', ''ok''])"
    by (simp only: main_def create option.case prod.case e1 e2 bind.bind_lunit Let_def loop rep lns simp_thms if_False if_True option.map)
  then show ?thesis using c4 q(2) by (simp add: inbox_def results_def audit_def read_up_to_def)
qed

end
