(* ===== verification/Leased_Worker.thy ===== *)
theory Leased_Worker
  imports Connection_Progress Worker
begin

text \<open>
  \<open>examples/leased_worker.c\<close>: a worker that claims a message for a time, works outside any transaction
  and acknowledges with the ticket the claim returned.  The program is a sequence of calls, most of
  which leave \<open>main\<close> at once when they do not answer as expected; \<open>proc\<close> is such a sequence: it may
  never return (\<open>None\<close>), leave \<open>main\<close> with an exit code, or go on with a value.

  The program waits by spinning on \<open>clock()\<close>, the processor time; leases are measured on the wall
  clock.  The readings of the two are independent inputs, and nothing in the program connects them.
\<close>

section \<open>Sequences of calls\<close>

record lw =
  lw_db :: conn
  lw_cpu :: "nat list"
  lw_out :: "line list"

type_synonym 'a proc = "lw \<Rightarrow> (lw \<times> (int + 'a)) option"

definition andthen :: "'a proc \<Rightarrow> ('a \<Rightarrow> 'b proc) \<Rightarrow> 'b proc" where
  "andthen m k s =
    (case m s of
       None \<Rightarrow> None
     | Some (s', Inl rc) \<Rightarrow> Some (s', Inl rc)
     | Some (s', Inr x) \<Rightarrow> k x s')"

definition give :: "'a \<Rightarrow> 'a proc" where
  "give x s = Some (s, Inr x)"

definition say :: "string \<Rightarrow> unit proc" where
  "say l s = Some (s\<lparr>lw_out := lw_out s @ [Out l]\<rparr>, Inr ())"

definition leased_fail :: "conn option \<Rightarrow> string \<Rightarrow> line" where
  "leased_fail db what = Err (''leased worker: '' @ what @ '' failed: ''
     @ (case db of None \<Rightarrow> ''no handle'' | Some c \<Rightarrow> cyboudb_errmsg c))"

text \<open>\<open>return fail(db, what)\<close>.\<close>

definition quit :: "string \<Rightarrow> 'a proc" where
  "quit what s = Some (s\<lparr>lw_out := lw_out s @ [leased_fail (Some (lw_db s)) what]\<rparr>, Inl 1)"

text \<open>A statement that has to succeed, and one that must not.\<close>

definition must :: "string \<Rightarrow> string \<Rightarrow> unit proc" where
  "must sql what s =
    (case cyboudb_exec (lw_db s) sql of
       None \<Rightarrow> None
     | Some (c, st) \<Rightarrow> if st \<noteq> OK then quit what (s\<lparr>lw_db := c\<rparr>) else give () (s\<lparr>lw_db := c\<rparr>))"

definition must_not :: "string \<Rightarrow> string \<Rightarrow> unit proc" where
  "must_not sql what s =
    (case cyboudb_exec (lw_db s) sql of
       None \<Rightarrow> None
     | Some (c, st) \<Rightarrow> if st = OK then quit what (s\<lparr>lw_db := c\<rparr>) else give () (s\<lparr>lw_db := c\<rparr>))"

section \<open>The functions of the file\<close>

text \<open>The first reading fixes the end; the loop takes readings until one has reached it.\<close>

definition spin :: "nat \<Rightarrow> nat list \<Rightarrow> nat list option" where
  "spin ticks readings =
    (case readings of
       [] \<Rightarrow> None
     | t # ts \<Rightarrow> (case dropWhile (\<lambda>u. u < t + ticks) ts of [] \<Rightarrow> None | u # us \<Rightarrow> Some us))"

definition spinning :: "nat \<Rightarrow> unit proc" where
  "spinning ticks s =
    (case spin ticks (lw_cpu s) of None \<Rightarrow> None | Some us \<Rightarrow> Some (s\<lparr>lw_cpu := us\<rparr>, Inr ()))"

text \<open>The exit code, what was printed, and the message and ticket when one was taken.\<close>

definition claim_one :: "conn \<Rightarrow> string \<Rightarrow> nat \<Rightarrow> conn \<times> int \<times> line list \<times> (string \<times> nat \<times> nat) option" where
  "claim_one c sql cap =
    (case cyboudb_prepare c sql of (c1, s, st) \<Rightarrow>
       if s \<noteq> OK then (c1, 1, [leased_fail (Some c1) ''prepare CLAIM''], None)
       else case cyboudb_step c1 st of (c2, rc) \<Rightarrow>
         if rc = DONE then (fst (cyboudb_finalize c2 st), 0, [], None)
         else case (cyboudb_message c2 st (cap - 1), cyboudb_claim_ticket c2 st) of ((ms, bytes), ts, ticket) \<Rightarrow>
           (case ticket of
              Some (position, tok) \<Rightarrow>
                if rc \<noteq> ROW \<or> ms \<noteq> OK \<or> ts \<noteq> OK
                then let c3 = fst (cyboudb_finalize c2 st) in (c3, 1, [leased_fail (Some c3) ''CLAIM''], None)
                else (fst (cyboudb_finalize c2 st), 0, [], Some (c_str bytes, position, tok))
            | None \<Rightarrow> let c3 = fst (cyboudb_finalize c2 st) in (c3, 1, [leased_fail (Some c3) ''CLAIM''], None)))"

text \<open>\<open>if (claim_one(...) != 0) return 1; if (!took) return fail(...)\<close>.\<close>

definition claiming :: "string \<Rightarrow> string \<Rightarrow> (string \<times> nat \<times> nat) proc" where
  "claiming sql what s =
    (case claim_one (lw_db s) sql 256 of (c, rc, l, took) \<Rightarrow>
       let s' = s\<lparr>lw_db := c, lw_out := lw_out s @ l\<rparr>
       in if rc \<noteq> 0 then Some (s', Inl 1)
          else case took of None \<Rightarrow> quit what s' | Some x \<Rightarrow> give x s')"

definition ticket_text :: "string \<Rightarrow> nat \<Rightarrow> nat \<Rightarrow> string" where
  "ticket_text verb position tok = snprintf 512 (verb @ '' FROM inbox AT '' @ dec position @ '' TOKEN '' @ dec tok)"

section \<open>The program\<close>

definition leased_schema :: "unit proc" where
  "leased_schema =
    andthen (must ''CREATE TABLE results (note TEXT)'' ''schema'') (\<lambda>_.
    andthen (must ''CREATE QUEUE inbox'' ''schema'') (\<lambda>_.
    andthen (must (''ENQUEUE INTO inbox VALUES ('' @ [quote] @ ''alpha'' @ [quote] @ '')'') ''enqueue'') (\<lambda>_.
    andthen (must (''ENQUEUE INTO inbox VALUES ('' @ [quote] @ ''beta'' @ [quote] @ '')'') ''enqueue'') (\<lambda>_.
    andthen (must (''ENQUEUE INTO inbox VALUES ('' @ [quote] @ ''gamma'' @ [quote] @ '')'') ''enqueue'') (\<lambda>_.
      say ''three jobs queued'')))))"

text \<open>The ordinary path: claim, work, acknowledge.\<close>

definition ordinary_path :: "nat \<Rightarrow> nat proc" where
  "ordinary_path clocks_per_sec =
    andthen (claiming ''CLAIM FROM inbox FOR 30000'' ''expected a message'') (\<lambda>(payload, position, tok).
    andthen (say (''claimed '' @ [quote] @ payload @ [quote] @ '' at '' @ dec position @ '' with token '' @ dec tok)) (\<lambda>_.
    andthen (spinning (clocks_per_sec div 20)) (\<lambda>_.
    andthen (must ''BEGIN'' ''BEGIN'') (\<lambda>_.
    andthen (must (snprintf 512 (''INSERT INTO results VALUES ('' @ [quote] @ payload @ [quote] @ '')'')) ''INSERT'') (\<lambda>_.
    andthen (must (ticket_text ''ACK'' position tok) ''ACK'') (\<lambda>_.
    andthen (must ''COMMIT'' ''COMMIT'') (\<lambda>_.
    andthen (say (''acknowledged '' @ [quote] @ payload @ [quote])) (\<lambda>_. give 1))))))))"

text \<open>Work that cannot be done: hand it back.\<close>

definition hand_back :: "unit proc" where
  "hand_back =
    andthen (claiming ''CLAIM FROM inbox FOR 30000'' ''expected a second message'') (\<lambda>(payload, position, tok).
    andthen (say (''claimed '' @ [quote] @ payload @ [quote] @ '', and it cannot be processed'')) (\<lambda>_.
    andthen (must (ticket_text ''NACK'' position tok) ''NACK'') (\<lambda>_.
    andthen (say ''handed back - claimable again immediately, not after a timeout'') (\<lambda>_.
    andthen (must_not (ticket_text ''ACK'' position tok) ''a returned message should not accept its old ticket'') (\<lambda>_.
      \<lambda>s. say (''and its old ticket is refused: '' @ cyboudb_errmsg (lw_db s)) s)))))"

text \<open>A lease that lapses while nobody else is there.\<close>

definition lapse_alone :: "nat \<Rightarrow> nat proc" where
  "lapse_alone clocks_per_sec =
    andthen (claiming ''CLAIM FROM inbox FOR 30'' ''expected a third message'') (\<lambda>(payload, position, tok).
    andthen (say (''claimed '' @ [quote] @ payload @ [quote] @ '' for 30ms, then took longer'')) (\<lambda>_.
    andthen (spinning (clocks_per_sec div 5)) (\<lambda>_.
    andthen (must (ticket_text ''ACK'' position tok) ''a lapsed lease nobody reclaimed should still finish'') (\<lambda>_.
    andthen (say ''acknowledged late, because nobody had taken it'') (\<lambda>_. give 1)))))"

text \<open>A lease that lapses and is taken by a second worker.\<close>

definition lapse_taken :: "nat \<Rightarrow> nat proc" where
  "lapse_taken clocks_per_sec =
    andthen (claiming ''CLAIM FROM inbox FOR 30'' ''expected the last message'') (\<lambda>(payload, position, tok).
    andthen (say (''claimed '' @ [quote] @ payload @ [quote] @ '' for 30ms, and this time somebody else got there'')) (\<lambda>_.
    andthen (spinning (clocks_per_sec div 5)) (\<lambda>_.
    andthen (claiming ''CLAIM FROM inbox FOR 30000'' ''the lapsed message should have been claimable'')
      (\<lambda>(payload', stolen_position, stolen_token).
    andthen (if stolen_position \<noteq> position then quit ''the lapsed message should have been claimable'' else give ()) (\<lambda>_.
    andthen (say (''a second worker claimed it with token '' @ dec stolen_token)) (\<lambda>_.
    andthen (must_not (ticket_text ''ACK'' position tok) ''the first worker should not be able to finish it'') (\<lambda>_.
    andthen (\<lambda>s. say (''the first worker'' @ [quote] @ ''s ACK is refused: '' @ cyboudb_errmsg (lw_db s)) s) (\<lambda>_.
    andthen (must (snprintf 512 (''RENEW FROM inbox AT '' @ dec stolen_position @ '' TOKEN '' @ dec stolen_token @ '' FOR 30000'')) ''RENEW'') (\<lambda>_.
    andthen (must (ticket_text ''ACK'' stolen_position stolen_token) ''second ACK'') (\<lambda>_.
    andthen (say ''renewed, then finished by the worker that actually held it'') (\<lambda>_. give 1)))))))))))"

definition leased_options :: create_options where
  "leased_options = \<lparr>struct_size = 8, flags = CREATE_QUEUE_LEASES\<rparr>"

definition LEASED_DB_PATH :: string where
  "LEASED_DB_PATH = ''build/leased_worker_example.cdb''"

text \<open>\<open>done\<close> is the sum of what the parts give: one for each message they finish.\<close>

definition leased_main ::
    "nat \<Rightarrow> (string \<rightharpoonup> dbfile) \<Rightarrow> event list \<Rightarrow> nat list \<Rightarrow> nat list \<Rightarrow> (int \<times> conn option \<times> line list) option" where
  "leased_main clocks_per_sec files evs clock cpu =
    (case cyboudb_create_with_options (Some LEASED_DB_PATH) 4000 (Some leased_options) True
            (files(LEASED_DB_PATH := None)) evs clock of
       (s, None) \<Rightarrow> Some (1, None, [leased_fail None ''create''])
     | (s, Some c) \<Rightarrow>
         if s \<noteq> OK then Some (1, Some c, [leased_fail (Some c) ''create''])
         else case andthen leased_schema (\<lambda>_. andthen (ordinary_path clocks_per_sec) (\<lambda>a. andthen hand_back (\<lambda>_.
                 andthen (lapse_alone clocks_per_sec) (\<lambda>b. andthen (lapse_taken clocks_per_sec) (\<lambda>d. give (a + b + d))))))
                 \<lparr>lw_db = c, lw_cpu = cpu, lw_out = []\<rparr> of
           None \<Rightarrow> None
         | Some (s, Inl rc) \<Rightarrow> Some (rc, Some (lw_db s), lw_out s)
         | Some (s, Inr finished_jobs) \<Rightarrow>
             (case cyboudb_close (lw_db s) of (c', st) \<Rightarrow>
                if st \<noteq> OK then Some (1, Some c', lw_out s @ [leased_fail None ''close''])
                else Some (if finished_jobs = 3 then 0 else 1, Some c', lw_out s @ [Out (dec finished_jobs @ '' jobs finished, each exactly once'')])))"

end
