(* ===== verification/Lease_List.thy ===== *)
theory Lease_List
  imports Lease_Valid
begin

text \<open>
  A leased queue as the list of its live slots.  \<open>holds q h ss\<close> says that the valid queue \<open>q\<close> has
  exactly the slots \<open>ss\<close>, from position \<open>h\<close> on; each operation is an operation on the list.
\<close>

definition holds :: "queue \<Rightarrow> nat \<Rightarrow> slot list \<Rightarrow> bool" where
  "holds q h ss \<longleftrightarrow> queue_ok q \<and> q_head q = h \<and> q_tail q = h + length ss
    \<and> (\<forall>i < length ss. look q (h + i) = Some (ss ! i))"

lemma holds_slot:
  assumes "holds q h ss" and "i < length ss"
  shows "slot_in q (h + i) = ss ! i" and "live q (h + i)"
proof -
  show live: "live q (h + i)" using assms by (auto simp: holds_def live_def)
  then show "slot_in q (h + i) = ss ! i"
    using assms queue_okD(1) [of q] by (auto simp: holds_def find_slot_live)
qed

lemma holds_look:
  assumes "holds q h ss"
  shows "look q p = (if h \<le> p \<and> p < h + length ss then Some (ss ! (p - h)) else None)"
proof (cases "h \<le> p \<and> p < h + length ss")
  case True
  then have "p - h < length ss" "h + (p - h) = p" by auto
  with assms True show ?thesis by (auto simp: holds_def)
next
  case False
  with assms show ?thesis by (auto simp: holds_def lease_find_slot_def)
qed

lemma holdsI:
  assumes "queue_ok q'" and "q_head q' = h" and "q_tail q' = h + length ss'"
    and "\<And>p. h \<le> p \<Longrightarrow> p < h + length ss' \<Longrightarrow> look q' p = Some (ss' ! (p - h))"
  shows "holds q' h ss'"
  using assms by (simp add: holds_def)

text \<open>Changing one slot.\<close>

lemma holds_update:
  assumes "holds q h ss" and "i < length ss" and "queue_ok q'" and "q_head q' = q_head q" and "q_tail q' = q_tail q"
    and "look q' = (look q)(h + i \<mapsto> s)"
  shows "holds q' h (ss[i := s])"
proof (rule holdsI)
  fix p assume p: "h \<le> p" "p < h + length (ss[i := s])"
  then have "p - h < length ss" by simp
  then show "look q' p = Some (ss[i := s] ! (p - h))"
    using assms(2) p by (auto simp: assms(6) holds_look [OF assms(1)] nth_list_update)
qed (use assms in \<open>simp_all add: holds_def\<close>)

lemma claim_list:
  assumes q: "holds q h ss" and i: "i < length ss" "claimable (lease_now q now) (ss ! i)"
    "\<And>j. j < i \<Longrightarrow> \<not> claimable (lease_now q now) (ss ! j)"
    and d: "0 < d" "lease_now q now + d \<le> U64_MAX" and tok: "sl_token (ss ! i) < U64_MAX"
  obtains q' where "db_queue_claim True q now d = (q', Inr (h + i, sl_token (ss ! i) + 1))"
    and "holds q' h (ss[i := claimed (ss ! i) (lease_now q now + d)])" and "q_time_floor q' = lease_now q now"
proof -
  have ok: "queue_ok q" and ht: "q_head q = h" "q_tail q = h + length ss" using q by (simp_all add: holds_def)
  note D = queue_okD [OF ok]
  have "find (\<lambda>p. claimable (lease_now q now) (slot_in q p)) [h ..< h + length ss] = Some (h + i)"
    unfolding find_Some_iff
    by (rule exI [of _ i]) (use i holds_slot(1) [OF q] in auto)
  then have scan: "db_queue_scan_claimable True q (lease_now q now) = Some (h + i)"
    using scan_is_first [OF D(1,2)] by (simp add: ht)
  have lk: "look q (h + i) = Some (ss ! i)" using q i(1) by (simp add: holds_def)
  obtain q' where claim: "db_queue_claim True q now d = (q', Inr (h + i, sl_token (ss ! i) + 1))"
    using scan lk d tok by (fastforce simp: db_queue_claim_def Let_def)
  note law = claim_law [OF D(1) claim]
  have "holds q' h (ss[i := claimed (ss ! i) (lease_now q now + d)])"
    by (rule holds_update [OF q i(1) queue_ok_claim [OF ok d(2) claim] law(9,10)])
       (simp add: law(8) holds_slot(1) [OF q i(1)])
  then show thesis using that claim law(11) by blast
qed

lemma hold_list:
  assumes "holds q h ss" and "i < length ss"
  shows "lease_hold True q (h + i) t = (if sl_state (ss ! i) = CLAIMED \<and> sl_token (ss ! i) = t then None else Some E_LEASE)"
  using assms by (auto simp: lease_hold_def holds_def)

lemma nack_list:
  assumes q: "holds q h ss" and i: "i < length ss" "sl_state (ss ! i) = CLAIMED" "sl_token (ss ! i) = t" "t < U64_MAX"
  obtains q' where "db_queue_nack True q (h + i) t = (q', None)" and "holds q' h (ss[i := handed_back (ss ! i)])"
    and "q_time_floor q' = q_time_floor q"
proof -
  have ok: "queue_ok q" using q by (simp add: holds_def)
  obtain q' where nack: "db_queue_nack True q (h + i) t = (q', None)"
    using q i hold_list [OF q i(1)] by (fastforce simp: db_queue_nack_def holds_def Let_def)
  note law = nack_law [OF queue_okD(1) [OF ok] nack]
  have "holds q' h (ss[i := handed_back (ss ! i)])"
    by (rule holds_update [OF q i(1) queue_ok_nack [OF ok nack] law(6,5)]) (simp add: law(7) holds_slot(1) [OF q i(1)])
  then show thesis using that nack law(8) by blast
qed

lemma renew_list:
  assumes q: "holds q h ss" and i: "i < length ss" "sl_state (ss ! i) = CLAIMED" "sl_token (ss ! i) = t"
    and d: "0 < d" "lease_now q now + d \<le> U64_MAX"
  obtains q' where "db_queue_renew True q (h + i) t now d = (q', None)"
    and "holds q' h (ss[i := (ss ! i)\<lparr>sl_until := lease_now q now + d\<rparr>])" and "q_time_floor q' = lease_now q now"
proof -
  have ok: "queue_ok q" using q by (simp add: holds_def)
  obtain q' where renew: "db_queue_renew True q (h + i) t now d = (q', None)"
    using i d hold_list [OF q i(1)] by (fastforce simp: db_queue_renew_def Let_def)
  note law = renew_law [OF queue_okD(1) [OF ok] renew]
  have "holds q' h (ss[i := (ss ! i)\<lparr>sl_until := lease_now q now + d\<rparr>])"
    by (rule holds_update [OF q i(1) queue_ok_renew [OF ok d(2) renew] law(6,5)]) (simp add: law(7) holds_slot(1) [OF q i(1)])
  then show thesis using that renew law(8) by blast
qed

text \<open>An acknowledgement drops every finished slot at the front.\<close>

lemma ah_step_stops:
  "ah_step q h < q_tail q \<Longrightarrow> queue_slot_at q (ah_step q h) = Some s \<Longrightarrow> sl_state s \<noteq> ACKED"
proof (induction q h arbitrary: s rule: ah_step.induct)
  case (1 q h)
  show ?case
  proof (cases "q_tail q \<le> h \<or> queue_slot_at q h = None")
    case True
    then have "ah_step q h = h" by (subst ah_step.simps) auto
    then show ?thesis using "1.prems" True by auto
  next
    case False
    then obtain s0 where s0: "queue_slot_at q h = Some s0" by auto
    show ?thesis
    proof (cases "sl_state s0 = ACKED")
      case True
      then have "ah_step q h = ah_step q (h + 1)" using False s0 by (simp add: ah_step.simps [of q h])
      then show ?thesis using "1.IH" [OF _ s0 True] False "1.prems" by simp
    next
      case stop: False
      then have "ah_step q h = h" using False s0 by (simp add: ah_step.simps [of q h])
      then show ?thesis using "1.prems" s0 stop by simp
    qed
  qed
qed

definition drop_finished :: "slot list \<Rightarrow> slot list" where
  "drop_finished ss = dropWhile (\<lambda>s. sl_state s = ACKED) ss"

lemma ack_list:
  assumes q: "holds q h ss" and i: "i < length ss" "sl_state (ss ! i) = CLAIMED" "sl_token (ss ! i) = t"
  obtains q' n where "db_queue_ack True q (h + i) t = (q', None)"
    and "holds q' (h + n) (drop_finished (ss[i := finished (ss ! i)]))"
    and "n = length ss - length (drop_finished (ss[i := finished (ss ! i)]))"
    and "q_time_floor q' = q_time_floor q"
proof -
  have ok: "queue_ok q" and ht: "q_head q = h" "q_tail q = h + length ss" using q by (simp_all add: holds_def)
  obtain q' where ack: "db_queue_ack True q (h + i) t = (q', None)"
    using i hold_list [OF q i(1)] by (fastforce simp: db_queue_ack_def Let_def)
  note law = ack_law [OF queue_okD(1) [OF ok] ack]
  define ss1 where "ss1 = ss[i := finished (ss ! i)]"
  define q1 where "q1 = lease_seg_refresh True (lease_edit_slot q (h + i) (\<lambda>s. s\<lparr>sl_state := ACKED, sl_until := 0\<rparr>)) (h + i)"
  have q': "q' = db_catalog_seal (lease_advance_head q1)"
    using ack hold_list [OF q i(1)] i by (simp add: db_queue_ack_def Let_def q1_def)
  define n where "n = q_head q' - h"
  have head: "q_head q' = h + n" "n \<le> length ss" using law(7,8) ht by (auto simp: n_def)
  have look1: "((look q)(h + i \<mapsto> finished (slot_in q (h + i)))) (h + j) = Some (ss1 ! j)" if "j < length ss" for j
    using that i(1) holds_slot(1) [OF q i(1)] by (auto simp: ss1_def holds_look [OF q] nth_list_update)
  have acked: "sl_state (ss1 ! j) = ACKED" if "j < n" for j
    using law(10) [of "h + j"] look1 [of j] that head ht by auto
  have "q_head q' = ah_step q1 (q_head q1)"
    by (simp add: q' db_catalog_seal_def lease_advance_head_def Let_def move_head_def)
  then have stop: "sl_state (ss1 ! n) \<noteq> ACKED" if "n < length ss"
  proof -
    have t1: "q_tail q1 = q_tail q" by (simp add: q1_def lease_edit_slot_def)
    have shape1: "queue_shape q1" using queue_okD(1) [OF ok] by (simp add: q1_def lease_edit_slot_def)
    have l1: "look q1 (h + n) = Some (ss1 ! n)"
    proof -
      have "look q1 = (look q)(h + i \<mapsto> finished (slot_in q (h + i)))"
        using queue_okD(1) [OF ok] look_lease_edit [OF queue_okD(1) [OF ok] holds_slot(2) [OF q i(1)]]
        by (simp add: q1_def lease_edit_slot_def finished_def)
      then show ?thesis using look1 [OF that] by simp
    qed
    then have "queue_slot_at q1 (h + n) = Some (ss1 ! n)" by (auto simp: lease_find_slot_def split: if_splits)
    then show ?thesis
      using ah_step_stops [of q1 "q_head q1" "ss1 ! n"] \<open>q_head q' = ah_step q1 (q_head q1)\<close> head(1) that t1 ht by simp
  qed
  have len1: "length ss1 = length ss" by (simp add: ss1_def)
  have "takeWhile (\<lambda>s. sl_state s = ACKED) ss1 = take n ss1"
    using acked stop head(2) len1 by (intro takeWhile_eq_take_P_nth) auto
  then have drop: "drop_finished ss1 = drop n ss1"
    using takeWhile_dropWhile_id [of "\<lambda>s. sl_state s = ACKED" ss1] append_take_drop_id [of n ss1]
    by (metis drop_finished_def same_append_eq)
  have "holds q' (h + n) (drop n ss1)"
  proof (rule holdsI)
    show "queue_ok q'" by (rule queue_ok_ack [OF ok ack])
    show "q_head q' = h + n" by (rule head(1))
    show "q_tail q' = h + n + length (drop n ss1)" using law(6) ht head(2) len1 by simp
    fix p assume p: "h + n \<le> p" "p < h + n + length (drop n ss1)"
    define j where "j = p - h"
    have j: "p = h + j" "n \<le> j" "j < length ss" using p len1 head(2) by (auto simp: j_def)
    show "look q' p = Some (drop n ss1 ! (p - (h + n)))"
    proof -
      have "look q' p = ((look q)(h + i \<mapsto> finished (slot_in q (h + i)))) p"
        using law(9) [of p] p(1) head(1) by (simp only: not_less [symmetric]) simp
      also have "\<dots> = Some (ss1 ! j)" using look1 [OF j(3)] by (simp only: j(1))
      also have "ss1 ! j = drop n ss1 ! (p - (h + n))" using j len1 by (simp add: nth_drop)
      finally show ?thesis .
    qed
  qed
  then have "holds q' (h + n) (drop_finished ss1)" by (simp only: drop)
  moreover have "n = length ss - length (drop_finished ss1)" using drop head(2) len1 by simp
  ultimately show thesis using that [OF ack, of n] law(11) unfolding ss1_def by blast
qed

end
