(* ===== verification/Leased_Progress.thy ===== *)
theory Leased_Progress
  imports Leased_Worker Lease_List Catalog_Laws
begin

text \<open>
  What \<open>examples/leased_worker.c\<close> demonstrates, proved of it: run without failures, for every wall clock
  whose reading at the last claim is at least thirty milliseconds after the latest of the four before,
  the program goes through all its parts and returns zero, whatever the processor clock does, as long
  as it moves on.
\<close>

section \<open>The database of the program\<close>

definition note_columns :: "coldef list" where
  "note_columns = [\<lparr>cd_name = ''note'', cd_type = TEXT, cd_nullable = True\<rparr>]"

definition leased_db :: "cell list list \<Rightarrow> queue \<Rightarrow> catalog" where
  "leased_db rows q = [(1, ''results'', Tab note_columns rows), (2, ''inbox'', Que q)]"

lemma find_leased [simp]:
  "catalog_find_object (leased_db rows q) ''inbox'' = Some (2, Que q)"
  "catalog_find_object (leased_db rows q) ''results'' = Some (1, Tab note_columns rows)"
proof -
  have "\<not> same_name ''results'' ''inbox''" "same_name ''inbox'' ''inbox''" "same_name ''results'' ''results''" by code_simp+
  then show "catalog_find_object (leased_db rows q) ''inbox'' = Some (2, Que q)"
    "catalog_find_object (leased_db rows q) ''results'' = Some (1, Tab note_columns rows)"
    by (simp_all add: leased_db_def)
qed

lemma page_leased [simp]:
  "db_catalog_page (leased_db rows q) 2 = Some (Que q)" "db_catalog_page (leased_db rows q) (Suc 0) = Some (Tab note_columns rows)"
  "db_catalog_page (leased_db rows q) 1 = Some (Tab note_columns rows)"
  "cat_set (leased_db rows q) 2 (Que q') = leased_db rows q'" "cat_set (leased_db rows q) (Suc 0) (Tab note_columns rows') = leased_db rows' q"
  by (simp_all add: leased_db_def db_catalog_page_def cat_set_def)

lemma valid_leased: "queue_ok q \<Longrightarrow> db_catalog_validate True (leased_db rows q)"
  by (simp add: leased_db_def db_catalog_validate_def object_valid_def note_columns_def queue_ok_def)

lemma queue_leased [simp]: "catalog_find_queue (leased_db rows q) ''inbox'' = Some 2"
  by (simp add: catalog_find_queue_def)

section \<open>Statements on a ticket\<close>

lemma compile_ticket:
  "sql_parse (c_str sql) = Got (Claim ''inbox'' d) [] \<Longrightarrow> compile True (leased_db rows q) sql = Bound (P_claim 2 d)"
  "sql_parse (c_str sql) = Got (Ack ''inbox'' p t) [] \<Longrightarrow> compile True (leased_db rows q) sql = Bound (P_ack 2 p t)"
  "sql_parse (c_str sql) = Got (Nack ''inbox'' p t) [] \<Longrightarrow> compile True (leased_db rows q) sql = Bound (P_nack 2 p t)"
  "sql_parse (c_str sql) = Got (Renew ''inbox'' p t d) [] \<Longrightarrow> compile True (leased_db rows q) sql = Bound (P_renew 2 p t d)"
  by (simp_all add: compile_def bind_lease_def bind_queue_def)

lemma on_queue_leased:
  assumes "f q = (q', e)" and "e = None \<or> q' = q"
  shows "on_queue None (leased_db rows q) 2 f = (leased_db rows q', e)"
  using assms by (auto simp: on_queue_def on_page_def)

section \<open>One claim\<close>

lemma claim_one_taken:
  assumes c: "stands c (between True g (t # ts) (leased_db rows q))" "g \<noteq> U64_MAX"
    and sql: "sql_parse (c_str sql) = Got (Claim ''inbox'' d) []"
    and q: "holds q h ss" and i: "i < length ss" "claimable (lease_now q t) (ss ! i)"
    "\<And>j. j < i \<Longrightarrow> \<not> claimable (lease_now q t) (ss ! j)"
    and d: "0 < d" "lease_now q t + d \<le> U64_MAX" and tok: "sl_token (ss ! i) < U64_MAX" and len: "length (sl_payload (ss ! i)) \<le> 255"
  obtains c' q' where "claim_one c sql 256 = (c', 0, [], Some (c_str (sl_payload (ss ! i)), h + i, sl_token (ss ! i) + 1))"
    and "stands c' (between True (g + 1) ts (leased_db rows q'))"
    and "holds q' h (ss[i := claimed (ss ! i) (lease_now q t + d)])" and "q_time_floor q' = lease_now q t"
proof -
  obtain q' where claim: "db_queue_claim True q t d = (q', Inr (h + i, sl_token (ss ! i) + 1))"
    and q': "holds q' h (ss[i := claimed (ss ! i) (lease_now q t + d)])" and floor: "q_time_floor q' = lease_now q t"
    by (rule claim_list [OF q i d tok])
  have look': "look q' (h + i) = Some (claimed (ss ! i) (lease_now q t + d))"
    using q' i(1) by (simp add: holds_def)
  have "arena_holds (length (sl_payload (ss ! i)))" using len by (simp add: arena_holds_def EXEC_ARENA_def)
  then have run: "sql_execute_batch True None True t (leased_db rows q) (P_claim 2 d)
      = (leased_db rows q', A_took (sl_payload (ss ! i)) (Some (h + i, sl_token (ss ! i) + 1)))"
    using claim look' by (simp add: exec_claim_def Let_def claimed_def raised_def)
  have ok: "queue_ok q" "queue_ok q'" using q q' by (simp_all add: holds_def)
  obtain c1 k where prep: "cyboudb_prepare c sql = (c1, OK, Some k)"
    and s1: "stands c1 ((between True g (t # ts) (leased_db rows q))\<lparr>v_count := 1\<rparr>)" and st1: "cn_stmts c1 k = Some (new_stmt (P_claim 2 d))"
    by (rule prepare_view [OF c(1), of sql "P_claim 2 d"]) (simp_all add: compile_ticket(1) [OF sql])
  have plan: "st_plan (new_stmt (P_claim 2 d)) = P_claim 2 d" "hands_message (P_claim 2 d)" by (simp_all add: new_stmt_def hands_message_def)
  obtain c2 st where step: "cyboudb_step c1 (Some k) = (c2, ROW)"
    and s2: "stands c2 (after ((between True g (t # ts) (leased_db rows q))\<lparr>v_count := 1\<rparr>) (P_claim 2 d) (leased_db rows q'))"
    and st2: "cn_stmts c2 k = Some st" "st_plan st = P_claim 2 d" "st_message st = Some (sl_payload (ss ! i))"
      "st_ticket st = (h + i, sl_token (ss ! i) + 1)"
    by (rule step_row_view [OF s1 _ _ st1 plan, where cat = "leased_db rows q'" and b = "sl_payload (ss ! i)"
          and tk = "Some (h + i, sl_token (ss ! i) + 1)" and t = "(h + i, sl_token (ss ! i) + 1)"])
       (use c(2) run ok valid_leased in auto)
  have msg: "cyboudb_message c2 (Some k) 255 = (OK, sl_payload (ss ! i))"
    by (rule message_view [OF st2(1)]) (use st2(2,3) len plan(2) in simp_all)
  have ticket: "cyboudb_claim_ticket c2 (Some k) = (OK, Some (h + i, sl_token (ss ! i) + 1))"
    using st2 by (simp add: cyboudb_claim_ticket_def)
  obtain c3 where fin: "cyboudb_finalize c2 (Some k) = (c3, OK)"
    and s3: "stands c3 ((after ((between True g (t # ts) (leased_db rows q))\<lparr>v_count := 1\<rparr>) (P_claim 2 d) (leased_db rows q'))\<lparr>v_count := 0\<rparr>)"
    using finalize_view [OF s2] st2(1) by auto
  have "claim_one c sql 256 = (c3, 0, [], Some (c_str (sl_payload (ss ! i)), h + i, sl_token (ss ! i) + 1))"
    using prep step msg ticket fin by (simp add: claim_one_def)
  moreover have "stands c3 (between True (g + 1) ts (leased_db rows q'))"
    using s3 by (simp add: between_def after_def clock_of_def)
  ultimately show thesis using that q' floor by blast
qed

lemma claim_one_none:
  assumes c: "stands c (between True g (t # ts) (leased_db rows q))" "g \<noteq> U64_MAX"
    and sql: "sql_parse (c_str sql) = Got (Claim ''inbox'' d) []" and d: "0 < d"
    and q: "holds q h ss" and none: "\<And>j. j < length ss \<Longrightarrow> \<not> claimable (lease_now q t) (ss ! j)"
  obtains c' where "claim_one c sql 256 = (c', 0, [], None)"
proof -
  have ok: "queue_ok q" and ht: "q_head q = h" "q_tail q = h + length ss" using q by (simp_all add: holds_def)
  note D = queue_okD [OF ok]
  have "\<not> claimable (lease_now q t) (slot_in q p)" if "p \<in> set [h ..< h + length ss]" for p
  proof -
    have "p = h + (p - h)" "p - h < length ss" using that by auto
    then show ?thesis using none holds_slot(1) [OF q] by metis
  qed
  then have "db_queue_scan_claimable True q (lease_now q t) = None"
    using scan_is_first [OF D(1,2)] by (auto simp: ht find_None_iff)
  then have run: "sql_execute_batch True None True t (leased_db rows q) (P_claim 2 d) = (leased_db rows q, A_empty)"
    using d by (simp add: exec_claim_def db_queue_claim_def)
  obtain c1 k where prep: "cyboudb_prepare c sql = (c1, OK, Some k)"
    and s1: "stands c1 ((between True g (t # ts) (leased_db rows q))\<lparr>v_count := 1\<rparr>)" and st1: "cn_stmts c1 k = Some (new_stmt (P_claim 2 d))"
    by (rule prepare_view [OF c(1), of sql "P_claim 2 d"]) (simp_all add: compile_ticket(1) [OF sql])
  have plan: "st_plan (new_stmt (P_claim 2 d)) = P_claim 2 d" "hands_message (P_claim 2 d)" by (simp_all add: new_stmt_def hands_message_def)
  obtain c2 where step: "cyboudb_step c1 (Some k) = (c2, DONE)"
    by (rule step_empty_view [OF s1 _ _ st1 plan, where cat = "leased_db rows q"]) (use c(2) run ok valid_leased in auto)
  show thesis by (rule that) (use prep step in \<open>simp add: claim_one_def\<close>)
qed

section \<open>Statements that finish, hand back and prolong\<close>

lemma exec_ack:
  assumes c: "stands c (between True g ts (leased_db rows q))" "g \<noteq> U64_MAX"
    and sql: "sql_parse (c_str sql) = Got (Ack ''inbox'' (h + i) t) []"
    and q: "holds q h ss" and i: "i < length ss" "sl_state (ss ! i) = CLAIMED" "sl_token (ss ! i) = t"
    and rest: "drop_finished (ss[i := finished (ss ! i)]) = rest" "h' = h + (length ss - length rest)"
  obtains c' q' where "cyboudb_exec c sql = Some (c', OK)" and "stands c' (between True (g + 1) ts (leased_db rows q'))"
    and "holds q' h' rest" and "q_time_floor q' = q_time_floor q"
proof -
  obtain q' n where ack: "db_queue_ack True q (h + i) t = (q', None)"
    and q': "holds q' (h + n) (drop_finished (ss[i := finished (ss ! i)]))"
    and n: "n = length ss - length (drop_finished (ss[i := finished (ss ! i)]))" and floor: "q_time_floor q' = q_time_floor q"
    by (rule ack_list [OF q i])
  have run: "sql_execute_batch True None True now (leased_db rows q) (P_ack 2 (h + i) t) = (leased_db rows q', A_done)" for now
    using on_queue_leased [of "\<lambda>q. db_queue_ack True q (h + i) t" q q' None rows] ack by (simp add: storage_done_def)
  have ok: "queue_ok q" "queue_ok q'" using q q' by (simp_all add: holds_def)
  obtain c' where "cyboudb_exec c sql = Some (c', OK)" "stands c' (between True (g + 1) ts (leased_db rows q'))"
    by (rule exec_done_view [OF c(1), of sql "P_ack 2 (h + i) t" "leased_db rows q'"])
       (use c(2) run ok valid_leased compile_ticket(2) [OF sql] in auto)
  then show thesis using that q' n floor rest by blast
qed

lemma exec_ack_refused:
  assumes c: "stands c (between True g ts (leased_db rows q))" "g \<noteq> U64_MAX"
    and sql: "sql_parse (c_str sql) = Got (Ack ''inbox'' (h + i) t) []"
    and q: "holds q h ss" and i: "i < length ss" "\<not> (sl_state (ss ! i) = CLAIMED \<and> sl_token (ss ! i) = t)"
  obtains c' where "cyboudb_exec c sql = Some (c', ERROR)" and "stands c' (between True g ts (leased_db rows q))"
proof -
  have run: "sql_execute_batch True None True now (leased_db rows q) (P_ack 2 (h + i) t) = (leased_db rows q, storage_error E_LEASE)" for now
    using on_queue_leased [of "\<lambda>q. db_queue_ack True q (h + i) t" q q "Some E_LEASE" rows] hold_list [OF q i(1)] i(2)
    by (simp add: storage_done_def db_queue_ack_def)
  have ok: "queue_ok q" using q by (simp add: holds_def)
  have v: "(between True g ts (leased_db rows q))\<lparr>v_staged := leased_db rows q, v_clock := ts\<rparr> = between True g ts (leased_db rows q)"
    by (simp add: between_def)
  show thesis
    by (rule exec_error_view [OF c(1), of sql "P_ack 2 (h + i) t" "leased_db rows q"])
       (use that c(2) run ok valid_leased compile_ticket(2) [OF sql] v in \<open>auto simp: storage_error_def\<close>)
qed

lemma exec_nack:
  assumes c: "stands c (between True g ts (leased_db rows q))" "g \<noteq> U64_MAX"
    and sql: "sql_parse (c_str sql) = Got (Nack ''inbox'' (h + i) t) []"
    and q: "holds q h ss" and i: "i < length ss" "sl_state (ss ! i) = CLAIMED" "sl_token (ss ! i) = t" "t < U64_MAX"
  obtains c' q' where "cyboudb_exec c sql = Some (c', OK)" and "stands c' (between True (g + 1) ts (leased_db rows q'))"
    and "holds q' h (ss[i := handed_back (ss ! i)])" and "q_time_floor q' = q_time_floor q"
proof -
  obtain q' where nack: "db_queue_nack True q (h + i) t = (q', None)" and q': "holds q' h (ss[i := handed_back (ss ! i)])"
    and floor: "q_time_floor q' = q_time_floor q" by (rule nack_list [OF q i])
  have run: "sql_execute_batch True None True now (leased_db rows q) (P_nack 2 (h + i) t) = (leased_db rows q', A_done)" for now
    using on_queue_leased [of "\<lambda>q. db_queue_nack True q (h + i) t" q q' None rows] nack by (simp add: storage_done_def)
  have ok: "queue_ok q" "queue_ok q'" using q q' by (simp_all add: holds_def)
  obtain c' where "cyboudb_exec c sql = Some (c', OK)" "stands c' (between True (g + 1) ts (leased_db rows q'))"
    by (rule exec_done_view [OF c(1), of sql "P_nack 2 (h + i) t" "leased_db rows q'"])
       (use c(2) run ok valid_leased compile_ticket(3) [OF sql] in auto)
  then show thesis using that q' floor by blast
qed

lemma exec_renew:
  assumes c: "stands c (between True g (now # ts) (leased_db rows q))" "g \<noteq> U64_MAX"
    and sql: "sql_parse (c_str sql) = Got (Renew ''inbox'' (h + i) t d) []"
    and q: "holds q h ss" and i: "i < length ss" "sl_state (ss ! i) = CLAIMED" "sl_token (ss ! i) = t"
    and d: "0 < d" "lease_now q now + d \<le> U64_MAX"
  obtains c' q' where "cyboudb_exec c sql = Some (c', OK)" and "stands c' (between True (g + 1) ts (leased_db rows q'))"
    and "holds q' h (ss[i := (ss ! i)\<lparr>sl_until := lease_now q now + d\<rparr>])"
proof -
  obtain q' where renew: "db_queue_renew True q (h + i) t now d = (q', None)"
    and q': "holds q' h (ss[i := (ss ! i)\<lparr>sl_until := lease_now q now + d\<rparr>])" by (rule renew_list [OF q i d])
  have run: "sql_execute_batch True None True now (leased_db rows q) (P_renew 2 (h + i) t d) = (leased_db rows q', A_done)"
    using on_queue_leased [of "\<lambda>q. db_queue_renew True q (h + i) t now d" q q' None rows] renew by (simp add: storage_done_def)
  have ok: "queue_ok q" "queue_ok q'" using q q' by (simp_all add: holds_def)
  obtain c' where "cyboudb_exec c sql = Some (c', OK)" "stands c' (between True (g + 1) ts (leased_db rows q'))"
    by (rule exec_done_view [OF c(1), of sql "P_renew 2 (h + i) t d" "leased_db rows q'"])
       (use c(2) run ok valid_leased compile_ticket(4) [OF sql] in auto)
  then show thesis using that q' by blast
qed

section \<open>The parts of the program\<close>

lemma must_ok: "cyboudb_exec c sql = Some (c', OK) \<Longrightarrow>
  must sql what \<lparr>lw_db = c, lw_cpu = u, lw_out = out\<rparr> = Some (\<lparr>lw_db = c', lw_cpu = u, lw_out = out\<rparr>, Inr ())"
  by (simp add: must_def give_def)

lemma must_not_ok: "cyboudb_exec c sql = Some (c', ERROR) \<Longrightarrow>
  must_not sql what \<lparr>lw_db = c, lw_cpu = u, lw_out = out\<rparr> = Some (\<lparr>lw_db = c', lw_cpu = u, lw_out = out\<rparr>, Inr ())"
  by (simp add: must_not_def give_def)

lemma claiming_ok: "claim_one c sql 256 = (c', 0, [], Some x) \<Longrightarrow>
  claiming sql what \<lparr>lw_db = c, lw_cpu = u, lw_out = out\<rparr> = Some (\<lparr>lw_db = c', lw_cpu = u, lw_out = out\<rparr>, Inr x)"
  by (simp add: claiming_def give_def)

lemma say_ok: "say l \<lparr>lw_db = c, lw_cpu = u, lw_out = out\<rparr> = Some (\<lparr>lw_db = c, lw_cpu = u, lw_out = out @ [Out l]\<rparr>, Inr ())"
  by (simp add: say_def)

lemma spinning_ok: "spin n u = Some u' \<Longrightarrow>
  spinning n \<lparr>lw_db = c, lw_cpu = u, lw_out = out\<rparr> = Some (\<lparr>lw_db = c, lw_cpu = u', lw_out = out\<rparr>, Inr ())"
  by (simp add: spinning_def)

text \<open>One call after the other; a call is replaced by its result as soon as that is known.\<close>

lemmas go = andthen_def give_def option.case prod.case sum.case

definition three_jobs :: queue where
  "three_jobs = fill new_queue [''alpha'', ''beta'', ''gamma'']"

lemma three_jobs_hold: "holds three_jobs 0 [enqueued ''alpha'', enqueued ''beta'', enqueued ''gamma'']"
  "q_time_floor three_jobs = 0"
proof -
  have ok: "queue_ok three_jobs" unfolding three_jobs_def by (intro unclaimed_ok unclaimed_fill unclaimed_new)
  have f: "q_head three_jobs = 0" "q_tail three_jobs = 3"
    "look three_jobs 0 = Some (enqueued ''alpha'')" "look three_jobs 1 = Some (enqueued ''beta'')"
    "look three_jobs 2 = Some (enqueued ''gamma'')" by code_simp+
  have "look three_jobs i = Some ([enqueued ''alpha'', enqueued ''beta'', enqueued ''gamma''] ! i)" if "i < 3" for i
  proof -
    consider "i = 0" | "i = 1" | "i = 2" using \<open>i < 3\<close> by linarith
    then show ?thesis using f(3-5) by cases simp_all
  qed
  then show "holds three_jobs 0 [enqueued ''alpha'', enqueued ''beta'', enqueued ''gamma'']"
    using ok f(1,2) by (simp add: holds_def)
  show "q_time_floor three_jobs = 0" by code_simp
qed

lemma enqueue_statement:
  assumes c: "stands c (between True g ts (leased_db [] (fill new_queue ms)))" "g \<noteq> U64_MAX"
    and sql: "sql_parse (c_str sql) = Got (Enqueue ''inbox'' (L_text m)) []" and len: "length m < 2 ^ 32"
    and push: "snd (db_queue_push (fill new_queue ms) m) = None"
  obtains c' where "cyboudb_exec c sql = Some (c', OK)" and "stands c' (between True (g + 1) ts (leased_db [] (fill new_queue (ms @ [m]))))"
proof -
  have snoc: "fill q (ms @ [m]) = fst (db_queue_push (fill q ms) m)" for q by (induction ms arbitrary: q) simp_all
  have ok: "queue_ok (fill new_queue ms)" "queue_ok (fill new_queue (ms @ [m]))" by (intro unclaimed_ok unclaimed_fill unclaimed_new)+
  have pl: "compile True (leased_db [] q) sql = Bound (P_enqueue 2 m)" for q
    using sql len by (simp add: compile_def bind_queue_def bind_payload_def Let_def)
  have "db_queue_push (fill new_queue ms) m = (fill new_queue (ms @ [m]), None)" using push by (simp add: snoc prod_eq_iff)
  then have run: "sql_execute_batch True None True now (leased_db [] (fill new_queue ms)) (P_enqueue 2 m)
      = (leased_db [] (fill new_queue (ms @ [m])), A_done)" for now
    using on_queue_leased [of "\<lambda>q. db_queue_push q m" "fill new_queue ms" "fill new_queue (ms @ [m])" None "[]"]
    by (simp add: storage_done_def)
  show thesis
    by (rule exec_done_view [OF c(1), of sql "P_enqueue 2 m" "leased_db [] (fill new_queue (ms @ [m]))"])
       (use that c(2) run ok valid_leased pl in auto)
qed

lemma schema_part:
  assumes "stands c (between True 1 ts [])"
  obtains c' where "leased_schema \<lparr>lw_db = c, lw_cpu = u, lw_out = []\<rparr>
      = Some (\<lparr>lw_db = c', lw_cpu = u, lw_out = [Out ''three jobs queued'']\<rparr>, Inr ())"
    and "stands c' (between True 6 ts (leased_db [] three_jobs))"
proof -
  define cat1 where "cat1 = [(1 :: nat, ''results'', Tab note_columns [])]"
  have f: "compile True [] ''CREATE TABLE results (note TEXT)'' = Bound (P_create 1 ''results'' (Tab note_columns []))"
    "catalog_put_common None True [] 1 ''results'' (Tab note_columns []) = (cat1, None)"
    "db_catalog_validate True []" "db_catalog_validate True cat1"
    "compile True cat1 ''CREATE QUEUE inbox'' = Bound (P_create 2 ''inbox'' (Que new_queue))"
    "catalog_put_common None True cat1 2 ''inbox'' (Que new_queue) = (leased_db [] new_queue, None)"
    "db_catalog_validate True (leased_db [] new_queue)"
    unfolding cat1_def by code_simp+
  have g: "Suc 0 \<noteq> U64_MAX" "2 \<noteq> U64_MAX" "Suc (Suc 0) = 2" "Suc 2 = 3" by (simp_all add: U64_MAX_def)
  obtain c1 where e1: "cyboudb_exec c ''CREATE TABLE results (note TEXT)'' = Some (c1, OK)" "stands c1 (between True 2 ts cat1)"
    by (rule exec_done_view [OF assms, of _ "P_create 1 ''results'' (Tab note_columns [])" cat1])
       (use f(1-4) g in \<open>simp_all add: storage_done_def\<close>)
  obtain c2 where e2: "cyboudb_exec c1 ''CREATE QUEUE inbox'' = Some (c2, OK)" "stands c2 (between True 3 ts (leased_db [] (fill new_queue [])))"
    by (rule exec_done_view [OF e1(2), of _ "P_create 2 ''inbox'' (Que new_queue)" "leased_db [] new_queue"])
       (use f(4-7) g in \<open>simp_all add: storage_done_def\<close>)
  have p: "sql_parse (c_str (''ENQUEUE INTO inbox VALUES ('' @ [quote] @ ''alpha'' @ [quote] @ '')'')) = Got (Enqueue ''inbox'' (L_text ''alpha'')) []"
    "sql_parse (c_str (''ENQUEUE INTO inbox VALUES ('' @ [quote] @ ''beta'' @ [quote] @ '')'')) = Got (Enqueue ''inbox'' (L_text ''beta'')) []"
    "sql_parse (c_str (''ENQUEUE INTO inbox VALUES ('' @ [quote] @ ''gamma'' @ [quote] @ '')'')) = Got (Enqueue ''inbox'' (L_text ''gamma'')) []"
    "snd (db_queue_push (fill new_queue []) ''alpha'') = None" "snd (db_queue_push (fill new_queue [''alpha'']) ''beta'') = None"
    "snd (db_queue_push (fill new_queue [''alpha'', ''beta'']) ''gamma'') = None"
    by code_simp+
  obtain c3 where e3: "cyboudb_exec c2 (''ENQUEUE INTO inbox VALUES ('' @ [quote] @ ''alpha'' @ [quote] @ '')'') = Some (c3, OK)"
    "stands c3 (between True 4 ts (leased_db [] (fill new_queue [''alpha''])))"
    using enqueue_statement [OF e2(2) _ p(1) _ p(4)] by (auto simp: U64_MAX_def)
  obtain c4 where e4: "cyboudb_exec c3 (''ENQUEUE INTO inbox VALUES ('' @ [quote] @ ''beta'' @ [quote] @ '')'') = Some (c4, OK)"
    "stands c4 (between True 5 ts (leased_db [] (fill new_queue [''alpha'', ''beta''])))"
    using enqueue_statement [OF e3(2) _ p(2) _ p(5)] by (auto simp: U64_MAX_def)
  obtain c5 where e5: "cyboudb_exec c4 (''ENQUEUE INTO inbox VALUES ('' @ [quote] @ ''gamma'' @ [quote] @ '')'') = Some (c5, OK)"
    "stands c5 (between True 6 ts (leased_db [] three_jobs))"
    using enqueue_statement [OF e4(2) _ p(3) _ p(6)] by (auto simp: U64_MAX_def three_jobs_def)
  have "leased_schema \<lparr>lw_db = c, lw_cpu = u, lw_out = []\<rparr>
      = Some (\<lparr>lw_db = c5, lw_cpu = u, lw_out = [Out ''three jobs queued'']\<rparr>, Inr ())"
    by (simp only: leased_schema_def go say_ok must_ok [OF e1(1)] must_ok [OF e2(1)] must_ok [OF e3(1)] must_ok [OF e4(1)]
        must_ok [OF e5(1)] append_Nil)
  then show thesis using that e5(2) by blast
qed

subsection \<open>Slots\<close>

definition slot_at :: "slot_state \<Rightarrow> nat \<Rightarrow> nat \<Rightarrow> string \<Rightarrow> slot" where
  "slot_at st k u b = \<lparr>sl_payload = b, sl_state = st, sl_until = u, sl_token = k\<rparr>"

lemma slot_at_simps [simp]:
  "sl_payload (slot_at st k u b) = b" "sl_state (slot_at st k u b) = st" "sl_token (slot_at st k u b) = k"
  "enqueued b = slot_at HELD 0 0 b" "claimed (slot_at st k u b) u' = slot_at CLAIMED (k + 1) u' b"
  "finished (slot_at st k u b) = slot_at ACKED k 0 b" "handed_back (slot_at st k u b) = slot_at HELD (k + 1) 0 b"
  "(slot_at st k u b)\<lparr>sl_until := u'\<rparr> = slot_at st k u' b"
  by (simp_all add: slot_at_def enqueued_def blank_slot_def claimed_def raised_def finished_def handed_back_def)

lemma claimable_simps [simp]:
  "claimable now (slot_at HELD k u b)" "claimable now (slot_at CLAIMED k u b) \<longleftrightarrow> u \<le> now"
  by (simp_all add: claimable_def slot_at_def)

lemma drop_finished_simps [simp]:
  "drop_finished [] = []" "drop_finished (slot_at ACKED k u b # ss) = drop_finished ss"
  "drop_finished (slot_at HELD k u b # ss) = slot_at HELD k u b # ss"
  "drop_finished (slot_at CLAIMED k u b # ss) = slot_at CLAIMED k u b # ss"
  by (simp_all add: drop_finished_def slot_at_def)

lemma lease_now_max: "lease_now q t = max (q_time_floor q) t"
  by (simp add: lease_now_def)

subsection \<open>The ordinary path\<close>

lemma claim_texts:
  "sql_parse (c_str ''CLAIM FROM inbox FOR 30000'') = Got (Claim ''inbox'' 30000) []"
  "sql_parse (c_str ''CLAIM FROM inbox FOR 30'') = Got (Claim ''inbox'' 30) []"
  by code_simp+

lemma result_and_ack:
  assumes c: "stands c (between True g ts (leased_db rows q))" "g \<noteq> U64_MAX"
    and q: "holds q 0 (slot_at CLAIMED 1 u ''alpha'' # slot_at HELD k v b # ss)"
  obtains c1 c2 c3 c4 q' where "cyboudb_exec c ''BEGIN'' = Some (c1, OK)"
    and "cyboudb_exec c1 (snprintf 512 (''INSERT INTO results VALUES ('' @ [quote] @ ''alpha'' @ [quote] @ '')'')) = Some (c2, OK)"
    and "cyboudb_exec c2 (ticket_text ''ACK'' 0 1) = Some (c3, OK)" and "cyboudb_exec c3 ''COMMIT'' = Some (c4, OK)"
    and "stands c4 (between True (g + 1) ts (leased_db (rows @ [[C_text ''alpha'']]) q'))"
    and "holds q' 1 (slot_at HELD k v b # ss)" and "q_time_floor q' = q_time_floor q"
proof -
  let ?ins = "snprintf 512 (''INSERT INTO results VALUES ('' @ [quote] @ ''alpha'' @ [quote] @ '')'')"
  let ?rows = "rows @ [[C_text ''alpha'']]"
  have "sql_parse (c_str ?ins) = Got (Insert ''results'' [[L_text ''alpha'']]) []" by code_simp
  then have ins: "compile True (leased_db rows q) ?ins = Bound (P_insert 1 [[C_text ''alpha'']])"
    by (simp add: compile_def bind_insert_def catalog_find_table_def note_columns_def bind_cell_def bbind_def)
  have runi: "sql_execute_batch True None True now (leased_db rows q) (P_insert 1 [[C_text ''alpha'']]) = (leased_db ?rows q, A_done)" for now
    by (simp add: exec_insert_def) (simp add: note_columns_def cell_fits_def)
  obtain q' n where ack: "db_queue_ack True q (0 + 0) 1 = (q', None)" and q': "holds q' (0 + n) (slot_at HELD k v b # ss)"
    and n: "n = length (slot_at CLAIMED 1 u ''alpha'' # slot_at HELD k v b # ss) - length (slot_at HELD k v b # ss)"
    and floor: "q_time_floor q' = q_time_floor q"
    by (rule ack_list [OF q, of 0 1]) simp_all
  have acks: "sql_parse (c_str (ticket_text ''ACK'' 0 1)) = Got (Ack ''inbox'' 0 1) []" by code_simp
  have runa: "sql_execute_batch True None True now (leased_db ?rows q) (P_ack 2 0 1) = (leased_db ?rows q', A_done)" for now
    using on_queue_leased [of "\<lambda>q. db_queue_ack True q 0 1" q q' None ?rows] ack by (simp add: storage_done_def)
  have ok: "queue_ok q" "queue_ok q'" using q q' by (simp_all add: holds_def)
  let ?live = "leased_db rows q"
  obtain c1 where e1: "cyboudb_exec c ''BEGIN'' = Some (c1, OK)" and s1: "stands c1 (during True g ts ?live (leased_db rows q))"
    by (rule begin_between [OF c(1)])
  obtain c2 where e2: "cyboudb_exec c1 ?ins = Some (c2, OK)" and s2: "stands c2 (during True g ts ?live (leased_db ?rows q))"
    by (rule exec_done_view [OF s1, of ?ins "P_insert 1 [[C_text ''alpha'']]" "leased_db ?rows q"])
       (use c(2) ins runi ok valid_leased in \<open>simp_all del: append_Cons\<close>)
  obtain c3 where e3: "cyboudb_exec c2 (ticket_text ''ACK'' 0 1) = Some (c3, OK)" and s3: "stands c3 (during True g ts ?live (leased_db ?rows q'))"
    by (rule exec_done_view [OF s2, of _ "P_ack 2 0 1" "leased_db ?rows q'"])
       (use c(2) compile_ticket(2) [OF acks] runa ok valid_leased in simp_all)
  obtain c4 where e4: "cyboudb_exec c3 ''COMMIT'' = Some (c4, OK)" and s4: "stands c4 (between True (g + 1) ts (leased_db ?rows q'))"
    by (rule commit_during [OF s3 c(2) valid_leased [OF ok(2)]])
  note s4
  moreover have "holds q' 1 (slot_at HELD k v b # ss)" using q' n by simp
  ultimately show thesis using that [OF e1 e2 e3 e4] floor by blast
qed

lemma ordinary_part:
  assumes c: "stands c (between True g (t # ts) (leased_db [] q))" "g + 1 < U64_MAX"
    and q: "holds q 0 [slot_at HELD 0 0 ''alpha'', slot_at HELD 0 0 ''beta'', slot_at HELD 0 0 ''gamma'']"
    and t: "lease_now q t + 30000 \<le> U64_MAX" and cpu: "spin (hz div 20) u = Some u'"
  obtains c' out' q' where "ordinary_path hz \<lparr>lw_db = c, lw_cpu = u, lw_out = out\<rparr> = Some (\<lparr>lw_db = c', lw_cpu = u', lw_out = out'\<rparr>, Inr 1)"
    and "stands c' (between True (g + 2) ts (leased_db [[C_text ''alpha'']] q'))"
    and "holds q' 1 [slot_at HELD 0 0 ''beta'', slot_at HELD 0 0 ''gamma'']" and "q_time_floor q' = lease_now q t"
proof -
  have al: "c_str ''alpha'' = ''alpha''" by code_simp
  obtain c1 q1 where e1: "claim_one c ''CLAIM FROM inbox FOR 30000'' 256 = (c1, 0, [], Some (''alpha'', 0, 1))"
    and s1: "stands c1 (between True (g + 1) ts (leased_db [] q1))"
    and q1: "holds q1 0 (slot_at CLAIMED 1 (lease_now q t + 30000) ''alpha'' # slot_at HELD 0 0 ''beta'' # [slot_at HELD 0 0 ''gamma''])"
    and f1: "q_time_floor q1 = lease_now q t"
    by (rule claim_one_taken [OF c(1) _ claim_texts(1) q, of 0]) (use c(2) t al in \<open>auto simp: U64_MAX_def\<close>)
  obtain c2 c3 c4 c5 q' where e: "cyboudb_exec c1 ''BEGIN'' = Some (c2, OK)"
    "cyboudb_exec c2 (snprintf 512 (''INSERT INTO results VALUES ('' @ [quote] @ ''alpha'' @ [quote] @ '')'')) = Some (c3, OK)"
    "cyboudb_exec c3 (ticket_text ''ACK'' 0 1) = Some (c4, OK)" "cyboudb_exec c4 ''COMMIT'' = Some (c5, OK)"
    and s5: "stands c5 (between True (g + 1 + 1) ts (leased_db ([] @ [[C_text ''alpha'']]) q'))"
    and q5: "holds q' 1 (slot_at HELD 0 0 ''beta'' # [slot_at HELD 0 0 ''gamma''])" and f5: "q_time_floor q' = q_time_floor q1"
    by (rule result_and_ack [OF s1 _ q1]) (use c(2) in auto)
  have "\<exists>out'. ordinary_path hz \<lparr>lw_db = c, lw_cpu = u, lw_out = out\<rparr> = Some (\<lparr>lw_db = c5, lw_cpu = u', lw_out = out'\<rparr>, Inr 1)"
    by (simp only: ordinary_path_def go say_ok claiming_ok [OF e1] spinning_ok [OF cpu] must_ok [OF e(1)] must_ok [OF e(2)]
        must_ok [OF e(3)] must_ok [OF e(4)]) blast
  moreover have "stands c5 (between True (g + 2) ts (leased_db [[C_text ''alpha'']] q'))" using s5 by (simp add: numeral_2_eq_2)
  ultimately show thesis using that q5 f5 f1 by auto
qed

subsection \<open>Handing back\<close>

lemma ticket_texts:
  "sql_parse (c_str (ticket_text ''NACK'' 1 1)) = Got (Nack ''inbox'' (1 + 0) 1) []"
  "sql_parse (c_str (ticket_text ''ACK'' 1 1)) = Got (Ack ''inbox'' (1 + 0) 1) []"
  "sql_parse (c_str (ticket_text ''ACK'' 1 3)) = Got (Ack ''inbox'' (1 + 0) 3) []"
  "sql_parse (c_str (ticket_text ''ACK'' 2 1)) = Got (Ack ''inbox'' (2 + 0) 1) []"
  "sql_parse (c_str (ticket_text ''ACK'' 2 2)) = Got (Ack ''inbox'' (2 + 0) 2) []"
  "sql_parse (c_str (snprintf 512 (''RENEW FROM inbox AT '' @ dec 2 @ '' TOKEN '' @ dec 2 @ '' FOR 30000''))) = Got (Renew ''inbox'' (2 + 0) 2 30000) []"
  by code_simp+

lemma hand_back_part:
  assumes c: "stands c (between True g (t # ts) (leased_db rows q))" "g + 2 < U64_MAX"
    and q: "holds q 1 [slot_at HELD 0 0 ''beta'', slot_at HELD 0 0 ''gamma'']" and t: "lease_now q t + 30000 \<le> U64_MAX"
  obtains c' out' q' where "hand_back \<lparr>lw_db = c, lw_cpu = u, lw_out = out\<rparr> = Some (\<lparr>lw_db = c', lw_cpu = u, lw_out = out'\<rparr>, Inr ())"
    and "stands c' (between True (g + 2) ts (leased_db rows q'))"
    and "holds q' 1 [slot_at HELD 2 0 ''beta'', slot_at HELD 0 0 ''gamma'']" and "q_time_floor q' = lease_now q t"
proof -
  have be: "c_str ''beta'' = ''beta''" by code_simp
  obtain c1 q1 where e1: "claim_one c ''CLAIM FROM inbox FOR 30000'' 256 = (c1, 0, [], Some (''beta'', 1, 1))"
    and s1: "stands c1 (between True (g + 1) ts (leased_db rows q1))"
    and q1: "holds q1 1 [slot_at CLAIMED 1 (lease_now q t + 30000) ''beta'', slot_at HELD 0 0 ''gamma'']"
    and f1: "q_time_floor q1 = lease_now q t"
    by (rule claim_one_taken [OF c(1) _ claim_texts(1) q, of 0]) (use c(2) t be in \<open>auto simp: U64_MAX_def\<close>)
  obtain c2 q2 where e2: "cyboudb_exec c1 (ticket_text ''NACK'' 1 1) = Some (c2, OK)" and s2: "stands c2 (between True (g + 1 + 1) ts (leased_db rows q2))"
    and q2: "holds q2 1 [slot_at HELD 2 0 ''beta'', slot_at HELD 0 0 ''gamma'']" and f2: "q_time_floor q2 = q_time_floor q1"
    by (rule exec_nack [OF s1 _ ticket_texts(1) q1]) (use c(2) in \<open>auto simp: U64_MAX_def numeral_2_eq_2\<close>)
  obtain c3 where e3: "cyboudb_exec c2 (ticket_text ''ACK'' 1 1) = Some (c3, ERROR)" and s3: "stands c3 (between True (g + 1 + 1) ts (leased_db rows q2))"
    by (rule exec_ack_refused [OF s2 _ ticket_texts(2) q2]) (use c(2) in auto)
  have "\<exists>out'. hand_back \<lparr>lw_db = c, lw_cpu = u, lw_out = out\<rparr> = Some (\<lparr>lw_db = c3, lw_cpu = u, lw_out = out'\<rparr>, Inr ())"
    by (simp only: hand_back_def go say_ok claiming_ok [OF e1] must_ok [OF e2] must_not_ok [OF e3]) blast
  moreover have "stands c3 (between True (g + 2) ts (leased_db rows q2))" using s3 by (simp add: numeral_2_eq_2)
  ultimately show thesis using that q2 f2 f1 by auto
qed

subsection \<open>Two leases that lapse\<close>

lemma lapse_alone_part:
  assumes c: "stands c (between True g (t # ts) (leased_db rows q))" "g + 2 < U64_MAX"
    and q: "holds q 1 [slot_at HELD 2 0 ''beta'', slot_at HELD 0 0 ''gamma'']" and t: "lease_now q t + 30 \<le> U64_MAX"
    and cpu: "spin (hz div 5) u = Some u'"
  obtains c' out' q' where "lapse_alone hz \<lparr>lw_db = c, lw_cpu = u, lw_out = out\<rparr> = Some (\<lparr>lw_db = c', lw_cpu = u', lw_out = out'\<rparr>, Inr 1)"
    and "stands c' (between True (g + 2) ts (leased_db rows q'))"
    and "holds q' 2 [slot_at HELD 0 0 ''gamma'']" and "q_time_floor q' = lease_now q t"
proof -
  have be: "c_str ''beta'' = ''beta''" by code_simp
  obtain c1 q1 where e1: "claim_one c ''CLAIM FROM inbox FOR 30'' 256 = (c1, 0, [], Some (''beta'', 1, 3))"
    and s1: "stands c1 (between True (g + 1) ts (leased_db rows q1))"
    and q1: "holds q1 1 [slot_at CLAIMED 3 (lease_now q t + 30) ''beta'', slot_at HELD 0 0 ''gamma'']"
    and f1: "q_time_floor q1 = lease_now q t"
    by (rule claim_one_taken [OF c(1) _ claim_texts(2) q, of 0]) (use c(2) t be in \<open>auto simp: U64_MAX_def numeral_3_eq_3 numeral_2_eq_2\<close>)
  obtain c2 q2 where e2: "cyboudb_exec c1 (ticket_text ''ACK'' 1 3) = Some (c2, OK)" and s2: "stands c2 (between True (g + 1 + 1) ts (leased_db rows q2))"
    and q2: "holds q2 2 [slot_at HELD 0 0 ''gamma'']" and f2: "q_time_floor q2 = q_time_floor q1"
    by (rule exec_ack [OF s1 _ ticket_texts(3) q1]) (use c(2) in \<open>auto simp: numeral_2_eq_2\<close>)
  have "\<exists>out'. lapse_alone hz \<lparr>lw_db = c, lw_cpu = u, lw_out = out\<rparr> = Some (\<lparr>lw_db = c2, lw_cpu = u', lw_out = out'\<rparr>, Inr 1)"
    by (simp only: lapse_alone_def go say_ok claiming_ok [OF e1] spinning_ok [OF cpu] must_ok [OF e2]) blast
  moreover have "stands c2 (between True (g + 2) ts (leased_db rows q2))" using s2 by (simp add: numeral_2_eq_2)
  ultimately show thesis using that q2 f2 f1 by auto
qed

lemma claiming_none: "claim_one c sql 256 = (c', 0, [], None) \<Longrightarrow>
  claiming sql what \<lparr>lw_db = c, lw_cpu = u, lw_out = out\<rparr>
    = Some (\<lparr>lw_db = c', lw_cpu = u, lw_out = out @ [leased_fail (Some c') what]\<rparr>, Inl 1)"
  by (simp add: claiming_def quit_def)

text \<open>The first claim of the last part, and the wait after it.\<close>

lemma last_claim:
  assumes c: "stands c (between True g (t # ts) (leased_db rows q))" "g < U64_MAX"
    and q: "holds q 2 [slot_at HELD 0 0 ''gamma'']" and t: "lease_now q t + 30 \<le> U64_MAX"
  obtains c' q' where "claim_one c ''CLAIM FROM inbox FOR 30'' 256 = (c', 0, [], Some (''gamma'', 2, 1))"
    and "stands c' (between True (g + 1) ts (leased_db rows q'))"
    and "holds q' 2 [slot_at CLAIMED 1 (lease_now q t + 30) ''gamma'']" and "q_time_floor q' = lease_now q t"
proof -
  have ga: "c_str ''gamma'' = ''gamma''" by code_simp
  show thesis
    by (rule claim_one_taken [OF c(1) _ claim_texts(2) q, of 0]) (use that c(2) t ga in \<open>auto simp: U64_MAX_def\<close>)
qed

lemma lapse_taken_part:
  assumes c: "stands c (between True g (t # t' # t'' # ts) (leased_db rows q))" "g + 4 < U64_MAX"
    and q: "holds q 2 [slot_at HELD 0 0 ''gamma'']"
    and t: "lease_now q t + 30 \<le> t'" "t' + 30000 \<le> U64_MAX" "t'' + 30000 \<le> U64_MAX"
    and cpu: "spin (hz div 5) u = Some u'"
  obtains c' out' q' where "lapse_taken hz \<lparr>lw_db = c, lw_cpu = u, lw_out = out\<rparr> = Some (\<lparr>lw_db = c', lw_cpu = u', lw_out = out'\<rparr>, Inr 1)"
    and "stands c' (between True (g + 4) ts (leased_db rows q'))" and "holds q' 3 []"
proof -
  obtain c1 q1 where e1: "claim_one c ''CLAIM FROM inbox FOR 30'' 256 = (c1, 0, [], Some (''gamma'', 2, 1))"
    and s1: "stands c1 (between True (g + 1) (t' # t'' # ts) (leased_db rows q1))"
    and q1: "holds q1 2 [slot_at CLAIMED 1 (lease_now q t + 30) ''gamma'']" and f1: "q_time_floor q1 = lease_now q t"
    by (rule last_claim [OF c(1) _ q]) (use c(2) t in auto)
  have now1: "lease_now q1 t' = t'" using t(1) by (simp add: lease_now_max f1)
  have ga: "c_str ''gamma'' = ''gamma''" by code_simp
  obtain c2 q2 where e2: "claim_one c1 ''CLAIM FROM inbox FOR 30000'' 256 = (c2, 0, [], Some (''gamma'', 2, 2))"
    and s2: "stands c2 (between True (g + 1 + 1) (t'' # ts) (leased_db rows q2))"
    and q2: "holds q2 2 [slot_at CLAIMED 2 (t' + 30000) ''gamma'']" and f2: "q_time_floor q2 = t'"
    by (rule claim_one_taken [OF s1 _ claim_texts(1) q1, of 0]) (use c(2) t ga now1 in \<open>auto simp: U64_MAX_def numeral_2_eq_2\<close>)
  obtain c3 where e3: "cyboudb_exec c2 (ticket_text ''ACK'' 2 1) = Some (c3, ERROR)"
    and s3: "stands c3 (between True (g + 1 + 1) (t'' # ts) (leased_db rows q2))"
    by (rule exec_ack_refused [OF s2 _ ticket_texts(4) q2]) (use c(2) in auto)
  have now2: "lease_now q2 t'' + 30000 \<le> U64_MAX" using t(2,3) by (simp add: lease_now_max f2)
  obtain c4 q4 where e4: "cyboudb_exec c3 (snprintf 512 (''RENEW FROM inbox AT '' @ dec 2 @ '' TOKEN '' @ dec 2 @ '' FOR 30000'')) = Some (c4, OK)"
    and s4: "stands c4 (between True (g + 1 + 1 + 1) ts (leased_db rows q4))"
    and q4: "holds q4 2 [slot_at CLAIMED 2 (lease_now q2 t'' + 30000) ''gamma'']"
    by (rule exec_renew [OF s3 _ ticket_texts(6) q2]) (use c(2) now2 in \<open>auto simp del: append_Cons\<close>)
  obtain c5 q5 where e5: "cyboudb_exec c4 (ticket_text ''ACK'' 2 2) = Some (c5, OK)"
    and s5: "stands c5 (between True (g + 1 + 1 + 1 + 1) ts (leased_db rows q5))" and q5: "holds q5 3 []"
    by (rule exec_ack [OF s4 _ ticket_texts(5) q4, of "[]" 3]) (use c(2) in auto)
  have "\<exists>out'. lapse_taken hz \<lparr>lw_db = c, lw_cpu = u, lw_out = out\<rparr> = Some (\<lparr>lw_db = c5, lw_cpu = u', lw_out = out'\<rparr>, Inr 1)"
    by (simp only: lapse_taken_def go say_ok claiming_ok [OF e1] spinning_ok [OF cpu] claiming_ok [OF e2] must_not_ok [OF e3]
        must_ok [OF e4] must_ok [OF e5] simp_thms if_False) blast
  moreover have "stands c5 (between True (g + 4) ts (leased_db rows q5))" using s5 by (simp add: eval_nat_numeral)
  ultimately show thesis using that q5 by auto
qed

lemma lapse_missed_part:
  assumes c: "stands c (between True g (t # t' # ts) (leased_db rows q))" "g + 1 < U64_MAX"
    and q: "holds q 2 [slot_at HELD 0 0 ''gamma'']" and t: "t' < lease_now q t + 30" "lease_now q t + 30 \<le> U64_MAX"
    and cpu: "spin (hz div 5) u = Some u'"
  obtains s' where "lapse_taken hz \<lparr>lw_db = c, lw_cpu = u, lw_out = out\<rparr> = Some (s', Inl 1)"
proof -
  obtain c1 q1 where e1: "claim_one c ''CLAIM FROM inbox FOR 30'' 256 = (c1, 0, [], Some (''gamma'', 2, 1))"
    and s1: "stands c1 (between True (g + 1) (t' # ts) (leased_db rows q1))"
    and q1: "holds q1 2 [slot_at CLAIMED 1 (lease_now q t + 30) ''gamma'']" and f1: "q_time_floor q1 = lease_now q t"
    by (rule last_claim [OF c(1) _ q]) (use c(2) t in auto)
  have "lease_now q1 t' < lease_now q t + 30" using t(1) by (simp add: lease_now_max [of q1] f1)
  then have none: "\<And>j. j < length [slot_at CLAIMED 1 (lease_now q t + 30) ''gamma''] \<Longrightarrow>
      \<not> claimable (lease_now q1 t') ([slot_at CLAIMED 1 (lease_now q t + 30) ''gamma''] ! j)" by auto
  obtain c2 where e2: "claim_one c1 ''CLAIM FROM inbox FOR 30000'' 256 = (c2, 0, [], None)"
    by (rule claim_one_none [OF s1 _ claim_texts(1) _ q1 none]) (use c(2) in auto)
  have "\<exists>s'. lapse_taken hz \<lparr>lw_db = c, lw_cpu = u, lw_out = out\<rparr> = Some (s', Inl 1)"
    by (simp only: lapse_taken_def go say_ok claiming_ok [OF e1] spinning_ok [OF cpu] claiming_none [OF e2]) blast
  then show thesis using that by blast
qed

section \<open>The whole program\<close>

text \<open>Up to the last part: the last message is the only one left, and the queue's clock stands at the
  latest of the three readings.\<close>

lemma first_three_parts:
  assumes t: "t1 + 30000 \<le> U64_MAX" "t2 + 30000 \<le> U64_MAX" "t3 + 30000 \<le> U64_MAX"
    and cpu: "spin (hz div 20) u = Some u1" "spin (hz div 5) u1 = Some u2"
  obtains c c' out q where
    "cyboudb_create_with_options (Some LEASED_DB_PATH) 4000 (Some leased_options) True (files(LEASED_DB_PATH := None)) []
       (t1 # t2 # t3 # ts) = (OK, Some c)"
    and "\<And>k :: nat \<Rightarrow> nat \<Rightarrow> nat proc. andthen leased_schema (\<lambda>_. andthen (ordinary_path hz) (\<lambda>a. andthen hand_back (\<lambda>_. andthen (lapse_alone hz) (k a))))
       \<lparr>lw_db = c, lw_cpu = u, lw_out = []\<rparr> = k 1 1 \<lparr>lw_db = c', lw_cpu = u2, lw_out = out\<rparr>"
    and "stands c' (between True 12 ts (leased_db [[C_text ''alpha'']] q))" and "holds q 2 [slot_at HELD 0 0 ''gamma'']"
    and "q_time_floor q = max t1 (max t2 t3)"
proof -
  have opts: "pages_ok 4000" "struct_size leased_options \<ge> 8" "and (flags leased_options) (not CREATE_KNOWN) = 0"
    "and (flags leased_options) CREATE_QUEUE_LEASES \<noteq> 0" by code_simp+
  obtain c where create: "cyboudb_create_with_options (Some LEASED_DB_PATH) 4000 (Some leased_options) True
      (files(LEASED_DB_PATH := None)) [] (t1 # t2 # t3 # ts) = (OK, Some c)" and s0: "stands c (between True 1 (t1 # t2 # t3 # ts) [])"
    by (rule create_view [of "files(LEASED_DB_PATH := None)" LEASED_DB_PATH 4000 leased_options])
       (use opts in \<open>simp_all add: between_def\<close>)
  obtain c1 where p1: "leased_schema \<lparr>lw_db = c, lw_cpu = u, lw_out = []\<rparr>
      = Some (\<lparr>lw_db = c1, lw_cpu = u, lw_out = [Out ''three jobs queued'']\<rparr>, Inr ())"
    and s1: "stands c1 (between True 6 (t1 # t2 # t3 # ts) (leased_db [] three_jobs))" by (rule schema_part [OF s0])
  have g: "6 + 1 < U64_MAX" "8 + 2 < U64_MAX" "10 + 2 < U64_MAX" by (simp_all add: U64_MAX_def)
  note q1 = three_jobs_hold(1) [unfolded slot_at_simps]
  have n1: "lease_now three_jobs t1 = t1" by (simp add: lease_now_max three_jobs_hold(2))
  obtain c2 o2 q2 where p2: "ordinary_path hz \<lparr>lw_db = c1, lw_cpu = u, lw_out = [Out ''three jobs queued'']\<rparr>
      = Some (\<lparr>lw_db = c2, lw_cpu = u1, lw_out = o2\<rparr>, Inr 1)"
    and s2: "stands c2 (between True (6 + 2) (t2 # t3 # ts) (leased_db [[C_text ''alpha'']] q2))"
    and q2: "holds q2 1 [slot_at HELD 0 0 ''beta'', slot_at HELD 0 0 ''gamma'']" and f2: "q_time_floor q2 = t1"
    using ordinary_part [OF s1 g(1) q1 _ cpu(1)] t(1) n1 by metis
  have s2: "stands c2 (between True 8 (t2 # t3 # ts) (leased_db [[C_text ''alpha'']] q2))" using s2 by simp
  have n2: "lease_now q2 t2 = max t1 t2" by (simp add: lease_now_max f2)
  obtain c3 o3 q3 where p3: "hand_back \<lparr>lw_db = c2, lw_cpu = u1, lw_out = o2\<rparr> = Some (\<lparr>lw_db = c3, lw_cpu = u1, lw_out = o3\<rparr>, Inr ())"
    and s3: "stands c3 (between True (8 + 2) (t3 # ts) (leased_db [[C_text ''alpha'']] q3))"
    and q3: "holds q3 1 [slot_at HELD 2 0 ''beta'', slot_at HELD 0 0 ''gamma'']" and f3: "q_time_floor q3 = max t1 t2"
    by (rule hand_back_part [OF s2 g(2) q2, of u1 o2]) (use t n2 in auto)
  have s3: "stands c3 (between True 10 (t3 # ts) (leased_db [[C_text ''alpha'']] q3))" using s3 by simp
  have n3: "lease_now q3 t3 = max t1 (max t2 t3)" by (simp add: lease_now_max f3)
  obtain c4 o4 q4 where p4: "lapse_alone hz \<lparr>lw_db = c3, lw_cpu = u1, lw_out = o3\<rparr> = Some (\<lparr>lw_db = c4, lw_cpu = u2, lw_out = o4\<rparr>, Inr 1)"
    and s4: "stands c4 (between True (10 + 2) ts (leased_db [[C_text ''alpha'']] q4))"
    and q4: "holds q4 2 [slot_at HELD 0 0 ''gamma'']" and f4: "q_time_floor q4 = max t1 (max t2 t3)"
    by (rule lapse_alone_part [OF s3 g(3) q3 _ cpu(2), of o3]) (use t n3 in auto)
  have all: "andthen leased_schema (\<lambda>_. andthen (ordinary_path hz) (\<lambda>a. andthen hand_back (\<lambda>_. andthen (lapse_alone hz) (k a))))
       \<lparr>lw_db = c, lw_cpu = u, lw_out = []\<rparr> = k 1 1 \<lparr>lw_db = c4, lw_cpu = u2, lw_out = o4\<rparr>" for k :: "nat \<Rightarrow> nat \<Rightarrow> nat proc"
    by (simp only: go p1 p2 p3 p4)
  have "stands c4 (between True 12 ts (leased_db [[C_text ''alpha'']] q4))" using s4 by simp
  then show thesis by (rule that [OF create all _ q4 f4])
qed

text \<open>C6 The exit code of \<open>examples/leased_worker.c\<close>.  Run on storage that does not fail, with the three busy
  waits over (the processor clock moves on) and wall clock readings \<open>t1\<close> to \<open>t6\<close> far enough from the
  end of the clock, the program returns; it returns zero, having finished each of its three jobs and
  left the queue empty with the one result row, exactly when the wall clock at the second worker's
  claim is thirty milliseconds past the latest reading before it.  The waits are on the processor
  clock and do not enter: a wall clock that stands still or is set back makes the example fail.\<close>

theorem leased_worker_exit_code:
  assumes "list_all (\<lambda>t. t + 30000 \<le> U64_MAX) [t1, t2, t3, t4, t5, t6]"
    and "spin (hz div 20) u = Some u1" and "spin (hz div 5) u1 = Some u2" and "spin (hz div 5) u2 = Some u3"
  shows "if max t1 (max t2 (max t3 t4)) + 30 \<le> t5
    then \<exists>c out q. leased_main hz files [] (t1 # t2 # t3 # t4 # t5 # t6 # ts) u = Some (0, Some c, out)
      \<and> \<not> cn_open c \<and> cn_live c = leased_db [[C_text ''alpha'']] q \<and> q_head q = 3 \<and> q_tail q = 3
    else \<exists>c out. leased_main hz files [] (t1 # t2 # t3 # t4 # t5 # t6 # ts) u = Some (1, Some c, out)"
proof -
  have t: "t1 + 30000 \<le> U64_MAX" "t2 + 30000 \<le> U64_MAX" "t3 + 30000 \<le> U64_MAX" "t4 + 30000 \<le> U64_MAX" "t5 + 30000 \<le> U64_MAX"
    "t6 + 30000 \<le> U64_MAX" using assms(1) by simp_all
  obtain c c1 o1 q where create: "cyboudb_create_with_options (Some LEASED_DB_PATH) 4000 (Some leased_options) True
      (files(LEASED_DB_PATH := None)) [] (t1 # t2 # t3 # t4 # t5 # t6 # ts) = (OK, Some c)"
    and p1: "\<And>k :: nat \<Rightarrow> nat \<Rightarrow> nat proc. andthen leased_schema (\<lambda>_. andthen (ordinary_path hz) (\<lambda>a. andthen hand_back (\<lambda>_. andthen (lapse_alone hz) (k a))))
       \<lparr>lw_db = c, lw_cpu = u, lw_out = []\<rparr> = k 1 1 \<lparr>lw_db = c1, lw_cpu = u2, lw_out = o1\<rparr>"
    and s1: "stands c1 (between True 12 (t4 # t5 # t6 # ts) (leased_db [[C_text ''alpha'']] q))" and q: "holds q 2 [slot_at HELD 0 0 ''gamma'']"
    and f: "q_time_floor q = max t1 (max t2 t3)"
    by (rule first_three_parts [OF t(1-3) assms(2,3), of files "t4 # t5 # t6 # ts"]) blast
  have n: "lease_now q t4 = max t1 (max t2 (max t3 t4))" by (simp add: lease_now_max f)
  have g: "12 + 4 < U64_MAX" "12 + 1 < U64_MAX" by (simp_all add: U64_MAX_def)
  note run = leased_main_def create option.case prod.case p1 [of "\<lambda>a b. andthen (lapse_taken hz) (\<lambda>d. give (a + b + d))"]
  show ?thesis
  proof (cases "max t1 (max t2 (max t3 t4)) + 30 \<le> t5")
    case True
    obtain c2 o2 q2 where p2: "lapse_taken hz \<lparr>lw_db = c1, lw_cpu = u2, lw_out = o1\<rparr> = Some (\<lparr>lw_db = c2, lw_cpu = u3, lw_out = o2\<rparr>, Inr 1)"
      and s2: "stands c2 (between True (12 + 4) ts (leased_db [[C_text ''alpha'']] q2))" and q2: "holds q2 3 []"
      by (rule lapse_taken_part [OF s1 g(1) q _ t(5,6) assms(4), of o1]) (use True n in auto)
    obtain c3 where close: "cyboudb_close c2 = (c3, OK)" and live: "cn_live c3 = leased_db [[C_text ''alpha'']] q2" "\<not> cn_open c3"
      by (rule close_view [OF s2]) simp_all
    have "leased_main hz files [] (t1 # t2 # t3 # t4 # t5 # t6 # ts) u
        = Some (0, Some c3, o2 @ [Out (dec (1 + 1 + 1) @ '' jobs finished, each exactly once'')])"
      unfolding run by (simp add: andthen_def give_def p2 close)
    then show ?thesis using True live q2 by (auto simp: holds_def)
  next
    case False
    obtain s' where p2: "lapse_taken hz \<lparr>lw_db = c1, lw_cpu = u2, lw_out = o1\<rparr> = Some (s', Inl 1)"
      by (rule lapse_missed_part [OF s1 g(2) q _ _ assms(4), of o1]) (use False t n in auto)
    have "leased_main hz files [] (t1 # t2 # t3 # t4 # t5 # t6 # ts) u = Some (1, Some (lw_db s'), lw_out s')"
      unfolding run by (simp add: andthen_def p2)
    then show ?thesis using False by auto
  qed
qed

theorem leased_worker_exit_code_witness:
  "(\<exists>c out q. leased_main 1000 Map.empty [] [5, 6, 7, 8, 38, 39] [0, 50, 50, 250, 250, 450] = Some (0, Some c, out)
      \<and> \<not> cn_open c \<and> cn_live c = leased_db [[C_text ''alpha'']] q \<and> q_head q = 3 \<and> q_tail q = 3)
   \<and> (\<exists>c out. leased_main 1000 Map.empty [] [5, 6, 7, 8, 37, 39] [0, 50, 50, 250, 250, 450] = Some (1, Some c, out))"
  using leased_worker_exit_code [of 5 6 7 8 38 39 1000 "[0, 50, 50, 250, 250, 450]" "[50, 250, 250, 450]" "[250, 450]" "[]" Map.empty "[]"]
    leased_worker_exit_code [of 5 6 7 8 37 39 1000 "[0, 50, 50, 250, 250, 450]" "[50, 250, 250, 450]" "[250, 450]" "[]" Map.empty "[]"]
  by (simp add: spin_def U64_MAX_def)

end
