(* ===== verification/Connection_Invariants.thy ===== *)
theory Connection_Invariants
  imports Connection_Laws
begin

text \<open>
  What holds of a connection whatever its client does.  \<open>call\<close> is one call of the interface, with any
  arguments, on a connection to which anything may happen (the event list is arbitrary); the
  invariants are proved over every sequence of calls.
\<close>

inductive call :: "conn \<Rightarrow> conn \<Rightarrow> bool" where
  call_prepare: "call c (fst (cyboudb_prepare c sql))"
| call_step: "call c (fst (cyboudb_step c h))"
| call_reset: "call c (fst (cyboudb_reset c h))"
| call_finalize: "call c (fst (cyboudb_finalize c h))"
| call_close: "call c (fst (cyboudb_close c))"

text \<open>\<open>cyboudb_exec\<close> is a sequence of these calls.\<close>

lemma loop_calls:
  assumes "exec_step_loop c h = Some r"
  shows "call\<^sup>*\<^sup>* c (fst r)"
  using assms
proof (rule exec_step_loop.raw_induct [where P = "\<lambda>c h r. call\<^sup>*\<^sup>* c (fst r)", rotated])
  fix f c h r
  assume IH: "\<And>c h r. f c h = Some r \<Longrightarrow> call\<^sup>*\<^sup>* c (fst r)"
    and body: "(case cyboudb_step c h of (c1, s) \<Rightarrow> if s = ROW then f c1 h else Some (c1, s)) = Some r"
  obtain c1 s where step: "cyboudb_step c h = (c1, s)" by fastforce
  have first: "call c c1" using call_step [of c h] step by simp
  show "call\<^sup>*\<^sup>* c (fst r)"
  proof (cases "s = ROW")
    case True
    then have "call\<^sup>*\<^sup>* c1 (fst r)" using body step by (intro IH) simp
    then show ?thesis using first by simp
  next
    case False
    then show ?thesis using body step first by auto
  qed
qed

lemma exec_calls:
  assumes "cyboudb_exec c sql = Some (c', s)"
  shows "call\<^sup>*\<^sup>* c c'"
proof -
  obtain c1 s1 h where prep: "cyboudb_prepare c sql = (c1, s1, h)" by (cases "cyboudb_prepare c sql")
  have first: "call c c1" using call_prepare [of c sql] prep by simp
  show ?thesis
  proof (cases "s1 = OK")
    case True
    then obtain c2 s2 where loop: "exec_step_loop c1 h = Some (c2, s2)" and fin: "c' = fst (cyboudb_finalize c2 h)"
      using assms prep by (auto simp: cyboudb_exec_def split: option.splits prod.splits)
    have "call c2 c'" unfolding fin by (rule call_finalize)
    with first loop_calls [OF loop] show ?thesis by simp
  next
    case False
    then show ?thesis using assms prep first by (simp add: cyboudb_exec_def)
  qed
qed

section \<open>What one step may do\<close>

text \<open>A step publishes at most one generation, one the validator accepts; it publishes none while a
  transaction stays open; and it changes at most the statement it steps.\<close>

definition moves :: "nat \<Rightarrow> conn \<Rightarrow> conn \<Rightarrow> bool" where
  "moves k c c' \<longleftrightarrow> cn_leases c' = cn_leases c
    \<and> (cn_gens c' = cn_gens c \<or> (\<exists>cat. cn_gens c' = cat # cn_gens c \<and> db_catalog_validate (cn_leases c) cat))
    \<and> (cn_tx c \<and> cn_tx c' \<longrightarrow> cn_gens c' = cn_gens c)
    \<and> (same_stmts c c' \<or> stmts_upd k c c')"

lemma moves_refl [simp]: "moves k c c"
  by (simp add: moves_def)

lemma moves_pre: "same_db a b \<Longrightarrow> same_stmts a b \<Longrightarrow> moves k b c \<Longrightarrow> moves k a c"
  by (auto simp: moves_def same_db_def same_stmts_def stmts_upd_def)

lemma moves_staged: "moves k (c\<lparr>cn_staged := cat\<rparr>) c' \<Longrightarrow> moves k c c'"
  by (auto simp: moves_def same_stmts_def stmts_upd_def)

lemma moves_post:
  assumes "moves k a b" and "same_stmts a b" and "same_db b c" and "same_stmts b c \<or> stmts_upd k b c"
  shows "moves k a c"
  using assms by (auto simp: moves_def same_db_def same_stmts_def stmts_upd_def)

lemma commit_moves: "db_commit c = (c', r) \<Longrightarrow> \<not> cn_tx c \<Longrightarrow> moves k c c' \<and> same_stmts c c'"
  using commit_ok [of c c'] commit_failed [of c c'] same_stmts_commit [of c] by (cases r) (auto simp: moves_def)

lemma autocommit_moves: "autocommit c = (c', r) \<Longrightarrow> moves k c c' \<and> same_stmts c c'"
  using commit_moves [of c c' r k] by (auto simp: autocommit_def split: if_splits)

lemma report_moves:
  assumes "moves k a b" and "same_stmts a b"
  shows "moves k a (fst (step_mutation_error b k st code msg))" and "moves k a (fst (step_done b k st))"
    and "moves k a (put_stmt b k st)"
  by (rule moves_post [OF assms]; simp add: step_mutation_error_def step_done_def)+

lemma execute_moves:
  assumes "execute c pl = (c1, a)"
  shows "moves k c c1" and "same_stmts c c1" 
    and "autocommit c1 = (c2, r) \<Longrightarrow> moves k c c2" and "autocommit c1 = (c2, r) \<Longrightarrow> same_stmts c c2"
proof -
  have db: "same_db (c\<lparr>cn_staged := cn_staged c1\<rparr>) c1" and st: "same_stmts c c1" by (rule execute_frame [OF assms])+
  have pre: "moves k c c'" if "moves k c1 c'" for c'
    by (rule moves_staged, rule moves_pre [OF db _ that]) (use st in \<open>simp add: same_stmts_def\<close>)
  show "moves k c c1" by (rule pre) simp
  show "same_stmts c c1" by (rule st)
  show "moves k c c2" "same_stmts c c2" if "autocommit c1 = (c2, r)"
    using autocommit_moves [OF that, of k] pre st same_stmts_trans by blast+
qed

lemma step_drop_moves: "moves k c (fst (step_drop c k st))"
proof -
  obtain c1 a where ex: "execute c (st_plan st) = (c1, a)" by fastforce
  obtain c2 r where ac: "autocommit c1 = (c2, r)" by fastforce
  note m = report_moves [OF execute_moves(1,2) [OF ex]] and n = report_moves [OF execute_moves(3,4) [OF ex ac]]
  show ?thesis
  proof (cases "st_state st = STATE_DONE")
    case False
    with ex ac show ?thesis by (cases a; cases r) (simp_all add: step_drop_def m n)
  qed (simp add: step_drop_def)
qed

lemma step_dequeue_moves: "moves k c (fst (step_dequeue c k st))"
proof -
  obtain c1 a where ex: "execute c (st_plan st) = (c1, a)" by fastforce
  obtain c2 r where ac: "autocommit c1 = (c2, r)" by fastforce
  note m = report_moves [OF execute_moves(1,2) [OF ex]] and n = report_moves [OF execute_moves(3,4) [OF ex ac]]
  show ?thesis using ex ac by (cases a; cases r) (simp_all add: step_dequeue_def Let_def m n)
qed

lemma step_other_moves: "moves k c (fst (step_other c k st))"
proof -
  obtain c1 a where ex: "execute c P_other = (c1, a)" by fastforce
  obtain c2 r where ac: "autocommit c1 = (c2, r)" by fastforce
  note m = report_moves [OF execute_moves(1,2) [OF ex]] and n = report_moves [OF execute_moves(3,4) [OF ex ac]]
  show ?thesis using ex ac by (cases a; cases r) (simp_all add: step_other_def m n)
qed

lemma step_commit_moves: "moves k c (fst (step_commit c k st))"
proof -
  consider "st_state st = STATE_DONE" | "st_state st \<noteq> STATE_DONE" "\<not> cn_tx c" | "st_state st \<noteq> STATE_DONE" "cn_tx c" by blast
  then show ?thesis
  proof cases
    case 3
    obtain c1 r where cm: "db_commit c = (c1, r)" by fastforce
    have st: "same_stmts c c1" using same_stmts_commit [of c] cm by simp
    show ?thesis
    proof (cases r)
      case None
      have "moves k c (c1\<lparr>cn_tx := False\<rparr>)" "same_stmts c (c1\<lparr>cn_tx := False\<rparr>)"
        using commit_ok [of c c1] cm None st by (auto simp: moves_def same_stmts_def)
      with 3 cm None show ?thesis using report_moves(2) by (simp add: step_commit_def)
    next
      case (Some e)
      define c2 where "c2 = fst (db_rollback (c1\<lparr>cn_tx := False\<rparr>))"
      have "same_stmts c c2" using same_stmts_rollback [of "c1\<lparr>cn_tx := False\<rparr>"] st by (simp add: c2_def same_stmts_def)
      moreover have "cn_gens c2 = cn_gens c1" "cn_leases c2 = cn_leases c1" "\<not> cn_tx c2"
        by (auto simp: c2_def db_rollback_def)
      then have "moves k c c2" using commit_failed [of c c1 e] cm Some \<open>same_stmts c c2\<close> by (auto simp: moves_def)
      ultimately show ?thesis using 3 cm Some report_moves(1) by (simp add: step_commit_def c2_def)
    qed
  qed (use report_moves(1) [of k c c] in \<open>simp_all add: step_commit_def\<close>)
qed

lemma step_begin_moves: "moves k c (fst (step_begin c k st))"
proof -
  have "moves k c (c\<lparr>cn_tx := True, cn_tx_id := n\<rparr>)" "same_stmts c (c\<lparr>cn_tx := True, cn_tx_id := n\<rparr>)" for n
    by (simp_all add: moves_def)
  then show ?thesis using report_moves [of k c c] report_moves(2) [of k c] by (simp add: step_begin_def)
qed

lemma step_rollback_moves: "moves k c (fst (step_rollback c k st))"
proof -
  obtain c1 r where rb: "db_rollback c = (c1, r)" by fastforce
  have "same_stmts c (c1\<lparr>cn_tx := False\<rparr>)" using same_stmts_rollback [of c] rb by (simp add: same_stmts_def)
  moreover have "moves k c (c1\<lparr>cn_tx := False\<rparr>)" using rollback_frame(1,3) [OF rb] calculation by (simp add: moves_def)
  ultimately show ?thesis
    using rb report_moves [of k c c] report_moves [of k c "c1\<lparr>cn_tx := False\<rparr>"] by (cases r) (simp_all add: step_rollback_def Let_def)
qed

lemma step_moves:
  assumes "cn_stmts c k = Some st"
  shows "moves k c (fst (cyboudb_step c (Some k)))"
proof (rule moves_pre [of _ "api_error_clear c"])
  note all = step_drop_moves step_dequeue_moves step_other_moves step_commit_moves step_begin_moves step_rollback_moves
  show "moves k (api_error_clear c) (fst (cyboudb_step c (Some k)))"
    using assms by (cases "st_plan st") (simp_all add: cyboudb_step_def Let_def all)
qed simp_all

section \<open>The invariants\<close>

text \<open>The generations on the disk are those there were and ones the validator accepted; the table of
  statements and its counter agree; on a closed connection no statement is left.\<close>

definition sound :: "bool \<Rightarrow> catalog list \<Rightarrow> conn \<Rightarrow> bool" where
  "sound l old c \<longleftrightarrow> stmts_ok c \<and> cn_leases c = l
    \<and> (\<exists>new. cn_gens c = new @ old \<and> list_all (db_catalog_validate l) new)"

lemma stmts_ok_upd:
  assumes "stmts_ok c" and "k \<in> dom (cn_stmts c)" and "stmts_upd k c c'"
  shows "stmts_ok c'"
proof -
  have "dom (cn_stmts c') = insert k (dom (cn_stmts c))" using assms(3) by (auto simp: stmts_upd_def)
  then have "dom (cn_stmts c') = dom (cn_stmts c)" using assms(2) by (simp add: insert_absorb)
  then show ?thesis using assms(1,3) unfolding stmts_ok_def stmts_upd_def by simp
qed

lemma stmts_ok_same: "stmts_ok c \<Longrightarrow> same_stmts c c' \<Longrightarrow> stmts_ok c'"
  by (simp add: stmts_ok_def same_stmts_def)

lemma sound_moves:
  assumes "sound l old c" and "moves k c c'" and "k \<in> dom (cn_stmts c)"
  shows "sound l old c'"
proof -
  obtain new where c: "stmts_ok c" "cn_leases c = l" "cn_gens c = new @ old" "list_all (db_catalog_validate l) new"
    using assms(1) by (auto simp: sound_def)
  have "same_stmts c c' \<or> stmts_upd k c c'" using assms(2) by (simp add: moves_def)
  then have "stmts_ok c'" using assms(3) c(1) stmts_ok_upd stmts_ok_same by blast
  moreover have "\<exists>new'. cn_gens c' = new' @ old \<and> list_all (db_catalog_validate l) new'"
  proof (cases "cn_gens c' = cn_gens c")
    case True
    then show ?thesis using c(3,4) by auto
  next
    case False
    then obtain cat where "cn_gens c' = cat # cn_gens c" "db_catalog_validate (cn_leases c) cat"
      using assms(2) unfolding moves_def by blast
    then have "cn_gens c' = (cat # new) @ old \<and> list_all (db_catalog_validate l) (cat # new)" using c(2-4) by simp
    then show ?thesis by (rule exI)
  qed
  ultimately show ?thesis using assms(2) c(2) by (simp add: sound_def moves_def)
qed

lemma sound_db: "sound l old c \<Longrightarrow> stmts_ok c' \<Longrightarrow> cn_leases c' = cn_leases c \<Longrightarrow> cn_gens c' = cn_gens c \<Longrightarrow> sound l old c'"
  by (simp add: sound_def)

lemma finalize_stmts:
  assumes "stmts_ok c"
  shows "stmts_ok (fst (cyboudb_finalize c h))"
proof -
  have "card (dom (cn_stmts c) - {k}) = card (dom (cn_stmts c)) - 1" if "cn_stmts c k = Some st" for k st
    using that assms by (intro card_Diff_singleton) (auto simp: stmts_ok_def)
  then show ?thesis using assms by (auto simp: stmts_ok_def cyboudb_finalize_def split: option.splits)
qed

lemma prepare_stmts:
  assumes "stmts_ok c"
  shows "stmts_ok (fst (cyboudb_prepare c sql))"
proof -
  obtain c' s h where prep: "cyboudb_prepare c sql = (c', s, h)" by (cases "cyboudb_prepare c sql")
  note law = prepare_law [OF prep]
  show ?thesis
  proof (cases "s = OK")
    case True
    then obtain pl where "cn_stmts c' = (cn_stmts c)(cn_next c \<mapsto> new_stmt pl)" "cn_stmt_count c' = cn_stmt_count c + 1"
      "cn_next c' = cn_next c + 1" using law(3) by blast
    moreover have "cn_next c \<notin> dom (cn_stmts c)" using assms by (auto simp: stmts_ok_def)
    ultimately show ?thesis using assms prep by (auto simp: stmts_ok_def less_Suc_eq)
  next
    case False
    then show ?thesis using law(2) prep assms stmts_ok_same by simp
  qed
qed

lemma close_frame:
  "same_stmts c (fst (cyboudb_close c))" "cn_leases (fst (cyboudb_close c)) = cn_leases c" "cn_gens (fst (cyboudb_close c)) = cn_gens c"
  by (simp_all add: cyboudb_close_def db_close_def db_rollback_def same_stmts_def)

lemma sound_call: "call c c' \<Longrightarrow> sound l old c \<Longrightarrow> sound l old c'"
proof (induction rule: call.induct)
  case (call_prepare c sql)
  obtain c' s h where prep: "cyboudb_prepare c sql = (c', s, h)" by (cases "cyboudb_prepare c sql")
  then show ?case
    using call_prepare prepare_law(1) [OF prep] prepare_stmts [of c sql] by (auto intro!: sound_db simp: same_db_def sound_def)
next
  case (call_step c h)
  show ?case
  proof (cases "\<exists>k st. h = Some k \<and> cn_stmts c k = Some st")
    case True
    then obtain k st where k: "h = Some k" "cn_stmts c k = Some st" by blast
    from k(2) show ?thesis unfolding k(1) by (intro sound_moves [OF call_step step_moves]) auto
  next
    case False
    then have "cyboudb_step c h = (c, MISUSE)" by (cases h) (auto simp: cyboudb_step_def split: option.splits)
    then show ?thesis using call_step by simp
  qed
next
  case (call_reset c h)
  have "stmts_ok (put_stmt c k st)" if "cn_stmts c k = Some st'" for k st st'
    by (rule stmts_ok_upd [of c k]) (use call_reset that in \<open>auto simp: sound_def\<close>)
  then have "stmts_ok (fst (cyboudb_reset c h))"
    using call_reset by (auto simp: sound_def cyboudb_reset_def split: option.splits)
  then show ?case
    by (rule sound_db [OF call_reset]) (auto simp: cyboudb_reset_def put_stmt_def split: option.splits)
next
  case (call_finalize c h)
  have "stmts_ok (fst (cyboudb_finalize c h))" using call_finalize finalize_stmts by (simp add: sound_def)
  then show ?case
    by (rule sound_db [OF call_finalize]) (auto simp: cyboudb_finalize_def split: option.splits)
next
  case (call_close c)
  have "stmts_ok c" using call_close by (simp add: sound_def)
  then have "stmts_ok (fst (cyboudb_close c))" by (rule stmts_ok_same [OF _ close_frame(1)])
  then show ?case by (rule sound_db [OF call_close _ close_frame(2,3)])
qed

lemma sound_calls: "call\<^sup>*\<^sup>* c c' \<Longrightarrow> sound l old c \<Longrightarrow> sound l old c'"
  by (induction rule: rtranclp_induct) (auto intro: sound_call)

lemma sound_new: "sound (f_leases f) (f_gens f) (new_conn fl f evs clock)"
  by (simp add: sound_def new_conn_def stmts_ok_def)

section \<open>Properties of every connection\<close>

definition fresh :: "event list \<Rightarrow> conn" where
  "fresh evs = new_conn OPEN_READWRITE \<lparr>f_gens = [[]], f_generation = 1, f_leases = False\<rparr> evs []"

text \<open>C10 Only valid generations reach the disk.  Take any file and any sequence of calls, with any
  arguments, on a connection to it, while memory, storage and the disk fail in any way: the
  generations on the disk are the ones the file had, untouched, and on top of them only catalogs the
  validator accepts.  A crash at any moment therefore leaves a newest generation that is valid or was
  there before.\<close>

theorem published_generations_valid:
  assumes "call\<^sup>*\<^sup>* (new_conn fl f evs clock) c"
  shows "\<exists>new. cn_gens c = new @ f_gens f \<and> list_all (db_catalog_validate (f_leases f)) new"
  using sound_calls [OF assms sound_new] by (auto simp: sound_def)

theorem published_generations_valid_witness:
  "\<exists>new. cn_gens (fst (cyboudb_step (fst (cyboudb_prepare (fresh []) ''CREATE QUEUE q'')) (Some 0))) = new @ [[]]
    \<and> list_all (db_catalog_validate False) new \<and> new \<noteq> []"
proof -
  let ?c = "fst (cyboudb_step (fst (cyboudb_prepare (fresh []) ''CREATE QUEUE q'')) (Some 0))"
  have "call\<^sup>*\<^sup>* (fresh []) ?c"
    by (rule rtranclp.rtrancl_into_rtrancl, rule r_into_rtranclp, rule call_prepare, rule call_step)
  from published_generations_valid [OF this [unfolded fresh_def]]
  obtain new where new: "cn_gens ?c = new @ [[]]" "list_all (db_catalog_validate False) new" by (auto simp: fresh_def)
  have "length (cn_gens ?c) = 2" by code_simp
  then have "new \<noteq> []" unfolding new(1) by auto
  with new show ?thesis by blast
qed

text \<open>C30 Statements are counted.  After any sequence of calls \<open>cyboudb_close\<close> answers \<open>CybouDB_BUSY\<close> exactly
  when a statement that was prepared has not been finalized, and the counter it looks at is the number
  of such statements.\<close>

theorem close_busy_iff_statement:
  assumes "call\<^sup>*\<^sup>* (new_conn fl f evs clock) c"
  shows "(snd (cyboudb_close c) = BUSY \<longleftrightarrow> (\<exists>k st. cn_stmts c k = Some st)) \<and> cn_stmt_count c = card (dom (cn_stmts c))"
proof -
  have ok: "finite (dom (cn_stmts c))" "cn_stmt_count c = card (dom (cn_stmts c))"
    using sound_calls [OF assms sound_new] by (auto simp: sound_def stmts_ok_def)
  then have "cn_stmt_count c \<noteq> 0 \<longleftrightarrow> (\<exists>k st. cn_stmts c k = Some st)" by (auto simp: dom_def)
  with ok(2) show ?thesis by (simp add: cyboudb_close_def)
qed

theorem close_busy_iff_statement_witness:
  "snd (cyboudb_close (fst (cyboudb_prepare (fresh []) ''BEGIN''))) = BUSY \<and> snd (cyboudb_close (fresh [])) = OK"
proof -
  have "call\<^sup>*\<^sup>* (fresh []) (fst (cyboudb_prepare (fresh []) ''BEGIN''))" by (rule r_into_rtranclp) (rule call_prepare)
  from close_busy_iff_statement [OF this [unfolded fresh_def]]
  have "snd (cyboudb_close (fst (cyboudb_prepare (fresh []) ''BEGIN''))) = BUSY
      \<longleftrightarrow> (\<exists>k st. cn_stmts (fst (cyboudb_prepare (fresh []) ''BEGIN'')) k = Some st)" by (simp only: fresh_def)
  moreover have "cn_stmts (fst (cyboudb_prepare (fresh []) ''BEGIN'')) 0 = Some (new_stmt P_begin)"
    "snd (cyboudb_close (fresh [])) = OK" by code_simp+
  ultimately show ?thesis by blast
qed

text \<open>A transaction that stays open.\<close>

lemma call_in_tx: "call c c' \<Longrightarrow> cn_tx c \<Longrightarrow> cn_tx c' \<Longrightarrow> cn_gens c' = cn_gens c"
proof (induction rule: call.induct)
  case (call_prepare c sql)
  then show ?case using prepare_law(1) [of c sql] by (cases "cyboudb_prepare c sql") (auto simp: same_db_def)
next
  case (call_step c h)
  show ?case
  proof (cases "\<exists>k st. h = Some k \<and> cn_stmts c k = Some st")
    case True
    then obtain k st where k: "h = Some k" "cn_stmts c k = Some st" by blast
    then show ?thesis using step_moves [OF k(2)] call_step by (simp add: moves_def)
  next
    case False
    then have "cyboudb_step c h = (c, MISUSE)" by (cases h) (auto simp: cyboudb_step_def split: option.splits)
    then show ?thesis by simp
  qed
qed (auto simp: cyboudb_reset_def put_stmt_def cyboudb_finalize_def cyboudb_close_def db_close_def db_rollback_def split: option.splits)

text \<open>C11 A transaction is invisible until it is committed.  As long as the transaction stays open, no call
  on the connection (statements that fail, that succeed, that run out of memory, resets, a close)
  changes what is on the disk; only a \<open>COMMIT\<close>, which ends the transaction, does.\<close>

theorem open_transaction_invisible:
  assumes "(\<lambda>a b. call a b \<and> cn_tx b)\<^sup>*\<^sup>* c c'" and "cn_tx c"
  shows "cn_gens c' = cn_gens c"
proof -
  have "cn_tx c' \<and> cn_gens c' = cn_gens c"
    using assms by (induction rule: rtranclp_induct) (auto dest: call_in_tx)
  then show ?thesis ..
qed

theorem open_transaction_invisible_witness:
  "cn_gens (fst (cyboudb_step (fst (cyboudb_prepare ((fresh [])\<lparr>cn_tx := True\<rparr>) ''CREATE QUEUE q'')) (Some 0))) = [[]]
    \<and> length (cn_staged (fst (cyboudb_step (fst (cyboudb_prepare ((fresh [])\<lparr>cn_tx := True\<rparr>) ''CREATE QUEUE q'')) (Some 0)))) = 1"
proof -
  let ?c0 = "(fresh [])\<lparr>cn_tx := True\<rparr>" and ?c1 = "fst (cyboudb_prepare ((fresh [])\<lparr>cn_tx := True\<rparr>) ''CREATE QUEUE q'')"
  let ?c2 = "fst (cyboudb_step ?c1 (Some 0))"
  have tx: "cn_tx ?c1" "cn_tx ?c2" "length (cn_staged ?c2) = 1" by code_simp+
  have "(\<lambda>a b. call a b \<and> cn_tx b)\<^sup>*\<^sup>* ?c0 ?c2"
    by (rule rtranclp.rtrancl_into_rtrancl, rule r_into_rtranclp, rule conjI [OF call_prepare tx(1)],
        rule conjI [OF call_step tx(2)])
  from open_transaction_invisible [OF this] show ?thesis using tx(3) by (simp add: fresh_def new_conn_def)
qed

text \<open>C32 A commit that fails says nothing is wrong.  When \<open>COMMIT\<close> of an open transaction fails, for whatever
  reason, \<open>cyboudb_step\<close> returns \<open>CybouDB_ERROR\<close> and sets a code, the transaction is over, and
  \<open>cyboudb_errmsg\<close> answers "ok".  On a writable connection whose flushes have not failed, what the
  transaction did is discarded.  Once a flush has failed it is not: the changes stay staged, they may
  have reached the disk, and the connection is marked as failed.\<close>

theorem failed_commit_says_ok:
  assumes "cn_stmts c k = Some (new_stmt P_commit)" and "cn_tx c" and "db_commit (api_error_clear c) = (c1, Some e)"
  shows "\<exists>c'. cyboudb_step c (Some k) = (c', ERROR) \<and> cyboudb_errcode c' = error_code e \<and> cyboudb_errmsg c' = ''ok''
    \<and> \<not> cn_tx c' \<and> (cn_rw c \<and> \<not> cn_failed c1 \<longrightarrow> cn_staged c' = cn_live c \<and> cn_live c' = cn_live c)
    \<and> (cn_failed c1 \<longrightarrow> cn_failed c' \<and> cn_staged c' = cn_staged c
        \<and> (cn_gens c' = cn_gens c \<or> cn_gens c' = cn_staged c # cn_gens c))"
proof -
  have ev: "cn_errmsg c1 = []" using assms(3)
    by (auto simp: db_commit_def next_event_def api_error_clear_def split: if_splits list.splits event.splits)
  define c2 where "c2 = fst (db_rollback (c1\<lparr>cn_tx := False\<rparr>))"
  have tx: "cn_tx (api_error_clear c)" using assms(2) by (simp add: api_error_clear_def)
  have "cyboudb_step c (Some k) = step_mutation_error c2 k (new_stmt P_commit) (error_code e) []"
    using assms(1,3) tx by (simp add: cyboudb_step_def Let_def step_commit_def new_stmt_def c2_def)
  moreover have "cn_errmsg c2 = []" "\<not> cn_tx c2" using ev by (auto simp: c2_def db_rollback_def)
  moreover have "cn_staged c2 = cn_live c \<and> cn_live c2 = cn_live c" if "cn_rw c" "\<not> cn_failed c1"
  proof -
    have "cn_gens c1 = cn_gens c" "cn_rw c1"
      using commit_failed [OF assms(3)] that by (auto simp: api_error_clear_def)
    then show ?thesis using that by (simp add: c2_def db_rollback_def cn_live_def)
  qed
  moreover have "cn_failed c2 \<and> cn_staged c2 = cn_staged c \<and> (cn_gens c2 = cn_gens c \<or> cn_gens c2 = cn_staged c # cn_gens c)"
    if "cn_failed c1"
    using commit_failed [OF assms(3)] that by (auto simp: c2_def db_rollback_def api_error_clear_def)
  ultimately show ?thesis
    by (auto simp: step_mutation_error_def api_error_report_def cyboudb_errcode_def cyboudb_errmsg_def str_ok_def cn_live_def)
qed

theorem failed_commit_says_ok_witness:
  "cyboudb_errmsg (fst (cyboudb_step (fst (cyboudb_prepare ((fresh [Fine, Storage_fails E_BITMAP []])\<lparr>cn_tx := True\<rparr>) ''COMMIT'')) (Some 0))) = ''ok''
   \<and> snd (cyboudb_step (fst (cyboudb_prepare ((fresh [Fine, Storage_fails E_BITMAP []])\<lparr>cn_tx := True\<rparr>) ''COMMIT'')) (Some 0)) = ERROR"
proof -
  let ?c = "fst (cyboudb_prepare ((fresh [Fine, Storage_fails E_BITMAP []])\<lparr>cn_tx := True\<rparr>) ''COMMIT'')"
  have "sql_parse (c_str ''COMMIT'') = Got Commit []" by code_simp
  then have c: "?c = (fresh [Storage_fails E_BITMAP []])\<lparr>cn_tx := True, cn_stmt_count := 1, cn_stmts := [0 \<mapsto> new_stmt P_commit], cn_next := 1\<rparr>"
    by (simp add: cyboudb_prepare_def fresh_def new_conn_def next_event_def compile_def add_stmt_def)
  have valid: "db_catalog_validate False []" by code_simp
  have "db_commit (api_error_clear ?c) = ((api_error_clear ?c)\<lparr>cn_events := []\<rparr>, Some E_BITMAP)"
    unfolding c by (simp add: db_commit_def api_error_clear_def next_event_def fresh_def new_conn_def U64_MAX_def OPEN_READWRITE_def valid)
  from failed_commit_says_ok [OF _ _ this, of 0] show ?thesis
    unfolding c by auto
qed

end
