(* ===== verification/Stale_Plans.thy ===== *)
theory Stale_Plans
  imports Connection_Progress Connection_Invariants Catalog_Laws
begin

text \<open>
  Plans that outlive the catalog they were made for.  The identifier of a new object is chosen when its
  \<open>CREATE\<close> is prepared; what a step does when another object has taken that identifier since.
\<close>

section \<open>Replacing an entry\<close>

lemma put_scan_None:
  "put_scan cat i n ob = None \<longleftrightarrow>
     (\<forall>(j, m, old) \<in> set cat. if j = i then is_schema ob \<and> root_word_zero old else m \<noteq> n)"
  by (induction cat i n ob rule: put_scan.induct) auto

lemma replaced_split:
  assumes "sorted_wrt (<) (map fst (cat :: catalog))" "(i, e) \<in> set cat"
  obtains xs ys where "cat = xs @ (i, e) # ys" "\<forall>x \<in> set xs. fst x < i" "\<forall>y \<in> set ys. i < fst y"
    "map (\<lambda>x. if fst x = i then (i, n, ob) else x) cat = xs @ (i, n, ob) # ys"
proof -
  obtain xs ys where cat: "cat = xs @ (i, e) # ys" using split_list [OF assms(2)] by blast
  have lt: "\<forall>x \<in> set xs. fst x < i" and gt: "\<forall>y \<in> set ys. i < fst y"
    using assms(1) by (auto simp: cat sorted_wrt_append)
  have "map (\<lambda>x. if fst x = i then (i, n, ob) else x) xs = xs" using lt by (intro map_idI) fastforce
  moreover have "map (\<lambda>x. if fst x = i then (i, n, ob) else x) ys = ys" using gt by (intro map_idI) fastforce
  ultimately show thesis by (intro that [OF cat lt gt]) (simp add: cat)
qed

lemma put_entry_replaces:
  assumes "sorted_wrt (<) (map fst cat)" "(i, e) \<in> set cat"
  shows "put_entry cat i n ob = map (\<lambda>x. if fst x = i then (i, n, ob) else x) cat"
proof -
  obtain xs ys where cat: "cat = xs @ (i, e) # ys" and lt: "\<forall>x \<in> set xs. fst x < i" and gt: "\<forall>y \<in> set ys. i < fst y"
    and new: "map (\<lambda>x. if fst x = i then (i, n, ob) else x) cat = xs @ (i, n, ob) # ys"
    by (rule replaced_split [OF assms])
  have "takeWhile (\<lambda>x. fst x < i) cat = xs" using lt by (simp add: cat takeWhile_append)
  moreover have "dropWhile (\<lambda>x. fst x \<le> i) ys = ys" using gt by (cases ys) auto
  then have "dropWhile (\<lambda>x. fst x \<le> i) cat = ys" using lt by (simp add: cat dropWhile_append less_imp_le)
  ultimately show ?thesis by (simp add: put_entry_def new)
qed

lemma validate_replaced:
  assumes "db_catalog_validate l cat" "(i, m, old) \<in> set cat" "n \<noteq> []" "object_valid l ob"
    and "\<forall>(j, m, old) \<in> set cat. m \<noteq> n"
  shows "db_catalog_validate l (map (\<lambda>x. if fst x = i then (i, n, ob) else x) cat)"
proof -
  have "sorted_wrt (<) (map fst cat)" using assms(1) by (simp add: db_catalog_validate_def)
  then obtain xs ys where cat: "cat = xs @ (i, m, old) # ys"
    and new: "map (\<lambda>x. if fst x = i then (i, n, ob) else x) cat = xs @ (i, n, ob) # ys"
    by (rule replaced_split [OF _ assms(2)])
  have "n \<notin> (fst \<circ> snd) ` set cat" using assms(5) by auto
  then show ?thesis
    using assms(1,3,4) unfolding new by (simp add: cat db_catalog_validate_def image_Un)
qed

text \<open>C35 A stale \<open>CREATE TABLE\<close> destroys a queue.  Take a connection on which nothing fails, with a prepared
  \<open>CREATE TABLE\<close> that was given the identifier \<open>i\<close> and has not been stepped, and let \<open>i\<close> be by now the
  identifier of a queue from which nothing has been taken, with any number of messages in it.  If the
  table's name is free, the step answers \<open>CybouDB_DONE\<close> and the table stands in the queue's place, the
  rest of the catalog unchanged; outside a transaction that is what is on the disk afterwards.\<close>

theorem stale_create_destroys_queue:
  assumes "cn_open c" "cn_rw c" "\<not> cn_failed c" "cn_events c = []" "cn_generation c \<noteq> U64_MAX"
    and "db_catalog_validate (cn_leases c) (cn_staged c)"
    and "cn_stmts c k = Some (new_stmt (P_create i n (Tab cols [])))"
    and "n \<noteq> []" "object_valid (cn_leases c) (Tab cols [])" "\<forall>(j, m, ob) \<in> set (cn_staged c). m \<noteq> n"
    and "(i, m, Que q) \<in> set (cn_staged c)" "q_head q = 0"
  shows "\<exists>c'. cyboudb_step c (Some k) = (c', DONE)
    \<and> cn_staged c' = map (\<lambda>x. if fst x = i then (i, n, Tab cols []) else x) (cn_staged c)
    \<and> (\<not> cn_tx c \<longrightarrow> cn_live c' = cn_staged c')"
proof -
  let ?pl = "P_create i n (Tab cols [])" and ?cat = "map (\<lambda>x. if fst x = i then (i, n, Tab cols []) else x) (cn_staged c)"
  have v: "stands c (view c)" "v_generation (view c) \<noteq> U64_MAX" "db_catalog_validate (v_leases (view c)) (v_staged (view c))"
    using assms(1-6) by (simp_all add: stands_def view_def)
  have "i \<in> fst ` set (cn_staged c)" using assms(11) by force
  then have sorted: "sorted_wrt (<) (map fst (cn_staged c))" "i \<noteq> 0"
    using assms(6) unfolding db_catalog_validate_def by (simp, metis list.set_map)
  have one: "map_of (cn_staged c) i = Some (m, Que q)"
    using ids_ok_entry [OF validate_ids [OF assms(6)] assms(11)] .
  have "put_scan (cn_staged c) i n (Tab cols []) = None"
    using assms(10,12) one ids_ok_entry [OF validate_ids [OF assms(6)]]
    by (auto simp: put_scan_None is_schema_def root_word_zero_def)
  then have "sql_execute_batch (v_leases (view c)) None True (now_of ?pl (view c)) (v_staged (view c)) ?pl = (?cat, A_done)"
    using assms(8) sorted one put_entry_replaces [OF sorted(1) assms(11)]
    by (simp add: view_def catalog_put_common_def storage_done_def)
  moreover have "db_catalog_validate (v_leases (view c)) ?cat"
    using validate_replaced [OF assms(6,11,8,9,10)] by (simp add: view_def)
  moreover have "simple_plan ?pl" by (simp add: simple_plan_def hands_message_def)
  ultimately obtain c' where "cyboudb_step c (Some k) = (c', DONE)" "stands c' (after (view c) ?pl ?cat)"
    using step_simple_view [OF v assms(7)] by blast
  then show ?thesis
    by (auto simp: stands_def after_def view_def split: if_splits)
qed

text \<open>A table is prepared on a new database; then a queue is created and a message committed to it.\<close>

definition stale_conn :: conn where
  "stale_conn =
    (let c1 = fst (cyboudb_prepare (fresh []) ''CREATE TABLE t (a INT64)'');
         c2 = fst (the (cyboudb_exec c1 ''CREATE QUEUE q''))
     in fst (the (cyboudb_exec c2 (''ENQUEUE INTO q VALUES ('' @ [quote] @ ''m'' @ [quote] @ '')''))))"

theorem stale_create_destroys_queue_witness:
  "map (\<lambda>(i, n, ob). (i, n)) (cn_live stale_conn) = [(1, ''q'')]
   \<and> (\<exists>c'. cyboudb_step stale_conn (Some 0) = (c', DONE) \<and> map (\<lambda>(i, n, ob). (i, n)) (cn_live c') = [(1, ''t'')])"
proof -
  define cols where "cols = [\<lparr>cd_name = ''a'', cd_type = INT64, cd_nullable = True\<rparr>]"
  have c: "cn_open stale_conn" "cn_rw stale_conn" "\<not> cn_failed stale_conn" "cn_events stale_conn = []"
    "cn_generation stale_conn \<noteq> U64_MAX" "db_catalog_validate (cn_leases stale_conn) (cn_staged stale_conn)"
    "\<not> cn_tx stale_conn"
    by code_simp+
  have st: "cn_stmts stale_conn 0 = Some (new_stmt (P_create 1 ''t'' (Tab cols [])))" unfolding cols_def by code_simp
  have ok: "object_valid (cn_leases stale_conn) (Tab cols [])" unfolding cols_def by code_simp
  define q where "q = fst (db_queue_push new_queue ''m'')"
  have staged: "cn_staged stale_conn = [(1, ''q'', Que q)]" unfolding q_def by code_simp
  have q: "(1, ''q'', Que q) \<in> set (cn_staged stale_conn)" "q_head q = 0" "''t'' \<noteq> []"
    "\<forall>(j, m, ob) \<in> set (cn_staged stale_conn). m \<noteq> ''t''" by (simp_all add: staged) (simp add: q_def, code_simp)
  have live: "map (\<lambda>(i, n, ob). (i, n)) (cn_live stale_conn) = [(1, ''q'')]" by code_simp
  from stale_create_destroys_queue [OF c(1-6) st q(3) ok q(4,1,2)] c(7) live show ?thesis
    by (auto simp: staged)
qed

end
