(* ===== verification/Row_Types.thy ===== *)
theory Row_Types
  imports Catalog_Laws
begin

text \<open>
  The types of the rows a table is given: what the binder hands to storage fits the columns, so the
  executor never meets a row that does not.
\<close>

lemma bind_cell_fits: "bind_cell d l = Bound c \<Longrightarrow> cell_fits d c"
  by (cases l; cases "cd_type d") (auto simp: bind_cell_def cell_fits_def type_mismatch_def split: if_splits)

lemma bind_row_fits: "bind_row ds ls = Bound cs \<Longrightarrow> list_all2 cell_fits ds cs"
proof (induction ds ls arbitrary: cs rule: bind_row.induct)
  case (3 d ds l ls)
  then obtain c cs' where "bind_cell d l = Bound c" "bind_row ds ls = Bound cs'" "cs = c # cs'"
    by (auto simp: bbind_def split: bres.splits)
  then show ?case using bind_cell_fits "3.IH" by simp
qed simp_all

lemma bind_rows_fit: "bind_rows ds rs = Bound cells \<Longrightarrow> list_all (list_all2 cell_fits ds) cells"
proof (induction ds rs arbitrary: cells rule: bind_rows.induct)
  case (2 ds r rs)
  then obtain c cs where "bind_row ds r = Bound c" "bind_rows ds rs = Bound cs" "cells = c # cs"
    by (auto simp: bbind_def split: bres.splits)
  then show ?case using bind_row_fits "2.IH" by simp
qed simp

text \<open>C31 The binder types rows.  An \<open>INSERT\<close> it accepts is for a table of the catalog, and every row it
  hands to storage has one cell for each column, of the column's type and range, with a null only
  where the column allows one; on a valid database that accepts changes the executor therefore appends
  exactly those rows to exactly that table.\<close>

theorem bound_rows_fit:
  assumes "ids_ok cat" and "bind_insert cat n rows = Bound pl"
  shows "\<exists>i cols old cells. pl = P_insert i cells \<and> catalog_find_object cat n = Some (i, Tab cols old)
    \<and> length cells = length rows \<and> list_all (list_all2 cell_fits cols) cells
    \<and> sql_execute_batch l None True now cat pl = (cat_set cat i (Tab cols (old @ cells)), A_done)"
proof -
  obtain i cols cells where tab: "catalog_find_table cat n = Some (i, cols)" and rows: "bind_rows cols rows = Bound cells"
    and pl: "pl = P_insert i cells"
    using assms(2) by (auto simp: bind_insert_def bbind_def split: option.splits bres.splits if_splits)
  obtain old where ob: "catalog_find_object cat n = Some (i, Tab cols old)"
    using tab by (auto simp: catalog_find_table_def split: option.splits dobj.splits)
  have len: "length cells = length rows" using rows
    by (induction cols rows arbitrary: cells rule: bind_rows.induct) (auto simp: bbind_def split: bres.splits)
  show ?thesis
    using pl ob len bind_rows_fit [OF rows] dir.find_page [OF assms(1) ob] by (auto simp: exec_insert_def)
qed

theorem bound_rows_fit_witness:
  "\<exists>cells. bind_insert [(1, ''t'', Tab [\<lparr>cd_name = ''a'', cd_type = INT32, cd_nullable = False\<rparr>] [])] ''T'' [[L_int 7], [L_int (- 1)]]
      = Bound (P_insert 1 cells) \<and> length cells = 2
    \<and> list_all (list_all2 cell_fits [\<lparr>cd_name = ''a'', cd_type = INT32, cd_nullable = False\<rparr>]) cells"
proof -
  let ?cat = "[(1, ''t'', Tab [\<lparr>cd_name = ''a'', cd_type = INT32, cd_nullable = False\<rparr>] [])]"
  have b: "bind_insert ?cat ''T'' [[L_int 7], [L_int (- 1)]] = Bound (P_insert 1 [[C_int 7], [C_int (- 1)]])" by code_simp
  have ids: "ids_ok ?cat" and f: "catalog_find_object ?cat ''T'' = Some (1, Tab [\<lparr>cd_name = ''a'', cd_type = INT32, cd_nullable = False\<rparr>] [])"
    by code_simp+
  from bound_rows_fit [OF ids b] show ?thesis using b f by auto
qed

end
