(* ===== verification/Sql_Tokens.thy ===== *)
theory Sql_Tokens
  imports Sql_Text_Laws
begin

text \<open>
  The tokenizer always gets on: a token that is not the end of the text leaves a shorter text.  The
  tokens of a text are therefore a finite list, and a loop that waits for one of them ends when the
  token is in the list and only then.
\<close>

lemma skip_ws_length: "length (skip_ws s) \<le> length s"
proof (induction s rule: skip_ws.induct)
  case (2 c cs)
  have "length (comment_loop (tl cs)) \<le> length cs"
    unfolding comment_loop_def by (rule order_trans [OF length_dropWhile_le]) simp
  with "2.IH" show ?case by auto
qed simp

lemma str_loop_length: "str_loop s = Some (b, r) \<Longrightarrow> length r \<le> length s"
proof (induction s arbitrary: b r rule: str_loop.induct)
  case (2 c cs)
  show ?case
  proof (cases "c = quote")
    case True
    then show ?thesis using "2.prems" "2.IH"(2) by (cases cs) (fastforce split: if_splits)+
  next
    case False
    then show ?thesis using "2.prems" "2.IH"(1) by fastforce
  qed
qed simp

definition shrinks :: "string \<Rightarrow> token \<times> string \<Rightarrow> bool" where
  "shrinks s p \<longleftrightarrow> length (snd p) \<le> length s"

lemma shrinks_if: "(b \<Longrightarrow> shrinks s x) \<Longrightarrow> (\<not> b \<Longrightarrow> shrinks s y) \<Longrightarrow> shrinks s (if b then x else y)"
  by simp

lemma shrinks_pair: "shrinks s (t, s)" "shrinks s (t, tl s)" "shrinks s (t, dropWhile P s)" "shrinks (c # s) (t, dropWhile P s)"
  using length_dropWhile_le [of P s] by (simp_all add: shrinks_def)

lemma shrinks_trans: "shrinks s (t, r) \<Longrightarrow> shrinks r p \<Longrightarrow> shrinks s p"
  by (simp add: shrinks_def)

lemma lex_string_shrinks: "shrinks s (lex_string lit s)" "shrinks s (lex_string lit (tl s))"
proof -
  show all: "shrinks s (lex_string lit s)" for s
    using str_loop_length [of s] by (auto simp: shrinks_def lex_string_def split: option.splits)
  show "shrinks s (lex_string lit (tl s))" by (rule shrinks_trans [OF shrinks_pair(2) all])
qed

lemma lex_ident_shrinks: "is_alpha c \<Longrightarrow> shrinks cs (lex_ident (c # cs))"
  by (auto simp: lex_ident_def Let_def ident_char_def shrinks_pair split: option.splits)

lemma lex_number_shrinks:
  assumes "is_digit c"
  shows "shrinks cs (lex_number (c # cs))"
proof -
  define ds where "ds = dropWhile is_digit (c # cs)"
  have ds: "shrinks cs (t, ds)" for t using assms shrinks_pair(3) [of cs t] by (simp add: ds_def)
  have "shrinks ds (lex_number (c # cs))"
    unfolding lex_number_def Let_def ds_def [symmetric]
    by (cases ds; cases "tl ds") (auto simp: shrinks_pair simp del: dropWhile.simps split: list.splits intro: shrinks_if)
  then show ?thesis by (rule shrinks_trans [OF ds])
qed

lemma lex_lt_shrinks: "shrinks cs (lex_lt cs)"
  by (simp add: shrinks_def lex_lt_def split: list.splits)

lemma start_token_shrinks: "shrinks cs (start_token c cs)"
  unfolding start_token_def
  by (intro shrinks_if)
     (simp_all add: shrinks_pair lex_string_shrinks lex_ident_shrinks lex_number_shrinks lex_lt_shrinks)

lemma not_eof:
  "fst (lex_string T_blob s) \<noteq> T_eof" "fst (lex_string T_string s) \<noteq> T_eof" "fst (lex_ident s) \<noteq> T_eof"
  "fst (lex_number s) \<noteq> T_eof" "fst (lex_lt s) \<noteq> T_eof"
  by (simp_all add: lex_string_def lex_ident_def lex_number_def lex_lt_def Let_def split: option.splits list.splits)

lemma start_token_not_eof: "fst (start_token c cs) \<noteq> T_eof"
  by (simp add: start_token_def not_eof)

lemma tok_next_length:
  assumes "sql_tok_next s = (t, r)" and "t \<noteq> T_eof"
  shows "length r < length s"
proof (cases "skip_ws s")
  case Nil
  then show ?thesis using assms by (simp add: sql_tok_next_def)
next
  case (Cons c cs)
  then have "start_token c cs = (t, r)" using assms(1) by (simp add: sql_tok_next_def)
  then show ?thesis using start_token_shrinks [of cs c] skip_ws_length [of s] Cons by (simp add: shrinks_def)
qed

lemma tok_next_eof: "sql_tok_next s = (T_eof, r) \<Longrightarrow> r = []"
proof (cases "skip_ws s")
  case (Cons c cs)
  then show "sql_tok_next s = (T_eof, r) \<Longrightarrow> r = []" using start_token_not_eof [of c cs] by (simp add: sql_tok_next_def)
qed (simp add: sql_tok_next_def)

lemma tok_next_end [simp]: "sql_tok_next [] = (T_eof, [])"
  by (simp add: sql_tok_next_def)

function tokens :: "string \<Rightarrow> token list" where
  "tokens s = (case sql_tok_next s of (t, r) \<Rightarrow> if t = T_eof then [] else t # tokens r)"
  by pat_completeness auto
termination
  by (relation "measure length") (auto intro: tok_next_length [OF sym])

declare tokens.simps [simp del]

text \<open>The loop over the column list, with and without the token it waits for.\<close>

lemma skip_finds: "T_punct '')'' \<in> set (tokens s) \<Longrightarrow> \<exists>r. insert_skip_cols s = Some r"
proof (induction s rule: tokens.induct)
  case (1 s)
  obtain t r where tok: "sql_tok_next s = (t, r)" by fastforce
  show ?case
  proof (cases "t = T_punct '')''")
    case True
    then show ?thesis using tok by (subst insert_skip_cols.simps) simp
  next
    case False
    moreover have "t \<noteq> T_eof" using "1.prems" tok by (auto simp: tokens.simps [of s])
    moreover have "T_punct '')'' \<in> set (tokens r)" using "1.prems" tok False \<open>t \<noteq> T_eof\<close> by (auto simp: tokens.simps [of s])
    ultimately have "\<exists>r'. insert_skip_cols r = Some r'" using "1.IH" [OF tok [symmetric]] by simp
    then show ?thesis using tok False by (subst insert_skip_cols.simps) simp
  qed
qed

lemma skip_needs:
  assumes "insert_skip_cols s = Some r"
  shows "T_punct '')'' \<in> set (tokens s)"
  using assms
proof (rule insert_skip_cols.raw_induct [where P = "\<lambda>s r. T_punct '')'' \<in> set (tokens s)", rotated])
  fix f s r
  assume IH: "\<And>s r. f s = Some r \<Longrightarrow> T_punct '')'' \<in> set (tokens s)"
    and body: "(case sql_tok_next s of (t, r) \<Rightarrow> if t = T_punct '')'' then Some r else f r) = Some r"
  obtain t r' where tok: "sql_tok_next s = (t, r')" by fastforce
  have "t = T_punct '')'' \<or> T_punct '')'' \<in> set (tokens r')" using body tok IH by (auto split: if_splits)
  moreover have "tokens [] = []" by (simp add: tokens.simps)
  ultimately show "T_punct '')'' \<in> set (tokens s)"
    using tok tok_next_eof [of s r'] by (cases "t = T_eof") (auto simp: tokens.simps [of s])
qed

text \<open>Nothing else in the statement hangs.\<close>

lemma pbind_hangs: "pbind m f = Hangs \<longleftrightarrow> m = Hangs \<or> (\<exists>x r. m = Got x r \<and> f x r = Hangs)"
  by (cases m) (simp_all add: pbind_def)

lemma piece_returns:
  "p_tok msg t s \<noteq> Hangs" "parse_primary s \<noteq> Hangs" "check_eof a s \<noteq> Hangs"
  by (auto simp: p_tok_def parse_primary_def p_number_def check_eof_def Let_def
      split: prod.splits token.splits option.splits if_splits)

lemma val_loop_returns: "val_loop n s \<noteq> Hangs"
  by (induction n arbitrary: s) (auto simp: pbind_hangs piece_returns split: prod.splits if_splits)

lemma row_loop_returns: "row_loop n s \<noteq> Hangs"
  by (induction n arbitrary: s) (auto simp: pbind_hangs piece_returns val_loop_returns split: prod.splits if_splits)

text \<open>C33 The column list of an \<open>INSERT\<close>.  The parser gets past \<open>INSERT INTO results (\<close> exactly when a closing
  parenthesis is among the tokens that follow; when none is, however the text goes on and ends,
  \<open>cyboudb_prepare\<close> does not return.\<close>

theorem unclosed_column_list_hangs:
  "sql_parse (''INSERT INTO results ('' @ s) = Hangs \<longleftrightarrow> T_punct '')'' \<notin> set (tokens s)"
proof -
  have k: "sql_tok_next (''INSERT INTO results ('' @ s) = (T_kw ''insert'', '' INTO results ('' @ s)"
    "sql_tok_next ('' INTO results ('' @ s) = (T_kw ''into'', '' results ('' @ s)"
    "sql_tok_next ('' results ('' @ s) = (T_ident ''results'', '' ('' @ s)"
    "sql_tok_next ('' ('' @ s) = (T_punct ''('', s)" by code_simp+
  note k = this [unfolded append.simps]
  have start: "sql_parse (''INSERT INTO results ('' @ s) = (case insert_skip_cols s of None \<Rightarrow> Hangs
      | Some r \<Rightarrow> pbind (pbind (p_tok ''expected VALUES keyword'' (T_kw ''values'') r) (\<lambda>_ r6.
          pbind (row_loop 256 r6) (\<lambda>rows r7. Got (Insert ''results'' rows) r7))) check_eof)"
    by (simp add: sql_parse_def parse_statement_def parse_insert_def p_name_def pbind_def k p_tok_def split: option.splits)
  have rest: "pbind (pbind (p_tok ''expected VALUES keyword'' (T_kw ''values'') r) (\<lambda>_ r6.
          pbind (row_loop 256 r6) (\<lambda>rows r7. Got (Insert ''results'' rows) r7))) check_eof \<noteq> Hangs" for r
    by (auto simp: pbind_hangs piece_returns row_loop_returns)
  show ?thesis
  proof (cases "insert_skip_cols s")
    case None
    then show ?thesis using start skip_finds by fastforce
  next
    case (Some r)
    then show ?thesis using start rest skip_needs by simp
  qed
qed

end
