(* ===== verification/Queue_Limits.thy ===== *)
theory Queue_Limits
  imports Catalog_Laws Lease_Valid
begin

text \<open>
  What a message may be and still come out.  A queue takes messages of up to \<open>2 ^ 32 - 1\<close> bytes; a
  message is handed out through the statement's arena, which holds 34264.
\<close>

section \<open>Enqueues as appends to the list of messages\<close>

text \<open>A queue of the right shape whose directory is not too long.\<close>

definition queue_fits :: "queue \<Rightarrow> bool" where
  "queue_fits q \<longleftrightarrow> queue_shape q \<and> length (q_entries q) \<le> 495"

lemma fits_segments: "queue_fits q \<Longrightarrow> db_queue_segments_valid True q"
  by (auto simp: queue_fits_def queue_shape_def db_queue_segments_valid_def)

lemma messages_look: "queue_shape q \<Longrightarrow> messages q = map (\<lambda>p. sl_payload (the (look q p))) [q_head q ..< q_tail q]"
  by (simp add: messages_def find_slot_live live_def)

lemma push_messages:
  assumes "queue_fits q" "db_queue_push q b = (q', None)"
  shows "queue_fits q'" "messages q' = messages q @ [b]"
proof -
  have shape: "queue_shape q" using assms(1) by (simp add: queue_fits_def)
  then have ht: "q_head q \<le> q_tail q" by (simp add: queue_shape_def)
  note law = push_law [OF shape assms(2)]
  show "queue_fits q'" using law(1) push_fields(3) [OF shape assms(2)] assms(1) by (simp add: queue_fits_def)
  show "messages q' = messages q @ [b]"
    using shape ht law by (simp add: messages_look enqueued_def)
qed

lemma push_accepted:
  assumes "queue_shape q" "length (q_entries q) < 495" "length b < 2 ^ 32"
  shows "snd (db_queue_push q b) = None"
proof -
  have "q_first_seg q \<le> q_tail q div 62" if "q_entries q \<noteq> []"
    using assms(1) by (metis div_le_mono queue_shape_def)
  moreover have "q_tail q div 62 - q_first_seg q \<le> length (q_entries q)" if "q_entries q \<noteq> []"
  proof -
    have "(q_tail q - 1) div 62 + 1 = q_first_seg q + length (q_entries q)"
      using assms(1) that by (auto simp: queue_shape_def split: if_splits)
    then show ?thesis by linarith
  qed
  ultimately show ?thesis using assms(2,3) by (auto simp: db_queue_push_def Let_def)
qed

lemma fill_messages: "queue_fits q \<Longrightarrow> queue_fits (fill q bs) \<and> (\<exists>later. messages (fill q bs) = messages q @ later)"
proof (induction bs arbitrary: q)
  case (Cons b bs)
  obtain q1 r where push: "db_queue_push q b = (q1, r)" by fastforce
  have "queue_fits q1 \<and> (\<exists>l. messages q1 = messages q @ l)"
    using push_messages [of q b q1] push_refused [of q b q1] push Cons.prems by (cases r) auto
  then show ?case using Cons.IH [of q1] push by fastforce
qed simp

section \<open>Dequeues\<close>

fun dequeues :: "nat \<Rightarrow> catalog \<Rightarrow> nat \<Rightarrow> answer list" where
  "dequeues 0 cat i = []"
| "dequeues (Suc n) cat i = (case exec_dequeue None cat i of (cat', a) \<Rightarrow> a # dequeues n cat' i)"

lemma page_set: "db_catalog_page cat i = Some old \<Longrightarrow> db_catalog_page (cat_set cat i ob) i = Some ob"
  by (induction cat) (auto simp: db_catalog_page_def cat_set_def split: if_splits)

lemma messages_ConsD:
  assumes "messages q = m # ms"
  shows "db_queue_peek q = Inr (length m)" "q_head q < q_tail q"
proof -
  show lt: "q_head q < q_tail q" using assms by (auto simp: messages_def intro: ccontr)
  show "db_queue_peek q = Inr (length m)" using assms lt by (simp add: messages_def upt_conv_Cons db_queue_peek_def)
qed

lemma dequeues_blocked:
  assumes "db_catalog_page cat i = Some (Que q)" "messages q = b # ms" "\<not> arena_holds (length b)"
  shows "dequeues k cat i = replicate k (A_fail SQL_ERR_NO_STORAGE ''memory arena capacity exceeded'')"
  by (induction k) (simp_all add: exec_dequeue_def assms messages_ConsD(1) [OF assms(2)])

lemma dequeues_until:
  assumes "queue_fits q" "db_catalog_page cat i = Some (Que q)" "messages q = ms @ b # later"
    and "\<forall>m \<in> set ms. arena_holds (length m)" "\<not> arena_holds (length b)"
  shows "dequeues (length ms + k) cat i
    = map (\<lambda>m. A_took m None) ms @ replicate k (A_fail SQL_ERR_NO_STORAGE ''memory arena capacity exceeded'')"
  using assms
proof (induction ms arbitrary: q cat)
  case Nil
  then show ?case using dequeues_blocked by simp
next
  case (Cons m ms)
  have seg: "db_queue_segments_valid True q" by (rule fits_segments [OF Cons.prems(1)])
  have msgs: "messages q = m # (ms @ b # later)" using Cons.prems(3) by simp
  obtain q' where pop: "db_queue_pop q = (q', Inr m)" by (rule pop_head [OF seg msgs])
  have q': "q' = db_catalog_seal ((move_head q (q_head q + 1))\<lparr>q_claim := q_head q + 1\<rparr>)"
    using pop by (auto simp: db_queue_pop_def split: if_splits option.splits)
  have "queue_shape (move_head q (q_head q + 1))"
    using Cons.prems(1) messages_ConsD(2) [OF msgs] by (intro shape_move_head) (auto simp: queue_fits_def)
  then have "queue_fits q'" using Cons.prems(1)
    by (auto simp: queue_fits_def q' db_catalog_seal_def queue_shape_def move_head_def)
  moreover have "messages q' = ms @ b # later" using pop_messages(1) [OF seg pop] msgs by simp
  ultimately have "dequeues (length ms + k) (cat_set cat i (Que q')) i
      = map (\<lambda>m. A_took m None) ms @ replicate k (A_fail SQL_ERR_NO_STORAGE ''memory arena capacity exceeded'')"
    using Cons.prems by (intro Cons.IH [OF _ page_set]) auto
  moreover have "exec_dequeue None cat i = (cat_set cat i (Que q'), A_took m None)"
    using Cons.prems(2,4) messages_ConsD(1) [OF msgs] pop by (simp add: exec_dequeue_def)
  ultimately show ?case by simp
qed

text \<open>C34 A message that is too long blocks its queue.  A queue with room and any number of messages of at most
  34264 bytes accepts a longer one, up to \<open>2 ^ 32 - 1\<close> bytes.  Whatever is enqueued behind it, dequeues then hand out the
  messages that were before it, in order, and from the moment it is at the head every further \<open>DEQUEUE\<close>
  fails with "memory arena capacity exceeded".\<close>

theorem long_message_blocks_queue:
  assumes "queue_shape q" "length (q_entries q) < 495" "\<forall>m \<in> set (messages q). length m \<le> 34264"
    and "34264 < length b" "length b < 2 ^ 32"
    and "db_catalog_page cat i = Some (Que (fill (fst (db_queue_push q b)) later))"
  shows "snd (db_queue_push q b) = None
    \<and> dequeues (length (messages q) + k) cat i
      = map (\<lambda>m. A_took m None) (messages q)
        @ replicate k (A_fail SQL_ERR_NO_STORAGE ''memory arena capacity exceeded'')"
proof -
  have ok: "snd (db_queue_push q b) = None" by (rule push_accepted [OF assms(1,2,5)])
  have "queue_fits q" using assms(1,2) by (simp add: queue_fits_def)
  moreover have "db_queue_push q b = (fst (db_queue_push q b), None)" using ok by (simp add: prod_eq_iff)
  ultimately have push: "queue_fits (fst (db_queue_push q b))" "messages (fst (db_queue_push q b)) = messages q @ [b]"
    by (rule push_messages)+
  obtain rest where msgs: "messages (fill (fst (db_queue_push q b)) later) = messages q @ b # rest"
    using fill_messages [OF push(1), of later] push(2) by auto
  have "\<forall>m \<in> set (messages q). arena_holds (length m)" "\<not> arena_holds (length b)"
    using assms(3,4) by (auto simp: arena_holds_def EXEC_ARENA_def)
  then show ?thesis
    using dequeues_until [OF _ assms(6) msgs] fill_messages [OF push(1)] ok by blast
qed

theorem long_message_blocks_queue_witness:
  "dequeues 3 [(1, ''q'', Que (fst (db_queue_push (fill new_queue [''a'']) (replicate 40000 CHR ''b''))))] 1
    = [A_took ''a'' None, A_fail SQL_ERR_NO_STORAGE ''memory arena capacity exceeded'',
       A_fail SQL_ERR_NO_STORAGE ''memory arena capacity exceeded'']"
proof -
  let ?q = "fill new_queue [''a'']" and ?b = "replicate 40000 CHR ''b''"
  have shape: "queue_shape ?q" using unclaimed_fill [OF unclaimed_new] unfolding unclaimed_def by blast
  have q: "length (q_entries ?q) < 495" "messages ?q = [''a'']" by code_simp+
  have page: "db_catalog_page [(1, ''q'', Que (fst (db_queue_push ?q ?b)))] 1 = Some (Que (fill (fst (db_queue_push ?q ?b)) []))"
    by (simp add: db_catalog_page_def)
  have b: "34264 < length ?b" "length ?b < 2 ^ 32" "\<forall>m \<in> set (messages ?q). length m \<le> 34264" by (simp_all add: q(2) del: fill.simps)
  from long_message_blocks_queue [OF shape q(1) b(3,1,2) page, of 2] show ?thesis
    unfolding q(2) by (simp add: numeral_3_eq_3 numeral_2_eq_2 del: dequeues.simps fill.simps)
qed

end
