(* ===== verification/Float32.thy ===== *)
theory Float32
  imports Api_Header
begin

text \<open>
  The single-precision arithmetic the vector kernels are written in: what \<open>mulss\<close>, \<open>addss\<close>,
  \<open>subss\<close>, \<open>divss\<close>, \<open>sqrtss\<close> and \<open>ucomiss\<close> (and, lane by lane, their packed forms) compute on the
  32-bit patterns, rounding to nearest even with subnormal numbers kept, as the processor does in
  the mode every process starts in.  Every finite number is an integral multiple of the smallest
  subnormal, so the model works with exact integers counted in that unit and rounds once;
  \<open>f32_round_nearest\<close> shows that no number of the format is nearer than the rounded one.
  A result that is not a number is the pattern the processor delivers: the first operand that is not
  a number, quieted, or the default pattern.
\<close>

type_synonym f32 = u32

named_theorems f32_ops \<open>the definitions of the arithmetic operations\<close>

section \<open>Bit patterns\<close>

definition f32_neg :: "f32 \<Rightarrow> bool" where
  "f32_neg w = (2 ^ 31 \<le> unat w)"

definition f32_bits :: "f32 \<Rightarrow> nat" where
  "f32_bits w = unat w mod 2 ^ 31"

definition f32_nan :: "f32 \<Rightarrow> bool" where
  "f32_nan w = (0x7f800000 < f32_bits w)"

definition f32_infinite :: "f32 \<Rightarrow> bool" where
  "f32_infinite w = (f32_bits w = 0x7f800000)"

definition f32_finite :: "f32 \<Rightarrow> bool" where
  "f32_finite w = (f32_bits w < 0x7f800000)"

definition f32_make :: "bool \<Rightarrow> nat \<Rightarrow> f32" where
  "f32_make neg b = word_of_nat ((if neg then 2 ^ 31 else 0) + b)"

definition f32_default_nan :: f32 where
  "f32_default_nan = 0xffc00000"

definition f32_quiet :: "f32 \<Rightarrow> f32" where
  "f32_quiet w = w OR 0x00400000"

text \<open>The magnitude of a pattern without its sign, in units of the smallest subnormal; the pattern
  of infinity gets the next power of two, so that comparing magnitudes is right for it too.\<close>

definition f32_mag :: "nat \<Rightarrow> nat" where
  "f32_mag b = (let e = b div 2 ^ 23; f = b mod 2 ^ 23 in
     if e = 0 then f else (2 ^ 23 + f) * 2 ^ (e - 1))"

definition f32_units :: "f32 \<Rightarrow> int" where
  "f32_units w = (if f32_neg w then - int (f32_mag (f32_bits w)) else int (f32_mag (f32_bits w)))"

section \<open>Rounding\<close>

fun bit_length :: "nat \<Rightarrow> nat" where
  "bit_length n = (if n = 0 then 0 else Suc (bit_length (n div 2)))"

declare bit_length.simps [simp del]

definition round_even :: "nat \<Rightarrow> nat \<Rightarrow> nat" where
  "round_even n d = (let q = n div d; r = n mod d in
     if d < 2 * r \<or> 2 * r = d \<and> odd q then q + 1 else q)"

text \<open>The pattern nearest to \<open>n / d\<close> units; its exponent may exceed what a single can hold.\<close>

definition f32_round :: "nat \<Rightarrow> nat \<Rightarrow> nat" where
  "f32_round n d = (let k = bit_length (n div d) - 24 in k * 2 ^ 23 + round_even n (d * 2 ^ k))"

definition f32_result :: "bool \<Rightarrow> nat \<Rightarrow> nat \<Rightarrow> f32" where
  "f32_result neg n d = f32_make neg (min (f32_round n d) 0x7f800000)"

fun isqrt :: "nat \<Rightarrow> nat" where
  "isqrt n = (if n = 0 then 0 else
     let r = 2 * isqrt (n div 4) in if (r + 1) * (r + 1) \<le> n then r + 1 else r)"

declare isqrt.simps [simp del]

section \<open>Operations\<close>

definition mulss :: "f32 \<Rightarrow> f32 \<Rightarrow> f32" where
  "mulss a b = (let neg = (f32_neg a \<noteq> f32_neg b) in
     if f32_nan a then f32_quiet a else if f32_nan b then f32_quiet b
     else if f32_infinite a \<or> f32_infinite b
       then (if f32_bits a = 0 \<or> f32_bits b = 0 then f32_default_nan else f32_make neg 0x7f800000)
     else f32_result neg (f32_mag (f32_bits a) * f32_mag (f32_bits b)) (2 ^ 149))"

definition f32_sum :: "f32 \<Rightarrow> f32 \<Rightarrow> f32" where
  "f32_sum a b =
    (if f32_infinite a then (if f32_infinite b \<and> f32_neg a \<noteq> f32_neg b then f32_default_nan else a)
     else if f32_infinite b then b
     else let s = f32_units a + f32_units b in
       if s = 0 then f32_make (f32_neg a \<and> f32_neg b) 0 else f32_result (s < 0) (nat \<bar>s\<bar>) 1)"

definition addss :: "f32 \<Rightarrow> f32 \<Rightarrow> f32" where
  "addss a b = (if f32_nan a then f32_quiet a else if f32_nan b then f32_quiet b else f32_sum a b)"

definition subss :: "f32 \<Rightarrow> f32 \<Rightarrow> f32" where
  "subss a b = (if f32_nan a then f32_quiet a else if f32_nan b then f32_quiet b
     else f32_sum a (b XOR 0x80000000))"

definition divss :: "f32 \<Rightarrow> f32 \<Rightarrow> f32" where
  "divss a b = (let neg = (f32_neg a \<noteq> f32_neg b) in
     if f32_nan a then f32_quiet a else if f32_nan b then f32_quiet b
     else if f32_infinite a
       then (if f32_infinite b then f32_default_nan else f32_make neg 0x7f800000)
     else if f32_infinite b then f32_make neg 0
     else if f32_bits b = 0
       then (if f32_bits a = 0 then f32_default_nan else f32_make neg 0x7f800000)
     else f32_result neg (f32_mag (f32_bits a) * 2 ^ 149) (f32_mag (f32_bits b)))"

text \<open>The square root of \<open>m\<close> units is \<open>sqrt (m * 2 ^ 149)\<close> units; one more bit tells an exact root
  from one strictly between two integers, which is all the rounding asks for.\<close>

definition sqrtss :: "f32 \<Rightarrow> f32" where
  "sqrtss a =
    (if f32_nan a then f32_quiet a else if f32_bits a = 0 then a else if f32_neg a then f32_default_nan
     else if f32_infinite a then a
     else let m = f32_mag (f32_bits a) * 2 ^ 149; s = isqrt m in
       f32_result False (2 * s + (if s * s = m then 0 else 1)) 2)"

text \<open>\<open>ucomiss\<close> sets the carry flag when the first operand is less or the operands do not compare,
  the zero flag when they are equal or do not compare, and the parity flag when they do not compare;
  \<open>ja\<close> jumps with both of the first two clear, \<open>jb\<close> with the carry flag set, \<open>jp\<close> with parity.\<close>

definition ucomiss_jp :: "f32 \<Rightarrow> f32 \<Rightarrow> bool" where
  "ucomiss_jp a b = (f32_nan a \<or> f32_nan b)"

definition ucomiss_ja :: "f32 \<Rightarrow> f32 \<Rightarrow> bool" where
  "ucomiss_ja a b = (\<not> ucomiss_jp a b \<and> f32_units b < f32_units a)"

definition ucomiss_jb :: "f32 \<Rightarrow> f32 \<Rightarrow> bool" where
  "ucomiss_jb a b = (ucomiss_jp a b \<or> f32_units a < f32_units b)"

lemmas [f32_ops] = mulss_def f32_sum_def addss_def subss_def divss_def sqrtss_def

text \<open>The test every entry point makes of a number it reads: \<open>ucomiss x, x\<close> and \<open>jp\<close>, then the
  exponent bits against \<open>0x7f800000\<close>.\<close>

definition nonfinite_test :: "f32 \<Rightarrow> bool" where
  "nonfinite_test w = (ucomiss_jp w w \<or> w AND 0x7f800000 = 0x7f800000)"

section \<open>The rounding is the one of the standard\<close>

lemma bit_length_0 [simp]: "bit_length 0 = 0"
  by (simp add: bit_length.simps)

lemma bit_length_upper: "n < 2 ^ bit_length n"
proof (induction n rule: bit_length.induct)
  case (1 n)
  show ?case
  proof (cases "n = 0")
    case False
    with 1 have "n div 2 < 2 ^ bit_length (n div 2)" by simp
    then have "n < 2 * 2 ^ bit_length (n div 2)" by linarith
    with False show ?thesis by (subst bit_length.simps) simp
  qed simp
qed

lemma bit_length_lower: "n \<noteq> 0 \<Longrightarrow> 2 ^ (bit_length n - 1) \<le> n"
proof (induction n rule: bit_length.induct)
  case (1 n)
  show ?case
  proof (cases "n div 2 = 0")
    case True
    with 1 show ?thesis by (subst bit_length.simps) simp
  next
    case False
    with 1 have "2 ^ (bit_length (n div 2) - 1) \<le> n div 2" by simp
    moreover obtain b where b: "bit_length (n div 2) = Suc b"
      using False by (subst (asm) bit_length.simps) (auto simp: bit_length.simps)
    ultimately have "2 * 2 ^ b \<le> n" by simp
    with b 1(2) show ?thesis by (subst bit_length.simps) simp
  qed
qed

lemma bit_length_eqI: "2 ^ b \<le> n \<Longrightarrow> n < 2 ^ Suc b \<Longrightarrow> bit_length n = Suc b"
proof -
  assume lo: "2 ^ b \<le> n" and hi: "n < 2 ^ Suc b"
  then have "n \<noteq> 0" by (metis not_le zero_less_numeral zero_less_power)
  then have "bit_length n \<noteq> 0" by (subst bit_length.simps) simp
  have "(2::nat) ^ b < 2 ^ bit_length n" using lo bit_length_upper [of n] by linarith
  then have "b < bit_length n" by simp
  moreover have "(2::nat) ^ (bit_length n - 1) < 2 ^ Suc b"
    using hi bit_length_lower [OF \<open>n \<noteq> 0\<close>] by linarith
  then have "bit_length n - 1 < Suc b" by (rule power_less_imp_less_exp [rotated]) simp
  ultimately show ?thesis by simp
qed

lemma round_even_near:
  assumes "0 < d"
  shows "2 * \<bar>int n - int (d * round_even n d)\<bar> \<le> int d"
proof -
  have r: "n mod d < d" using assms by simp
  define q where "q = n div d"
  have n: "int n = int d * int q + int (n mod d)"
    by (simp add: q_def flip: of_nat_mult of_nat_add)
  show ?thesis
    using r n by (auto simp: round_even_def Let_def algebra_simps simp flip: q_def)
qed

lemma round_even_nearest:
  assumes "0 < d"
  shows "\<bar>int n - int (d * round_even n d)\<bar> \<le> \<bar>int n - int d * j\<bar>"
proof (cases "j = int (round_even n d)")
  case False
  then have "1 \<le> \<bar>j - int (round_even n d)\<bar>" by simp
  then have "int d * 1 \<le> int d * \<bar>j - int (round_even n d)\<bar>"
    by (rule mult_left_mono) simp
  also have "\<dots> = \<bar>int d * (j - int (round_even n d))\<bar>" by (simp add: abs_mult)
  finally have "int d \<le> \<bar>int d * j - int (d * round_even n d)\<bar>" by (simp add: algebra_simps)
  moreover have "\<bar>a - p\<bar> \<le> \<bar>a - b\<bar>" if "2 * \<bar>a - p\<bar> \<le> D" "D \<le> \<bar>b - p\<bar>" for a b p D :: int
  proof -
    have "\<bar>(a - p) - (a - b)\<bar> \<le> \<bar>a - p\<bar> + \<bar>a - b\<bar>" by (rule abs_triangle_ineq4)
    moreover have "(a - p) - (a - b) = b - p" by simp
    ultimately have "\<bar>b - p\<bar> \<le> \<bar>a - p\<bar> + \<bar>a - b\<bar>" by (simp only:)
    with that have "2 * \<bar>a - p\<bar> \<le> \<bar>a - p\<bar> + \<bar>a - b\<bar>" by (meson order_trans)
    then show ?thesis by simp
  qed
  ultimately show ?thesis using round_even_near [OF assms, of n] by blast
qed simp

lemma round_even_bounds:
  assumes "0 < d"
  shows "n div d \<le> round_even n d" "round_even n d \<le> n div d + 1"
  by (simp_all add: round_even_def Let_def)

lemma f32_mag_scaled:
  assumes "r \<le> 2 ^ 24" "k = 0 \<or> 2 ^ 23 \<le> r"
  shows "f32_mag (k * 2 ^ 23 + r) = r * 2 ^ k"
proof -
  consider "r < 2 ^ 23" | "2 ^ 23 \<le> r" "r < 2 ^ 24" | "r = 2 ^ 24"
    using assms(1) by linarith
  then show ?thesis
  proof cases
    case 1
    with assms(2) show ?thesis by (simp add: f32_mag_def Let_def)
  next
    case 2
    define f where "f = r - 2 ^ 23"
    have f: "f < 2 ^ 23" and r: "r = 2 ^ 23 + f" using 2 by (simp_all add: f_def)
    have "k * 2 ^ 23 + r = f + (k + 1) * 2 ^ 23" by (simp add: r)
    then have "(k * 2 ^ 23 + r) div 2 ^ 23 = k + 1" "(k * 2 ^ 23 + r) mod 2 ^ 23 = f"
      using f by (simp_all only: div_mult_self1 mod_mult_self1) simp_all
    then show ?thesis by (simp add: f32_mag_def Let_def r)
  next
    case 3
    have "k * 2 ^ 23 + r = (k + 2) * 2 ^ 23" by (simp add: 3)
    then have "(k * 2 ^ 23 + r) div 2 ^ 23 = k + 2" "(k * 2 ^ 23 + r) mod 2 ^ 23 = 0"
      by (simp_all only: div_mult_self1 mod_mult_self1) simp_all
    then show ?thesis by (simp add: f32_mag_def Let_def 3)
  qed
qed

text \<open>What rounding delivers: a multiple of the spacing \<open>2 ^ k\<close> of the numbers around the value.\<close>

lemma f32_round_cases:
  assumes "0 < d"
  obtains k where "f32_mag (f32_round n d) = round_even n (d * 2 ^ k) * 2 ^ k"
    and "k = 0 \<or> d * 2 ^ (k + 23) \<le> n"
proof -
  define q where "q = n div d"
  define k where "k = bit_length q - 24"
  define r where "r = round_even n (d * 2 ^ k)"
  have qd: "n div (d * 2 ^ k) = q div 2 ^ k" by (simp add: q_def div_mult2_eq)
  have "q < 2 ^ (k + 24)"
    by (rule less_le_trans [OF bit_length_upper]) (simp add: k_def)
  then have "q div 2 ^ k < 2 ^ 24"
    by (simp add: less_mult_imp_div_less power_add mult.commute)
  then have r24: "r \<le> 2 ^ 24"
    using round_even_bounds(2) [of "d * 2 ^ k" n] assms by (simp add: qd r_def)
  have low: "2 ^ (k + 23) \<le> q" if "k \<noteq> 0"
  proof -
    have "bit_length q - 1 = k + 23" "q \<noteq> 0" using that by (auto simp: k_def intro: ccontr)
    then show ?thesis using bit_length_lower by metis
  qed
  have "2 ^ 23 \<le> r" if "k \<noteq> 0"
  proof -
    have "2 ^ 23 * 2 ^ k \<le> q" using low [OF that] by (simp add: power_add mult.commute)
    then have "2 ^ 23 \<le> q div 2 ^ k" by (simp add: less_eq_div_iff_mult_less_eq)
    then show ?thesis using round_even_bounds(1) [of "d * 2 ^ k" n] assms by (simp add: qd r_def)
  qed
  then have "f32_mag (f32_round n d) = r * 2 ^ k"
    using f32_mag_scaled [OF r24, of k] by (auto simp: f32_round_def Let_def k_def q_def r_def)
  moreover have "k = 0 \<or> d * 2 ^ (k + 23) \<le> n"
    using low assms by (auto simp: q_def less_eq_div_iff_mult_less_eq mult.commute)
  ultimately show thesis using that r_def by blast
qed

text \<open>No number of the format, of any exponent, is nearer to \<open>n / d\<close> than the rounded one.\<close>

lemma f32_round_nearest:
  assumes "0 < d"
  shows "\<bar>int n - int (d * f32_mag (f32_round n d))\<bar> \<le> \<bar>int n - int (d * f32_mag b)\<bar>"
proof -
  obtain k where mag: "f32_mag (f32_round n d) = round_even n (d * 2 ^ k) * 2 ^ k"
    and k: "k = 0 \<or> d * 2 ^ (k + 23) \<le> n" by (rule f32_round_cases [OF assms])
  define D where "D = d * 2 ^ k"
  have D: "0 < D" using assms by (simp add: D_def)
  have near: "\<bar>int n - int (d * f32_mag (f32_round n d))\<bar> \<le> \<bar>int n - int D * j\<bar>" for j
    using round_even_nearest [OF D, of n j] by (simp add: mag D_def algebra_simps)
  define e where "e = b div 2 ^ 23"
  define f where "f = b mod 2 ^ 23"
  have f: "f < 2 ^ 23" by (simp add: f_def)
  have b: "f32_mag b = (if e = 0 then f else (2 ^ 23 + f) * 2 ^ (e - 1))"
    by (simp add: f32_mag_def Let_def e_def f_def)
  show ?thesis
  proof (cases "k \<le> e - 1")
    case True
    then obtain m where m: "f32_mag b = m * 2 ^ k"
    proof (cases "e = 0")
      case False
      have "2 ^ k * 2 ^ (e - 1 - k) = (2::nat) ^ (e - 1)" using True by (simp flip: power_add)
      then show ?thesis using that [of "(2 ^ 23 + f) * 2 ^ (e - 1 - k)"] False b
        by (simp add: mult.assoc mult.commute)
    qed (use b in auto)
    show ?thesis using near [of "int m"] by (simp add: m D_def algebra_simps)
  next
    case False
    then have "k \<noteq> 0" by simp
    with k have n: "d * 2 ^ (k + 23) \<le> n" by simp
    have "f32_mag b \<le> 2 ^ (k + 23)"
    proof (cases "e = 0")
      case True
      have "(2::nat) ^ 23 \<le> 2 ^ (k + 23)" by (rule power_increasing) simp_all
      then show ?thesis using True f b by simp
    next
      case e0: False
      have "(2::nat) ^ (e - 1) * 2 \<le> 2 ^ k"
        using False power_increasing [of "Suc (e - 1)" k "2::nat"] by simp
      then have "2 ^ 23 * (2 ^ (e - 1) * 2) \<le> 2 ^ 23 * (2::nat) ^ k" by (rule mult_left_mono) simp
      moreover have "(2 ^ 23 + f) * 2 ^ (e - 1) \<le> (2 ^ 23 * 2) * 2 ^ (e - 1)"
        using f by (intro mult_right_mono) simp_all
      ultimately have "(2 ^ 23 + f) * 2 ^ (e - 1) \<le> 2 ^ 23 * 2 ^ k"
        by (simp only: mult_ac)
      then show ?thesis using e0 b by (simp only: power_add mult_ac if_False)
    qed
    then have "d * f32_mag b \<le> d * 2 ^ (k + 23)" by simp
    moreover have "int D * int (2 ^ 23) = int (d * 2 ^ (k + 23))"
      by (simp add: D_def power_add)
    ultimately show ?thesis using near [of "int (2 ^ 23)"] n by linarith
  qed
qed

lemma isqrt_square: "isqrt n * isqrt n \<le> n \<and> n < (isqrt n + 1) * (isqrt n + 1)"
proof (induction n rule: isqrt.induct)
  case (1 n)
  show ?case
  proof (cases "n = 0")
    case True
    then show ?thesis by (simp add: isqrt.simps)
  next
    case False
    define r where "r = isqrt (n div 4)"
    have "r * r \<le> n div 4" "n div 4 < (r + 1) * (r + 1)" using 1 [OF False] by (simp_all add: r_def)
    then have lo: "2 * r * (2 * r) \<le> n" and hi: "n < (2 * r + 2) * (2 * r + 2)"
      by (simp_all add: algebra_simps)
    have "isqrt n = (if (2 * r + 1) * (2 * r + 1) \<le> n then 2 * r + 1 else 2 * r)"
      using False by (subst isqrt.simps) (simp add: r_def Let_def)
    with lo hi show ?thesis by (simp add: algebra_simps)
  qed
qed

lemma isqrt_eqI: "s * s \<le> n \<Longrightarrow> n < (s + 1) * (s + 1) \<Longrightarrow> isqrt n = s"
proof (rule antisym)
  assume s: "s * s \<le> n" "n < (s + 1) * (s + 1)"
  have "\<not> s + 1 \<le> isqrt n"
    using mult_le_mono [of "s + 1" "isqrt n" "s + 1" "isqrt n"] isqrt_square [of n] s(2) by linarith
  then show "isqrt n \<le> s" by simp
  have "\<not> isqrt n + 1 \<le> s"
    using mult_le_mono [of "isqrt n + 1" s "isqrt n + 1" s] isqrt_square [of n] s(1) by linarith
  then show "s \<le> isqrt n" by simp
qed

section \<open>The test for numbers\<close>

lemma exponent_test: "w AND 0x7f800000 = 0x7f800000 \<longleftrightarrow> 0x7f800000 \<le> f32_bits w" for w :: u32
proof -
  have m: "(0x7f800000 :: u32) = push_bit 23 (mask 8)" by (simp add: mask_eq_exp_minus_1)
  have "w AND 0x7f800000 = 0x7f800000 \<longleftrightarrow> take_bit 8 (drop_bit 23 w) = mask 8"
  proof
    assume a: "w AND 0x7f800000 = 0x7f800000"
    have "bit w (n + 23)" if "n < 8" for n
      using arg_cong [OF a, of "\<lambda>v. bit v (n + 23)"] that by (simp only: m) (simp add: bit_simps)
    then show "take_bit 8 (drop_bit 23 w) = mask 8"
      by (intro bit_word_eqI) (auto simp: bit_simps add.commute)
  next
    assume a: "take_bit 8 (drop_bit 23 w) = mask 8"
    have "bit w n" if "23 \<le> n" "n - 23 < 8" for n
      using arg_cong [OF a, of "\<lambda>v. bit v (n - 23)"] that by (simp add: bit_simps)
    then show "w AND 0x7f800000 = 0x7f800000"
      by (simp only: m) (intro bit_word_eqI, auto simp: bit_simps)
  qed
  also have "\<dots> \<longleftrightarrow> unat (take_bit 8 (drop_bit 23 w)) = unat (mask 8 :: u32)"
    by (simp only: word_unat_eq_iff)
  also have "unat (take_bit 8 (drop_bit 23 w)) = unat w div 2 ^ 23 mod 2 ^ 8"
    by (simp only: unsigned_take_bit_eq) (simp only: unat_drop_bit_div take_bit_eq_mod)
  also have "unat (mask 8 :: u32) = 255" by (simp add: mask_eq_exp_minus_1)
  also have "unat w div 2 ^ 23 mod 2 ^ 8 = f32_bits w div 2 ^ 23"
  proof -
    have "unat w mod (2 ^ 23 * 2 ^ 8) = 2 ^ 23 * (unat w div 2 ^ 23 mod 2 ^ 8) + unat w mod 2 ^ 23"
      by (rule mod_mult2_eq)
    then show ?thesis by (simp add: f32_bits_def)
  qed
  also have "f32_bits w div 2 ^ 23 = 255 \<longleftrightarrow> 0x7f800000 \<le> f32_bits w"
  proof -
    have "f32_bits w < 2 ^ 31" by (simp add: f32_bits_def)
    then show ?thesis by auto
  qed
  finally show ?thesis .
qed

lemma nonfinite_test_iff: "nonfinite_test w \<longleftrightarrow> \<not> f32_finite w"
  by (auto simp: nonfinite_test_def exponent_test f32_finite_def ucomiss_jp_def f32_nan_def)

lemma finite_not_nan: "f32_finite w \<Longrightarrow> \<not> f32_nan w"
  by (simp add: f32_finite_def f32_nan_def)

lemma finite_compare:
  "f32_finite a \<Longrightarrow> f32_finite b \<Longrightarrow> ucomiss_ja a b \<longleftrightarrow> f32_units b < f32_units a"
  "f32_finite a \<Longrightarrow> f32_finite b \<Longrightarrow> ucomiss_jb a b \<longleftrightarrow> f32_units a < f32_units b"
  by (simp_all add: ucomiss_ja_def ucomiss_jb_def ucomiss_jp_def finite_not_nan)

section \<open>Evaluation\<close>

text \<open>Rules that check a result given in advance, by multiplication and comparison only.\<close>

lemma round_even_eqI: "2 * n < d * (2 * q + 1) \<Longrightarrow> d * (2 * q) < 2 * n + d \<Longrightarrow> round_even n d = q"
proof -
  assume hi: "2 * n < d * (2 * q + 1)" and lo: "d * (2 * q) < 2 * n + d"
  have "0 < d" using hi by (cases d) auto
  have "2 * \<bar>int n - int (d * round_even n d)\<bar> \<le> int d" by (rule round_even_near [OF \<open>0 < d\<close>])
  then have "2 * n \<le> d * (2 * round_even n d + 1)" "d * (2 * round_even n d) \<le> 2 * n + d"
  proof -
    define p where "p = d * round_even n d"
    assume "2 * \<bar>int n - int (d * round_even n d)\<bar> \<le> int d"
    then have "\<bar>2 * (int n - int p)\<bar> \<le> int d"
      by (simp only: abs_mult abs_numeral p_def)
    then have "2 * (int n - int p) \<le> int d" "2 * (int p - int n) \<le> int d"
      by (simp_all only: abs_le_iff) simp_all
    then have "2 * n \<le> 2 * p + d" "2 * p \<le> 2 * n + d" by presburger+
    then show "2 * n \<le> d * (2 * round_even n d + 1)" "d * (2 * round_even n d) \<le> 2 * n + d"
      by (simp_all add: p_def algebra_simps)
  qed
  with hi lo have "d * (2 * round_even n d) < d * (2 * q + 2)" "d * (2 * q) < d * (2 * round_even n d + 2)"
    by (simp_all add: algebra_simps)
  then have "2 * round_even n d < 2 * q + 2" "2 * q < 2 * round_even n d + 2"
    by (simp_all only: mult_less_cancel1)
  then show ?thesis by simp
qed

lemma f32_round_normal:
  assumes "d * 2 ^ (k + 23) \<le> n" "n < d * 2 ^ (k + 24)"
    "2 * n < d * 2 ^ k * (2 * q + 1)" "d * 2 ^ k * (2 * q) < 2 * n + d * 2 ^ k"
  shows "f32_round n d = k * 2 ^ 23 + q"
proof -
  have "0 < d" using assms(2) by (cases d) auto
  then have "2 ^ (k + 23) \<le> n div d" "n div d < 2 ^ Suc (k + 23)"
    using assms(1,2) by (simp_all add: less_eq_div_iff_mult_less_eq less_mult_imp_div_less mult.commute
        add.commute [of 24 k])
  then have "bit_length (n div d) - 24 = k" using bit_length_eqI by fastforce
  then show ?thesis by (simp add: f32_round_def Let_def round_even_eqI [OF assms(3,4)])
qed

lemma f32_round_small [simp]: "f32_round 0 d = 0"
  by (simp add: f32_round_def round_even_def)

section \<open>Sample values\<close>

text \<open>The results the search example meets: one is \<open>0x3f800000\<close>, two \<open>0x40000000\<close>, the root of two
  \<open>0x3fb504f3\<close> and its inverse \<open>0x3f3504f3\<close>.\<close>

named_theorems f32_samples \<open>results of operations on concrete numbers\<close>

lemmas f32_eval = f32_ops f32_neg_def f32_bits_def f32_nan_def f32_infinite_def f32_mag_def
  f32_units_def Let_def f32_result_def f32_make_def f32_default_nan_def

lemma f32_samples_1 [f32_samples]:
  "mulss 0x3f800000 0x3f800000 = 0x3f800000"
  "mulss 0xbf800000 0xbf800000 = 0x3f800000"
  "mulss 0x3f800000 0xbf800000 = 0xbf800000"
  "addss 0 0x3f800000 = 0x3f800000"
  "addss 0x3f800000 0 = 0x3f800000"
  "addss 0 0xbf800000 = 0xbf800000"
  "addss 0xbf800000 0 = 0xbf800000"
  "addss 0xbf800000 0x80000000 = 0xbf800000"
  "divss 0x3f800000 0x3f800000 = 0x3f800000"
  "divss 0xbf800000 0x3f800000 = 0xbf800000"
  by (simp_all add: f32_eval f32_round_normal [where k = 126 and q = 8388608])

lemma f32_samples_2 [f32_samples]:
  "mulss 0x3f800000 0x3f3504f3 = 0x3f3504f3"
  "addss 0 0x3f3504f3 = 0x3f3504f3"
  "addss 0x3f3504f3 0 = 0x3f3504f3"
  "divss 0x3f800000 0x3fb504f3 = 0x3f3504f3"
  by (simp_all add: f32_eval f32_round_normal [where k = 125 and q = 11863283])

lemma f32_samples_3 [f32_samples]:
  "mulss 0 0 = 0"
  "mulss 0 0x3f3504f3 = 0"
  "mulss 0x3f800000 0 = 0"
  "mulss 0 0x3f800000 = 0"
  "mulss 0 0xbf800000 = 0x80000000"
  "addss 0 0 = 0"
  "divss 0 0x3f800000 = 0"
  "divss 0 0x3fb504f3 = 0"
  by (simp_all add: f32_eval)

lemma f32_samples_4 [f32_samples]:
  "addss 0x3f800000 0x3f800000 = 0x40000000"
  "addss 0x40000000 0 = 0x40000000"
  by (simp_all add: f32_eval f32_round_normal [where k = 127 and q = 8388608])

lemma isqrt_one:
  "isqrt 509258994083621521567111422102344540262867098416484062659035112338595324940834176545849344
    = 713623846352979940529142984724747568191373312"
  by (rule isqrt_eqI) simp_all

lemma f32_round_root_one: "f32_round 1427247692705959881058285969449495136382746624 2 = 0x3f800000"
  by (subst f32_round_normal [where k = 126 and q = 8388608]) simp_all

lemma f32_samples_5 [f32_samples]: "sqrtss 0x3f800000 = 0x3f800000"
  by (simp add: f32_eval isqrt_one f32_round_root_one)

lemma isqrt_two:
  "isqrt 1018517988167243043134222844204689080525734196832968125318070224677190649881668353091698688
    = 1009216521945237994791381332037992686769626072"
  by (rule isqrt_eqI) simp_all

lemma f32_round_root_two: "f32_round 2018433043890475989582762664075985373539252145 2 = 0x3fb504f3"
  by (subst f32_round_normal [where k = 126 and q = 11863283]) simp_all

lemma f32_samples_6 [f32_samples]: "sqrtss 0x40000000 = 0x3fb504f3"
  by (simp add: f32_eval isqrt_two f32_round_root_two)

lemma f32_samples_order [f32_samples]:
  "f32_units 0 = 0" "f32_units 0x3f800000 = 2 ^ 149" "f32_units 0xbf800000 = - (2 ^ 149)"
  "f32_units 0x3f3504f3 = 11863283 * 2 ^ 125"
  by (simp_all add: f32_eval)

lemma f32_samples_finite [f32_samples]:
  "f32_finite 0" "f32_finite 0x3f800000" "f32_finite 0xbf800000" "f32_finite 0x3f3504f3" "f32_finite 0x40000000"
  by (simp_all add: f32_finite_def f32_bits_def)

end
