(* ===== verification/Vector_Kernels.thy ===== *)
theory Vector_Kernels
  imports Float32
begin

text \<open>
  The vector kernels of \<^verbatim>\<open>src/sql/vector_kernels_scalar.asm\<close> and
  \<^verbatim>\<open>src/sql/vector_kernels_avx2.asm\<close>: dot product, squared distance and normalization, each
  in a scalar and in an eight-lane version, the resolvers that choose between them and the public
  entry points.  Memory is a function from the byte address of an aligned \<open>float\<close> to its pattern;
  address 0 is the null pointer.  A 256-bit register is the list of its eight lanes.  The theorems
  show that the versions deliver the same bits and that a normalization which fails writes nothing.
\<close>

type_synonym fmem = "nat \<Rightarrow> f32"

section \<open>Results of the vector interface\<close>

datatype vector_status = V_OK | V_INVALID | V_NONFINITE | V_FULL

primrec vector_code :: "vector_status \<Rightarrow> int" where
  "vector_code V_OK = 0"
| "vector_code V_INVALID = -1"
| "vector_code V_NONFINITE = -2"
| "vector_code V_FULL = -3"

definition CybouDB_VECTOR_ABI_VERSION :: nat where "CybouDB_VECTOR_ABI_VERSION = 2"

section \<open>Accumulating a sum\<close>

text \<open>Every kernel adds up one number per lane, in lane order: \<open>g i\<close> is the number lane \<open>i\<close>
  contributes, \<open>n\<close> the number of dimensions.\<close>

function scalar_sum :: "(nat \<Rightarrow> f32) \<Rightarrow> nat \<Rightarrow> nat \<Rightarrow> f32 \<Rightarrow> f32" where
  "scalar_sum g n i acc = (if n \<le> i then acc else scalar_sum g n (i + 1) (addss acc (g i)))"
  by pat_completeness auto
termination by (relation "measure (\<lambda>(g, n, i, acc). n - i)") auto

function chunk_sum :: "(nat \<Rightarrow> f32) \<Rightarrow> nat \<Rightarrow> nat \<Rightarrow> f32 \<Rightarrow> f32" where
  "chunk_sum g n j acc =
    (if n - j < 8 then scalar_sum g n j acc
     else let ymm1 = map g [j..<j + 8] in chunk_sum g n (j + 8) (foldl addss acc ymm1))"
  by pat_completeness auto
termination by (relation "measure (\<lambda>(g, n, i, acc). n - i)") auto

declare scalar_sum.simps [simp del] chunk_sum.simps [simp del]

section \<open>Dot product and squared distance\<close>

definition dot_lane :: "fmem \<Rightarrow> nat \<Rightarrow> nat \<Rightarrow> nat \<Rightarrow> f32" where
  "dot_lane m a b i = mulss (m (a + 4 * i)) (m (b + 4 * i))"

definition l2_lane :: "fmem \<Rightarrow> nat \<Rightarrow> nat \<Rightarrow> nat \<Rightarrow> f32" where
  "l2_lane m a b i = (let d = subss (m (a + 4 * i)) (m (b + 4 * i)) in mulss d d)"

definition vector_dot_f32_scalar :: "fmem \<Rightarrow> nat \<Rightarrow> nat \<Rightarrow> nat \<Rightarrow> f32" where
  "vector_dot_f32_scalar m a b n = scalar_sum (dot_lane m a b) n 0 0"

definition vector_l2sq_f32_scalar :: "fmem \<Rightarrow> nat \<Rightarrow> nat \<Rightarrow> nat \<Rightarrow> f32" where
  "vector_l2sq_f32_scalar m a b n = scalar_sum (l2_lane m a b) n 0 0"

definition vector_dot_f32_avx2 :: "fmem \<Rightarrow> nat \<Rightarrow> nat \<Rightarrow> nat \<Rightarrow> f32" where
  "vector_dot_f32_avx2 m a b n = chunk_sum (dot_lane m a b) n 0 0"

definition vector_l2sq_f32_avx2 :: "fmem \<Rightarrow> nat \<Rightarrow> nat \<Rightarrow> nat \<Rightarrow> f32" where
  "vector_l2sq_f32_avx2 m a b n = chunk_sum (l2_lane m a b) n 0 0"

section \<open>Normalization\<close>

definition square_lane :: "fmem \<Rightarrow> nat \<Rightarrow> nat \<Rightarrow> f32" where
  "square_lane m a i = mulss (m (a + 4 * i)) (m (a + 4 * i))"

text \<open>The scalar version tests a lane and adds its square in one loop; \<open>None\<close> is the jump to
  \<open>.normalize_nonfinite\<close>.\<close>

function norm_sum :: "fmem \<Rightarrow> nat \<Rightarrow> nat \<Rightarrow> nat \<Rightarrow> f32 \<Rightarrow> f32 option" where
  "norm_sum m a n i acc =
    (if n \<le> i then Some acc else if nonfinite_test (m (a + 4 * i)) then None
     else norm_sum m a n (i + 1) (addss acc (square_lane m a i)))"
  by pat_completeness auto
termination by (relation "measure (\<lambda>(m, a, n, i, acc). n - i)") auto

text \<open>The eight-lane version tests all lanes first.\<close>

function norm_validate :: "fmem \<Rightarrow> nat \<Rightarrow> nat \<Rightarrow> nat \<Rightarrow> bool" where
  "norm_validate m a n i =
    (if n \<le> i then True else if nonfinite_test (m (a + 4 * i)) then False
     else norm_validate m a n (i + 1))"
  by pat_completeness auto
termination by (relation "measure (\<lambda>(m, a, n, i). n - i)") auto

definition norm_ready :: "f32 \<Rightarrow> vector_status" where
  "norm_ready s =
    (if ucomiss_jp s s then V_NONFINITE else if s AND 0x7fffffff = 0 then V_INVALID
     else if 0x7f800000 \<le> s AND 0x7fffffff then V_NONFINITE else V_OK)"

function normalize_loop :: "nat \<Rightarrow> nat \<Rightarrow> nat \<Rightarrow> f32 \<Rightarrow> nat \<Rightarrow> fmem \<Rightarrow> fmem" where
  "normalize_loop inp out n norm i m =
    (if n \<le> i then m
     else normalize_loop inp out n norm (i + 1) (m(out + 4 * i := divss (m (inp + 4 * i)) norm)))"
  by pat_completeness auto
termination by (relation "measure (\<lambda>(a, b, n, r, i, m). n - i)") auto

text \<open>Storing a register writes its lanes to consecutive addresses.\<close>

fun store_lanes :: "nat \<Rightarrow> f32 list \<Rightarrow> fmem \<Rightarrow> fmem" where
  "store_lanes p [] m = m"
| "store_lanes p (x # xs) m = store_lanes (p + 4) xs (m(p := x))"

function norm_write_chunk :: "nat \<Rightarrow> nat \<Rightarrow> nat \<Rightarrow> f32 \<Rightarrow> nat \<Rightarrow> fmem \<Rightarrow> fmem" where
  "norm_write_chunk inp out n norm j m =
    (if n - j < 8 then normalize_loop inp out n norm j m
     else let ymm1 = map (\<lambda>i. divss (m (inp + 4 * i)) norm) [j..<j + 8] in
       norm_write_chunk inp out n norm (j + 8) (store_lanes (out + 4 * j) ymm1 m))"
  by pat_completeness auto
termination by (relation "measure (\<lambda>(a, b, n, r, i, m). n - i)") auto

declare norm_sum.simps [simp del] norm_validate.simps [simp del] normalize_loop.simps [simp del]
  norm_write_chunk.simps [simp del]

definition vector_normalize_f32_scalar :: "fmem \<Rightarrow> nat \<Rightarrow> nat \<Rightarrow> nat \<Rightarrow> vector_status \<times> fmem" where
  "vector_normalize_f32_scalar m inp out n =
    (if inp = 0 \<or> out = 0 \<or> n = 0 then (V_INVALID, m)
     else case norm_sum m inp n 0 0 of
       None \<Rightarrow> (V_NONFINITE, m)
     | Some s \<Rightarrow>
         (if norm_ready s \<noteq> V_OK then (norm_ready s, m)
          else (V_OK, normalize_loop inp out n (sqrtss s) 0 m)))"

definition vector_normalize_f32_avx2 :: "fmem \<Rightarrow> nat \<Rightarrow> nat \<Rightarrow> nat \<Rightarrow> vector_status \<times> fmem" where
  "vector_normalize_f32_avx2 m inp out n =
    (if inp = 0 \<or> out = 0 \<or> n = 0 then (V_INVALID, m)
     else if \<not> norm_validate m inp n 0 then (V_NONFINITE, m)
     else let s = chunk_sum (square_lane m inp) n 0 0 in
       if norm_ready s \<noteq> V_OK then (norm_ready s, m)
       else (V_OK, norm_write_chunk inp out n (sqrtss s) 0 m))"

section \<open>Choosing a kernel\<close>

text \<open>What the resolvers read: the switch \<open>sql_kernel_force_scalar\<close> and the answer of
  \<open>cpu_has_avx2\<close>.\<close>

record vec_cpu =
  force_scalar :: bool
  has_avx2 :: bool

definition vector_dot_f32_resolve :: "vec_cpu \<Rightarrow> fmem \<Rightarrow> nat \<Rightarrow> nat \<Rightarrow> nat \<Rightarrow> f32" where
  "vector_dot_f32_resolve cpu =
    (if force_scalar cpu then vector_dot_f32_scalar
     else if has_avx2 cpu then vector_dot_f32_avx2 else vector_dot_f32_scalar)"

definition vector_l2sq_f32_resolve :: "vec_cpu \<Rightarrow> fmem \<Rightarrow> nat \<Rightarrow> nat \<Rightarrow> nat \<Rightarrow> f32" where
  "vector_l2sq_f32_resolve cpu =
    (if force_scalar cpu then vector_l2sq_f32_scalar
     else if has_avx2 cpu then vector_l2sq_f32_avx2 else vector_l2sq_f32_scalar)"

definition vector_normalize_f32_resolve ::
    "vec_cpu \<Rightarrow> fmem \<Rightarrow> nat \<Rightarrow> nat \<Rightarrow> nat \<Rightarrow> vector_status \<times> fmem" where
  "vector_normalize_f32_resolve cpu =
    (if force_scalar cpu then vector_normalize_f32_scalar
     else if has_avx2 cpu then vector_normalize_f32_avx2 else vector_normalize_f32_scalar)"

definition vector_cosine_normalized_f32_resolve :: "vec_cpu \<Rightarrow> fmem \<Rightarrow> nat \<Rightarrow> nat \<Rightarrow> nat \<Rightarrow> f32" where
  "vector_cosine_normalized_f32_resolve = vector_dot_f32_resolve"

definition cyboudb_vector_normalize_f32 ::
    "vec_cpu \<Rightarrow> fmem \<Rightarrow> nat \<Rightarrow> nat \<Rightarrow> nat \<Rightarrow> vector_status \<times> fmem" where
  "cyboudb_vector_normalize_f32 cpu m inp out n = vector_normalize_f32_resolve cpu m inp out n"

definition cyboudb_vector_dot_f32 :: "vec_cpu \<Rightarrow> fmem \<Rightarrow> nat \<Rightarrow> nat \<Rightarrow> nat \<Rightarrow> f32" where
  "cyboudb_vector_dot_f32 cpu m left right n = vector_dot_f32_resolve cpu m left right n"

definition cyboudb_vector_l2sq_f32 :: "vec_cpu \<Rightarrow> fmem \<Rightarrow> nat \<Rightarrow> nat \<Rightarrow> nat \<Rightarrow> f32" where
  "cyboudb_vector_l2sq_f32 cpu m left right n = vector_l2sq_f32_resolve cpu m left right n"

section \<open>The sums agree\<close>

lemma scalar_sum_foldl: "scalar_sum g n i acc = foldl addss acc (map g [i..<n])"
proof (induction g n i acc rule: scalar_sum.induct)
  case (1 g n i acc)
  then show ?case by (subst scalar_sum.simps) (simp add: upt_conv_Cons)
qed

lemma chunk_sum_scalar: "chunk_sum g n j acc = scalar_sum g n j acc"
proof (induction g n j acc rule: chunk_sum.induct)
  case (1 g n j acc)
  show ?case
  proof (cases "n - j < 8")
    case True
    then show ?thesis by (subst chunk_sum.simps) simp
  next
    case False
    then have "[j..<n] = [j..<j + 8] @ [j + 8..<n]"
      using upt_add_eq_append [of j "j + 8" "n - (j + 8)"] by simp
    then show ?thesis using 1 [OF False refl] False
      by (subst chunk_sum.simps) (simp add: scalar_sum_foldl Let_def del: upt_Suc)
  qed
qed

text \<open>A kernel reads its operands and nothing else.\<close>

lemma scalar_sum_cong: "(\<And>i. i < n \<Longrightarrow> g i = h i) \<Longrightarrow> scalar_sum g n 0 acc = scalar_sum h n 0 acc"
  unfolding scalar_sum_foldl by (intro arg_cong [where f = "foldl addss acc"] map_cong) auto

lemma dot_scalar_cong:
  "(\<And>i. i < n \<Longrightarrow> m (a + 4 * i) = m' (a' + 4 * i)) \<Longrightarrow> (\<And>i. i < n \<Longrightarrow> m (b + 4 * i) = m' (b' + 4 * i))
   \<Longrightarrow> vector_dot_f32_scalar m a b n = vector_dot_f32_scalar m' a' b' n"
  unfolding vector_dot_f32_scalar_def by (rule scalar_sum_cong) (simp add: dot_lane_def)

lemma l2sq_scalar_cong:
  "(\<And>i. i < n \<Longrightarrow> m (a + 4 * i) = m' (a' + 4 * i)) \<Longrightarrow> (\<And>i. i < n \<Longrightarrow> m (b + 4 * i) = m' (b' + 4 * i))
   \<Longrightarrow> vector_l2sq_f32_scalar m a b n = vector_l2sq_f32_scalar m' a' b' n"
  unfolding vector_l2sq_f32_scalar_def by (rule scalar_sum_cong) (simp add: l2_lane_def)

lemma dot_resolve [simp]: "vector_dot_f32_resolve cpu = vector_dot_f32_scalar"
  by (auto simp: vector_dot_f32_resolve_def fun_eq_iff vector_dot_f32_avx2_def
      vector_dot_f32_scalar_def chunk_sum_scalar)

lemma l2sq_resolve [simp]: "vector_l2sq_f32_resolve cpu = vector_l2sq_f32_scalar"
  by (auto simp: vector_l2sq_f32_resolve_def fun_eq_iff vector_l2sq_f32_avx2_def
      vector_l2sq_f32_scalar_def chunk_sum_scalar)

section \<open>What normalization writes\<close>

definition all_finite :: "fmem \<Rightarrow> nat \<Rightarrow> nat \<Rightarrow> bool" where
  "all_finite m a n = list_all (\<lambda>i. f32_finite (m (a + 4 * i))) [0..<n]"

text \<open>The vector at \<open>inp\<close> divided by \<open>norm\<close>, written to \<open>out\<close> in one step.\<close>

definition scaled_at :: "nat \<Rightarrow> nat \<Rightarrow> nat \<Rightarrow> f32 \<Rightarrow> fmem \<Rightarrow> fmem" where
  "scaled_at inp out n norm m =
    store_lanes out (map (\<lambda>i. divss (m (inp + 4 * i)) norm) [0..<n]) m"

lemma all_finite_iff: "all_finite m a n \<longleftrightarrow> (\<forall>i<n. f32_finite (m (a + 4 * i)))"
  by (auto simp: all_finite_def list_all_iff)

lemma norm_validate_iff: "norm_validate m a n i \<longleftrightarrow> (\<forall>j. i \<le> j \<and> j < n \<longrightarrow> f32_finite (m (a + 4 * j)))"
proof (induction m a n i rule: norm_validate.induct)
  case (1 m a n i)
  show ?case
  proof (cases "n \<le> i \<or> nonfinite_test (m (a + 4 * i))")
    case True
    then show ?thesis by (subst norm_validate.simps) (auto simp: nonfinite_test_iff)
  next
    case False
    have "i \<le> j \<longleftrightarrow> j = i \<or> i + 1 \<le> j" for j by auto
    with False 1 show ?thesis by (subst norm_validate.simps) (auto simp: nonfinite_test_iff)
  qed
qed

lemma norm_sum_eq:
  "norm_sum m a n i acc = (if norm_validate m a n i then Some (scalar_sum (square_lane m a) n i acc) else None)"
proof (induction m a n i acc rule: norm_sum.induct)
  case (1 m a n i acc)
  then show ?case
    by (subst norm_sum.simps) (simp add: norm_validate.simps [of m a n i]
        scalar_sum.simps [of _ n i])
qed

lemma store_lanes_append: "store_lanes p (xs @ ys) m = store_lanes (p + 4 * length xs) ys (store_lanes p xs m)"
  by (induction xs arbitrary: p m) (simp_all add: algebra_simps)

lemma store_lanes_outside: "\<forall>i<length xs. a \<noteq> p + 4 * i \<Longrightarrow> store_lanes p xs m a = m a"
proof (induction xs arbitrary: p m)
  case (Cons x xs)
  have "\<forall>i<length xs. a \<noteq> p + 4 + 4 * i"
    using Cons(2) by (metis Suc_less_eq add.assoc length_Cons mult_Suc_right)
  moreover have "a \<noteq> p" using Cons(2) by force
  ultimately show ?case using Cons(1) by simp
qed simp

lemma store_lanes_inside: "i < length xs \<Longrightarrow> store_lanes p xs m (p + 4 * i) = xs ! i"
proof (induction xs arbitrary: p m i)
  case (Cons x xs)
  show ?case
  proof (cases i)
    case 0
    then show ?thesis by (simp add: store_lanes_outside)
  next
    case (Suc j)
    then show ?thesis using Cons(1) [of j "p + 4"] Cons(2) by (simp add: algebra_simps)
  qed
qed simp

abbreviation apart :: "nat \<Rightarrow> nat \<Rightarrow> nat \<Rightarrow> bool" where
  "apart inp out n \<equiv> out \<le> inp \<or> inp + 4 * n \<le> out"

text \<open>Reading behind the lanes already written sees the original vector.\<close>

lemma store_lanes_behind:
  assumes "apart inp out n" "length xs = j" "j \<le> i" "i < n"
  shows "store_lanes out xs m (inp + 4 * i) = m (inp + 4 * i)"
  using assms by (intro store_lanes_outside) auto

lemma normalize_loop_store:
  assumes "apart inp out n" "j \<le> n"
  shows "normalize_loop inp out n norm j
      (store_lanes out (map (\<lambda>i. divss (m (inp + 4 * i)) norm) [0..<j]) m) = scaled_at inp out n norm m"
  using assms(2)
proof (induction "n - j" arbitrary: j)
  case 0
  then show ?case by (subst normalize_loop.simps) (simp add: scaled_at_def)
next
  case (Suc d)
  let ?st = "\<lambda>j. store_lanes out (map (\<lambda>i. divss (m (inp + 4 * i)) norm) [0..<j]) m"
  have j: "j < n" using Suc by simp
  have "?st (Suc j) = (?st j)(out + 4 * j := divss (?st j (inp + 4 * j)) norm)"
    using store_lanes_behind [OF assms(1), of "map (\<lambda>i. divss (m (inp + 4 * i)) norm) [0..<j]" j j] j
    by (simp add: store_lanes_append)
  then show ?case using Suc(1) [of "j + 1"] Suc(2) j
    by (subst normalize_loop.simps) simp
qed

lemma norm_write_chunk_store:
  assumes "apart inp out n" "j \<le> n"
  shows "norm_write_chunk inp out n norm j
      (store_lanes out (map (\<lambda>i. divss (m (inp + 4 * i)) norm) [0..<j]) m) = scaled_at inp out n norm m"
  using assms(2)
proof (induction "n - j" arbitrary: j rule: less_induct)
  case less
  let ?st = "\<lambda>j. store_lanes out (map (\<lambda>i. divss (m (inp + 4 * i)) norm) [0..<j]) m"
  show ?case
  proof (cases "n - j < 8")
    case True
    then show ?thesis by (subst norm_write_chunk.simps) (simp add: normalize_loop_store assms less)
  next
    case False
    have "map (\<lambda>i. divss (?st j (inp + 4 * i)) norm) [j..<j + 8]
        = map (\<lambda>i. divss (m (inp + 4 * i)) norm) [j..<j + 8]"
      using False by (intro map_cong refl arg_cong2 [where f = divss] store_lanes_behind [OF assms(1)]) auto
    moreover have "[0..<j + 8] = [0..<j] @ [j..<j + 8]" by (rule upt_add_eq_append) simp
    ultimately have "store_lanes (out + 4 * j) (map (\<lambda>i. divss (?st j (inp + 4 * i)) norm) [j..<j + 8]) (?st j)
        = ?st (j + 8)"
      by (simp only: map_append store_lanes_append length_map length_upt) simp
    moreover have "norm_write_chunk inp out n norm (j + 8) (?st (j + 8)) = scaled_at inp out n norm m"
      using False by (intro less) auto
    ultimately show ?thesis using False by (subst norm_write_chunk.simps) (simp only: Let_def if_False)
  qed
qed

lemmas normalize_writes = normalize_loop_store [where j = 0, simplified]
  norm_write_chunk_store [where j = 0, simplified]

lemma f32_bits_and: "unat (s AND 0x7fffffff) = f32_bits s" for s :: f32
  using unat_and_mask_numeral [of "0x7fffffff" 31 s] by (simp add: f32_bits_def)

lemma norm_ready_iff:
  "norm_ready s = (if \<not> f32_finite s then V_NONFINITE else if f32_bits s = 0 then V_INVALID else V_OK)"
proof -
  have "s AND 0x7fffffff = 0 \<longleftrightarrow> f32_bits s = 0"
    by (simp only: word_unat_eq_iff f32_bits_and) simp
  moreover have "0x7f800000 \<le> s AND 0x7fffffff \<longleftrightarrow> 0x7f800000 \<le> f32_bits s"
    by (simp only: word_le_nat_alt f32_bits_and) simp
  ultimately show ?thesis
    by (auto simp: norm_ready_def ucomiss_jp_def f32_nan_def f32_finite_def)
qed

text \<open>What both versions compute.\<close>

definition normalize_spec :: "fmem \<Rightarrow> nat \<Rightarrow> nat \<Rightarrow> nat \<Rightarrow> vector_status \<times> fmem" where
  "normalize_spec m inp out n =
    (if inp = 0 \<or> out = 0 \<or> n = 0 then (V_INVALID, m)
     else if \<not> all_finite m inp n then (V_NONFINITE, m)
     else let s = foldl addss 0 (map (square_lane m inp) [0..<n]) in
       if norm_ready s \<noteq> V_OK then (norm_ready s, m)
       else (V_OK, scaled_at inp out n (sqrtss s) m))"

lemma normalize_scalar_spec:
  "apart inp out n \<Longrightarrow> vector_normalize_f32_scalar m inp out n = normalize_spec m inp out n"
  by (auto simp: vector_normalize_f32_scalar_def normalize_spec_def norm_sum_eq norm_validate_iff
      all_finite_iff scalar_sum_foldl Let_def normalize_writes)

lemma normalize_avx2_spec:
  "apart inp out n \<Longrightarrow> vector_normalize_f32_avx2 m inp out n = normalize_spec m inp out n"
  by (auto simp: vector_normalize_f32_avx2_def normalize_spec_def norm_validate_iff all_finite_iff
      chunk_sum_scalar scalar_sum_foldl Let_def normalize_writes)

lemma normalize_resolve_spec:
  "apart inp out n \<Longrightarrow> vector_normalize_f32_resolve cpu m inp out n = normalize_spec m inp out n"
  by (simp add: vector_normalize_f32_resolve_def normalize_scalar_spec normalize_avx2_spec)


section \<open>The versions agree\<close>

text \<open>C13 Whatever the switch and the processor say, the public entry points deliver the same bits as
  the scalar kernels: dot product and squared distance on any operands, normalization on any input
  and output unless the output begins inside the input behind its first number.\<close>

theorem vector_kernels_agree:
  assumes "out \<le> inp \<or> inp + 4 * n \<le> out"
  shows "cyboudb_vector_dot_f32 cpu m a b d = vector_dot_f32_scalar m a b d
    \<and> cyboudb_vector_l2sq_f32 cpu m a b d = vector_l2sq_f32_scalar m a b d
    \<and> cyboudb_vector_normalize_f32 cpu m inp out n = vector_normalize_f32_scalar m inp out n"
  using assms by (simp add: cyboudb_vector_dot_f32_def cyboudb_vector_l2sq_f32_def
      cyboudb_vector_normalize_f32_def normalize_resolve_spec normalize_scalar_spec)

text \<open>A vector of ten numbers normalized in place.\<close>

theorem vector_kernels_agree_witness:
  "cyboudb_vector_normalize_f32 \<lparr>force_scalar = False, has_avx2 = True\<rparr> (\<lambda>_. 0x3f800000) 64 64 10
    = vector_normalize_f32_scalar (\<lambda>_. 0x3f800000) 64 64 10"
  using vector_kernels_agree [of 64 64 10] by simp

text \<open>Normalization is all or nothing: a null pointer or no dimensions is INVALID, a number of the
  input that is not finite or squares whose sum is not finite is NONFINITE, squares that sum to zero
  are INVALID, and in each case memory is as before; otherwise it succeeds, every number of the
  output is the original number of the input (also where the two overlap) divided by the root of
  the sum, and no other address changes.\<close>

theorem normalize_all_or_nothing:
  assumes "out \<le> inp \<or> inp + 4 * n \<le> out"
    and "cyboudb_vector_normalize_f32 cpu m inp out n = (st, m')"
    and s: "s = foldl addss 0 (map (\<lambda>i. mulss (m (inp + 4 * i)) (m (inp + 4 * i))) [0..<n])"
  shows "st = (if inp = 0 \<or> out = 0 \<or> n = 0 then V_INVALID
               else if \<exists>i<n. \<not> f32_finite (m (inp + 4 * i)) then V_NONFINITE
               else if \<not> f32_finite s then V_NONFINITE
               else if f32_bits s = 0 then V_INVALID else V_OK)
    \<and> (st \<noteq> V_OK \<longrightarrow> m' = m)
    \<and> (st = V_OK \<longrightarrow> (\<forall>i<n. m' (out + 4 * i) = divss (m (inp + 4 * i)) (sqrtss s))
        \<and> (\<forall>p. (\<forall>i<n. p \<noteq> out + 4 * i) \<longrightarrow> m' p = m p))"
proof -
  have *: "normalize_spec m inp out n = (st, m')"
    using assms(1,2) by (simp add: cyboudb_vector_normalize_f32_def normalize_resolve_spec)
  have s': "s = foldl addss 0 (map (square_lane m inp) [0..<n])"
    by (simp add: s square_lane_def [abs_def])
  have st: "st = (if inp = 0 \<or> out = 0 \<or> n = 0 then V_INVALID
               else if \<exists>i<n. \<not> f32_finite (m (inp + 4 * i)) then V_NONFINITE
               else if \<not> f32_finite s then V_NONFINITE
               else if f32_bits s = 0 then V_INVALID else V_OK)"
    using * by (auto simp: normalize_spec_def Let_def norm_ready_iff all_finite_iff simp flip: s'
        split: if_splits)
  have bad: "st \<noteq> V_OK \<Longrightarrow> m' = m"
    using * by (auto simp: normalize_spec_def Let_def split: if_splits)
  have "m' = scaled_at inp out n (sqrtss s) m" if "st = V_OK"
    using * that by (auto simp: normalize_spec_def Let_def norm_ready_iff simp flip: s' split: if_splits)
  then have "st = V_OK \<longrightarrow> (\<forall>i<n. m' (out + 4 * i) = divss (m (inp + 4 * i)) (sqrtss s))
        \<and> (\<forall>p. (\<forall>i<n. p \<noteq> out + 4 * i) \<longrightarrow> m' p = m p)"
    by (simp add: scaled_at_def store_lanes_inside store_lanes_outside)
  with st bad show ?thesis by blast
qed

text \<open>The vector (1, 1) normalized in place: two numbers of one half of the root of two.\<close>

theorem normalize_all_or_nothing_witness:
  "\<exists>m'. cyboudb_vector_normalize_f32 \<lparr>force_scalar = False, has_avx2 = True\<rparr>
       (\<lambda>a. if a < 72 then 0x3f800000 else 0) 64 64 2 = (V_OK, m')
     \<and> m' 64 = 0x3f3504f3 \<and> m' 68 = 0x3f3504f3 \<and> m' 72 = 0"
proof -
  let ?m = "\<lambda>a. if a < 72 then 0x3f800000 else 0 :: f32"
  obtain st m' where r: "cyboudb_vector_normalize_f32 \<lparr>force_scalar = False, has_avx2 = True\<rparr> ?m 64 64 2 = (st, m')"
    by fastforce
  have l: "[0..<2] = [0, 1 :: nat]" by code_simp
  have s: "foldl addss 0 (map (\<lambda>i. mulss (?m (64 + 4 * i)) (?m (64 + 4 * i))) [0..<2]) = 0x40000000"
    by (simp add: l f32_samples)
  have fin: "\<not> (\<exists>i<2. \<not> f32_finite (?m (64 + 4 * i)))" by (auto simp: f32_samples)
  have *: "st = V_OK \<and> (\<forall>i<2. m' (64 + 4 * i) = divss (?m (64 + 4 * i)) (sqrtss 0x40000000))
        \<and> (\<forall>p. (\<forall>i<2. p \<noteq> 64 + 4 * i) \<longrightarrow> m' p = ?m p)"
    using normalize_all_or_nothing [OF _ r s [symmetric]] fin by (simp add: f32_samples f32_bits_def)
  then have "m' (64 + 4 * 0) = 0x3f3504f3" "m' (64 + 4 * 1) = 0x3f3504f3" "m' 72 = 0"
    by (simp_all only: conjunct1 conjunct2) (auto simp: f32_samples less_2_cases_iff)
  with * r show ?thesis by auto
qed

end
