(* ===== verification/Vector_Arena.thy ===== *)
theory Vector_Arena
  imports Vector_Kernels
begin

text \<open>
  The arena of vectors, \<^verbatim>\<open>src/core/vector_arena.asm\<close>: a block of memory the caller owns, filled
  with vectors of equal length one behind the other.  The numbers of the structure are natural
  numbers below \<open>2 ^ 64\<close>; where the code tests the carry of an addition or the upper half of a
  product, the model compares the exact result with \<open>2 ^ 64\<close>.  Vectors and identifiers are written
  through pointers, so the operations pass a memory of floats and of 64-bit numbers along.  The null
  test of the pointer to the structure itself is the one thing \<open>on_struct\<close> adds to an operation.
  The contract of the two ways to append is the locale \<open>arena_append\<close>.
\<close>

section \<open>Memory and the structure\<close>

record vec_mem =
  vm_f :: fmem
  vm_q :: "nat \<Rightarrow> nat"

record cyboudb_vector_arena =
  va_struct_size :: nat
  va_abi_version :: nat
  va_base :: nat
  va_capacity :: nat
  va_used :: nat
  va_dimensions :: nat
  va_stride :: nat
  va_count :: nat

definition VARENA_SIZE :: nat where "VARENA_SIZE = 56"

definition VECTOR_DIM_MAX :: nat where "VECTOR_DIM_MAX = 0x3fffffffffffffff"

definition on_struct ::
    "('s \<Rightarrow> vec_mem \<Rightarrow> vector_status \<times> 's \<times> vec_mem)
     \<Rightarrow> 's option \<Rightarrow> vec_mem \<Rightarrow> vector_status \<times> 's option \<times> vec_mem" where
  "on_struct f p mem =
    (case p of None \<Rightarrow> (V_INVALID, None, mem)
     | Some s \<Rightarrow> (case f s mem of (st, s', mem') \<Rightarrow> (st, Some s', mem')))"

section \<open>Operations\<close>

definition vector_arena_init ::
    "cyboudb_vector_arena \<Rightarrow> nat \<Rightarrow> nat \<Rightarrow> nat \<Rightarrow> vector_status \<times> cyboudb_vector_arena" where
  "vector_arena_init a base cap dims =
    (if base = 0 \<or> dims = 0 \<or> VECTOR_DIM_MAX < dims \<or> cap < dims * 4 \<or> 2 ^ 64 \<le> base + cap
     then (V_INVALID, a)
     else (V_OK, \<lparr>va_struct_size = VARENA_SIZE, va_abi_version = CybouDB_VECTOR_ABI_VERSION,
       va_base = base, va_capacity = cap, va_used = 0, va_dimensions = dims, va_stride = dims * 4,
       va_count = 0\<rparr>))"

text \<open>The macro \<open>VARENA_VALIDATE_APPEND\<close>, the pointer to the structure apart.\<close>

definition varena_validate_append :: "cyboudb_vector_arena \<Rightarrow> nat \<Rightarrow> nat \<Rightarrow> bool" where
  "varena_validate_append a inp oid \<longleftrightarrow>
     va_struct_size a = VARENA_SIZE \<and> va_abi_version a = CybouDB_VECTOR_ABI_VERSION
   \<and> inp \<noteq> 0 \<and> oid \<noteq> 0 \<and> oid + 8 < 2 ^ 64
   \<and> va_dimensions a \<noteq> 0 \<and> va_dimensions a \<le> VECTOR_DIM_MAX \<and> va_dimensions a * 4 = va_stride a
   \<and> va_base a \<noteq> 0 \<and> va_base a + va_capacity a < 2 ^ 64 \<and> inp + va_dimensions a * 4 < 2 ^ 64
   \<and> va_count a * va_stride a < 2 ^ 64 \<and> va_count a * va_stride a = va_used a
   \<and> va_used a \<le> va_capacity a"

definition varena_full :: "cyboudb_vector_arena \<Rightarrow> bool" where
  "varena_full a \<longleftrightarrow> 2 ^ 64 \<le> va_used a + va_stride a \<or> va_capacity a < va_used a + va_stride a"

function raw_check_loop :: "fmem \<Rightarrow> nat \<Rightarrow> nat \<Rightarrow> nat \<Rightarrow> bool" where
  "raw_check_loop m inp n i =
    (if n \<le> i then True else if nonfinite_test (m (inp + 4 * i)) then False
     else raw_check_loop m inp n (i + 1))"
  by pat_completeness auto
termination by (relation "measure (\<lambda>(m, inp, n, i). n - i)") auto

function raw_copy_loop :: "nat \<Rightarrow> nat \<Rightarrow> nat \<Rightarrow> nat \<Rightarrow> fmem \<Rightarrow> fmem" where
  "raw_copy_loop inp dst n i m =
    (if n \<le> i then m else raw_copy_loop inp dst n (i + 1) (m(dst + 4 * i := m (inp + 4 * i))))"
  by pat_completeness auto
termination by (relation "measure (\<lambda>(inp, dst, n, i, m). n - i)") auto

declare raw_check_loop.simps [simp del] raw_copy_loop.simps [simp del]

text \<open>The end of both ways to append: hand out the slot and count it.\<close>

definition varena_take_slot ::
    "cyboudb_vector_arena \<Rightarrow> nat \<Rightarrow> (nat \<Rightarrow> nat) \<Rightarrow> cyboudb_vector_arena \<times> (nat \<Rightarrow> nat)" where
  "varena_take_slot a oid q =
    (a\<lparr>va_count := (va_count a + 1) mod 2 ^ 64, va_used := (va_used a + va_stride a) mod 2 ^ 64\<rparr>,
     q(oid := va_count a))"

definition vector_arena_append_raw ::
    "nat \<Rightarrow> nat \<Rightarrow> cyboudb_vector_arena \<Rightarrow> vec_mem \<Rightarrow> vector_status \<times> cyboudb_vector_arena \<times> vec_mem" where
  "vector_arena_append_raw inp oid a mem =
    (if \<not> varena_validate_append a inp oid then (V_INVALID, a, mem)
     else if varena_full a then (V_FULL, a, mem)
     else if \<not> raw_check_loop (vm_f mem) inp (va_dimensions a) 0 then (V_NONFINITE, a, mem)
     else let f = raw_copy_loop inp (va_base a + va_used a) (va_dimensions a) 0 (vm_f mem);
              (a', q) = varena_take_slot a oid (vm_q mem)
       in (V_OK, a', \<lparr>vm_f = f, vm_q = q\<rparr>))"

definition vector_arena_append_normalized ::
    "vec_cpu \<Rightarrow> nat \<Rightarrow> nat \<Rightarrow> cyboudb_vector_arena \<Rightarrow> vec_mem
     \<Rightarrow> vector_status \<times> cyboudb_vector_arena \<times> vec_mem" where
  "vector_arena_append_normalized cpu inp oid a mem =
    (if \<not> varena_validate_append a inp oid then (V_INVALID, a, mem)
     else if varena_full a then (V_FULL, a, mem)
     else case vector_normalize_f32_resolve cpu (vm_f mem) inp (va_base a + va_used a) (va_dimensions a) of
       (st, f) \<Rightarrow>
         if st \<noteq> V_OK then (st, a, mem\<lparr>vm_f := f\<rparr>)
         else let (a', q) = varena_take_slot a oid (vm_q mem) in (V_OK, a', \<lparr>vm_f = f, vm_q = q\<rparr>))"

text \<open>The address of a vector, 0 for none.\<close>

definition vector_arena_get :: "cyboudb_vector_arena \<Rightarrow> nat \<Rightarrow> nat" where
  "vector_arena_get a vid =
    (if va_struct_size a \<noteq> VARENA_SIZE \<or> va_abi_version a \<noteq> CybouDB_VECTOR_ABI_VERSION
       \<or> 2 ^ 64 \<le> va_count a * va_stride a \<or> va_count a * va_stride a \<noteq> va_used a
       \<or> va_capacity a < va_count a * va_stride a
       \<or> va_base a = 0 \<or> 2 ^ 64 \<le> va_base a + va_capacity a \<or> va_count a \<le> vid
       \<or> 2 ^ 64 \<le> vid * va_stride a \<or> 2 ^ 64 \<le> vid * va_stride a + va_stride a
       \<or> va_capacity a < vid * va_stride a + va_stride a \<or> 2 ^ 64 \<le> vid * va_stride a + va_base a
     then 0 else vid * va_stride a + va_base a)"

section \<open>The public entry points\<close>

definition cyboudb_vector_arena_init ::
    "cyboudb_vector_arena option \<Rightarrow> nat \<Rightarrow> nat \<Rightarrow> nat \<Rightarrow> vector_status \<times> cyboudb_vector_arena option" where
  "cyboudb_vector_arena_init p memory cap dims =
    (case p of None \<Rightarrow> (V_INVALID, None)
     | Some a \<Rightarrow> (case vector_arena_init a memory cap dims of (st, a') \<Rightarrow> (st, Some a')))"

definition cyboudb_vector_arena_append_raw ::
    "cyboudb_vector_arena option \<Rightarrow> nat \<Rightarrow> nat \<Rightarrow> vec_mem
     \<Rightarrow> vector_status \<times> cyboudb_vector_arena option \<times> vec_mem" where
  "cyboudb_vector_arena_append_raw p inp oid = on_struct (vector_arena_append_raw inp oid) p"

definition cyboudb_vector_arena_append_normalized ::
    "vec_cpu \<Rightarrow> cyboudb_vector_arena option \<Rightarrow> nat \<Rightarrow> nat \<Rightarrow> vec_mem
     \<Rightarrow> vector_status \<times> cyboudb_vector_arena option \<times> vec_mem" where
  "cyboudb_vector_arena_append_normalized cpu p inp oid =
    on_struct (vector_arena_append_normalized cpu inp oid) p"

definition cyboudb_vector_arena_append ::
    "cyboudb_vector_arena option \<Rightarrow> nat \<Rightarrow> nat \<Rightarrow> vec_mem
     \<Rightarrow> vector_status \<times> cyboudb_vector_arena option \<times> vec_mem" where
  "cyboudb_vector_arena_append p inp oid mem = cyboudb_vector_arena_append_raw p inp oid mem"

definition cyboudb_vector_arena_get :: "cyboudb_vector_arena option \<Rightarrow> nat \<Rightarrow> nat" where
  "cyboudb_vector_arena_get p vid = (case p of None \<Rightarrow> 0 | Some a \<Rightarrow> vector_arena_get a vid)"

section \<open>What an arena holds\<close>

definition vector_at :: "fmem \<Rightarrow> nat \<Rightarrow> nat \<Rightarrow> f32 list" where
  "vector_at m p n = map (\<lambda>i. m (p + 4 * i)) [0..<n]"

definition arena_ok :: "cyboudb_vector_arena \<Rightarrow> bool" where
  "arena_ok a \<longleftrightarrow>
     va_struct_size a = VARENA_SIZE \<and> va_abi_version a = CybouDB_VECTOR_ABI_VERSION
   \<and> va_dimensions a \<noteq> 0 \<and> va_dimensions a \<le> VECTOR_DIM_MAX \<and> va_stride a = va_dimensions a * 4
   \<and> va_base a \<noteq> 0 \<and> va_base a + va_capacity a < 2 ^ 64
   \<and> va_used a = va_count a * va_stride a \<and> va_used a \<le> va_capacity a"

definition arena_vectors :: "cyboudb_vector_arena \<Rightarrow> fmem \<Rightarrow> f32 list list" where
  "arena_vectors a m = map (\<lambda>i. vector_at m (va_base a + i * va_stride a) (va_dimensions a)) [0..<va_count a]"

text \<open>An argument the caller may pass: pointers that are not null to ranges that do not wrap, the
  input not behind the beginning of the slot it goes to and inside it.\<close>

definition append_args :: "cyboudb_vector_arena \<Rightarrow> nat \<Rightarrow> nat \<Rightarrow> bool" where
  "append_args a inp oid \<longleftrightarrow> inp \<noteq> 0 \<and> inp + va_dimensions a * 4 < 2 ^ 64 \<and> oid \<noteq> 0 \<and> oid + 8 < 2 ^ 64
     \<and> apart inp (va_base a + va_used a) (va_dimensions a)"

lemma arena_ok_init: "vector_arena_init a base cap dims = (V_OK, a') \<Longrightarrow> arena_ok a' \<and> va_count a' = 0"
  by (auto simp: vector_arena_init_def arena_ok_def split: if_splits)

lemma validate_append_iff:
  "arena_ok a \<Longrightarrow> append_args a inp oid \<Longrightarrow> varena_validate_append a inp oid"
  by (auto simp: arena_ok_def append_args_def varena_validate_append_def)

lemma varena_full_iff: "arena_ok a \<Longrightarrow> varena_full a \<longleftrightarrow> va_capacity a < (va_count a + 1) * va_stride a"
  by (auto simp: arena_ok_def varena_full_def algebra_simps)

lemma raw_check_loop_eq: "raw_check_loop m inp n i = norm_validate m inp n i"
proof (induction m inp n i rule: raw_check_loop.induct)
  case (1 m inp n i)
  then show ?case by (subst raw_check_loop.simps, subst norm_validate.simps) auto
qed

lemma raw_check_finite: "raw_check_loop m inp n 0 \<longleftrightarrow> list_all f32_finite (vector_at m inp n)"
  by (auto simp: raw_check_loop_eq norm_validate_iff vector_at_def list_all_iff)

lemma raw_copy_store:
  assumes "apart inp dst n" "j \<le> n"
  shows "raw_copy_loop inp dst n j (store_lanes dst (vector_at m inp j) m)
    = store_lanes dst (vector_at m inp n) m"
  using assms(2)
proof (induction "n - j" arbitrary: j)
  case 0
  then show ?case by (subst raw_copy_loop.simps) simp
next
  case (Suc d)
  have j: "j < n" using Suc by simp
  have "store_lanes dst (vector_at m inp j) m (inp + 4 * j) = m (inp + 4 * j)"
    by (rule store_lanes_behind [OF assms(1) _ _ j, of _ j]) (simp_all add: vector_at_def)
  then have "store_lanes dst (vector_at m inp (Suc j)) m = (store_lanes dst (vector_at m inp j) m)
      (dst + 4 * j := store_lanes dst (vector_at m inp j) m (inp + 4 * j))"
    by (simp add: vector_at_def store_lanes_append)
  then show ?case using Suc(1) [of "j + 1"] Suc(2) j
    by (subst raw_copy_loop.simps) simp
qed

lemmas raw_copy_writes = raw_copy_store [where j = 0, unfolded vector_at_def, simplified, folded vector_at_def]

lemma take_slot:
  assumes "arena_ok a" "\<not> varena_full a"
  shows "varena_take_slot a oid q = (a\<lparr>va_count := va_count a + 1, va_used := va_used a + va_stride a\<rparr>, q(oid := va_count a))"
proof -
  have s: "va_used a + va_stride a < 2 ^ 64" using assms by (simp add: varena_full_def)
  moreover have "(va_count a + 1) * 1 \<le> (va_count a + 1) * va_stride a"
    using assms(1) by (intro mult_le_mono2) (auto simp: arena_ok_def)
  then have "va_count a + 1 \<le> va_used a + va_stride a"
    using assms(1) by (simp add: arena_ok_def)
  ultimately have "va_count a + 1 < 2 ^ 64" by linarith
  then have "(va_count a + 1) mod 2 ^ 64 = va_count a + 1" by (rule mod_less)
  moreover have "(va_used a + va_stride a) mod 2 ^ 64 = va_used a + va_stride a" using s by (rule mod_less)
  ultimately show ?thesis by (simp only: varena_take_slot_def)
qed

text \<open>Writing one vector into the free slot.\<close>

definition slot_taken :: "cyboudb_vector_arena \<Rightarrow> cyboudb_vector_arena" where
  "slot_taken a = a\<lparr>va_count := va_count a + 1, va_used := va_used a + va_stride a\<rparr>"

lemma slot_taken_ok: "arena_ok a \<Longrightarrow> \<not> varena_full a \<Longrightarrow> arena_ok (slot_taken a)"
  by (auto simp: arena_ok_def slot_taken_def varena_full_def algebra_simps)

lemma slot_written:
  assumes "arena_ok a" "length vs = va_dimensions a"
  shows "arena_vectors (slot_taken a) (store_lanes (va_base a + va_used a) vs m) = arena_vectors a m @ [vs]"
proof -
  let ?m = "store_lanes (va_base a + va_used a) vs m"
  have stride: "va_stride a = va_dimensions a * 4" and used: "va_used a = va_count a * va_stride a"
    using assms(1) by (simp_all add: arena_ok_def)
  have "?m (va_base a + i * va_stride a + 4 * j) = m (va_base a + i * va_stride a + 4 * j)"
    if "i < va_count a" "j < va_dimensions a" for i j
  proof -
    have "i * va_stride a + 4 * j < (i + 1) * va_stride a" using that(2) stride by simp
    also have "\<dots> \<le> va_used a" unfolding used using that(1) by (intro mult_le_mono1) simp
    finally show ?thesis by (intro store_lanes_outside) auto
  qed
  then have old: "vector_at ?m (va_base a + i * va_stride a) (va_dimensions a)
      = vector_at m (va_base a + i * va_stride a) (va_dimensions a)" if "i < va_count a" for i
    using that by (simp add: vector_at_def)
  have new: "vector_at ?m (va_base a + va_used a) (va_dimensions a) = vs"
    by (rule nth_equalityI) (simp_all add: vector_at_def assms(2) store_lanes_inside)
  show ?thesis
    using old new by (simp add: arena_vectors_def slot_taken_def flip: used)
qed

lemma slot_outside:
  assumes "arena_ok a" "\<not> varena_full a" "length vs = va_dimensions a"
    and "p < va_base a + va_used a \<or> va_base a + va_capacity a \<le> p"
  shows "store_lanes (va_base a + va_used a) vs m p = m p"
proof (rule store_lanes_outside, intro allI impI)
  fix i assume "i < length vs"
  then have "4 * i < va_stride a" using assms(1,3) by (simp add: arena_ok_def)
  moreover have "va_used a + va_stride a \<le> va_capacity a" using assms(2) by (simp add: varena_full_def)
  ultimately show "p \<noteq> va_base a + va_used a + 4 * i" using assms(4) by linarith
qed

section \<open>The contract of appending\<close>

text \<open>What a caller may rely on: a call that does not answer OK changes nothing; one that does adds
  its vector behind those already there, answers its position as the identifier and writes nowhere
  else.  \<open>payload\<close> is the vector a call with this input stores.\<close>

locale arena_append =
  fixes append :: "nat \<Rightarrow> nat \<Rightarrow> cyboudb_vector_arena \<Rightarrow> vec_mem \<Rightarrow> vector_status \<times> cyboudb_vector_arena \<times> vec_mem"
    and payload :: "f32 list \<Rightarrow> (f32 list, vector_status) sum"
  assumes invalid: "\<not> varena_validate_append a inp oid \<Longrightarrow> append inp oid a mem = (V_INVALID, a, mem)"
    and full: "varena_validate_append a inp oid \<Longrightarrow> varena_full a \<Longrightarrow> append inp oid a mem = (V_FULL, a, mem)"
    and refused: "arena_ok a \<Longrightarrow> append_args a inp oid \<Longrightarrow> \<not> varena_full a
      \<Longrightarrow> payload (vector_at (vm_f mem) inp (va_dimensions a)) = Inr st \<Longrightarrow> append inp oid a mem = (st, a, mem)"
    and accepted: "arena_ok a \<Longrightarrow> append_args a inp oid \<Longrightarrow> \<not> varena_full a
      \<Longrightarrow> payload (vector_at (vm_f mem) inp (va_dimensions a)) = Inl vs
      \<Longrightarrow> append inp oid a mem = (V_OK, slot_taken a,
           \<lparr>vm_f = store_lanes (va_base a + va_used a) vs (vm_f mem), vm_q = (vm_q mem)(oid := va_count a)\<rparr>)"
    and payload_length: "payload us = Inl vs \<Longrightarrow> length vs = length us"
    and payload_status: "payload us = Inr st \<Longrightarrow> st = V_INVALID \<or> st = V_NONFINITE"
begin

definition outcome :: "cyboudb_vector_arena \<Rightarrow> vec_mem \<Rightarrow> nat \<Rightarrow> nat
    \<Rightarrow> vector_status \<times> cyboudb_vector_arena \<times> vec_mem \<Rightarrow> bool" where
  "outcome a mem inp oid r \<longleftrightarrow> (case r of (st, a', mem') \<Rightarrow>
     if va_capacity a < (va_count a + 1) * va_stride a then st = V_FULL \<and> a' = a \<and> mem' = mem
     else case payload (vector_at (vm_f mem) inp (va_dimensions a)) of
       Inr e \<Rightarrow> st = e \<and> a' = a \<and> mem' = mem
     | Inl vs \<Rightarrow> st = V_OK \<and> arena_ok a'
         \<and> arena_vectors a' (vm_f mem') = arena_vectors a (vm_f mem) @ [vs]
         \<and> vm_q mem' = (vm_q mem)(oid := va_count a) \<and> va_count a' = va_count a + 1
         \<and> va_base a' = va_base a \<and> va_capacity a' = va_capacity a \<and> va_dimensions a' = va_dimensions a
         \<and> (\<forall>p. p < va_base a + va_used a \<or> va_base a + va_capacity a \<le> p \<longrightarrow> vm_f mem' p = vm_f mem p))"

lemma append_settles:
  assumes ok: "arena_ok a" and args: "append_args a inp oid"
  shows "outcome a mem inp oid (append inp oid a mem)"
proof (cases "varena_full a")
  case True
  then show ?thesis using ok full [OF validate_append_iff [OF ok args]]
    by (simp add: outcome_def varena_full_iff)
next
  case nf: False
  show ?thesis
  proof (cases "payload (vector_at (vm_f mem) inp (va_dimensions a))")
    case (Inr e)
    then show ?thesis using nf refused [OF ok args nf Inr] ok
      by (simp add: outcome_def varena_full_iff)
  next
    case (Inl vs)
    have len: "length vs = va_dimensions a" using payload_length [OF Inl] by (simp add: vector_at_def)
    show ?thesis
      unfolding outcome_def accepted [OF ok args nf Inl]
      using Inl nf ok len slot_written [OF ok len] slot_taken_ok [OF ok nf] slot_outside [OF ok nf len]
      by (auto simp: varena_full_iff) (simp_all add: slot_taken_def)
  qed
qed

end

definition raw_payload :: "f32 list \<Rightarrow> (f32 list, vector_status) sum" where
  "raw_payload us = (if list_all f32_finite us then Inl us else Inr V_NONFINITE)"

definition normalized_payload :: "f32 list \<Rightarrow> (f32 list, vector_status) sum" where
  "normalized_payload us =
    (if \<not> list_all f32_finite us then Inr V_NONFINITE
     else let s = foldl addss 0 (map (\<lambda>u. mulss u u) us) in
       if \<not> f32_finite s then Inr V_NONFINITE else if f32_bits s = 0 then Inr V_INVALID
       else Inl (map (\<lambda>u. divss u (sqrtss s)) us))"

lemma normalize_payload:
  assumes "apart inp out n" "inp \<noteq> 0" "out \<noteq> 0" "n \<noteq> 0"
  shows "vector_normalize_f32_resolve cpu m inp out n =
    (case normalized_payload (vector_at m inp n) of
       Inl vs \<Rightarrow> (V_OK, store_lanes out vs m) | Inr e \<Rightarrow> (e, m))"
proof -
  have "map (square_lane m inp) [0..<n] = map (\<lambda>u. mulss u u) (vector_at m inp n)"
    by (simp add: vector_at_def square_lane_def)
  moreover have "all_finite m inp n = list_all f32_finite (vector_at m inp n)"
    by (auto simp: all_finite_def vector_at_def list_all_iff)
  moreover have "scaled_at inp out n r m = store_lanes out (map (\<lambda>u. divss u r) (vector_at m inp n)) m" for r
    by (simp add: scaled_at_def vector_at_def comp_def)
  ultimately show ?thesis
    using assms(2-4) by (simp add: normalize_resolve_spec [OF assms(1)] normalize_spec_def
        normalized_payload_def norm_ready_iff Let_def)
qed

lemma slot_address: "arena_ok a \<Longrightarrow> va_base a + va_used a \<noteq> 0" "arena_ok a \<Longrightarrow> va_dimensions a \<noteq> 0"
  by (simp_all add: arena_ok_def)

interpretation raw: arena_append vector_arena_append_raw raw_payload
proof
  fix a inp oid mem vs st us
  show "\<not> varena_validate_append a inp oid \<Longrightarrow> vector_arena_append_raw inp oid a mem = (V_INVALID, a, mem)"
    and "varena_validate_append a inp oid \<Longrightarrow> varena_full a \<Longrightarrow> vector_arena_append_raw inp oid a mem = (V_FULL, a, mem)"
    by (simp_all add: vector_arena_append_raw_def)
  assume ok: "arena_ok a" and args: "append_args a inp oid" and nf: "\<not> varena_full a"
  show "raw_payload (vector_at (vm_f mem) inp (va_dimensions a)) = Inr st
      \<Longrightarrow> vector_arena_append_raw inp oid a mem = (st, a, mem)"
    using validate_append_iff [OF ok args] nf
    by (simp add: vector_arena_append_raw_def raw_payload_def raw_check_finite split: if_splits)
  show "raw_payload (vector_at (vm_f mem) inp (va_dimensions a)) = Inl vs
      \<Longrightarrow> vector_arena_append_raw inp oid a mem = (V_OK, slot_taken a,
           \<lparr>vm_f = store_lanes (va_base a + va_used a) vs (vm_f mem), vm_q = (vm_q mem)(oid := va_count a)\<rparr>)"
    using validate_append_iff [OF ok args] nf args take_slot [OF ok nf]
    by (auto simp: vector_arena_append_raw_def raw_payload_def raw_check_finite append_args_def
        raw_copy_writes slot_taken_def Let_def split: if_splits)
qed (auto simp: raw_payload_def split: if_splits)

interpretation nrm: arena_append "vector_arena_append_normalized cpu" normalized_payload for cpu
proof
  fix a inp oid mem vs st us
  show "\<not> varena_validate_append a inp oid \<Longrightarrow> vector_arena_append_normalized cpu inp oid a mem = (V_INVALID, a, mem)"
    and "varena_validate_append a inp oid \<Longrightarrow> varena_full a
      \<Longrightarrow> vector_arena_append_normalized cpu inp oid a mem = (V_FULL, a, mem)"
    by (simp_all add: vector_arena_append_normalized_def)
  assume ok: "arena_ok a" and args: "append_args a inp oid" and nf: "\<not> varena_full a"
  have n: "vector_normalize_f32_resolve cpu (vm_f mem) inp (va_base a + va_used a) (va_dimensions a) =
    (case normalized_payload (vector_at (vm_f mem) inp (va_dimensions a)) of
       Inl vs \<Rightarrow> (V_OK, store_lanes (va_base a + va_used a) vs (vm_f mem)) | Inr e \<Rightarrow> (e, vm_f mem))"
    using args slot_address [OF ok] by (intro normalize_payload) (simp_all add: append_args_def)
  show "normalized_payload (vector_at (vm_f mem) inp (va_dimensions a)) = Inr st
      \<Longrightarrow> vector_arena_append_normalized cpu inp oid a mem = (st, a, mem)"
    using validate_append_iff [OF ok args] nf
    by (auto simp: vector_arena_append_normalized_def n) (auto simp: normalized_payload_def Let_def split: if_splits)
  show "normalized_payload (vector_at (vm_f mem) inp (va_dimensions a)) = Inl vs
      \<Longrightarrow> vector_arena_append_normalized cpu inp oid a mem = (V_OK, slot_taken a,
           \<lparr>vm_f = store_lanes (va_base a + va_used a) vs (vm_f mem), vm_q = (vm_q mem)(oid := va_count a)\<rparr>)"
    using validate_append_iff [OF ok args] nf take_slot [OF ok nf]
    by (simp add: vector_arena_append_normalized_def n slot_taken_def)
qed (auto simp: normalized_payload_def Let_def split: if_splits)


section \<open>Storing and reading back\<close>

lemma vector_arena_get_eq:
  assumes "arena_ok a"
  shows "vector_arena_get a vid = (if vid < va_count a then va_base a + vid * va_stride a else 0)"
proof (cases "vid < va_count a")
  case True
  then have "(vid + 1) * va_stride a \<le> va_count a * va_stride a" by (intro mult_le_mono1) simp
  moreover have c: "va_count a * va_stride a = va_used a" using assms by (simp add: arena_ok_def)
  ultimately have "vid * va_stride a + va_stride a \<le> va_used a" by simp
  moreover have "va_used a \<le> va_capacity a" "va_base a + va_capacity a < 2 ^ 64" "va_base a \<noteq> 0"
    "va_struct_size a = VARENA_SIZE" "va_abi_version a = CybouDB_VECTOR_ABI_VERSION"
    using assms unfolding arena_ok_def by blast+
  ultimately show ?thesis using True unfolding vector_arena_get_def c by auto
qed (simp add: vector_arena_get_def)

lemma arena_vectors_get:
  "arena_ok a \<Longrightarrow> i < va_count a \<Longrightarrow> vector_at m (vector_arena_get a i) (va_dimensions a) = arena_vectors a m ! i"
  by (simp add: vector_arena_get_eq arena_vectors_def)

lemma length_arena_vectors [simp]: "length (arena_vectors a m) = va_count a"
  by (simp add: arena_vectors_def)

text \<open>C27 An arena is a list of vectors with stable addresses.  With arguments in range, an append
  answers FULL exactly when the next slot would not fit in the capacity and NONFINITE exactly when
  it would but the vector has a number that is not finite, changing nothing in both cases; otherwise
  it answers OK, the identifier it hands out is the number of vectors before it, the address of
  that identifier holds the vector the caller passed, and every earlier identifier keeps its address
  and its vector.\<close>

theorem arena_append_then_get:
  assumes "arena_ok a" "append_args a inp oid"
    and "cyboudb_vector_arena_append (Some a) inp oid mem = (st, p, mem')"
  shows "if va_capacity a < (va_count a + 1) * va_stride a then st = V_FULL \<and> p = Some a \<and> mem' = mem
    else if \<not> list_all f32_finite (vector_at (vm_f mem) inp (va_dimensions a))
      then st = V_NONFINITE \<and> p = Some a \<and> mem' = mem
    else st = V_OK \<and> vm_q mem' oid = va_count a
      \<and> vector_at (vm_f mem') (cyboudb_vector_arena_get p (vm_q mem' oid)) (va_dimensions a)
          = vector_at (vm_f mem) inp (va_dimensions a)
      \<and> (\<forall>i<va_count a. cyboudb_vector_arena_get p i = cyboudb_vector_arena_get (Some a) i
          \<and> vector_at (vm_f mem') (cyboudb_vector_arena_get p i) (va_dimensions a)
            = vector_at (vm_f mem) (cyboudb_vector_arena_get p i) (va_dimensions a))"
proof -
  obtain a' where r: "vector_arena_append_raw inp oid a mem = (st, a', mem')" and p: "p = Some a'"
    using assms(3) by (auto simp: cyboudb_vector_arena_append_def cyboudb_vector_arena_append_raw_def
        on_struct_def split: prod.splits)
  have o: "raw.outcome a mem inp oid (st, a', mem')"
    using raw.append_settles [OF assms(1,2), of mem] by (simp add: r)
  show ?thesis
  proof (cases "va_capacity a < (va_count a + 1) * va_stride a
      \<or> \<not> list_all f32_finite (vector_at (vm_f mem) inp (va_dimensions a))")
    case True
    then show ?thesis using o by (auto simp: raw.outcome_def raw_payload_def p)
  next
    case False
    then have st: "st = V_OK" and ok: "arena_ok a'" and cnt: "va_count a' = va_count a + 1"
      and vs: "arena_vectors a' (vm_f mem') = arena_vectors a (vm_f mem) @ [vector_at (vm_f mem) inp (va_dimensions a)]"
      and q: "vm_q mem' oid = va_count a" and same: "va_base a' = va_base a" "va_dimensions a' = va_dimensions a"
      using o by (simp_all add: raw.outcome_def raw_payload_def)
    have get: "vector_arena_get a' i = vector_arena_get a i" if "i < va_count a" for i
      using that ok assms(1) by (simp add: vector_arena_get_eq cnt same) (simp add: arena_ok_def same)
    have at: "vector_at (vm_f mem') (vector_arena_get a' i) (va_dimensions a) = arena_vectors a' (vm_f mem') ! i"
      if "i < va_count a'" for i using arena_vectors_get [OF ok that] by (simp add: same)
    have "vector_at (vm_f mem') (vector_arena_get a i) (va_dimensions a)
        = vector_at (vm_f mem) (vector_arena_get a i) (va_dimensions a)" if "i < va_count a" for i
      using at [of i] get [OF that] arena_vectors_get [OF assms(1) that, of "vm_f mem"] that
      by (simp add: cnt vs nth_append)
    then show ?thesis using False get at [of "va_count a"]
      by (simp add: cyboudb_vector_arena_get_def p st q cnt vs nth_append)
  qed
qed

text \<open>The second vector of an arena with room for two, appended from outside.\<close>

definition sample_arena :: cyboudb_vector_arena where
  "sample_arena = \<lparr>va_struct_size = 56, va_abi_version = 2, va_base = 4096, va_capacity = 16,
    va_used = 8, va_dimensions = 2, va_stride = 8, va_count = 1\<rparr>"

lemma sample_arena_ok: "arena_ok sample_arena" "append_args sample_arena 64 128"
  by (simp_all add: sample_arena_def arena_ok_def append_args_def VARENA_SIZE_def
      CybouDB_VECTOR_ABI_VERSION_def VECTOR_DIM_MAX_def)

lemma sample_vector: "vector_at (\<lambda>_. c) p 2 = [c, c]"
  by (simp add: vector_at_def numeral_2_eq_2)

theorem arena_append_then_get_witness:
  "\<exists>p mem'. cyboudb_vector_arena_append (Some sample_arena) 64 128
       \<lparr>vm_f = \<lambda>_. 0x3f800000, vm_q = \<lambda>_. 0\<rparr> = (V_OK, p, mem')
     \<and> vm_q mem' 128 = 1 \<and> vector_at (vm_f mem') (cyboudb_vector_arena_get p 1) 2 = [0x3f800000, 0x3f800000]"
proof -
  obtain st p mem' where r: "cyboudb_vector_arena_append (Some sample_arena) 64 128
      \<lparr>vm_f = \<lambda>_. 0x3f800000, vm_q = \<lambda>_. 0\<rparr> = (st, p, mem')" by (metis prod_cases3)
  have "\<not> va_capacity sample_arena < (va_count sample_arena + 1) * va_stride sample_arena"
    and d: "va_dimensions sample_arena = 2" "va_count sample_arena = 1"
    by (simp_all add: sample_arena_def)
  then show ?thesis using arena_append_then_get [OF sample_arena_ok r] r
    by (auto simp: sample_vector f32_samples)
qed

text \<open>Appending normalized adds exactly one vector, the quotients of the input by the root of the
  sum of its squares, behind the vectors of the arena, which all stay as they are, and writes no
  float outside the free part of the arena; it refuses as the plain append does, and with
  NONFINITE or INVALID where the input cannot be normalized, and a refusal changes nothing.\<close>

theorem arena_append_normalizes:
  assumes "arena_ok a" "append_args a inp oid"
    and "cyboudb_vector_arena_append_normalized cpu (Some a) inp oid mem = (st, p, mem')"
    and "us = vector_at (vm_f mem) inp (va_dimensions a)"
    and "s = foldl addss 0 (map (\<lambda>u. mulss u u) us)"
  shows "st = (if va_capacity a < (va_count a + 1) * va_stride a then V_FULL
      else if \<not> list_all f32_finite us \<or> \<not> f32_finite s then V_NONFINITE
      else if f32_bits s = 0 then V_INVALID else V_OK)
    \<and> (st \<noteq> V_OK \<longrightarrow> p = Some a \<and> mem' = mem)
    \<and> (st = V_OK \<longrightarrow> (\<exists>a'. p = Some a' \<and> arena_ok a' \<and> vm_q mem' = (vm_q mem)(oid := va_count a)
         \<and> arena_vectors a' (vm_f mem') = arena_vectors a (vm_f mem) @ [map (\<lambda>u. divss u (sqrtss s)) us]
         \<and> (\<forall>x. x < va_base a + va_used a \<or> va_base a + va_capacity a \<le> x \<longrightarrow> vm_f mem' x = vm_f mem x)))"
proof -
  obtain a' where r: "vector_arena_append_normalized cpu inp oid a mem = (st, a', mem')" and p: "p = Some a'"
    using assms(3) by (auto simp: cyboudb_vector_arena_append_normalized_def on_struct_def split: prod.splits)
  have o: "nrm.outcome a mem inp oid (st, a', mem')"
    using nrm.append_settles [OF assms(1,2), where cpu = cpu and mem = mem] by (simp add: r)
  have pay: "normalized_payload (vector_at (vm_f mem) inp (va_dimensions a)) =
    (if \<not> list_all f32_finite us \<or> \<not> f32_finite s then Inr V_NONFINITE
     else if f32_bits s = 0 then Inr V_INVALID else Inl (map (\<lambda>u. divss u (sqrtss s)) us))"
    by (simp add: normalized_payload_def assms(5) Let_def flip: assms(4))
  show ?thesis
    using o unfolding nrm.outcome_def pay by (auto simp: p split: if_splits)
qed

theorem arena_append_normalizes_witness:
  "\<exists>a' mem'. cyboudb_vector_arena_append_normalized \<lparr>force_scalar = False, has_avx2 = False\<rparr>
       (Some sample_arena) 64 128 \<lparr>vm_f = \<lambda>_. 0x3f800000, vm_q = \<lambda>_. 0\<rparr> = (V_OK, Some a', mem')
     \<and> arena_vectors a' (vm_f mem') = [[0x3f800000, 0x3f800000], [0x3f3504f3, 0x3f3504f3]]"
proof -
  let ?cpu = "\<lparr>force_scalar = False, has_avx2 = False\<rparr>"
  let ?mem = "\<lparr>vm_f = \<lambda>_. 0x3f800000, vm_q = \<lambda>_. 0\<rparr>"
  obtain st p mem' where r: "cyboudb_vector_arena_append_normalized ?cpu (Some sample_arena) 64 128 ?mem
      = (st, p, mem')" by (metis prod_cases3)
  have room: "\<not> va_capacity sample_arena < (va_count sample_arena + 1) * va_stride sample_arena"
    and d: "va_dimensions sample_arena = 2" and v: "arena_vectors sample_arena (\<lambda>_. 0x3f800000) = [[0x3f800000, 0x3f800000]]"
    by (simp_all add: sample_arena_def arena_vectors_def sample_vector)
  have us: "[0x3f800000, 0x3f800000] = vector_at (vm_f ?mem) 64 (va_dimensions sample_arena)"
    by (simp add: d sample_vector)
  show ?thesis
    using arena_append_normalizes [OF sample_arena_ok r us refl] r room v
    by (simp add: f32_samples f32_bits_def) blast
qed

end
