(* ===== verification/Vector_Topk.thy ===== *)
theory Vector_Topk
  imports Vector_Arena
begin

text \<open>
  Exact search for the best vectors, \<^verbatim>\<open>src/sql/vector_topk.asm\<close>: the search descriptor, the
  streaming session (begin, feed, finish) and the search over an array in one call, for cosine
  similarity of normalized vectors and for squared distance.  The four loops of the file differ in
  the kernel, in the direction of two comparisons and in where the number of results is kept; the
  model has the metric as a parameter.  Results are written through the pointers of the descriptor
  into the memory the vectors are read from.
\<close>

section \<open>The descriptor\<close>

record cyboudb_vector_topk =
  vt_struct_size :: nat
  vt_abi_version :: nat
  vt_query :: nat
  vt_vectors :: nat
  vt_count :: nat
  vt_dimensions :: nat
  vt_k :: nat
  vt_stride :: nat
  vt_out_ids :: nat
  vt_out_scores :: nat
  vt_out_count :: nat
  vt_candidates :: nat
  vt_evaluated_count :: nat
  vt_reverse :: nat

definition VTOPK_STATE_SIZE :: nat where "VTOPK_STATE_SIZE = 104"

definition vector_topk_init :: cyboudb_vector_topk where
  "vector_topk_init = \<lparr>vt_struct_size = VTOPK_STATE_SIZE, vt_abi_version = CybouDB_VECTOR_ABI_VERSION,
    vt_query = 0, vt_vectors = 0, vt_count = 0, vt_dimensions = 0, vt_k = 0, vt_stride = 0,
    vt_out_ids = 0, vt_out_scores = 0, vt_out_count = 0, vt_candidates = 0, vt_evaluated_count = 0,
    vt_reverse = 0\<rparr>"

definition vtopk_header :: "cyboudb_vector_topk \<Rightarrow> bool" where
  "vtopk_header s \<longleftrightarrow> vt_struct_size s = VTOPK_STATE_SIZE \<and> vt_abi_version s = CybouDB_VECTOR_ABI_VERSION"

section \<open>The two metrics\<close>

datatype metric = Cosine | L2sq

definition metric_kernel :: "vec_cpu \<Rightarrow> metric \<Rightarrow> fmem \<Rightarrow> nat \<Rightarrow> nat \<Rightarrow> nat \<Rightarrow> f32" where
  "metric_kernel cpu mt = (case mt of
     Cosine \<Rightarrow> vector_cosine_normalized_f32_resolve cpu | L2sq \<Rightarrow> vector_l2sq_f32_resolve cpu)"

text \<open>Whether the new score goes in front of an old one.\<close>

definition ahead :: "metric \<Rightarrow> nat \<Rightarrow> f32 \<Rightarrow> f32 \<Rightarrow> bool" where
  "ahead mt reverse x y = (case mt of
     Cosine \<Rightarrow> if reverse = 0 then ucomiss_ja x y else ucomiss_jb x y
   | L2sq \<Rightarrow> if reverse = 0 then ucomiss_jb x y else ucomiss_ja x y)"

section \<open>Inserting a candidate\<close>

function find_position :: "(f32 \<Rightarrow> bool) \<Rightarrow> fmem \<Rightarrow> nat \<Rightarrow> nat \<Rightarrow> nat \<Rightarrow> nat" where
  "find_position goes m scores cnt i =
    (if cnt \<le> i then i else if goes (m (scores + 4 * i)) then i
     else find_position goes m scores cnt (i + 1))"
  by pat_completeness auto
termination by (relation "measure (\<lambda>(goes, m, scores, cnt, i). cnt - i)") auto

declare find_position.simps [simp del]

text \<open>Entries from \<open>pos\<close> on move one place up, the last one first, until the slot \<open>dst\<close> is \<open>pos\<close>.\<close>

fun shift_entries :: "nat \<Rightarrow> nat \<Rightarrow> nat \<Rightarrow> nat \<Rightarrow> vec_mem \<Rightarrow> vec_mem" where
  "shift_entries ids scores pos dst mem =
    (if dst \<le> pos then mem
     else shift_entries ids scores pos (dst - 1)
       (mem\<lparr>vm_q := (vm_q mem)(ids + 8 * dst := vm_q mem (ids + 8 * dst - 8)),
            vm_f := (vm_f mem)(scores + 4 * dst := vm_f mem (scores + 4 * dst - 4))\<rparr>))"

declare shift_entries.simps [simp del]

definition insert_candidate ::
    "metric \<Rightarrow> cyboudb_vector_topk \<Rightarrow> nat \<Rightarrow> f32 \<Rightarrow> nat \<Rightarrow> vec_mem \<Rightarrow> nat \<times> vec_mem" where
  "insert_candidate mt s cid x cnt mem =
    (let pos = find_position (ahead mt (vt_reverse s) x) (vm_f mem) (vt_out_scores s) cnt 0 in
     if vt_k s \<le> pos then (cnt, mem)
     else let (dst, cnt') = (if cnt < vt_k s then (cnt, cnt + 1) else (cnt - 1, cnt));
              mem' = shift_entries (vt_out_ids s) (vt_out_scores s) pos dst mem
       in (cnt', mem'\<lparr>vm_q := (vm_q mem')(vt_out_ids s + 8 * pos := cid),
                      vm_f := (vm_f mem')(vt_out_scores s + 4 * pos := x)\<rparr>))"

section \<open>A streaming session\<close>

text \<open>The range of the \<open>n\<close> result slots of \<open>w\<close> bytes at \<open>p\<close>, as the code computes it.\<close>

definition slots_wrap :: "nat \<Rightarrow> nat \<Rightarrow> nat \<Rightarrow> bool" where
  "slots_wrap n w p \<longleftrightarrow> 2 ^ 64 \<le> (n - 1) * w \<or> 2 ^ 64 \<le> (n - 1) * w + w \<or> 2 ^ 64 \<le> (n - 1) * w + w + p"

definition vtopk_begin :: "cyboudb_vector_topk \<Rightarrow> vector_status \<times> cyboudb_vector_topk" where
  "vtopk_begin s =
    (if \<not> vtopk_header s \<or> vt_dimensions s = 0 \<or> vt_k s = 0 \<or> vt_query s = 0 \<or> vt_out_ids s = 0
       \<or> vt_out_scores s = 0 \<or> 1 < vt_reverse s \<or> VECTOR_DIM_MAX < vt_dimensions s
       \<or> vt_stride s < vt_dimensions s * 4 \<or> 2 ^ 64 \<le> vt_query s + vt_dimensions s * 4
       \<or> slots_wrap (vt_k s) 8 (vt_out_ids s) \<or> slots_wrap (vt_k s) 4 (vt_out_scores s)
     then (V_INVALID, s)
     else (V_OK, s\<lparr>vt_out_count := 0, vt_evaluated_count := 0\<rparr>))"

definition vtopk_finish :: "cyboudb_vector_topk \<Rightarrow> vector_status" where
  "vtopk_finish s = (if vtopk_header s then V_OK else V_INVALID)"

text \<open>One candidate: its score, the count of evaluations, the test, the insertion.  \<open>None\<close> stands for
  the jump to \<open>.cfeed_nonfinite\<close>.\<close>

definition evaluate ::
    "vec_cpu \<Rightarrow> metric \<Rightarrow> cyboudb_vector_topk \<Rightarrow> nat \<Rightarrow> nat \<Rightarrow> nat \<Rightarrow> vec_mem \<Rightarrow> (nat \<times> vec_mem) option" where
  "evaluate cpu mt s cid addr cnt mem =
    (let x = metric_kernel cpu mt (vm_f mem) (vt_query s) addr (vt_dimensions s) in
     if nonfinite_test x then None else Some (insert_candidate mt s cid x cnt mem))"

function feed_loop ::
    "vec_cpu \<Rightarrow> metric \<Rightarrow> nat \<Rightarrow> nat \<Rightarrow> nat \<Rightarrow> nat \<Rightarrow> nat \<Rightarrow> cyboudb_vector_topk \<Rightarrow> vec_mem
     \<Rightarrow> vector_status \<times> cyboudb_vector_topk \<times> vec_mem" where
  "feed_loop cpu mt base_id vectors count cmask lane s mem =
    (if count \<le> lane then (V_OK, s, mem)
     else if \<not> bit cmask lane then feed_loop cpu mt base_id vectors count cmask (lane + 1) s mem
     else let s1 = s\<lparr>vt_evaluated_count := (vt_evaluated_count s + 1) mod 2 ^ 64\<rparr> in
       case evaluate cpu mt s ((base_id + lane) mod 2 ^ 64) ((lane * vt_stride s + vectors) mod 2 ^ 64)
           (vt_out_count s) mem of
         None \<Rightarrow> (V_NONFINITE, s1, mem)
       | Some (cnt, mem') \<Rightarrow>
           feed_loop cpu mt base_id vectors count cmask (lane + 1) (s1\<lparr>vt_out_count := cnt\<rparr>) mem')"
  by pat_completeness auto
termination by (relation "measure (\<lambda>(cpu, mt, base_id, vectors, count, cmask, lane, s, mem). count - lane)") auto

declare feed_loop.simps [simp del]

definition vtopk_feed ::
    "vec_cpu \<Rightarrow> metric \<Rightarrow> nat \<Rightarrow> nat \<Rightarrow> nat \<Rightarrow> nat \<Rightarrow> cyboudb_vector_topk \<Rightarrow> vec_mem
     \<Rightarrow> vector_status \<times> cyboudb_vector_topk \<times> vec_mem" where
  "vtopk_feed cpu mt base_id vectors count cmask s mem =
    (if \<not> vtopk_header s then (V_INVALID, s, mem)
     else if count = 0 then (V_OK, s, mem)
     else if 64 < count \<or> vectors = 0 \<or> 2 ^ 64 \<le> base_id + count
       \<or> 2 ^ 64 \<le> vt_stride s * (count - 1)
       \<or> 2 ^ 64 \<le> vt_stride s * (count - 1) + vt_dimensions s * 4 mod 2 ^ 64
       \<or> 2 ^ 64 \<le> vt_stride s * (count - 1) + vt_dimensions s * 4 mod 2 ^ 64 + vectors
       then (V_INVALID, s, mem)
     else if cmask = 0 then (V_OK, s, mem)
     else feed_loop cpu mt base_id vectors count cmask 0 s mem)"

section \<open>The search over an array\<close>

definition vtopk_ranges_wrap :: "cyboudb_vector_topk \<Rightarrow> bool" where
  "vtopk_ranges_wrap s \<longleftrightarrow>
     2 ^ 64 \<le> vt_query s + vt_dimensions s * 4
   \<or> vt_count s \<noteq> 0
     \<and> (2 ^ 64 \<le> vt_stride s * (vt_count s - 1)
       \<or> 2 ^ 64 \<le> vt_stride s * (vt_count s - 1) + vt_dimensions s * 4
       \<or> 2 ^ 64 \<le> vt_stride s * (vt_count s - 1) + vt_dimensions s * 4 + vt_vectors s
       \<or> vt_candidates s \<noteq> 0 \<and> 2 ^ 64 \<le> vt_candidates s + (vt_count s - 1) div 8 + 1
       \<or> slots_wrap (min (vt_k s) (vt_count s)) 8 (vt_out_ids s)
       \<or> slots_wrap (min (vt_k s) (vt_count s)) 4 (vt_out_scores s))"

definition is_candidate :: "cyboudb_vector_topk \<Rightarrow> vec_mem \<Rightarrow> nat \<Rightarrow> bool" where
  "is_candidate s mem i \<longleftrightarrow>
     vt_candidates s = 0 \<or> bit (vm_q mem (vt_candidates s + 8 * (i div 64))) (i mod 64)"

text \<open>The number of evaluations is kept in the descriptor, the number of results in a register
  until the scan is over.\<close>

function scan_loop ::
    "vec_cpu \<Rightarrow> metric \<Rightarrow> nat \<Rightarrow> nat \<Rightarrow> cyboudb_vector_topk \<Rightarrow> vec_mem
     \<Rightarrow> vector_status \<times> cyboudb_vector_topk \<times> vec_mem" where
  "scan_loop cpu mt i cnt s mem =
    (if vt_count s \<le> i then (V_OK, s\<lparr>vt_out_count := cnt\<rparr>, mem)
     else if \<not> is_candidate s mem i then scan_loop cpu mt (i + 1) cnt s mem
     else let s1 = s\<lparr>vt_evaluated_count := (vt_evaluated_count s + 1) mod 2 ^ 64\<rparr> in
       case evaluate cpu mt s i ((i * vt_stride s + vt_vectors s) mod 2 ^ 64) cnt mem of
         None \<Rightarrow> (V_NONFINITE, s1, mem)
       | Some (cnt', mem') \<Rightarrow> scan_loop cpu mt (i + 1) cnt' s1 mem')"
  by pat_completeness auto
termination by (relation "measure (\<lambda>(cpu, mt, i, cnt, s, mem). vt_count s - i)") auto

declare scan_loop.simps [simp del]

definition vtopk_search ::
    "vec_cpu \<Rightarrow> metric \<Rightarrow> cyboudb_vector_topk \<Rightarrow> vec_mem \<Rightarrow> vector_status \<times> cyboudb_vector_topk \<times> vec_mem" where
  "vtopk_search cpu mt s mem =
    (if \<not> vtopk_header s then (V_INVALID, s, mem)
     else let s0 = s\<lparr>vt_out_count := 0, vt_evaluated_count := 0\<rparr> in
       if vt_dimensions s = 0 \<or> vt_k s = 0 \<or> 1 < vt_reverse s \<or> vt_query s = 0 \<or> vt_vectors s = 0
         \<or> vt_out_ids s = 0 \<or> vt_out_scores s = 0 \<or> VECTOR_DIM_MAX < vt_dimensions s
         \<or> vt_stride s < vt_dimensions s * 4 \<or> vtopk_ranges_wrap s
       then (V_INVALID, s0, mem)
       else scan_loop cpu mt 0 0 s0 mem)"

section \<open>The public entry points\<close>

definition cyboudb_vector_topk_init ::
    "cyboudb_vector_topk option \<Rightarrow> vector_status \<times> cyboudb_vector_topk option" where
  "cyboudb_vector_topk_init p =
    (case p of None \<Rightarrow> (V_INVALID, None) | Some _ \<Rightarrow> (V_OK, Some vector_topk_init))"

definition begin_at ::
    "cyboudb_vector_topk option \<Rightarrow> vector_status \<times> cyboudb_vector_topk option" where
  "begin_at p = (case p of None \<Rightarrow> (V_INVALID, None)
     | Some s \<Rightarrow> (case vtopk_begin s of (st, s') \<Rightarrow> (st, Some s')))"

definition finish_at :: "cyboudb_vector_topk option \<Rightarrow> vector_status" where
  "finish_at p = (case p of None \<Rightarrow> V_INVALID | Some s \<Rightarrow> vtopk_finish s)"

definition cyboudb_vector_topk_cosine_begin ::
    "cyboudb_vector_topk option \<Rightarrow> vector_status \<times> cyboudb_vector_topk option" where
  "cyboudb_vector_topk_cosine_begin p = begin_at p"

definition cyboudb_vector_topk_cosine_feed ::
    "vec_cpu \<Rightarrow> cyboudb_vector_topk option \<Rightarrow> nat \<Rightarrow> nat \<Rightarrow> nat \<Rightarrow> nat \<Rightarrow> vec_mem
     \<Rightarrow> vector_status \<times> cyboudb_vector_topk option \<times> vec_mem" where
  "cyboudb_vector_topk_cosine_feed cpu p base_id vectors count cmask =
    on_struct (vtopk_feed cpu Cosine base_id vectors count cmask) p"

definition cyboudb_vector_topk_cosine_finish :: "cyboudb_vector_topk option \<Rightarrow> vector_status" where
  "cyboudb_vector_topk_cosine_finish p = finish_at p"

definition cyboudb_vector_topk_l2sq_begin ::
    "cyboudb_vector_topk option \<Rightarrow> vector_status \<times> cyboudb_vector_topk option" where
  "cyboudb_vector_topk_l2sq_begin p = begin_at p"

definition cyboudb_vector_topk_l2sq_feed ::
    "vec_cpu \<Rightarrow> cyboudb_vector_topk option \<Rightarrow> nat \<Rightarrow> nat \<Rightarrow> nat \<Rightarrow> nat \<Rightarrow> vec_mem
     \<Rightarrow> vector_status \<times> cyboudb_vector_topk option \<times> vec_mem" where
  "cyboudb_vector_topk_l2sq_feed cpu p base_id vectors count cmask =
    on_struct (vtopk_feed cpu L2sq base_id vectors count cmask) p"

definition cyboudb_vector_topk_l2sq_finish :: "cyboudb_vector_topk option \<Rightarrow> vector_status" where
  "cyboudb_vector_topk_l2sq_finish p = finish_at p"

definition cyboudb_vector_topk_cosine_f32 ::
    "vec_cpu \<Rightarrow> cyboudb_vector_topk option \<Rightarrow> vec_mem \<Rightarrow> vector_status \<times> cyboudb_vector_topk option \<times> vec_mem" where
  "cyboudb_vector_topk_cosine_f32 cpu p = on_struct (vtopk_search cpu Cosine) p"

definition cyboudb_vector_topk_l2sq_f32 ::
    "vec_cpu \<Rightarrow> cyboudb_vector_topk option \<Rightarrow> vec_mem \<Rightarrow> vector_status \<times> cyboudb_vector_topk option \<times> vec_mem" where
  "cyboudb_vector_topk_l2sq_f32 cpu p = on_struct (vtopk_search cpu L2sq) p"

end
