(* ===== verification/Vector_Topk_Laws.thy ===== *)
theory Vector_Topk_Laws
  imports Vector_Topk
begin

text \<open>
  What a search delivers.  \<open>best_list\<close> is the contract of a list that keeps the \<open>k\<close> first entries of
  a stable sort while entries arrive one at a time; the memory behind the pointers of a search
  descriptor fulfils it, so both the streaming session and the search over an array are a stable sort
  of the scores of the candidates, cut off after \<open>k\<close> entries.
\<close>

section \<open>Keeping the first entries of a stable sort\<close>

fun ins :: "('a \<Rightarrow> int) \<Rightarrow> 'a \<Rightarrow> 'a list \<Rightarrow> 'a list" where
  "ins key x [] = [x]"
| "ins key x (y # ys) = (if key x < key y then x # y # ys else y # ins key x ys)"

lemma length_ins [simp]: "length (ins key x ys) = Suc (length ys)"
  by (induction ys) simp_all

lemma set_ins [simp]: "set (ins key x ys) = insert x (set ys)"
  by (induction ys) auto

lemma insort_ins: "insort_key key a (ins key x ys) = ins key x (insort_key key a ys)"
  by (induction ys) auto

lemma sort_key_snoc: "sort_key key (xs @ [x]) = ins key x (sort_key key xs)"
proof -
  have "foldr (insort_key key) xs [x] = ins key x (foldr (insort_key key) xs [])"
    by (induction xs) (simp_all add: insort_ins)
  then show ?thesis by (simp add: sort_key_def)
qed

lemma take_ins: "take k (ins key x (take k ys)) = take k (ins key x ys)"
proof (induction ys arbitrary: k)
  case (Cons y ys)
  show ?case
  proof (cases k)
    case (Suc j)
    then show ?thesis using Cons [of j] Cons [of "j - 1"] by (cases j) simp_all
  qed simp
qed simp

lemma ins_position:
  "ins key x ys = (let n = length (takeWhile (\<lambda>y. \<not> key x < key y) ys) in take n ys @ x # drop n ys)"
  by (induction ys) (simp_all add: Let_def)

locale best_list =
  fixes put :: "'a \<Rightarrow> 's \<Rightarrow> 's" and held :: "'s \<Rightarrow> 'a list" and keeps :: "'s \<Rightarrow> bool"
    and fit :: "'a \<Rightarrow> bool" and key :: "'a \<Rightarrow> int" and k :: nat
  assumes put_held: "keeps s \<Longrightarrow> fit x \<Longrightarrow> held (put x s) = take k (ins key x (held s))"
    and put_keeps: "keeps s \<Longrightarrow> fit x \<Longrightarrow> keeps (put x s)"
begin

lemma fold_put:
  assumes "keeps s" "held s = take k (sort_key key xs)" "list_all fit ys"
  shows "keeps (fold put ys s) \<and> held (fold put ys s) = take k (sort_key key (xs @ ys))"
  using assms
proof (induction ys arbitrary: s xs)
  case (Cons y ys)
  have "held (put y s) = take k (sort_key key (xs @ [y]))"
    using Cons(2-4) by (simp add: put_held sort_key_snoc take_ins)
  with Cons(1) [of "put y s" "xs @ [y]"] Cons(2,4) show ?case by (simp add: put_keeps)
qed simp

end

section \<open>The result slots in memory\<close>

definition entries :: "cyboudb_vector_topk \<Rightarrow> nat \<times> vec_mem \<Rightarrow> (nat \<times> f32) list" where
  "entries s = (\<lambda>(cnt, mem). map (\<lambda>i. (vm_q mem (vt_out_ids s + 8 * i), vm_f mem (vt_out_scores s + 4 * i))) [0..<cnt])"

text \<open>Smaller keys come first: the score negated where larger scores are better.\<close>

definition score_key :: "metric \<Rightarrow> nat \<Rightarrow> nat \<times> f32 \<Rightarrow> int" where
  "score_key mt reverse e =
    (if (mt = Cosine) = (reverse = 0) then - f32_units (snd e) else f32_units (snd e))"

definition slots_keep :: "cyboudb_vector_topk \<Rightarrow> nat \<times> vec_mem \<Rightarrow> bool" where
  "slots_keep s st \<longleftrightarrow> fst st \<le> vt_k s \<and> list_all (\<lambda>e. f32_finite (snd e)) (entries s st)"

lemma ahead_key:
  "f32_finite x \<Longrightarrow> f32_finite y \<Longrightarrow> ahead mt r x y \<longleftrightarrow> score_key mt r (i, x) < score_key mt r (j, y)"
  by (cases mt) (auto simp: ahead_def score_key_def finite_compare)

lemma find_position_eq:
  "find_position goes m scores cnt i
    = i + length (takeWhile (\<lambda>j. \<not> goes (m (scores + 4 * j))) [i..<cnt])"
proof (induction goes m scores cnt i rule: find_position.induct)
  case (1 goes m scores cnt i)
  show ?case
  proof (cases "cnt \<le> i")
    case True
    then show ?thesis by (subst find_position.simps) simp
  next
    case False
    then have "[i..<cnt] = i # [i + 1..<cnt]" by (simp add: upt_conv_Cons)
    then show ?thesis using 1 False by (subst find_position.simps) simp
  qed
qed

text \<open>One array moved up by one place, the step at its upper end first.\<close>

lemma shift_step:
  fixes f :: "nat \<Rightarrow> 'b"
  assumes "0 < w" "pos \<le> d"
  shows "(if \<exists>j. pos < j \<and> j \<le> d \<and> p = b + w * j then (f(b + w * Suc d := f (b + w * Suc d - w))) (p - w)
      else (f(b + w * Suc d := f (b + w * Suc d - w))) p)
    = (if \<exists>j. pos < j \<and> j \<le> Suc d \<and> p = b + w * j then f (p - w) else f p)"
proof (cases "\<exists>j. pos < j \<and> j \<le> d \<and> p = b + w * j")
  case True
  then obtain j where j: "pos < j" "j \<le> d" "p = b + w * j" by blast
  then have "w * j < w * Suc d" using assms(1) by (simp only: mult_less_mono2 le_imp_less_Suc)
  then have "p - w \<noteq> b + w * Suc d" using j(3) by linarith
  moreover have "\<exists>j. pos < j \<and> j \<le> Suc d \<and> p = b + w * j" using j le_SucI by blast
  ultimately show ?thesis using True by (simp only: if_True if_False fun_upd_apply)
next
  case False
  show ?thesis
  proof (cases "p = b + w * Suc d")
    case True
    moreover have "\<exists>j. pos < j \<and> j \<le> Suc d \<and> p = b + w * j"
      using True assms(2) by (intro exI [of _ "Suc d"]) simp
    ultimately show ?thesis using False by (simp only: if_True if_False fun_upd_same)
  next
    case ne: False
    then have "\<not> (\<exists>j. pos < j \<and> j \<le> Suc d \<and> p = b + w * j)" using False by (metis le_Suc_eq)
    then show ?thesis using False ne by (simp only: if_False fun_upd_apply)
  qed
qed

lemma shift_entries_read:
  "vm_f (shift_entries ids scores pos dst mem) p =
     (if \<exists>j. pos < j \<and> j \<le> dst \<and> p = scores + 4 * j then vm_f mem (p - 4) else vm_f mem p)
   \<and> vm_q (shift_entries ids scores pos dst mem) p =
     (if \<exists>j. pos < j \<and> j \<le> dst \<and> p = ids + 8 * j then vm_q mem (p - 8) else vm_q mem p)"
proof (induction dst arbitrary: mem)
  case 0
  then show ?case by (subst (1 2) shift_entries.simps) auto
next
  case (Suc d)
  show ?case
  proof (cases "Suc d \<le> pos")
    case True
    then show ?thesis by (subst (1 2) shift_entries.simps) auto
  next
    case False
    define m1 where "m1 = mem\<lparr>vm_q := (vm_q mem)(ids + 8 * Suc d := vm_q mem (ids + 8 * Suc d - 8)),
            vm_f := (vm_f mem)(scores + 4 * Suc d := vm_f mem (scores + 4 * Suc d - 4))\<rparr>"
    have eq: "shift_entries ids scores pos (Suc d) mem = shift_entries ids scores pos d m1"
      using False by (subst shift_entries.simps) (simp add: m1_def)
    have m1: "vm_f m1 = (vm_f mem)(scores + 4 * Suc d := vm_f mem (scores + 4 * Suc d - 4))"
      "vm_q m1 = (vm_q mem)(ids + 8 * Suc d := vm_q mem (ids + 8 * Suc d - 8))"
      by (simp_all add: m1_def)
    have pd: "pos \<le> d" using False by simp
    show ?thesis
      unfolding eq using Suc [of m1] unfolding m1
      by (simp only: shift_step [OF _ pd] zero_less_numeral)
  qed
qed

definition insert_position :: "metric \<Rightarrow> cyboudb_vector_topk \<Rightarrow> f32 \<Rightarrow> nat \<Rightarrow> vec_mem \<Rightarrow> nat" where
  "insert_position mt s x cnt mem =
    find_position (ahead mt (vt_reverse s) x) (vm_f mem) (vt_out_scores s) cnt 0"

lemma length_entries [simp]: "length (entries s (cnt, mem)) = cnt"
  by (simp add: entries_def)

lemma insert_position_ins:
  fixes mt :: metric and cid :: nat
  assumes keep: "slots_keep s (cnt, mem)" and x: "f32_finite x"
  defines "pos \<equiv> insert_position mt s x cnt mem" and "e \<equiv> entries s (cnt, mem)"
  shows "ins (score_key mt (vt_reverse s)) (cid, x) e = take pos e @ (cid, x) # drop pos e" "pos \<le> cnt"
proof -
  let ?key = "score_key mt (vt_reverse s)"
  have fin: "f32_finite (vm_f mem (vt_out_scores s + 4 * j))" if "j < cnt" for j
    using keep that by (auto simp: slots_keep_def entries_def list_all_iff)
  have "takeWhile (\<lambda>j. \<not> ahead mt (vt_reverse s) x (vm_f mem (vt_out_scores s + 4 * j))) [0..<cnt]
      = takeWhile (\<lambda>j. \<not> ?key (cid, x) < ?key (vm_q mem (vt_out_ids s + 8 * j), vm_f mem (vt_out_scores s + 4 * j))) [0..<cnt]"
    by (rule takeWhile_cong [OF refl]) (use ahead_key [OF x fin] in auto)
  then have pos: "pos = length (takeWhile (\<lambda>y. \<not> ?key (cid, x) < ?key y) e)"
    by (simp add: pos_def e_def insert_position_def find_position_eq entries_def takeWhile_map comp_def)
  show "ins ?key (cid, x) e = take pos e @ (cid, x) # drop pos e"
    by (simp add: ins_position Let_def flip: pos)
  show "pos \<le> cnt" using length_takeWhile_le [of _ e] by (simp add: pos e_def)
qed

text \<open>Where the slots of the results are written, and with what.\<close>

lemma insert_writes:
  assumes r: "insert_candidate mt s cid x cnt mem = (cnt', mem')"
    and pos: "pos = insert_position mt s x cnt mem" "pos < vt_k s" "pos \<le> cnt" "cnt \<le> vt_k s"
  shows "cnt' = min (vt_k s) (cnt + 1)"
    and "i < cnt' \<Longrightarrow> vm_f mem' (vt_out_scores s + 4 * i) = (if i = pos then x
        else if pos < i then vm_f mem (vt_out_scores s + 4 * (i - 1)) else vm_f mem (vt_out_scores s + 4 * i))"
    and "i < cnt' \<Longrightarrow> vm_q mem' (vt_out_ids s + 8 * i) = (if i = pos then cid
        else if pos < i then vm_q mem (vt_out_ids s + 8 * (i - 1)) else vm_q mem (vt_out_ids s + 8 * i))"
    and "\<forall>j<cnt'. p \<noteq> vt_out_scores s + 4 * j \<Longrightarrow> vm_f mem' p = vm_f mem p"
    and "\<forall>j<cnt'. p \<noteq> vt_out_ids s + 8 * j \<Longrightarrow> vm_q mem' p = vm_q mem p"
proof -
  define dst where "dst = (if cnt < vt_k s then cnt else cnt - 1)"
  define sh where "sh = shift_entries (vt_out_ids s) (vt_out_scores s) pos dst mem"
  show cnt': "cnt' = min (vt_k s) (cnt + 1)"
    using r pos by (auto simp: insert_candidate_def Let_def min_def simp flip: insert_position_def split: if_splits)
  have mem': "mem' = sh\<lparr>vm_q := (vm_q sh)(vt_out_ids s + 8 * pos := cid),
      vm_f := (vm_f sh)(vt_out_scores s + 4 * pos := x)\<rparr>"
    using r pos by (auto simp: insert_candidate_def Let_def sh_def dst_def simp flip: insert_position_def split: if_splits)
  have pd: "pos \<le> dst" and dc: "dst < cnt'" "cnt' \<le> dst + 1"
    using pos by (auto simp: dst_def cnt')
  show "i < cnt' \<Longrightarrow> vm_f mem' (vt_out_scores s + 4 * i) = (if i = pos then x
        else if pos < i then vm_f mem (vt_out_scores s + 4 * (i - 1)) else vm_f mem (vt_out_scores s + 4 * i))"
    and "i < cnt' \<Longrightarrow> vm_q mem' (vt_out_ids s + 8 * i) = (if i = pos then cid
        else if pos < i then vm_q mem (vt_out_ids s + 8 * (i - 1)) else vm_q mem (vt_out_ids s + 8 * i))"
    using dc by (auto simp: mem' sh_def shift_entries_read) (simp_all add: diff_mult_distrib2)
  show "\<forall>j<cnt'. p \<noteq> vt_out_scores s + 4 * j \<Longrightarrow> vm_f mem' p = vm_f mem p"
    and "\<forall>j<cnt'. p \<noteq> vt_out_ids s + 8 * j \<Longrightarrow> vm_q mem' p = vm_q mem p"
    using pd dc by (auto simp: mem' sh_def shift_entries_read) (metis le_less_trans)+
qed

lemma insert_full:
  "insert_candidate mt s cid x cnt mem = (cnt', mem') \<Longrightarrow> vt_k s \<le> insert_position mt s x cnt mem
    \<Longrightarrow> cnt' = cnt \<and> mem' = mem"
  by (simp add: insert_candidate_def insert_position_def)

lemma insert_entries:
  assumes keep: "slots_keep s (cnt, mem)" and x: "f32_finite x"
    and r: "insert_candidate mt s cid x cnt mem = (cnt', mem')"
  shows "entries s (cnt', mem') = take (vt_k s) (ins (score_key mt (vt_reverse s)) (cid, x) (entries s (cnt, mem)))"
proof -
  let ?e = "entries s (cnt, mem)"
  define pos where "pos = insert_position mt s x cnt mem"
  note pos = insert_position_ins [OF keep x, of mt, folded pos_def]
  have ck: "cnt \<le> vt_k s" using keep by (simp add: slots_keep_def)
  have "entries s (cnt', mem') = take (vt_k s) (take pos ?e @ (cid, x) # drop pos ?e)"
  proof (cases "vt_k s \<le> pos")
    case True
    then show ?thesis using insert_full [OF r] pos(2) ck by (simp add: pos_def)
  next
    case False
    note w = insert_writes [OF r pos_def _ pos(2) ck]
    show ?thesis
    proof (rule nth_equalityI)
      show "length (entries s (cnt', mem')) = length (take (vt_k s) (take pos ?e @ (cid, x) # drop pos ?e))"
        using pos(2) False by (simp add: w(1))
      fix i assume "i < length (entries s (cnt', mem'))"
      then have i: "i < cnt'" "i < vt_k s" "i \<le> cnt" using False by (simp_all add: w(1))
      consider "i < pos" | "i = pos" | j where "i = pos + Suc j"
        by (metis less_imp_Suc_add linorder_neqE_nat add_Suc_right)
      then show "entries s (cnt', mem') ! i = take (vt_k s) (take pos ?e @ (cid, x) # drop pos ?e) ! i"
        using w(2,3) [OF _ i(1)] i pos(2) False
        by cases (simp_all add: entries_def nth_append)
    qed
  qed
  then show ?thesis by (simp add: pos(1))
qed

lemma insert_frame:
  assumes keep: "slots_keep s (cnt, mem)" and x: "f32_finite x"
    and r: "insert_candidate mt s cid x cnt mem = (cnt', mem')"
  shows "cnt' = min (vt_k s) (cnt + 1)"
    and "\<forall>j<cnt'. p \<noteq> vt_out_scores s + 4 * j \<Longrightarrow> vm_f mem' p = vm_f mem p"
    and "\<forall>j<cnt'. p \<noteq> vt_out_ids s + 8 * j \<Longrightarrow> vm_q mem' p = vm_q mem p"
proof -
  note pos = insert_position_ins(2) [OF keep x, of mt]
  have ck: "cnt \<le> vt_k s" using keep by (simp add: slots_keep_def)
  show "cnt' = min (vt_k s) (cnt + 1)"
    using insert_full [OF r] insert_writes(1) [OF r refl _ pos ck] pos ck
    by (cases "vt_k s \<le> insert_position mt s x cnt mem") auto
  show "\<forall>j<cnt'. p \<noteq> vt_out_scores s + 4 * j \<Longrightarrow> vm_f mem' p = vm_f mem p"
    "\<forall>j<cnt'. p \<noteq> vt_out_ids s + 8 * j \<Longrightarrow> vm_q mem' p = vm_q mem p"
    using insert_full [OF r] insert_writes(4,5) [OF r refl _ pos ck]
    by (cases "vt_k s \<le> insert_position mt s x cnt mem"; simp)+
qed

text \<open>The slots behind the pointers keep the first \<open>k\<close> entries.\<close>

interpretation slots: best_list "\<lambda>(cid, x) (cnt, mem). insert_candidate mt s cid x cnt mem"
  "entries s" "slots_keep s" "\<lambda>e. f32_finite (snd e)" "score_key mt (vt_reverse s)" "vt_k s" for mt s
proof
  fix st :: "nat \<times> vec_mem" and e :: "nat \<times> f32"
  obtain cnt mem cid x where st: "st = (cnt, mem)" and e: "e = (cid, x)" by fastforce
  obtain cnt' mem' where r: "insert_candidate mt s cid x cnt mem = (cnt', mem')" by fastforce
  assume keep: "slots_keep s st" and fit: "f32_finite (snd e)"
  have en: "entries s (cnt', mem') = take (vt_k s) (ins (score_key mt (vt_reverse s)) (cid, x) (entries s (cnt, mem)))"
    using insert_entries [OF _ _ r] keep fit by (simp add: st e)
  then show "entries s ((case e of (cid, x) \<Rightarrow> \<lambda>(cnt, mem). insert_candidate mt s cid x cnt mem) st)
      = take (vt_k s) (ins (score_key mt (vt_reverse s)) e (entries s st))"
    by (simp add: st e r)
  have "\<forall>y \<in> set (entries s (cnt', mem')). f32_finite (snd y)"
    using keep fit in_set_takeD unfolding en by (fastforce simp: slots_keep_def list_all_iff st e)
  then show "slots_keep s ((case e of (cid, x) \<Rightarrow> \<lambda>(cnt, mem). insert_candidate mt s cid x cnt mem) st)"
    using insert_frame(1) [OF _ _ r] keep fit by (simp add: st e r slots_keep_def list_all_iff)
qed


section \<open>The loops as a walk over the candidates\<close>

fun eval_all :: "vec_cpu \<Rightarrow> metric \<Rightarrow> cyboudb_vector_topk \<Rightarrow> (nat \<times> nat) list \<Rightarrow> nat \<Rightarrow> vec_mem
    \<Rightarrow> vector_status \<times> nat \<times> nat \<times> vec_mem" where
  "eval_all cpu mt s [] cnt mem = (V_OK, 0, cnt, mem)"
| "eval_all cpu mt s ((cid, addr) # xs) cnt mem =
    (case evaluate cpu mt s cid addr cnt mem of
       None \<Rightarrow> (V_NONFINITE, 1, cnt, mem)
     | Some (cnt', mem') \<Rightarrow> (case eval_all cpu mt s xs cnt' mem' of (st, n, r) \<Rightarrow> (st, n + 1, r)))"

lemma insert_candidate_update [simp]:
  "insert_candidate mt (s\<lparr>vt_out_count := c\<rparr>) = insert_candidate mt s"
  "insert_candidate mt (s\<lparr>vt_evaluated_count := c\<rparr>) = insert_candidate mt s"
  by (simp_all add: fun_eq_iff insert_candidate_def Let_def)

lemma evaluate_update [simp]:
  "evaluate cpu mt (s\<lparr>vt_out_count := c\<rparr>) = evaluate cpu mt s"
  "evaluate cpu mt (s\<lparr>vt_evaluated_count := c\<rparr>) = evaluate cpu mt s"
  by (simp_all add: fun_eq_iff evaluate_def Let_def)

lemma eval_all_update [simp]:
  "eval_all cpu mt (s\<lparr>vt_out_count := c\<rparr>) xs = eval_all cpu mt s xs"
  "eval_all cpu mt (s\<lparr>vt_evaluated_count := c\<rparr>) xs = eval_all cpu mt s xs"
proof -
  have "eval_all cpu mt (s\<lparr>vt_out_count := c\<rparr>) xs cnt mem = eval_all cpu mt s xs cnt mem" for cnt mem
    by (induction cpu mt s xs cnt mem rule: eval_all.induct) (auto split: option.splits)
  moreover have "eval_all cpu mt (s\<lparr>vt_evaluated_count := c\<rparr>) xs cnt mem = eval_all cpu mt s xs cnt mem" for cnt mem
    by (induction cpu mt s xs cnt mem rule: eval_all.induct) (auto split: option.splits)
  ultimately show "eval_all cpu mt (s\<lparr>vt_out_count := c\<rparr>) xs = eval_all cpu mt s xs"
    "eval_all cpu mt (s\<lparr>vt_evaluated_count := c\<rparr>) xs = eval_all cpu mt s xs" by blast+
qed

lemma mod_Suc_add: "((a + 1) mod m + n) mod m = (a + (n + 1)) mod m" for a m n :: nat
  by (simp add: mod_simps)

abbreviation feed_lanes :: "nat \<Rightarrow> nat \<Rightarrow> nat \<Rightarrow> nat \<Rightarrow> nat \<Rightarrow> nat \<Rightarrow> (nat \<times> nat) list" where
  "feed_lanes stride base_id vectors count cm lane \<equiv>
    map (\<lambda>i. (base_id + i, i * stride + vectors)) (filter (bit cm) [lane..<count])"

text \<open>What one lane does.\<close>

lemma feed_loop_step:
  assumes "lane < count" "base_id + lane < 2 ^ 64" "lane * vt_stride s + vectors < 2 ^ 64"
  shows "feed_loop cpu mt base_id vectors count cm lane s mem =
    (if \<not> bit cm lane then feed_loop cpu mt base_id vectors count cm (lane + 1) s mem
     else case evaluate cpu mt s (base_id + lane) (lane * vt_stride s + vectors) (vt_out_count s) mem of
        None \<Rightarrow> (V_NONFINITE, s\<lparr>vt_evaluated_count := (vt_evaluated_count s + 1) mod 2 ^ 64\<rparr>, mem)
      | Some (cnt, mem') \<Rightarrow> feed_loop cpu mt base_id vectors count cm (lane + 1)
          (s\<lparr>vt_evaluated_count := (vt_evaluated_count s + 1) mod 2 ^ 64, vt_out_count := cnt\<rparr>) mem')"
proof -
  have "(base_id + lane) mod 2 ^ 64 = base_id + lane"
    "(lane * vt_stride s + vectors) mod 2 ^ 64 = lane * vt_stride s + vectors"
    using assms(2,3) by (simp_all only: mod_less)
  then show ?thesis using assms(1)
    by (subst feed_loop.simps) (simp only: Let_def not_le if_False not_less, simp)
qed

lemma feed_loop_eq:
  assumes "\<forall>i<count. base_id + i < 2 ^ 64 \<and> i * vt_stride s + vectors < 2 ^ 64" "vt_evaluated_count s < 2 ^ 64"
  shows "feed_loop cpu mt base_id vectors count cm lane s mem =
    (case eval_all cpu mt s (feed_lanes (vt_stride s) base_id vectors count cm lane) (vt_out_count s) mem of
      (st, n, cnt, mem') \<Rightarrow>
        (st, s\<lparr>vt_evaluated_count := (vt_evaluated_count s + n) mod 2 ^ 64, vt_out_count := cnt\<rparr>, mem'))"
  using assms
proof (induction "count - lane" arbitrary: lane s mem)
  case 0
  then show ?case by (subst feed_loop.simps) simp
next
  case (Suc d)
  then have lane: "lane < count" and d: "d = count - (lane + 1)" by simp_all
  then have up: "[lane..<count] = lane # [lane + 1..<count]" by (simp add: upt_conv_Cons)
  have nw: "base_id + lane < 2 ^ 64" "lane * vt_stride s + vectors < 2 ^ 64" using Suc(3) lane by blast+
  note step = feed_loop_step [OF lane nw, of cpu mt cm mem]
  consider "\<not> bit cm lane"
    | "bit cm lane" "evaluate cpu mt s (base_id + lane) (lane * vt_stride s + vectors) (vt_out_count s) mem = None"
    | cnt mem' where "bit cm lane"
      "evaluate cpu mt s (base_id + lane) (lane * vt_stride s + vectors) (vt_out_count s) mem = Some (cnt, mem')"
    by fastforce
  then show ?case
  proof cases
    case 1
    then show ?thesis unfolding step up using Suc(1) [OF d Suc(3,4), of mem] by simp
  next
    case 2
    then show ?thesis unfolding step up by simp
  next
    case 3
    define s2 where "s2 = s\<lparr>vt_evaluated_count := (vt_evaluated_count s + 1) mod 2 ^ 64, vt_out_count := cnt\<rparr>"
    have ih: "feed_loop cpu mt base_id vectors count cm (lane + 1) s2 mem' =
      (case eval_all cpu mt s2 (feed_lanes (vt_stride s2) base_id vectors count cm (lane + 1)) (vt_out_count s2) mem' of
        (st, n, cnt, mem') \<Rightarrow>
          (st, s2\<lparr>vt_evaluated_count := (vt_evaluated_count s2 + n) mod 2 ^ 64, vt_out_count := cnt\<rparr>, mem'))"
      by (rule Suc(1) [OF d]) (use Suc(3) in \<open>simp_all add: s2_def\<close>)
    obtain st n c m where e: "eval_all cpu mt s (feed_lanes (vt_stride s) base_id vectors count cm (lane + 1)) cnt mem'
        = (st, n, c, m)" by (metis prod_cases4)
    have "feed_loop cpu mt base_id vectors count cm lane s mem = feed_loop cpu mt base_id vectors count cm (lane + 1) s2 mem'"
      unfolding step using 3 by (simp add: s2_def)
    also have "\<dots> = (st, s2\<lparr>vt_evaluated_count := (vt_evaluated_count s2 + n) mod 2 ^ 64, vt_out_count := c\<rparr>, m)"
      unfolding ih using e by (simp add: s2_def)
    also have "\<dots> = (st, s\<lparr>vt_evaluated_count := (vt_evaluated_count s + (n + 1)) mod 2 ^ 64, vt_out_count := c\<rparr>, m)"
      by (simp add: s2_def mod_Suc_add [simplified])
    finally show ?thesis using 3 e unfolding up by simp
  qed
qed


section \<open>Reading while results are written\<close>

definition score_at :: "metric \<Rightarrow> fmem \<Rightarrow> cyboudb_vector_topk \<Rightarrow> nat \<Rightarrow> f32" where
  "score_at mt f s addr = (case mt of Cosine \<Rightarrow> vector_dot_f32_scalar | L2sq \<Rightarrow> vector_l2sq_f32_scalar)
     f (vt_query s) addr (vt_dimensions s)"

text \<open>No memory but the first \<open>lim\<close> result slots differs.\<close>

definition same_outside :: "cyboudb_vector_topk \<Rightarrow> nat \<Rightarrow> vec_mem \<Rightarrow> vec_mem \<Rightarrow> bool" where
  "same_outside s lim mem0 mem \<longleftrightarrow>
     (\<forall>p. (\<forall>j<lim. p \<noteq> vt_out_scores s + 4 * j) \<longrightarrow> vm_f mem p = vm_f mem0 p)
   \<and> (\<forall>p. (\<forall>j<lim. p \<noteq> vt_out_ids s + 8 * j) \<longrightarrow> vm_q mem p = vm_q mem0 p)"

definition reads_apart :: "cyboudb_vector_topk \<Rightarrow> nat \<Rightarrow> nat \<Rightarrow> bool" where
  "reads_apart s lim addr \<longleftrightarrow> (\<forall>i<vt_dimensions s. \<forall>j<lim. addr + 4 * i \<noteq> vt_out_scores s + 4 * j)"

lemma metric_kernel_score: "metric_kernel cpu mt f (vt_query s) addr (vt_dimensions s) = score_at mt f s addr"
  by (cases mt) (simp_all add: metric_kernel_def score_at_def vector_cosine_normalized_f32_resolve_def)

lemma score_frame:
  assumes "same_outside s lim mem0 mem" "reads_apart s lim (vt_query s)" "reads_apart s lim addr"
  shows "score_at mt (vm_f mem) s addr = score_at mt (vm_f mem0) s addr"
proof -
  have "vm_f mem (a + 4 * i) = vm_f mem0 (a + 4 * i)" if "reads_apart s lim a" "i < vt_dimensions s" for a i
    using assms(1) that by (simp add: same_outside_def reads_apart_def)
  note same = this [OF assms(2)] this [OF assms(3)]
  show ?thesis
    by (cases mt) (simp_all add: score_at_def dot_scalar_cong [OF same] l2sq_scalar_cong [OF same])
qed

lemma same_outside_trans:
  "same_outside s lim a b \<Longrightarrow> same_outside s lim b c \<Longrightarrow> same_outside s lim a c"
  by (simp add: same_outside_def)

lemma evaluate_some:
  assumes "evaluate cpu mt s cid addr cnt mem = Some (cnt', mem')" "slots_keep s (cnt, mem)"
    and "min (vt_k s) (cnt + 1) \<le> lim"
  shows "slots_keep s (cnt', mem')" "cnt' = min (vt_k s) (cnt + 1)" "same_outside s lim mem mem'"
proof -
  obtain x where x: "f32_finite x" and r: "insert_candidate mt s cid x cnt mem = (cnt', mem')"
    using assms(1) by (auto simp: evaluate_def Let_def nonfinite_test_iff split: if_splits)
  show "slots_keep s (cnt', mem')"
    using slots.put_keeps [where mt = mt, OF assms(2), of "(cid, x)"] x by (simp add: r)
  show c: "cnt' = min (vt_k s) (cnt + 1)" by (rule insert_frame(1) [OF assms(2) x r])
  have less: "j < lim" if "j < cnt'" for j using that assms(3) unfolding c by (rule less_le_trans)
  show "same_outside s lim mem mem'"
    unfolding same_outside_def
    using insert_frame(2,3) [OF assms(2) x r] less by (intro conjI allI impI) simp_all
qed

text \<open>The entries a list of candidates stands for, scored in the memory at the start.\<close>

definition scored :: "metric \<Rightarrow> fmem \<Rightarrow> cyboudb_vector_topk \<Rightarrow> (nat \<times> nat) list \<Rightarrow> (nat \<times> f32) list" where
  "scored mt f s xs = map (\<lambda>(cid, addr). (cid, score_at mt f s addr)) xs"

abbreviation put_score :: "metric \<Rightarrow> cyboudb_vector_topk \<Rightarrow> nat \<times> f32 \<Rightarrow> nat \<times> vec_mem \<Rightarrow> nat \<times> vec_mem" where
  "put_score mt s \<equiv> \<lambda>(cid, x) (cnt, mem). insert_candidate mt s cid x cnt mem"

lemma evaluate_score:
  assumes "same_outside s lim mem0 mem" "reads_apart s lim (vt_query s)" "reads_apart s lim addr"
  shows "evaluate cpu mt s cid addr cnt mem = (let x = score_at mt (vm_f mem0) s addr in
    if f32_finite x then Some (put_score mt s (cid, x) (cnt, mem)) else None)"
  by (simp add: evaluate_def metric_kernel_score score_frame [OF assms] nonfinite_test_iff Let_def)

lemma eval_all_law:
  assumes "slots_keep s (cnt, mem)" "same_outside s lim mem0 mem" "min (vt_k s) (cnt + length xs) \<le> lim"
    and "reads_apart s lim (vt_query s)" "list_all (\<lambda>e. reads_apart s lim (snd e)) xs"
    and "eval_all cpu mt s xs cnt mem = (st, n, cnt', mem')"
  shows "same_outside s lim mem0 mem' \<and> slots_keep s (cnt', mem')
    \<and> (if list_all (\<lambda>e. f32_finite (snd e)) (scored mt (vm_f mem0) s xs)
       then st = V_OK \<and> n = length xs \<and> (cnt', mem') = fold (put_score mt s) (scored mt (vm_f mem0) s xs) (cnt, mem)
       else st = V_NONFINITE \<and> n = length (takeWhile (\<lambda>e. f32_finite (snd e)) (scored mt (vm_f mem0) s xs)) + 1)"
  using assms
proof (induction xs arbitrary: cnt mem n)
  case Nil
  then show ?case by (simp add: scored_def)
next
  case (Cons e xs)
  obtain cid addr where e: "e = (cid, addr)" by fastforce
  have ap: "reads_apart s lim addr" using Cons(6) by (simp add: e)
  note ev = evaluate_score [OF Cons(3) Cons(5) ap, of cpu mt cid cnt, unfolded Let_def]
  show ?case
  proof (cases "f32_finite (score_at mt (vm_f mem0) s addr)")
    case False
    then show ?thesis using Cons(2,3,7) ev by (auto simp: e scored_def)
  next
    case True
    obtain c m where r: "evaluate cpu mt s cid addr cnt mem = Some (c, m)"
      and put: "put_score mt s (cid, score_at mt (vm_f mem0) s addr) (cnt, mem) = (c, m)"
      using ev True by fastforce
    have lim: "min (vt_k s) (cnt + 1) \<le> lim" "min (vt_k s) (c + length xs) \<le> lim"
      using Cons(4) evaluate_some(2) [OF r Cons(2) order_refl] by simp_all
    note sm = evaluate_some [OF r Cons(2) lim(1)]
    obtain k where k: "eval_all cpu mt s xs c m = (st, k, cnt', mem')" "n = k + 1"
      using Cons(7) by (auto simp: e r split: prod.splits)
    show ?thesis
      using Cons(1) [OF sm(1) same_outside_trans [OF Cons(3) sm(3)] lim(2) Cons(5) _ k(1)] Cons(6) True put
      by (auto simp: e k(2) scored_def)
  qed
qed


section \<open>The search over an array\<close>

abbreviation array_entries :: "cyboudb_vector_topk \<Rightarrow> vec_mem \<Rightarrow> nat \<Rightarrow> (nat \<times> nat) list" where
  "array_entries s mem i \<equiv> map (\<lambda>i. (i, i * vt_stride s + vt_vectors s)) (filter (is_candidate s mem) [i..<vt_count s])"

text \<open>What the caller answers for: the result slots the search may write do not lie in the query, in
  the vectors or in the bitmap.\<close>

definition slots_separate :: "cyboudb_vector_topk \<Rightarrow> bool" where
  "slots_separate s \<longleftrightarrow> (let lim = min (vt_k s) (vt_count s) in
     reads_apart s lim (vt_query s) \<and> (\<forall>i<vt_count s. reads_apart s lim (i * vt_stride s + vt_vectors s))
   \<and> (vt_candidates s \<noteq> 0 \<longrightarrow> (\<forall>i<vt_count s. \<forall>j<lim. vt_candidates s + 8 * (i div 64) \<noteq> vt_out_ids s + 8 * j)))"

lemma is_candidate_frame:
  assumes "slots_separate s" "same_outside s (min (vt_k s) (vt_count s)) mem0 mem" "i < vt_count s"
  shows "is_candidate s mem i = is_candidate s mem0 i"
proof (cases "vt_candidates s = 0")
  case False
  then have "vm_q mem (vt_candidates s + 8 * (i div 64)) = vm_q mem0 (vt_candidates s + 8 * (i div 64))"
    using assms by (simp add: slots_separate_def same_outside_def Let_def)
  then show ?thesis by (simp add: is_candidate_def)
qed (simp add: is_candidate_def)

lemma is_candidate_update [simp]:
  "is_candidate (s\<lparr>vt_evaluated_count := c\<rparr>) = is_candidate s" "is_candidate (s\<lparr>vt_out_count := c\<rparr>) = is_candidate s"
  by (simp_all add: fun_eq_iff is_candidate_def)

lemma slots_update [simp]:
  "slots_separate (s\<lparr>vt_evaluated_count := c\<rparr>) = slots_separate s"
  "slots_separate (s\<lparr>vt_out_count := c\<rparr>) = slots_separate s"
  "same_outside (s\<lparr>vt_evaluated_count := c\<rparr>) = same_outside s"
  "same_outside (s\<lparr>vt_out_count := c\<rparr>) = same_outside s"
  "entries (s\<lparr>vt_evaluated_count := c\<rparr>) = entries s"
  "entries (s\<lparr>vt_out_count := c\<rparr>) = entries s"
  "slots_keep (s\<lparr>vt_evaluated_count := c\<rparr>) = slots_keep s"
  "slots_keep (s\<lparr>vt_out_count := c\<rparr>) = slots_keep s"
  by (simp_all add: fun_eq_iff slots_separate_def same_outside_def entries_def slots_keep_def
      reads_apart_def Let_def)

lemma scan_loop_step:
  assumes "i < vt_count s" "i * vt_stride s + vt_vectors s < 2 ^ 64"
  shows "scan_loop cpu mt i cnt s mem =
    (if \<not> is_candidate s mem i then scan_loop cpu mt (i + 1) cnt s mem
     else case evaluate cpu mt s i (i * vt_stride s + vt_vectors s) cnt mem of
        None \<Rightarrow> (V_NONFINITE, s\<lparr>vt_evaluated_count := (vt_evaluated_count s + 1) mod 2 ^ 64\<rparr>, mem)
      | Some (cnt', mem') \<Rightarrow> scan_loop cpu mt (i + 1) cnt'
          (s\<lparr>vt_evaluated_count := (vt_evaluated_count s + 1) mod 2 ^ 64\<rparr>) mem')"
proof -
  have "(i * vt_stride s + vt_vectors s) mod 2 ^ 64 = i * vt_stride s + vt_vectors s"
    using assms(2) by (simp only: mod_less)
  then show ?thesis using assms(1)
    by (subst scan_loop.simps) (simp only: Let_def not_le if_False not_less, simp)
qed

lemma scan_loop_eq:
  assumes "\<forall>i<vt_count s. i * vt_stride s + vt_vectors s < 2 ^ 64" "vt_evaluated_count s < 2 ^ 64"
    and "slots_separate s" "slots_keep s (cnt, mem)" "same_outside s (min (vt_k s) (vt_count s)) mem0 mem" "cnt \<le> i"
  shows "scan_loop cpu mt i cnt s mem =
    (case eval_all cpu mt s (array_entries s mem0 i) cnt mem of
      (st, n, cnt', mem') \<Rightarrow>
        (st, s\<lparr>vt_evaluated_count := (vt_evaluated_count s + n) mod 2 ^ 64,
               vt_out_count := if st = V_OK then cnt' else vt_out_count s\<rparr>, mem'))"
  using assms
proof (induction "vt_count s - i" arbitrary: i s cnt mem)
  case 0
  then show ?case by (subst scan_loop.simps) simp
next
  case (Suc d)
  then have i: "i < vt_count s" and d: "d = vt_count s - (i + 1)" by simp_all
  then have up: "[i..<vt_count s] = i # [i + 1..<vt_count s]" by (simp add: upt_conv_Cons)
  note cand = is_candidate_frame [OF Suc(5,7) i]
  have nw: "i * vt_stride s + vt_vectors s < 2 ^ 64" using Suc(3) i by blast
  note step = scan_loop_step [OF i nw, of cpu mt cnt mem, unfolded cand]
  consider "\<not> is_candidate s mem0 i"
    | "is_candidate s mem0 i" "evaluate cpu mt s i (i * vt_stride s + vt_vectors s) cnt mem = None"
    | cnt' mem' where "is_candidate s mem0 i"
      "evaluate cpu mt s i (i * vt_stride s + vt_vectors s) cnt mem = Some (cnt', mem')"
    by fastforce
  then show ?case
  proof cases
    case 1
    then show ?thesis unfolding step up using Suc(1) [OF d Suc(3-7) trans_le_add1 [OF Suc(8)]] by simp
  next
    case 2
    then show ?thesis unfolding step up by simp
  next
    case 3
    define s2 where "s2 = s\<lparr>vt_evaluated_count := (vt_evaluated_count s + 1) mod 2 ^ 64\<rparr>"
    have "min (vt_k s) (cnt + 1) \<le> min (vt_k s) (vt_count s)" using Suc(8) i by simp
    note ev = evaluate_some [OF 3(2) Suc(6) this]
    have ih: "scan_loop cpu mt (i + 1) cnt' s2 mem' =
      (case eval_all cpu mt s2 (array_entries s2 mem0 (i + 1)) cnt' mem' of
        (st, n, cnt', mem') \<Rightarrow>
          (st, s2\<lparr>vt_evaluated_count := (vt_evaluated_count s2 + n) mod 2 ^ 64,
               vt_out_count := if st = V_OK then cnt' else vt_out_count s2\<rparr>, mem'))"
      by (rule Suc(1))
        (use d Suc(3,5,8) ev same_outside_trans [OF Suc(7) ev(3)] in \<open>simp_all add: s2_def\<close>)
    obtain st n c m where e: "eval_all cpu mt s (array_entries s mem0 (i + 1)) cnt' mem' = (st, n, c, m)"
      by (metis prod_cases4)
    have "scan_loop cpu mt i cnt s mem = scan_loop cpu mt (i + 1) cnt' s2 mem'"
      unfolding step using 3 by (simp add: s2_def)
    also have "\<dots> = (st, s2\<lparr>vt_evaluated_count := (vt_evaluated_count s2 + n) mod 2 ^ 64,
         vt_out_count := if st = V_OK then c else vt_out_count s2\<rparr>, m)"
      unfolding ih using e by (simp add: s2_def)
    also have "\<dots> = (st, s\<lparr>vt_evaluated_count := (vt_evaluated_count s + (n + 1)) mod 2 ^ 64,
         vt_out_count := if st = V_OK then c else vt_out_count s\<rparr>, m)"
      by (simp add: s2_def mod_Suc_add [simplified])
    finally show ?thesis using 3 e unfolding up by simp
  qed
qed


definition search_valid :: "cyboudb_vector_topk \<Rightarrow> bool" where
  "search_valid s \<longleftrightarrow> vtopk_header s \<and> vt_dimensions s \<noteq> 0 \<and> vt_k s \<noteq> 0 \<and> vt_reverse s \<le> 1
   \<and> vt_query s \<noteq> 0 \<and> vt_vectors s \<noteq> 0 \<and> vt_out_ids s \<noteq> 0 \<and> vt_out_scores s \<noteq> 0
   \<and> vt_dimensions s \<le> VECTOR_DIM_MAX \<and> vt_dimensions s * 4 \<le> vt_stride s \<and> \<not> vtopk_ranges_wrap s"

lemma search_ranges:
  assumes "search_valid s" "i < vt_count s"
  shows "i * vt_stride s + vt_dimensions s * 4 + vt_vectors s < 2 ^ 64"
proof -
  have "i * vt_stride s \<le> vt_stride s * (vt_count s - 1)" using assms(2) by (subst mult.commute) (rule mult_le_mono2, simp)
  moreover have "vt_stride s * (vt_count s - 1) + vt_dimensions s * 4 + vt_vectors s < 2 ^ 64"
    using assms by (auto simp: search_valid_def vtopk_ranges_wrap_def not_le)
  ultimately show ?thesis by linarith
qed

lemma search_addresses: "search_valid s \<Longrightarrow> \<forall>i<vt_count s. i * vt_stride s + vt_vectors s < 2 ^ 64"
  using search_ranges by fastforce

lemma slots_keep_empty [simp]: "slots_keep s (0, mem)" "same_outside s lim mem mem"
  by (simp_all add: slots_keep_def entries_def same_outside_def)

lemma array_apart:
  "slots_separate s \<Longrightarrow> list_all (\<lambda>e. reads_apart s (min (vt_k s) (vt_count s)) (snd e)) (array_entries s mem i)"
  by (auto simp: slots_separate_def Let_def list_all_iff)

text \<open>What an array search is asked for: the identifiers of its candidates with their scores.\<close>

definition array_scores :: "metric \<Rightarrow> cyboudb_vector_topk \<Rightarrow> vec_mem \<Rightarrow> (nat \<times> f32) list" where
  "array_scores mt s mem = map (\<lambda>i. (i, score_at mt (vm_f mem) s (i * vt_stride s + vt_vectors s)))
     (filter (is_candidate s mem) [0..<vt_count s])"

lemma scored_array: "scored mt (vm_f mem) s (array_entries s mem 0) = array_scores mt s mem"
  by (simp add: scored_def array_scores_def)

lemma search_law:
  assumes v: "search_valid s" and sep: "slots_separate s"
    and r: "vtopk_search cpu mt s mem = (st, s', mem')"
  shows "same_outside s (min (vt_k s) (vt_count s)) mem mem'
    \<and> (if list_all (\<lambda>e. f32_finite (snd e)) (array_scores mt s mem)
       then st = V_OK \<and> vt_evaluated_count s' = length (array_scores mt s mem) mod 2 ^ 64
         \<and> entries s (vt_out_count s', mem') = take (vt_k s) (sort_key (score_key mt (vt_reverse s)) (array_scores mt s mem))
       else st = V_NONFINITE \<and> vt_out_count s' = 0
         \<and> vt_evaluated_count s' = (length (takeWhile (\<lambda>e. f32_finite (snd e)) (array_scores mt s mem)) + 1) mod 2 ^ 64)"
proof -
  define s0 where "s0 = s\<lparr>vt_out_count := 0, vt_evaluated_count := 0\<rparr>"
  have "vtopk_search cpu mt s mem = scan_loop cpu mt 0 0 s0 mem"
    using v by (auto simp: vtopk_search_def search_valid_def s0_def)
  also have "\<dots> = (case eval_all cpu mt s0 (array_entries s0 mem 0) 0 mem of
      (st, n, cnt', mem') \<Rightarrow>
        (st, s0\<lparr>vt_evaluated_count := (vt_evaluated_count s0 + n) mod 2 ^ 64,
               vt_out_count := if st = V_OK then cnt' else vt_out_count s0\<rparr>, mem'))"
    using search_addresses [OF v] sep by (intro scan_loop_eq) (simp_all add: s0_def)
  finally obtain n c where e: "eval_all cpu mt s (array_entries s mem 0) 0 mem = (st, n, c, mem')"
    and s': "s' = s0\<lparr>vt_evaluated_count := n mod 2 ^ 64, vt_out_count := if st = V_OK then c else 0\<rparr>"
    using r by (auto simp: s0_def split: prod.splits)
  have lim: "min (vt_k s) (0 + length (array_entries s mem 0)) \<le> min (vt_k s) (vt_count s)"
    using length_filter_le [of "is_candidate s mem" "[0..<vt_count s]"] by simp
  have q: "reads_apart s (min (vt_k s) (vt_count s)) (vt_query s)"
    using sep by (simp add: slots_separate_def Let_def)
  note law = eval_all_law [OF slots_keep_empty lim q array_apart [OF sep] e, unfolded scored_array]
  have "entries s (fold (put_score mt s) (array_scores mt s mem) (0, mem))
      = take (vt_k s) (sort_key (score_key mt (vt_reverse s)) (array_scores mt s mem))"
    if "list_all (\<lambda>e. f32_finite (snd e)) (array_scores mt s mem)"
    using slots.fold_put [where mt = mt and xs = "[]", OF slots_keep_empty(1) [of s mem] _ that]
    by (simp add: entries_def)
  with law show ?thesis
    by (auto simp: s' s0_def scored_def array_scores_def split: if_splits)
qed


lemma search_count: "search_valid s \<Longrightarrow> vt_count s < 2 ^ 64"
proof (cases "vt_count s = 0")
  case False
  assume v: "search_valid s"
  then have "1 \<le> vt_stride s" by (auto simp: search_valid_def)
  then have "(vt_count s - 1) * 1 \<le> (vt_count s - 1) * vt_stride s" by (rule mult_le_mono2)
  moreover have "(vt_count s - 1) * vt_stride s + vt_dimensions s * 4 + vt_vectors s < 2 ^ 64"
    using search_ranges [OF v, of "vt_count s - 1"] False by simp
  moreover have "vt_dimensions s \<noteq> 0" using v by (simp add: search_valid_def)
  ultimately show ?thesis by linarith
qed simp

lemma array_scores_length: "length (array_scores mt s mem) \<le> vt_count s"
  unfolding array_scores_def length_map by (rule order_trans [OF length_filter_le]) simp

text \<open>C7 Search is exact.  On a descriptor that passes the tests of the code, with result slots that
  lie outside the query, the vectors and the bitmap, both searches evaluate exactly the vectors the
  bitmap admits.  When all their scores are finite the answer is OK and the slots hold the first \<open>k\<close>
  of these vectors, or all of them, in the order of a stable sort by score, so that vectors of equal
  score come in the order of their identifiers; otherwise the answer is NONFINITE with no results,
  right after the first score that is not finite.  No memory outside the slots changes.\<close>

theorem topk_search_exact:
  assumes "search_valid s" "slots_separate s"
    and "(case mt of Cosine \<Rightarrow> cyboudb_vector_topk_cosine_f32 | L2sq \<Rightarrow> cyboudb_vector_topk_l2sq_f32) cpu (Some s) mem
      = (st, Some s', mem')"
    and "es = array_scores mt s mem"
  shows "same_outside s (min (vt_k s) (vt_count s)) mem mem'
    \<and> (if list_all (\<lambda>e. f32_finite (snd e)) es
       then st = V_OK \<and> vt_evaluated_count s' = length es \<and> vt_out_count s' = min (length es) (vt_k s)
         \<and> entries s (vt_out_count s', mem') = take (vt_k s) (sort_key (score_key mt (vt_reverse s)) es)
       else st = V_NONFINITE \<and> vt_out_count s' = 0
         \<and> vt_evaluated_count s' = length (takeWhile (\<lambda>e. f32_finite (snd e)) es) + 1)"
proof -
  have r: "vtopk_search cpu mt s mem = (st, s', mem')"
    using assms(3) by (cases mt) (auto simp: cyboudb_vector_topk_cosine_f32_def cyboudb_vector_topk_l2sq_f32_def
        on_struct_def split: prod.splits)
  note law = search_law [OF assms(1,2) r, folded assms(4)]
  have len: "length es < 2 ^ 64" using search_count [OF assms(1)] array_scores_length [of mt s mem] assms(4) by simp
  show ?thesis
  proof (cases "list_all (\<lambda>e. f32_finite (snd e)) es")
    case True
    then have "entries s (vt_out_count s', mem') = take (vt_k s) (sort_key (score_key mt (vt_reverse s)) es)"
      using law by simp
    then have "vt_out_count s' = min (length es) (vt_k s)"
      by (metis length_entries length_take length_sort)
    then show ?thesis using law True len by simp
  next
    case False
    then have "takeWhile (\<lambda>e. f32_finite (snd e)) es \<noteq> es"
      by (metis (no_types, lifting) list_all_iff set_takeWhileD)
    then have "length (takeWhile (\<lambda>e. f32_finite (snd e)) es) < length es"
      by (metis length_takeWhile_le le_neq_implies_less takeWhile_eq_take take_all_iff order_refl)
    then show ?thesis using law False len by simp
  qed
qed

text \<open>Two vectors of one number each, one of them the query: with \<open>k\<close> one the second is the result.\<close>

definition sample_search :: cyboudb_vector_topk where
  "sample_search = \<lparr>vt_struct_size = 104, vt_abi_version = 2, vt_query = 64, vt_vectors = 128, vt_count = 2,
    vt_dimensions = 1, vt_k = 1, vt_stride = 4, vt_out_ids = 256, vt_out_scores = 512, vt_out_count = 0,
    vt_candidates = 0, vt_evaluated_count = 0, vt_reverse = 0\<rparr>"

definition sample_mem :: vec_mem where
  "sample_mem = \<lparr>vm_f = (\<lambda>a. if a = 64 \<or> a = 132 then 0x3f800000 else 0), vm_q = (\<lambda>_. 0)\<rparr>"

lemma sample_search_ok: "search_valid sample_search" "slots_separate sample_search"
  by (simp_all add: search_valid_def vtopk_header_def vtopk_ranges_wrap_def slots_wrap_def sample_search_def
      VTOPK_STATE_SIZE_def CybouDB_VECTOR_ABI_VERSION_def VECTOR_DIM_MAX_def slots_separate_def reads_apart_def
      less_2_cases_iff Let_def)

lemma sample_scores: "array_scores Cosine sample_search sample_mem = [(0, 0), (1, 0x3f800000)]"
proof -
  have "[0..<2] = [0, 1 :: nat]" by code_simp
  then show ?thesis
    by (simp add: array_scores_def sample_search_def sample_mem_def is_candidate_def score_at_def
        vector_dot_f32_scalar_def scalar_sum.simps dot_lane_def f32_samples)
qed

theorem topk_search_exact_witness:
  "\<exists>s' mem'. cyboudb_vector_topk_cosine_f32 \<lparr>force_scalar = True, has_avx2 = True\<rparr> (Some sample_search) sample_mem
      = (V_OK, Some s', mem') \<and> vt_evaluated_count s' = 2 \<and> entries sample_search (1, mem') = [(1, 0x3f800000)]"
proof -
  obtain st s' mem' where r: "cyboudb_vector_topk_cosine_f32 \<lparr>force_scalar = True, has_avx2 = True\<rparr> (Some sample_search) sample_mem
      = (st, Some s', mem')"
    by (cases "vtopk_search \<lparr>force_scalar = True, has_avx2 = True\<rparr> Cosine sample_search sample_mem")
      (simp add: cyboudb_vector_topk_cosine_f32_def on_struct_def)
  have "vt_k sample_search = 1" "vt_reverse sample_search = 0" by (simp_all add: sample_search_def)
  then show ?thesis
    using topk_search_exact [OF sample_search_ok, of Cosine, simplified, OF r sample_scores [symmetric]] r
    by (auto simp: f32_samples score_key_def)
qed

section \<open>A session over the same array\<close>

lemma eval_all_append:
  "eval_all cpu mt s (xs @ ys) cnt mem =
    (case eval_all cpu mt s xs cnt mem of (st, n, cnt', mem') \<Rightarrow>
       if st = V_OK then (case eval_all cpu mt s ys cnt' mem' of (st', n', r) \<Rightarrow> (st', n + n', r)) else (st, n, cnt', mem'))"
  by (induction cpu mt s xs cnt mem rule: eval_all.induct) (auto split: option.splits prod.splits)

lemma eval_all_cpu: "eval_all cpu mt s xs cnt mem = eval_all cpu' mt s xs cnt mem"
proof -
  have "evaluate cpu mt s = evaluate cpu' mt s"
    by (simp add: fun_eq_iff evaluate_def metric_kernel_score)
  then show ?thesis
    by (induction cpu mt s xs cnt mem rule: eval_all.induct) (auto split: option.splits prod.splits)
qed

end
