(* ===== verification/Vector_Session.thy ===== *)
theory Vector_Session
  imports Vector_Topk_Laws
begin

text \<open>
  A streaming session against a search in one call: a caller that begins a session, feeds an array
  in blocks of 64 vectors with the words of the bitmap as masks and finishes gets what the search
  over the array gives.
\<close>

section \<open>One feed\<close>

lemma vtopk_feed_eq:
  assumes "vtopk_header s" "count \<le> 64" "vectors \<noteq> 0" "base_id + count < 2 ^ 64" "vt_evaluated_count s < 2 ^ 64"
    and range: "vt_stride s * (count - 1) + vt_dimensions s * 4 + vectors < 2 ^ 64"
  shows "vtopk_feed cpu mt base_id vectors count cm s mem =
    (case eval_all cpu mt s (feed_lanes (vt_stride s) base_id vectors count cm 0) (vt_out_count s) mem of
      (st, n, cnt, mem') \<Rightarrow>
        (st, s\<lparr>vt_evaluated_count := (vt_evaluated_count s + n) mod 2 ^ 64, vt_out_count := cnt\<rparr>, mem'))"
proof (cases "count = 0 \<or> cm = 0")
  case True
  moreover have "vt_dimensions s * 4 mod 2 ^ 64 = vt_dimensions s * 4" using range by (intro mod_less) linarith
  ultimately show ?thesis using assms by (auto simp: vtopk_feed_def)
next
  case False
  have d: "vt_dimensions s * 4 mod 2 ^ 64 = vt_dimensions s * 4" using range by (intro mod_less) linarith
  have "\<forall>i<count. base_id + i < 2 ^ 64 \<and> i * vt_stride s + vectors < 2 ^ 64"
  proof (intro allI impI)
    fix i assume i: "i < count"
    then have "i * vt_stride s \<le> vt_stride s * (count - 1)" by (subst mult.commute) (rule mult_le_mono2, simp)
    then show "base_id + i < 2 ^ 64 \<and> i * vt_stride s + vectors < 2 ^ 64" using assms(4) range i by linarith
  qed
  note loop = feed_loop_eq [OF this assms(5), of cpu mt cm 0 mem]
  have "vtopk_feed cpu mt base_id vectors count cm s mem = feed_loop cpu mt base_id vectors count cm 0 s mem"
    using False assms d unfolding vtopk_feed_def by auto
  then show ?thesis using loop by simp
qed

text \<open>A feed keeps the session exact: when the slots hold the best of the candidates fed so far and
  the caller feeds up to 64 more vectors, then, with finite scores, they hold the best of all of
  them, in the order of a stable sort over the order in which they were fed, and the count of
  evaluations grows by the number of lanes the mask selects.\<close>

theorem topk_feed_extends:
  assumes "vtopk_header s" "count \<le> 64" "vectors \<noteq> 0" "base_id + count < 2 ^ 64" "vt_evaluated_count s < 2 ^ 64"
    and "vt_stride s * (count - 1) + vt_dimensions s * 4 + vectors < 2 ^ 64"
    and "vt_out_count s \<le> vt_k s" "list_all (\<lambda>e. f32_finite (snd e)) (entries s (vt_out_count s, mem))"
    and "entries s (vt_out_count s, mem) = take (vt_k s) (sort_key (score_key mt (vt_reverse s)) xs)"
    and "reads_apart s (vt_k s) (vt_query s)" "\<forall>i<count. reads_apart s (vt_k s) (i * vt_stride s + vectors)"
    and "ys = map (\<lambda>i. (base_id + i, score_at mt (vm_f mem) s (i * vt_stride s + vectors))) (filter (bit cm) [0..<count])"
    and "list_all (\<lambda>e. f32_finite (snd e)) ys"
    and "(case mt of Cosine \<Rightarrow> cyboudb_vector_topk_cosine_feed | L2sq \<Rightarrow> cyboudb_vector_topk_l2sq_feed)
           cpu (Some s) base_id vectors count cm mem = (st, Some s', mem')"
  shows "st = V_OK \<and> vt_evaluated_count s' = (vt_evaluated_count s + length ys) mod 2 ^ 64
    \<and> entries s (vt_out_count s', mem') = take (vt_k s) (sort_key (score_key mt (vt_reverse s)) (xs @ ys))
    \<and> same_outside s (vt_k s) mem mem'"
proof -
  let ?l = "feed_lanes (vt_stride s) base_id vectors count cm 0"
  have "vtopk_feed cpu mt base_id vectors count cm s mem = (st, s', mem')"
    using assms(14) by (cases mt) (auto simp: cyboudb_vector_topk_cosine_feed_def cyboudb_vector_topk_l2sq_feed_def
        on_struct_def split: prod.splits)
  then obtain n c where e: "eval_all cpu mt s ?l (vt_out_count s) mem = (st, n, c, mem')"
    and s': "s' = s\<lparr>vt_evaluated_count := (vt_evaluated_count s + n) mod 2 ^ 64, vt_out_count := c\<rparr>"
    using vtopk_feed_eq [OF assms(1-6), of cpu mt cm mem] by (auto split: prod.splits)
  have ys: "scored mt (vm_f mem) s ?l = ys" by (simp add: scored_def assms(12))
  have keep: "slots_keep s (vt_out_count s, mem)" using assms(7,8) by (simp add: slots_keep_def)
  have ap: "list_all (\<lambda>e. reads_apart s (vt_k s) (snd e)) ?l" using assms(11) by (auto simp: list_all_iff)
  have law: "st = V_OK \<and> n = length ys \<and> (c, mem') = fold (put_score mt s) ys (vt_out_count s, mem)
      \<and> same_outside s (vt_k s) mem mem'"
    using eval_all_law [OF keep slots_keep_empty(2) _ assms(10) ap e] assms(13) unfolding ys
    by (simp add: assms(12))
  have "entries s (fold (put_score mt s) ys (vt_out_count s, mem))
      = take (vt_k s) (sort_key (score_key mt (vt_reverse s)) (xs @ ys))"
    using slots.fold_put [where mt = mt, OF keep assms(9,13)] by blast
  then have "entries s (c, mem') = take (vt_k s) (sort_key (score_key mt (vt_reverse s)) (xs @ ys))"
    using law by metis
  with law show ?thesis by (simp add: s')
qed

text \<open>The first feed of a session over the two vectors of the sample.\<close>

theorem topk_feed_extends_witness:
  "\<exists>s' mem'. cyboudb_vector_topk_cosine_feed \<lparr>force_scalar = False, has_avx2 = True\<rparr> (Some sample_search) 0 128 2 3 sample_mem
      = (V_OK, Some s', mem') \<and> vt_evaluated_count s' = 2 \<and> entries sample_search (vt_out_count s', mem') = [(1, 0x3f800000)]"
proof -
  let ?cpu = "\<lparr>force_scalar = False, has_avx2 = True\<rparr>" and ?ys = "[(0, 0), (1, 0x3f800000)] :: (nat \<times> f32) list"
  obtain st s' mem' where r: "cyboudb_vector_topk_cosine_feed ?cpu (Some sample_search) 0 128 2 3 sample_mem = (st, Some s', mem')"
    by (cases "vtopk_feed ?cpu Cosine 0 128 2 3 sample_search sample_mem")
      (simp add: cyboudb_vector_topk_cosine_feed_def on_struct_def)
  have two: "filter (bit (3 :: nat)) [0..<2] = [0, 1]" by code_simp
  have ys: "?ys = map (\<lambda>i. (0 + i, score_at Cosine (vm_f sample_mem) sample_search
      (i * vt_stride sample_search + 128))) (filter (bit (3 :: nat)) [0..<2])"
    unfolding two by (simp add: sample_search_def sample_mem_def score_at_def
        vector_dot_f32_scalar_def scalar_sum.simps dot_lane_def f32_samples)
  have "st = V_OK \<and> vt_evaluated_count s' = (vt_evaluated_count sample_search + length ?ys) mod 2 ^ 64
    \<and> entries sample_search (vt_out_count s', mem') = take (vt_k sample_search)
        (sort_key (score_key Cosine (vt_reverse sample_search)) ([] @ ?ys))
    \<and> same_outside sample_search (vt_k sample_search) sample_mem mem'"
    using r by (intro topk_feed_extends [where mt = Cosine and cm = 3 and base_id = 0 and vectors = 128
          and count = 2, OF _ _ _ _ _ _ _ _ _ _ _ ys])
      (simp_all add: sample_search_def vtopk_header_def VTOPK_STATE_SIZE_def CybouDB_VECTOR_ABI_VERSION_def
        entries_def reads_apart_def less_2_cases_iff f32_samples)
  then show ?thesis using r by (simp add: sample_search_def score_key_def f32_samples)
qed

section \<open>A whole array\<close>

definition block_mask :: "cyboudb_vector_topk \<Rightarrow> vec_mem \<Rightarrow> nat \<Rightarrow> nat" where
  "block_mask s mem b = (if vt_candidates s = 0 then 2 ^ 64 - 1 else vm_q mem (vt_candidates s + 8 * b))"

fun feed_blocks :: "vec_cpu \<Rightarrow> metric \<Rightarrow> nat list \<Rightarrow> cyboudb_vector_topk \<Rightarrow> vec_mem
    \<Rightarrow> vector_status \<times> cyboudb_vector_topk \<times> vec_mem" where
  "feed_blocks cpu mt [] s mem = (V_OK, s, mem)"
| "feed_blocks cpu mt (b # bs) s mem =
    (case vtopk_feed cpu mt (64 * b) (64 * b * vt_stride s + vt_vectors s) (min 64 (vt_count s - 64 * b))
        (block_mask s mem b) s mem of
      (st, s', mem') \<Rightarrow> if st = V_OK then feed_blocks cpu mt bs s' mem' else (st, s', mem'))"

lemma block_mask_bit:
  assumes "slots_separate s" "same_outside s (min (vt_k s) (vt_count s)) mem0 mem" "i < 64" "64 * b + i < vt_count s"
  shows "bit (block_mask s mem b) i = is_candidate s mem0 (64 * b + i)"
proof -
  have i: "(64 * b + i) div 64 = b" "(64 * b + i) mod 64 = i" using assms(3) by simp_all
  have "bit (2 ^ 64 - 1 :: nat) i" using assms(3) by (simp only: flip: mask_eq_exp_minus_1) (simp add: bit_simps)
  then have "bit (block_mask s mem b) i = is_candidate s mem (64 * b + i)"
    by (simp only: block_mask_def is_candidate_def i) simp
  then show ?thesis using is_candidate_frame [OF assms(1,2,4)] by simp
qed

lemma block_lanes:
  assumes "slots_separate s" "same_outside s (min (vt_k s) (vt_count s)) mem0 mem" "64 * b < vt_count s"
  defines "n \<equiv> min 64 (vt_count s - 64 * b)"
  shows "array_entries s mem0 (64 * b) =
    feed_lanes (vt_stride s) (64 * b) (64 * b * vt_stride s + vt_vectors s) n (block_mask s mem b) 0
    @ array_entries s mem0 (64 * b + n)"
proof -
  have "[64 * b..<vt_count s] = [64 * b..<64 * b + n] @ [64 * b + n..<vt_count s]"
    using assms(3) upt_add_eq_append [of "64 * b" "64 * b + n" "vt_count s - (64 * b + n)"] by (simp add: n_def)
  moreover have "[64 * b..<64 * b + n] = map (\<lambda>i. 64 * b + i) [0..<n]"
    by (simp add: map_add_upt add.commute)
  moreover have "filter (is_candidate s mem0) (map (\<lambda>i. 64 * b + i) [0..<n])
      = map (\<lambda>i. 64 * b + i) (filter (bit (block_mask s mem b)) [0..<n])"
    unfolding filter_map comp_def
    using block_mask_bit [OF assms(1,2)] by (intro arg_cong [where f = "map _"] filter_cong) (auto simp: n_def)
  ultimately show ?thesis by (simp add: algebra_simps)
qed


lemma eval_all_count:
  "eval_all cpu mt s xs cnt mem = (st, n, cnt', mem') \<Longrightarrow> slots_keep s (cnt, mem) \<Longrightarrow> cnt' \<le> cnt + length xs"
proof (induction xs arbitrary: cnt mem n)
  case (Cons e xs)
  obtain cid addr where e: "e = (cid, addr)" by fastforce
  show ?case
  proof (cases "evaluate cpu mt s cid addr cnt mem")
    case None
    then show ?thesis using Cons(2) by (simp add: e)
  next
    case (Some r)
    obtain c m where r: "evaluate cpu mt s cid addr cnt mem = Some (c, m)" using Some by (cases r) simp
    obtain k where "eval_all cpu mt s xs c m = (st, k, cnt', mem')"
      using Cons(2) by (auto simp: e r split: prod.splits)
    from Cons(1) [OF this] evaluate_some(1,2) [OF r Cons(3) order_refl] show ?thesis by simp
  qed
qed simp

lemma search_valid_update [simp]:
  "search_valid (s\<lparr>vt_evaluated_count := c\<rparr>) = search_valid s" "search_valid (s\<lparr>vt_out_count := c\<rparr>) = search_valid s"
  by (simp_all add: search_valid_def vtopk_header_def vtopk_ranges_wrap_def)

lemma block_feed:
  assumes v: "search_valid s" and b: "64 * b < vt_count s" and ev: "vt_evaluated_count s < 2 ^ 64"
  defines "n \<equiv> min 64 (vt_count s - 64 * b)"
  shows "vtopk_feed cpu mt (64 * b) (64 * b * vt_stride s + vt_vectors s) n cm s mem =
    (case eval_all cpu mt s (feed_lanes (vt_stride s) (64 * b) (64 * b * vt_stride s + vt_vectors s) n cm 0)
        (vt_out_count s) mem of
      (st, n, cnt, mem') \<Rightarrow>
        (st, s\<lparr>vt_evaluated_count := (vt_evaluated_count s + n) mod 2 ^ 64, vt_out_count := cnt\<rparr>, mem'))"
proof (rule vtopk_feed_eq)
  have n: "n \<le> 64" "0 < n" "64 * b + n \<le> vt_count s" using b by (auto simp: n_def)
  have "(64 * b + (n - 1)) * vt_stride s + vt_dimensions s * 4 + vt_vectors s < 2 ^ 64"
    using search_ranges [OF v, of "64 * b + (n - 1)"] n by simp
  then show "vt_stride s * (n - 1) + vt_dimensions s * 4 + (64 * b * vt_stride s + vt_vectors s) < 2 ^ 64"
    by (simp add: algebra_simps)
  show "64 * b + n < 2 ^ 64" using n search_count [OF v] by linarith
  show "vtopk_header s" "64 * b * vt_stride s + vt_vectors s \<noteq> 0" using v by (simp_all add: search_valid_def)
qed (use ev in \<open>simp_all add: n_def\<close>)

lemma feed_blocks_eq:
  assumes "search_valid s" "slots_separate s" "vt_evaluated_count s < 2 ^ 64"
    and "slots_keep s (vt_out_count s, mem)" "same_outside s (min (vt_k s) (vt_count s)) mem0 mem"
    and "vt_out_count s \<le> 64 * b"
  shows "feed_blocks cpu mt [b..<(vt_count s + 63) div 64] s mem =
    (case eval_all cpu mt s (array_entries s mem0 (64 * b)) (vt_out_count s) mem of
      (st, n, cnt, mem') \<Rightarrow>
        (st, s\<lparr>vt_evaluated_count := (vt_evaluated_count s + n) mod 2 ^ 64, vt_out_count := cnt\<rparr>, mem'))"
  using assms
proof (induction "(vt_count s + 63) div 64 - b" arbitrary: b s mem)
  case 0
  then have "vt_count s \<le> 64 * b" by linarith
  then show ?case using 0 by simp
next
  case (Suc d)
  let ?B = "(vt_count s + 63) div 64" and ?lim = "min (vt_k s) (vt_count s)"
  define n where "n = min 64 (vt_count s - 64 * b)"
  define xs where "xs = feed_lanes (vt_stride s) (64 * b) (64 * b * vt_stride s + vt_vectors s) n (block_mask s mem b) 0"
  have b: "64 * b < vt_count s" using Suc(2) by linarith
  have up: "[b..<?B] = b # [b + 1..<?B]" using Suc(2) by (simp add: upt_conv_Cons)
  have all: "array_entries s mem0 (64 * b) = xs @ array_entries s mem0 (64 * (b + 1))"
    using block_lanes [OF Suc(4,7) b] by (cases "vt_count s < 64 * b + 64") (simp_all add: n_def xs_def add.commute [of 64])
  obtain st k c m where e: "eval_all cpu mt s xs (vt_out_count s) mem = (st, k, c, m)" by (metis prod_cases4)
  define s2 where "s2 = s\<lparr>vt_evaluated_count := (vt_evaluated_count s + k) mod 2 ^ 64, vt_out_count := c\<rparr>"
  have feed: "feed_blocks cpu mt [b..<?B] s mem =
      (if st = V_OK then feed_blocks cpu mt [b + 1..<?B] s2 m else (st, s2, m))"
    unfolding up using block_feed [OF Suc(3) b Suc(5), of cpu mt "block_mask s mem b" mem] e
    by (simp add: xs_def n_def s2_def)
  show ?case
  proof (cases "st = V_OK")
    case False
    then show ?thesis unfolding all eval_all_append using feed e by (simp add: s2_def)
  next
    case True
    have len: "length xs \<le> n" unfolding xs_def length_map by (rule order_trans [OF length_filter_le]) simp
    have lim: "min (vt_k s) (vt_out_count s + length xs) \<le> ?lim"
    proof -
      have "vt_out_count s + length xs \<le> vt_count s" using len Suc(8) b unfolding n_def by linarith
      then show ?thesis by simp
    qed
    have q: "reads_apart s ?lim (vt_query s)" using Suc(4) by (simp add: slots_separate_def Let_def)
    have ap: "list_all (\<lambda>e. reads_apart s ?lim (snd e)) xs"
      using array_apart [OF Suc(4), of mem0 "64 * b"] unfolding all by simp
    note law = eval_all_law [OF Suc(6,7) lim q ap e]
    have c: "c \<le> 64 * (b + 1)" using eval_all_count [OF e Suc(6)] len Suc(8) by (simp add: n_def)
    have ih: "feed_blocks cpu mt [b + 1..<(vt_count s2 + 63) div 64] s2 m =
      (case eval_all cpu mt s2 (array_entries s2 mem0 (64 * (b + 1))) (vt_out_count s2) m of
        (st, n, cnt, mem') \<Rightarrow>
          (st, s2\<lparr>vt_evaluated_count := (vt_evaluated_count s2 + n) mod 2 ^ 64, vt_out_count := cnt\<rparr>, mem'))"
      by (rule Suc(1)) (use Suc(2,3,4) law c in \<open>simp_all add: s2_def\<close>)
    obtain st' k' c' m' where e': "eval_all cpu mt s (array_entries s mem0 (64 * (b + 1))) c m = (st', k', c', m')"
      by (metis prod_cases4)
    then have "feed_blocks cpu mt [b + 1..<?B] s2 m
        = (st', s\<lparr>vt_evaluated_count := (vt_evaluated_count s + (k + k')) mod 2 ^ 64, vt_out_count := c'\<rparr>, m')"
      using ih by (simp add: s2_def mod_simps add.assoc)
    then show ?thesis unfolding all eval_all_append feed using True e e' by simp
  qed
qed

text \<open>C8 Streaming is the same search.  On a descriptor both forms accept, a session begun and fed with
  the whole array in blocks of 64 vectors, each with its word of the bitmap, ends with the status,
  the memory and the number of evaluations of the search over the array, on any processor, and when
  that status is OK with the same descriptor, whose results are complete.\<close>

theorem topk_session_is_search:
  assumes "search_valid s" "slots_separate s"
    and "(case mt of Cosine \<Rightarrow> cyboudb_vector_topk_cosine_begin | L2sq \<Rightarrow> cyboudb_vector_topk_l2sq_begin) (Some s)
      = (V_OK, Some s0)"
    and "feed_blocks cpu mt [0..<(vt_count s + 63) div 64] s0 mem = (st1, s1, mem1)"
    and "(case mt of Cosine \<Rightarrow> cyboudb_vector_topk_cosine_f32 | L2sq \<Rightarrow> cyboudb_vector_topk_l2sq_f32) cpu' (Some s) mem
      = (st2, Some s2, mem2)"
  shows "st1 = st2 \<and> mem1 = mem2 \<and> vt_evaluated_count s1 = vt_evaluated_count s2 \<and> (st1 = V_OK \<longrightarrow> s1 = s2)
    \<and> (case mt of Cosine \<Rightarrow> cyboudb_vector_topk_cosine_finish | L2sq \<Rightarrow> cyboudb_vector_topk_l2sq_finish) (Some s1) = V_OK"
proof -
  have s0: "s0 = s\<lparr>vt_out_count := 0, vt_evaluated_count := 0\<rparr>"
    using assms(3) by (cases mt) (auto simp: cyboudb_vector_topk_cosine_begin_def cyboudb_vector_topk_l2sq_begin_def
        begin_at_def vtopk_begin_def split: if_splits prod.splits)
  obtain st n c m where e: "eval_all cpu mt s (array_entries s mem 0) 0 mem = (st, n, c, m)" by (metis prod_cases4)
  have one: "(st1, s1, mem1) = (st, s0\<lparr>vt_evaluated_count := n mod 2 ^ 64, vt_out_count := c\<rparr>, m)"
    using feed_blocks_eq [of s0 mem mem 0 cpu mt] assms(1,2,4) e by (simp add: s0)
  have "vtopk_search cpu' mt s mem = (st2, s2, mem2)"
    using assms(5) by (cases mt) (auto simp: cyboudb_vector_topk_cosine_f32_def cyboudb_vector_topk_l2sq_f32_def
        on_struct_def split: prod.splits)
  moreover have "vtopk_search cpu' mt s mem = scan_loop cpu' mt 0 0 s0 mem"
    using assms(1) by (auto simp: vtopk_search_def search_valid_def s0)
  moreover have "scan_loop cpu' mt 0 0 s0 mem =
      (st, s0\<lparr>vt_evaluated_count := n mod 2 ^ 64, vt_out_count := if st = V_OK then c else 0\<rparr>, m)"
    using scan_loop_eq [of s0 0 mem mem 0 cpu' mt] search_addresses [OF assms(1)] assms(2)
      e [unfolded eval_all_cpu [of cpu _ _ _ _ _ cpu']] by (simp add: s0)
  moreover have "vtopk_header s" using assms(1) by (simp add: search_valid_def)
  ultimately show ?thesis using one
    by (cases mt) (simp_all add: cyboudb_vector_topk_cosine_finish_def cyboudb_vector_topk_l2sq_finish_def
        finish_at_def vtopk_finish_def vtopk_header_def s0)
qed


theorem topk_session_is_search_witness:
  "\<exists>s0 s1 s2 mem1. cyboudb_vector_topk_cosine_begin (Some sample_search) = (V_OK, Some s0)
    \<and> feed_blocks \<lparr>force_scalar = False, has_avx2 = True\<rparr> Cosine [0..<(vt_count sample_search + 63) div 64] s0 sample_mem
        = (V_OK, s1, mem1)
    \<and> cyboudb_vector_topk_cosine_f32 \<lparr>force_scalar = True, has_avx2 = True\<rparr> (Some sample_search) sample_mem
        = (V_OK, Some s2, mem1) \<and> s1 = s2"
proof -
  let ?c = "\<lparr>force_scalar = False, has_avx2 = True\<rparr>" and ?c' = "\<lparr>force_scalar = True, has_avx2 = True\<rparr>"
  define s0 where "s0 = sample_search"
  have b: "cyboudb_vector_topk_cosine_begin (Some sample_search) = (V_OK, Some s0)"
    by (simp add: cyboudb_vector_topk_cosine_begin_def begin_at_def vtopk_begin_def sample_search_def s0_def
        vtopk_header_def slots_wrap_def VTOPK_STATE_SIZE_def CybouDB_VECTOR_ABI_VERSION_def VECTOR_DIM_MAX_def)
  obtain st1 s1 mem1 where f: "feed_blocks ?c Cosine [0..<(vt_count sample_search + 63) div 64] s0 sample_mem
      = (st1, s1, mem1)" by (metis prod_cases3)
  obtain st2 s2 mem2 where v: "vtopk_search ?c' Cosine sample_search sample_mem = (st2, s2, mem2)" by (metis prod_cases3)
  then have g: "cyboudb_vector_topk_cosine_f32 ?c' (Some sample_search) sample_mem = (st2, Some s2, mem2)"
    by (simp add: cyboudb_vector_topk_cosine_f32_def on_struct_def)
  have "st2 = V_OK" using search_law [OF sample_search_ok v] by (simp add: sample_scores f32_samples)
  then show ?thesis
    using topk_session_is_search [where mt = Cosine, OF sample_search_ok, simplified, OF b f g] b f g by auto
qed

end
