(* ===== verification/Vector_Search.thy ===== *)
theory Vector_Search
  imports Vector_Session
begin

text \<open>
  The program \<^verbatim>\<open>examples/vector_search.c\<close>: six vectors normalized into an arena on the stack, a
  query, a bitmap that excludes one of them, and a cosine search for the three best.  Where the
  objects lie is a parameter, and so is what memory and the two structures hold before they are
  written; a line printed is the numbers it is printed from, a score as its pattern.
\<close>

section \<open>The program\<close>

text \<open>The addresses of the objects of \<open>main\<close>.\<close>

record vs_layout =
  l_input :: nat
  l_storage :: nat
  l_query :: nat
  l_raw_query :: nat
  l_scores :: nat
  l_ids :: nat
  l_id :: nat
  l_candidates :: nat

definition vs_input :: "f32 list list" where
  "vs_input = [[0x3f800000, 0, 0], [0, 0x3f800000, 0], [0x3f800000, 0x3f800000, 0],
     [0xbf800000, 0, 0], [0x3f800000, 0, 0x3f800000], [0, 0, 0x3f800000]]"

datatype vs_line = Evaluated nat | Found nat f32

text \<open>The loop over the six inputs; \<open>None\<close> is the \<open>return 1\<close> inside it.\<close>

function vs_fill :: "vec_cpu \<Rightarrow> vs_layout \<Rightarrow> nat \<Rightarrow> cyboudb_vector_arena option \<Rightarrow> vec_mem
    \<Rightarrow> (cyboudb_vector_arena option \<times> vec_mem) option" where
  "vs_fill cpu L i arena mem =
    (if 6 \<le> i then Some (arena, mem)
     else case cyboudb_vector_arena_append_normalized cpu arena (l_input L + 12 * i) (l_id L) mem of
       (st, arena', mem') \<Rightarrow>
         if st \<noteq> V_OK \<or> vm_q mem' (l_id L) \<noteq> i then None else vs_fill cpu L (i + 1) arena' mem')"
  by pat_completeness auto
termination by (relation "measure (\<lambda>(cpu, L, i, arena, mem). 6 - i)") auto

declare vs_fill.simps [simp del]

definition vs_descriptor :: "vs_layout \<Rightarrow> cyboudb_vector_arena \<Rightarrow> cyboudb_vector_topk \<Rightarrow> cyboudb_vector_topk" where
  "vs_descriptor L arena search = search\<lparr>vt_query := l_query L, vt_vectors := l_storage L,
     vt_count := va_count arena, vt_dimensions := va_dimensions arena, vt_k := 3,
     vt_stride := va_stride arena, vt_out_ids := l_ids L, vt_out_scores := l_scores L,
     vt_candidates := l_candidates L\<rparr>"

definition vs_report :: "vs_layout \<Rightarrow> cyboudb_vector_topk \<Rightarrow> vec_mem \<Rightarrow> int \<times> vs_line list" where
  "vs_report L search mem =
    (if vt_out_count search = 3 \<and> vt_evaluated_count search = 5 \<and> vm_q mem (l_ids L) = 0
       \<and> vm_q mem (l_ids L + 8) = 2 \<and> vm_q mem (l_ids L + 16) = 4 then 0 else 1,
     Evaluated (vt_evaluated_count search)
       # map (\<lambda>i. Found (vm_q mem (l_ids L + 8 * i)) (vm_f mem (l_scores L + 4 * i))) [0..<vt_out_count search])"

definition vs_main :: "vec_cpu \<Rightarrow> vs_layout \<Rightarrow> cyboudb_vector_arena \<Rightarrow> cyboudb_vector_topk \<Rightarrow> vec_mem
    \<Rightarrow> int \<times> vs_line list" where
  "vs_main cpu L arena0 search0 mem0 =
    (let mem = mem0\<lparr>vm_f := store_lanes (l_input L) (concat vs_input) (vm_f mem0)\<rparr> in
     case cyboudb_vector_arena_init (Some arena0) (l_storage L) 72 3 of (st, arena) \<Rightarrow>
     if st \<noteq> V_OK then (1, [])
     else case vs_fill cpu L 0 arena mem of
       None \<Rightarrow> (1, [])
     | Some (arena, mem) \<Rightarrow>
         let mem = mem\<lparr>vm_f := store_lanes (l_raw_query L) [0x3f800000, 0, 0] (vm_f mem)\<rparr> in
         case cyboudb_vector_normalize_f32 cpu (vm_f mem) (l_raw_query L) (l_query L) 3 of (st, f) \<Rightarrow>
         if st \<noteq> V_OK then (1, [])
         else let mem = mem\<lparr>vm_f := f, vm_q := (vm_q mem)(l_candidates L := 0x3d)\<rparr> in
         case cyboudb_vector_topk_init (Some search0) of (st, search) \<Rightarrow>
         if st \<noteq> V_OK then (1, [])
         else case cyboudb_vector_topk_cosine_f32 cpu
             (Some (vs_descriptor L (the arena) (the search))) mem of (st, search, mem) \<Rightarrow>
         if st \<noteq> V_OK then (1, []) else vs_report L (the search) mem)"

section \<open>The layout\<close>

text \<open>What the compiler guarantees: every object lies at an address that is not null, in a range that
  does not wrap, and no two overlap.\<close>

definition vs_objects :: "vs_layout \<Rightarrow> (nat \<times> nat) list" where
  "vs_objects L = [(l_input L, 72), (l_storage L, 72), (l_query L, 12), (l_raw_query L, 12), (l_scores L, 12),
     (l_ids L, 24), (l_id L, 8), (l_candidates L, 8)]"

definition vs_layout_ok :: "vs_layout \<Rightarrow> bool" where
  "vs_layout_ok L \<longleftrightarrow> list_all (\<lambda>(p, n). p \<noteq> 0 \<and> p + n < 2 ^ 64) (vs_objects L)
     \<and> sorted_wrt (\<lambda>(p, n) (q, m). p + n \<le> q \<or> q + m \<le> p) (vs_objects L)"

lemma layout_bounds:
  assumes "vs_layout_ok L"
  shows "l_input L \<noteq> 0" "l_input L + 72 < 2 ^ 64" "l_storage L \<noteq> 0" "l_storage L + 72 < 2 ^ 64"
    "l_query L \<noteq> 0" "l_query L + 12 < 2 ^ 64" "l_raw_query L \<noteq> 0" "l_scores L \<noteq> 0" "l_scores L + 12 < 2 ^ 64"
    "l_ids L \<noteq> 0" "l_ids L + 24 < 2 ^ 64" "l_id L \<noteq> 0" "l_id L + 8 < 2 ^ 64"
    "l_candidates L \<noteq> 0" "l_candidates L + 8 < 2 ^ 64"
  using assms by (simp_all add: vs_layout_ok_def vs_objects_def)

lemma layout_apart:
  assumes "vs_layout_ok L"
  shows "l_input L + 72 \<le> l_storage L \<or> l_storage L + 72 \<le> l_input L"
    "l_storage L + 72 \<le> l_query L \<or> l_query L + 12 \<le> l_storage L"
    "l_storage L + 72 \<le> l_raw_query L \<or> l_raw_query L + 12 \<le> l_storage L"
    "l_storage L + 72 \<le> l_scores L \<or> l_scores L + 12 \<le> l_storage L"
    "l_query L + 12 \<le> l_raw_query L \<or> l_raw_query L + 12 \<le> l_query L"
    "l_query L + 12 \<le> l_scores L \<or> l_scores L + 12 \<le> l_query L"
    "l_ids L + 24 \<le> l_candidates L \<or> l_candidates L + 8 \<le> l_ids L"
  using assms by (simp_all add: vs_layout_ok_def vs_objects_def)

section \<open>Filling the arena\<close>

definition vs_unit :: "f32 list list" where
  "vs_unit = [[0x3f800000, 0, 0], [0, 0x3f800000, 0], [0x3f3504f3, 0x3f3504f3, 0],
     [0xbf800000, 0, 0], [0x3f3504f3, 0, 0x3f3504f3], [0, 0, 0x3f800000]]"

lemma less_6: "i < (6 :: nat) \<longleftrightarrow> i = 0 \<or> i = 1 \<or> i = 2 \<or> i = 3 \<or> i = 4 \<or> i = 5"
  by auto

lemma vs_payload: "i < 6 \<Longrightarrow> normalized_payload (vs_input ! i) = Inl (vs_unit ! i)"
  by (auto simp: less_6 vs_input_def vs_unit_def normalized_payload_def f32_samples f32_bits_def)

lemma length_vs_unit [simp]: "length vs_unit = 6"
  by (simp add: vs_unit_def)

text \<open>The arena after \<open>i\<close> appends.\<close>

definition vs_filled :: "vs_layout \<Rightarrow> nat \<Rightarrow> cyboudb_vector_arena \<Rightarrow> fmem \<Rightarrow> bool" where
  "vs_filled L i a f \<longleftrightarrow> arena_ok a \<and> va_base a = l_storage L \<and> va_capacity a = 72 \<and> va_dimensions a = 3
     \<and> va_count a = i \<and> arena_vectors a f = take i vs_unit
     \<and> (\<forall>j<6. vector_at f (l_input L + 12 * j) 3 = vs_input ! j)"

lemma vs_append:
  assumes L: "vs_layout_ok L" and i: "i < 6" and a: "vs_filled L i a (vm_f mem)"
  shows "\<exists>a' mem'. cyboudb_vector_arena_append_normalized cpu (Some a) (l_input L + 12 * i) (l_id L) mem = (V_OK, Some a', mem')
    \<and> vm_q mem' (l_id L) = i \<and> vs_filled L (i + 1) a' (vm_f mem')"
proof -
  obtain st a' mem' where r: "vector_arena_append_normalized cpu (l_input L + 12 * i) (l_id L) a mem = (st, a', mem')"
    by (metis prod_cases3)
  have ok: "arena_ok a" and f: "va_base a = l_storage L" "va_capacity a = 72" "va_dimensions a = 3" "va_count a = i"
    "arena_vectors a (vm_f mem) = take i vs_unit" "\<forall>j<6. vector_at (vm_f mem) (l_input L + 12 * j) 3 = vs_input ! j"
    using a by (simp_all add: vs_filled_def)
  have st: "va_stride a = 12" "va_used a = 12 * i" using ok f by (simp_all add: arena_ok_def)
  have "append_args a (l_input L + 12 * i) (l_id L)"
    using layout_bounds [OF L] layout_apart(1) [OF L] i unfolding append_args_def f st by linarith
  then have o: "nrm.outcome a mem (l_input L + 12 * i) (l_id L) (st, a', mem')"
    using nrm.append_settles [OF ok, where cpu = cpu and mem = mem] by (simp add: r flip: r)
  have out: "st = V_OK" "arena_ok a'" "arena_vectors a' (vm_f mem') = take i vs_unit @ [vs_unit ! i]"
    "vm_q mem' = (vm_q mem)(l_id L := i)" "va_count a' = i + 1" "va_base a' = l_storage L" "va_capacity a' = 72"
    "va_dimensions a' = 3" "\<forall>p. p < l_storage L + 12 * i \<or> l_storage L + 72 \<le> p \<longrightarrow> vm_f mem' p = vm_f mem p"
    using o i by (simp_all add: nrm.outcome_def f st vs_payload)
  have "vector_at (vm_f mem') (l_input L + 12 * j) 3 = vector_at (vm_f mem) (l_input L + 12 * j) 3" if "j < 6" for j
    unfolding vector_at_def using that out(9) by (intro map_cong refl) (use layout_apart(1) [OF L] in auto)
  then have "vs_filled L (i + 1) a' (vm_f mem')"
    using out i f(6) by (simp add: vs_filled_def take_Suc_conv_app_nth)
  then show ?thesis
    using out r by (auto simp: cyboudb_vector_arena_append_normalized_def on_struct_def)
qed

lemma vs_fill_law:
  assumes L: "vs_layout_ok L" and "i \<le> 6" "vs_filled L i a (vm_f mem)"
  shows "\<exists>a' mem'. vs_fill cpu L i (Some a) mem = Some (Some a', mem') \<and> vs_filled L 6 a' (vm_f mem')"
  using assms(2,3)
proof (induction "6 - i" arbitrary: i a mem)
  case 0
  then show ?case by (subst vs_fill.simps) auto
next
  case (Suc d)
  then have i: "i < 6" by simp
  obtain a' mem' where r: "cyboudb_vector_arena_append_normalized cpu (Some a) (l_input L + 12 * i) (l_id L) mem = (V_OK, Some a', mem')"
    and q: "vm_q mem' (l_id L) = i" and f: "vs_filled L (i + 1) a' (vm_f mem')"
    using vs_append [OF L i Suc(4)] by blast
  have "vs_fill cpu L i (Some a) mem = vs_fill cpu L (i + 1) (Some a') mem'"
    using i r q by (subst vs_fill.simps) simp
  then show ?case using Suc(1) [OF _ _ f] Suc(2) i by simp
qed


section \<open>The query and the search\<close>

declare store_lanes.simps [simp del]

lemma vector_at_store_same: "vector_at (store_lanes p xs f) p (length xs) = xs"
  by (rule nth_equalityI) (simp_all add: vector_at_def store_lanes_inside)

lemma vector_at_store_three: "vector_at (store_lanes p [x, y, z] f) p 3 = [x, y, z]"
  using vector_at_store_same [of p "[x, y, z]" f] by (simp add: numeral_3_eq_3)

lemma vector_at_store_other:
  "q + 4 * n \<le> p \<or> p + 4 * length xs \<le> q \<Longrightarrow> vector_at (store_lanes p xs f) q n = vector_at f q n"
  unfolding vector_at_def by (intro map_cong refl store_lanes_outside) auto

lemma dot_vectors: "vector_dot_f32_scalar m a b n = foldl addss 0 (map2 mulss (vector_at m a n) (vector_at m b n))"
  by (simp add: vector_dot_f32_scalar_def scalar_sum_foldl vector_at_def zip_map_map zip_same_conv_map
      comp_def dot_lane_def [abs_def])

lemma vs_query:
  assumes L: "vs_layout_ok L" and f: "vector_at f (l_raw_query L) 3 = [0x3f800000, 0, 0]"
  shows "cyboudb_vector_normalize_f32 cpu f (l_raw_query L) (l_query L) 3 = (V_OK, store_lanes (l_query L) [0x3f800000, 0, 0] f)"
proof -
  have "normalized_payload [0x3f800000, 0, 0] = Inl [0x3f800000, 0, 0]"
    using vs_payload [of 0] by (simp add: vs_input_def vs_unit_def)
  then show ?thesis
    unfolding cyboudb_vector_normalize_f32_def
    using layout_bounds [OF L] layout_apart(5) [OF L] by (subst normalize_payload) (auto simp: f)
qed

text \<open>The memory and the arena the search begins with.\<close>

definition vs_prepared :: "vs_layout \<Rightarrow> cyboudb_vector_arena \<Rightarrow> vec_mem \<Rightarrow> bool" where
  "vs_prepared L a mem \<longleftrightarrow> va_count a = 6 \<and> va_dimensions a = 3 \<and> va_stride a = 12
     \<and> (\<forall>i<6. vector_at (vm_f mem) (i * 12 + l_storage L) 3 = vs_unit ! i)
     \<and> vector_at (vm_f mem) (l_query L) 3 = [0x3f800000, 0, 0] \<and> vm_q mem (l_candidates L) = 0x3d"

lemma vs_descriptor_fields:
  assumes "vs_prepared L a mem"
  defines "s \<equiv> vs_descriptor L a vector_topk_init"
  shows "vt_query s = l_query L" "vt_vectors s = l_storage L" "vt_count s = 6" "vt_dimensions s = 3" "vt_k s = 3"
    "vt_stride s = 12" "vt_out_ids s = l_ids L" "vt_out_scores s = l_scores L" "vt_candidates s = l_candidates L"
    "vt_reverse s = 0" "vtopk_header s"
  using assms(1) by (simp_all add: s_def vs_descriptor_def vector_topk_init_def vs_prepared_def vtopk_header_def)

lemma vs_search_valid:
  assumes L: "vs_layout_ok L" and p: "vs_prepared L a mem"
  defines "s \<equiv> vs_descriptor L a vector_topk_init"
  shows "search_valid s" "slots_separate s"
proof -
  note f = vs_descriptor_fields [OF p, folded s_def]
  show "search_valid s"
    using layout_bounds [OF L] unfolding search_valid_def vtopk_ranges_wrap_def slots_wrap_def f VECTOR_DIM_MAX_def
    by (simp add: f)
  have "l_scores L + 4 * j \<noteq> q + 4 * i" if "j < 3" "i < 3" "q + 12 \<le> l_scores L \<or> l_scores L + 12 \<le> q" for i j q
    using that by linarith
  then have apart: "reads_apart s 3 q" if "q + 12 \<le> l_scores L \<or> l_scores L + 12 \<le> q" for q
    using that unfolding reads_apart_def f by metis
  have "reads_apart s 3 (i * 12 + l_storage L)" if "i < 6" for i
    by (rule apart) (use that layout_apart(4) [OF L] in linarith)
  moreover have "reads_apart s 3 (l_query L)" by (rule apart) (use layout_apart(6) [OF L] in blast)
  moreover have "l_candidates L \<noteq> l_ids L + 8 * j" if "j < 3" for j
    using that layout_apart(7) [OF L] by linarith
  ultimately show "slots_separate s" unfolding slots_separate_def f by auto
qed

lemma vs_scores:
  assumes L: "vs_layout_ok L" and p: "vs_prepared L a mem"
  defines "s \<equiv> vs_descriptor L a vector_topk_init"
  shows "array_scores Cosine s mem = [(0, 0x3f800000), (2, 0x3f3504f3), (3, 0xbf800000), (4, 0x3f3504f3), (5, 0)]"
proof -
  note f = vs_descriptor_fields [OF p, folded s_def]
  have "is_candidate s mem i = bit (0x3d :: nat) i" if "i < 6" for i
  proof -
    have "i div 64 = 0" "i mod 64 = i" using that by simp_all
    then show ?thesis using p layout_bounds(14) [OF L] by (simp add: is_candidate_def f vs_prepared_def)
  qed
  then have "filter (is_candidate s mem) [0..<6] = filter (bit (0x3d :: nat)) [0..<6]"
    by (intro filter_cong) auto
  also have "\<dots> = [0, 2, 3, 4, 5]" by code_simp
  finally have c: "filter (is_candidate s mem) [0..<vt_count s] = [0, 2, 3, 4, 5]" unfolding f .
  have sc: "score_at Cosine (vm_f mem) s (i * vt_stride s + vt_vectors s)
      = foldl addss 0 (map2 mulss [0x3f800000, 0, 0] (vs_unit ! i))" if "i < 6" for i
    using p that by (simp add: score_at_def dot_vectors f vs_prepared_def)
  show ?thesis
    unfolding array_scores_def c list.map by (subst (1 2 3 4 5) sc) (simp_all add: vs_unit_def f32_samples)
qed


lemma vs_prepare:
  assumes L: "vs_layout_ok L" and a: "vs_filled L 6 a (vm_f mem)"
  shows "vs_prepared L a \<lparr>vm_f = store_lanes (l_query L) [0x3f800000, 0, 0]
      (store_lanes (l_raw_query L) [0x3f800000, 0, 0] (vm_f mem)), vm_q = (vm_q mem)(l_candidates L := 0x3d)\<rparr>"
proof -
  have a': "arena_ok a" "va_base a = l_storage L" "va_count a = 6" "va_dimensions a = 3" "arena_vectors a (vm_f mem) = vs_unit"
    using a by (simp_all add: vs_filled_def)
  then have stride: "va_stride a = 12" by (simp add: arena_ok_def)
  have "vector_at (vm_f mem) (i * 12 + l_storage L) 3 = vs_unit ! i" if "i < 6" for i
    using arg_cong [OF a'(5), of "\<lambda>vs. vs ! i"] that by (simp add: arena_vectors_def a' stride add.commute)
  moreover have "vector_at (store_lanes (l_query L) [0x3f800000, 0, 0]
      (store_lanes (l_raw_query L) [0x3f800000, 0, 0] f)) (i * 12 + l_storage L) 3 = vector_at f (i * 12 + l_storage L) 3"
    if "i < 6" for f i
  proof -
    have "i * 12 + l_storage L + 4 * 3 \<le> l_query L \<or> l_query L + 4 * 3 \<le> i * 12 + l_storage L"
      "i * 12 + l_storage L + 4 * 3 \<le> l_raw_query L \<or> l_raw_query L + 4 * 3 \<le> i * 12 + l_storage L"
      using that layout_apart(2,3) [OF L] by linarith+
    then show ?thesis by (simp add: vector_at_store_other)
  qed
  ultimately show ?thesis
    using a' stride by (simp add: vs_prepared_def vector_at_store_three)
qed

lemma vs_input_stored: "j < 6 \<Longrightarrow> vector_at (store_lanes p (concat vs_input) f) (p + 12 * j) 3 = vs_input ! j"
proof -
  assume j: "j < 6"
  have "store_lanes p (concat vs_input) f (p + 12 * j + 4 * i) = concat vs_input ! (3 * j + i)" if "i < 3" for i
    using store_lanes_inside [of "3 * j + i" "concat vs_input" p f] that j by (simp add: vs_input_def algebra_simps)
  then have "vector_at (store_lanes p (concat vs_input) f) (p + 12 * j) 3 = map (\<lambda>i. concat vs_input ! (3 * j + i)) [0..<3]"
    by (simp add: vector_at_def)
  also have "\<dots> = vs_input ! j" using j by (auto simp: less_6 vs_input_def upt_rec)
  finally show ?thesis .
qed

lemma vs_init:
  assumes "vs_layout_ok L" "\<forall>j<6. vector_at (vm_f mem) (l_input L + 12 * j) 3 = vs_input ! j"
  shows "\<exists>a. cyboudb_vector_arena_init (Some arena0) (l_storage L) 72 3 = (V_OK, Some a) \<and> vs_filled L 0 a (vm_f mem)"
proof -
  obtain a where a: "vector_arena_init arena0 (l_storage L) 72 3 = (V_OK, a)"
    and f: "va_base a = l_storage L" "va_capacity a = 72" "va_dimensions a = 3"
    using layout_bounds(3,4) [OF assms(1)] by (simp add: vector_arena_init_def VECTOR_DIM_MAX_def)
  then show ?thesis using arena_ok_init [OF a] assms(2)
    by (simp add: cyboudb_vector_arena_init_def vs_filled_def arena_vectors_def)
qed

text \<open>C4 The search example works wherever its objects lie, on any processor and whatever memory held
  before: \<open>main\<close> returns 0, and it prints that five vectors were evaluated and found the vectors 0, 2
  and 4 with the scores 1 and twice the single nearest to the inverse of the root of two.\<close>

theorem vector_search_succeeds:
  assumes L: "vs_layout_ok L"
  shows "vs_main cpu L arena0 search0 mem0
    = (0, [Evaluated 5, Found 0 0x3f800000, Found 2 0x3f3504f3, Found 4 0x3f3504f3])"
proof -
  define mem where "mem = mem0\<lparr>vm_f := store_lanes (l_input L) (concat vs_input) (vm_f mem0)\<rparr>"
  obtain a where i: "cyboudb_vector_arena_init (Some arena0) (l_storage L) 72 3 = (V_OK, Some a)"
    and a: "vs_filled L 0 a (vm_f mem)"
    using vs_init [OF L, of mem arena0] vs_input_stored by (auto simp: mem_def)
  obtain a' mem2 where fl: "vs_fill cpu L 0 (Some a) mem = Some (Some a', mem2)" and a': "vs_filled L 6 a' (vm_f mem2)"
    using vs_fill_law [OF L _ a, of cpu] by auto
  define f where "f = store_lanes (l_raw_query L) [0x3f800000, 0, 0] (vm_f mem2)"
  have "vector_at f (l_raw_query L) 3 = [0x3f800000, 0, 0]"
    by (simp add: f_def vector_at_store_three)
  note q = vs_query [OF L this, of cpu]
  define m where "m = mem2\<lparr>vm_f := store_lanes (l_query L) [0x3f800000, 0, 0] f, vm_q := (vm_q mem2)(l_candidates L := 0x3d)\<rparr>"
  have p: "vs_prepared L a' m" using vs_prepare [OF L a'] by (simp add: m_def f_def vs_prepared_def)
  define s where "s = vs_descriptor L a' vector_topk_init"
  note fields = vs_descriptor_fields [OF p, folded s_def]
  obtain st s' m' where r: "vtopk_search cpu Cosine s m = (st, s', m')" by (metis prod_cases3)
  note law = search_law [OF vs_search_valid [OF L p, folded s_def] r, unfolded vs_scores [OF L p, folded s_def] fields]
  have e: "st = V_OK" "vt_evaluated_count s' = 5"
    "entries s (vt_out_count s', m') = [(0, 0x3f800000), (2, 0x3f3504f3), (4, 0x3f3504f3)]"
    using law by (simp_all add: f32_samples score_key_def)
  then have n: "vt_out_count s' = 3" using length_entries [of s "vt_out_count s'" m'] by simp
  have up: "[0..<3] = [0, 1, 2 :: nat]" by code_simp
  have "vs_report L s' m' = (0, [Evaluated 5, Found 0 0x3f800000, Found 2 0x3f3504f3, Found 4 0x3f3504f3])"
    using e(2,3) n unfolding vs_report_def entries_def fields by (simp add: up)
  then show ?thesis
    using i fl q e(1) r
    by (simp add: vs_main_def Let_def cyboudb_vector_topk_init_def cyboudb_vector_topk_cosine_f32_def on_struct_def
        flip: mem_def f_def m_def s_def)
qed

theorem vector_search_succeeds_witness:
  "vs_main \<lparr>force_scalar = False, has_avx2 = True\<rparr>
      \<lparr>l_input = 4096, l_storage = 8192, l_query = 8264, l_raw_query = 8276, l_scores = 8288, l_ids = 8304,
       l_id = 8328, l_candidates = 8336\<rparr> sample_arena sample_search sample_mem
    = (0, [Evaluated 5, Found 0 0x3f800000, Found 2 0x3f3504f3, Found 4 0x3f3504f3])"
  by (rule vector_search_succeeds) (simp add: vs_layout_ok_def vs_objects_def)

end
