(* ===== verification/Bindings.thy ===== *)
theory Bindings
  imports Api_Header
begin

text \<open>
  Parameters of a prepared statement, \<^verbatim>\<open>src/api/cyboudb_c.asm\<close>: the slots the binder fills in for
  the placeholders of an \<open>INSERT\<close>, the bounded buffer that keeps the bytes of \<open>TEXT\<close>, \<open>BLOB\<close> and
  \<open>VECTOR\<close> values, the calls that bind, and how the executor (\<^verbatim>\<open>src/sql/executor.asm\<close>) turns bound
  parameters into cells.  A pointer of the caller is the function from offsets to the bytes found
  there, \<open>None\<close> for null.
\<close>

section \<open>Slots, buffer and statement\<close>

datatype param_state = PARAM_UNBOUND | PARAM_BOUND | PARAM_NULL

datatype param_kind = PARAM_TO_CELL | PARAM_TO_BEXPR | PARAM_TO_PLAN_UPDATE

record param_slot =
  ps_target :: nat
  ps_type :: coltype
  ps_flags :: nat
  ps_val :: u64
  ps_len :: nat
  ps_cap :: nat
  ps_state :: param_state
  ps_kind :: param_kind

record param_buf =
  pb_used :: nat
  pb_bytes :: "nat \<Rightarrow> byte"

definition CybouDB_PARAM_BUF_SIZE :: nat where "CybouDB_PARAM_BUF_SIZE = 32768"

text \<open>A plan without placeholders has no slots and no buffer.\<close>

record param_plan =
  pp_slots :: "param_slot list"
  pp_buf :: "param_buf option"

record param_stmt =
  st_magic :: bool
  st_scanning :: bool
  st_plan :: "param_plan option"

text \<open>What the binder leaves for a placeholder in \<open>VALUES\<close>; the arena hands out memory set to zero.\<close>

definition ins_param :: "nat \<Rightarrow> coltype \<Rightarrow> nat \<Rightarrow> param_slot" where
  "ins_param cell t fl = \<lparr>ps_target = cell, ps_type = t, ps_flags = fl, ps_val = 0, ps_len = 0, ps_cap = 0,
     ps_state = PARAM_UNBOUND, ps_kind = PARAM_TO_CELL\<rparr>"

definition bind_param_area :: "param_slot list \<Rightarrow> param_plan" where
  "bind_param_area ps = \<lparr>pp_slots = ps,
     pp_buf = (if ps = [] then None else Some \<lparr>pb_used = 0, pb_bytes = (\<lambda>_. 0)\<rparr>)\<rparr>"

section \<open>Finding a slot\<close>

definition api_param_slot :: "param_stmt option \<Rightarrow> int \<Rightarrow> (param_stmt \<times> param_plan \<times> nat) option" where
  "api_param_slot stmt idx = (case stmt of None \<Rightarrow> None | Some st \<Rightarrow>
     if \<not> st_magic st \<or> st_scanning st then None
     else case st_plan st of None \<Rightarrow> None | Some pl \<Rightarrow>
       if pp_slots pl = [] \<or> idx < 0 \<or> int (length (pp_slots pl)) \<le> idx then None
       else Some (st, pl, nat idx))"

abbreviation put_slot :: "param_plan \<Rightarrow> nat \<Rightarrow> param_slot \<Rightarrow> param_plan" where
  "put_slot pl i s \<equiv> pl\<lparr>pp_slots := (pp_slots pl)[i := s]\<rparr>"

abbreviation put_plan :: "param_stmt \<Rightarrow> param_plan \<Rightarrow> param_stmt option" where
  "put_plan st pl \<equiv> Some (st\<lparr>st_plan := Some pl\<rparr>)"

section \<open>Binding scalars\<close>

definition api_param_scalar :: "param_stmt option \<Rightarrow> int \<Rightarrow> coltype \<Rightarrow> u64 \<Rightarrow> status \<times> param_stmt option" where
  "api_param_scalar stmt idx want v = (case api_param_slot stmt idx of
     None \<Rightarrow> (MISUSE, stmt)
   | Some (st, pl, i) \<Rightarrow>
       let s = pp_slots pl ! i in
       if ps_type s \<noteq> want then (MISUSE, stmt)
       else (OK, put_plan st (put_slot pl i (s\<lparr>ps_val := v, ps_len := 0, ps_state := PARAM_BOUND\<rparr>))))"

definition cyboudb_bind_int64 :: "param_stmt option \<Rightarrow> int \<Rightarrow> int \<Rightarrow> status \<times> param_stmt option" where
  "cyboudb_bind_int64 stmt idx v = api_param_scalar stmt idx INT64 (word_of_int v)"

definition cyboudb_bind_int32 :: "param_stmt option \<Rightarrow> int \<Rightarrow> u32 \<Rightarrow> status \<times> param_stmt option" where
  "cyboudb_bind_int32 stmt idx v = api_param_scalar stmt idx INT32 (scast v)"

definition cyboudb_bind_bool :: "param_stmt option \<Rightarrow> int \<Rightarrow> int \<Rightarrow> status \<times> param_stmt option" where
  "cyboudb_bind_bool stmt idx v = api_param_scalar stmt idx BOOL (if v \<noteq> 0 then 1 else 0)"

definition cyboudb_bind_float :: "param_stmt option \<Rightarrow> int \<Rightarrow> u32 \<Rightarrow> status \<times> param_stmt option" where
  "cyboudb_bind_float stmt idx v = api_param_scalar stmt idx FLOAT32 (ucast v)"

definition CAT_NULLABLE :: nat where "CAT_NULLABLE = 1"

definition cyboudb_bind_null :: "param_stmt option \<Rightarrow> int \<Rightarrow> status \<times> param_stmt option" where
  "cyboudb_bind_null stmt idx = (case api_param_slot stmt idx of
     None \<Rightarrow> (MISUSE, stmt)
   | Some (st, pl, i) \<Rightarrow>
       let s = pp_slots pl ! i in
       if ps_kind s = PARAM_TO_BEXPR \<or> and (ps_flags s) CAT_NULLABLE = 0 then (MISUSE, stmt)
       else (OK, put_plan st (put_slot pl i (s\<lparr>ps_val := 0, ps_len := 0, ps_state := PARAM_NULL\<rparr>))))"

section \<open>Binding bytes\<close>

function copy_bytes :: "(nat \<Rightarrow> byte) \<Rightarrow> nat \<Rightarrow> nat \<Rightarrow> nat \<Rightarrow> (nat \<Rightarrow> byte) \<Rightarrow> nat \<Rightarrow> byte" where
  "copy_bytes src dst len i f =
    (if len \<le> i then f else copy_bytes src dst len (i + 1) (f(dst + i := src i)))"
  by pat_completeness auto
termination by (relation "measure (\<lambda>(src, dst, len, i, f). len - i)") auto

declare copy_bytes.simps [simp del]

definition round8 :: "nat \<Rightarrow> nat" where
  "round8 n = (n + 7) div 8 * 8"

definition api_param_bytes ::
    "param_stmt option \<Rightarrow> int \<Rightarrow> coltype \<Rightarrow> (nat \<Rightarrow> byte) option \<Rightarrow> int \<Rightarrow> status \<times> param_stmt option" where
  "api_param_bytes stmt idx want src len = (case api_param_slot stmt idx of
     None \<Rightarrow> (MISUSE, stmt)
   | Some (st, pl, i) \<Rightarrow>
       let s = pp_slots pl ! i; n = nat len in
       if ps_type s \<noteq> want \<or> len < 0 \<or> src = None \<and> len \<noteq> 0 then (MISUSE, stmt)
       else case pp_buf pl of None \<Rightarrow> (NOMEM, stmt)
       | Some b \<Rightarrow>
           if ps_cap s < n \<and> (2 ^ 64 \<le> n + 7 \<or> 2 ^ 64 \<le> pb_used b + round8 n
               \<or> CybouDB_PARAM_BUF_SIZE < pb_used b + round8 n) then (NOMEM, stmt)
           else let (b1, s1) = (if n \<le> ps_cap s then (b, s)
                      else (b\<lparr>pb_used := pb_used b + round8 n\<rparr>,
                            s\<lparr>ps_val := word_of_nat (pb_used b), ps_cap := round8 n\<rparr>));
                    s2 = s1\<lparr>ps_len := n, ps_state := PARAM_BOUND\<rparr>;
                    b2 = b1\<lparr>pb_bytes := (case src of None \<Rightarrow> pb_bytes b1
                       | Some p \<Rightarrow> copy_bytes p (unat (ps_val s2)) n 0 (pb_bytes b1))\<rparr>
             in (OK, put_plan st ((put_slot pl i s2)\<lparr>pp_buf := Some b2\<rparr>)))"

text \<open>The length of a string that ends with a zero byte; \<open>None\<close> when there is none.\<close>

partial_function (option) text_measure :: "(nat \<Rightarrow> byte) \<Rightarrow> nat \<Rightarrow> nat option" where
  "text_measure p i = (if p i = 0 then Some i else text_measure p (i + 1))"

declare text_measure.simps [code]

definition cyboudb_bind_text ::
    "param_stmt option \<Rightarrow> int \<Rightarrow> (nat \<Rightarrow> byte) option \<Rightarrow> int \<Rightarrow> (status \<times> param_stmt option) option" where
  "cyboudb_bind_text stmt idx text len =
    (if 0 \<le> len then Some (api_param_bytes stmt idx TEXT text len)
     else case text of None \<Rightarrow> Some (MISUSE, stmt)
     | Some p \<Rightarrow> (case text_measure p 0 of None \<Rightarrow> None
        | Some n \<Rightarrow> Some (api_param_bytes stmt idx TEXT text (int n))))"

definition cyboudb_bind_blob ::
    "param_stmt option \<Rightarrow> int \<Rightarrow> (nat \<Rightarrow> byte) option \<Rightarrow> int \<Rightarrow> status \<times> param_stmt option" where
  "cyboudb_bind_blob stmt idx data len = api_param_bytes stmt idx BLOB data len"

definition cyboudb_bind_vector_f32 ::
    "param_stmt option \<Rightarrow> int \<Rightarrow> (nat \<Rightarrow> byte) option \<Rightarrow> int \<Rightarrow> status \<times> param_stmt option" where
  "cyboudb_bind_vector_f32 stmt idx values dims =
    (if dims \<le> 0 then (MISUSE, stmt)
     else case api_param_slot stmt idx of None \<Rightarrow> (MISUSE, stmt)
     | Some (st, pl, i) \<Rightarrow>
         let s = pp_slots pl ! i in
         if ps_type s \<noteq> VECTOR \<or> int (ps_flags s div 2 ^ 16) \<noteq> dims then (MISUSE, stmt)
         else api_param_bytes stmt idx VECTOR values (dims * 4))"

section \<open>Counting and clearing\<close>

definition cyboudb_bind_parameter_count :: "param_stmt option \<Rightarrow> nat" where
  "cyboudb_bind_parameter_count stmt = (case stmt of None \<Rightarrow> 0 | Some st \<Rightarrow>
     if \<not> st_magic st then 0 else case st_plan st of None \<Rightarrow> 0 | Some pl \<Rightarrow> length (pp_slots pl))"

definition clear_slot :: "param_slot \<Rightarrow> param_slot" where
  "clear_slot s = s\<lparr>ps_val := 0, ps_len := 0, ps_cap := 0, ps_state := PARAM_UNBOUND\<rparr>"

definition cyboudb_clear_bindings :: "param_stmt option \<Rightarrow> status \<times> param_stmt option" where
  "cyboudb_clear_bindings stmt = (case stmt of None \<Rightarrow> (MISUSE, stmt) | Some st \<Rightarrow>
     if \<not> st_magic st \<or> st_scanning st then (MISUSE, stmt)
     else case st_plan st of None \<Rightarrow> (OK, stmt) | Some pl \<Rightarrow>
       (OK, put_plan st (pl\<lparr>pp_buf := map_option (\<lambda>b. b\<lparr>pb_used := 0\<rparr>) (pp_buf pl),
          pp_slots := map clear_slot (pp_slots pl)\<rparr>)))"

section \<open>What an execution reads\<close>

datatype param_cell = Cell_null | Cell_scalar u64 | Cell_bytes "byte list"

definition buffer_bytes :: "param_plan \<Rightarrow> nat \<Rightarrow> nat \<Rightarrow> byte list" where
  "buffer_bytes pl off n = (case pp_buf pl of None \<Rightarrow> [] | Some b \<Rightarrow> map (\<lambda>i. pb_bytes b (off + i)) [0..<n])"

text \<open>What \<open>.insert_param_next\<close> puts into the cell of a slot.\<close>

definition param_value :: "param_plan \<Rightarrow> param_slot \<Rightarrow> param_cell option" where
  "param_value pl s = (case ps_state s of
     PARAM_UNBOUND \<Rightarrow> None
   | PARAM_NULL \<Rightarrow> Some Cell_null
   | PARAM_BOUND \<Rightarrow> Some (if type_code (ps_type s) < type_code TEXT then Cell_scalar (ps_val s)
       else Cell_bytes (buffer_bytes pl (unat (ps_val s)) (ps_len s))))"

text \<open>The loop over the slots, the last one first; \<open>None\<close> is the error of an unbound parameter.\<close>

fun insert_params :: "param_plan \<Rightarrow> nat \<Rightarrow> (nat \<Rightarrow> param_cell) \<Rightarrow> (nat \<Rightarrow> param_cell) option" where
  "insert_params pl 0 cells = Some cells"
| "insert_params pl (Suc n) cells =
    (let s = pp_slots pl ! n in
     case param_value pl s of None \<Rightarrow> None
     | Some v \<Rightarrow> insert_params pl n (cells(ps_target s := v)))"

end
