(* ===== verification/Bindings_Laws.thy ===== *)
theory Bindings_Laws
  imports Bindings
begin

text \<open>
  What binding promises.  The invariant \<open>params_ok\<close> says that the pieces of the buffer the slots own
  do not overlap; it is kept by every call except one, binding \<open>NULL\<close> to a parameter that owns bytes,
  and while it holds a call that succeeds changes the value of its own parameter only.
\<close>

section \<open>The invariant\<close>

definition slot_fits :: "nat \<Rightarrow> param_slot \<Rightarrow> bool" where
  "slot_fits used s \<longleftrightarrow>
    (if type_code (ps_type s) < type_code TEXT then ps_cap s = 0
     else (ps_cap s = 0 \<or> unat (ps_val s) + ps_cap s \<le> used) \<and> (ps_state s = PARAM_BOUND \<longrightarrow> ps_len s \<le> ps_cap s))"

definition slots_apart :: "param_slot \<Rightarrow> param_slot \<Rightarrow> bool" where
  "slots_apart s t \<longleftrightarrow> ps_cap s = 0 \<or> ps_cap t = 0
     \<or> unat (ps_val s) + ps_cap s \<le> unat (ps_val t) \<or> unat (ps_val t) + ps_cap t \<le> unat (ps_val s)"

definition params_ok :: "param_plan \<Rightarrow> bool" where
  "params_ok pl \<longleftrightarrow> (\<exists>b. pp_buf pl = Some b \<and> pb_used b \<le> CybouDB_PARAM_BUF_SIZE
       \<and> (\<forall>i<length (pp_slots pl). slot_fits (pb_used b) (pp_slots pl ! i)))
     \<and> (\<forall>i<length (pp_slots pl). \<forall>j<length (pp_slots pl). i \<noteq> j \<longrightarrow> slots_apart (pp_slots pl ! i) (pp_slots pl ! j))"

definition param_values :: "param_plan \<Rightarrow> param_cell option list" where
  "param_values pl = map (param_value pl) (pp_slots pl)"

lemma slots_apart_sym: "slots_apart s t \<longleftrightarrow> slots_apart t s"
  by (auto simp: slots_apart_def)

lemma param_value_buf [simp]: "param_value (pl\<lparr>pp_slots := ss\<rparr>) = param_value pl"
  by (simp add: fun_eq_iff param_value_def buffer_bytes_def split: param_state.splits)

lemma param_values_put:
  "param_values (put_slot pl i s) = (param_values pl)[i := param_value pl s]"
  by (simp add: param_values_def map_update)

lemma params_ok_put:
  assumes ok: "params_ok pl" and i: "i < length (pp_slots pl)"
    and s: "\<And>used. slot_fits used (pp_slots pl ! i) \<Longrightarrow> slot_fits used s"
    and same: "ps_cap s = 0 \<or> ps_cap s = ps_cap (pp_slots pl ! i) \<and> ps_val s = ps_val (pp_slots pl ! i)"
  shows "params_ok (put_slot pl i s)"
proof -
  have "slots_apart s (pp_slots pl ! j)" if "j < length (pp_slots pl)" "i \<noteq> j" for j
  proof -
    have "slots_apart (pp_slots pl ! i) (pp_slots pl ! j)" using ok i that by (simp add: params_ok_def)
    then show ?thesis using same by (auto simp: slots_apart_def)
  qed
  then show ?thesis
    using ok i s by (auto simp: params_ok_def nth_list_update slots_apart_sym)
qed

section \<open>Bytes\<close>

lemma copy_bytes_apply:
  "copy_bytes src dst len i f p = (if dst + i \<le> p \<and> p < dst + len then src (p - dst) else f p)"
proof (induction "len - i" arbitrary: i f)
  case 0
  then show ?case by (subst copy_bytes.simps) auto
next
  case (Suc d)
  then show ?case using Suc(1) [of "i + 1"] by (subst copy_bytes.simps) auto
qed

lemma round8_bound: "n \<le> round8 n" "n \<noteq> 0 \<Longrightarrow> round8 n \<noteq> 0"
  by (auto simp: round8_def)

text \<open>The slot and the buffer after a value of \<open>n\<close> bytes was taken in.\<close>

definition placed :: "param_buf \<Rightarrow> param_slot \<Rightarrow> nat \<Rightarrow> param_buf \<times> param_slot" where
  "placed b s n = (if n \<le> ps_cap s then (b, s\<lparr>ps_len := n, ps_state := PARAM_BOUND\<rparr>)
     else (b\<lparr>pb_used := pb_used b + round8 n\<rparr>,
           s\<lparr>ps_val := word_of_nat (pb_used b), ps_cap := round8 n, ps_len := n, ps_state := PARAM_BOUND\<rparr>))"

lemma api_param_bytes_eq:
  assumes "api_param_slot stmt idx = Some (st, pl, i)" "pp_buf pl = Some b" "pb_used b \<le> CybouDB_PARAM_BUF_SIZE"
    and "ps_type (pp_slots pl ! i) = want" "src = None \<longrightarrow> n = 0"
  shows "api_param_bytes stmt idx want src (int n) =
    (if ps_cap (pp_slots pl ! i) < n \<and> CybouDB_PARAM_BUF_SIZE < pb_used b + round8 n then (NOMEM, stmt)
     else case placed b (pp_slots pl ! i) n of (b1, s1) \<Rightarrow>
       (OK, put_plan st ((put_slot pl i s1)\<lparr>pp_buf := Some (b1\<lparr>pb_bytes :=
          copy_bytes (case src of None \<Rightarrow> (\<lambda>_. 0) | Some p \<Rightarrow> p) (unat (ps_val s1)) n 0 (pb_bytes b1)\<rparr>)\<rparr>)))"
proof -
  have big: "18446744073709551609 \<le> n \<Longrightarrow> CybouDB_PARAM_BUF_SIZE < pb_used b + round8 n"
    "18446744073709551616 \<le> pb_used b + round8 n \<Longrightarrow> CybouDB_PARAM_BUF_SIZE < pb_used b + round8 n"
    using round8_bound(1) [of n] by (simp_all add: CybouDB_PARAM_BUF_SIZE_def)
  have "copy_bytes q d 0 0 f = f" for q d f by (subst copy_bytes.simps) simp
  then show ?thesis
    using assms big by (cases src) (auto simp: api_param_bytes_def Let_def placed_def)
qed

lemma placed_fits:
  assumes "slot_fits (pb_used b) s" "placed b s n = (b1, s1)" "pb_used b \<le> CybouDB_PARAM_BUF_SIZE"
    and "\<not> type_code (ps_type s) < type_code TEXT"
  shows "slot_fits (pb_used b1) s1" "ps_len s1 = n" "ps_state s1 = PARAM_BOUND" "ps_type s1 = ps_type s"
    "pb_used b \<le> pb_used b1" "pb_bytes b1 = pb_bytes b" "n \<le> ps_cap s1"
    and "slots_apart s t \<Longrightarrow> slot_fits (pb_used b) t \<Longrightarrow> slots_apart s1 t"
proof -
  have w: "unat (word_of_nat (pb_used b) :: u64) = pb_used b"
    using assms(3) by (intro unat_of_nat_small) (simp add: CybouDB_PARAM_BUF_SIZE_def)
  show "slot_fits (pb_used b1) s1" "ps_len s1 = n" "ps_state s1 = PARAM_BOUND" "ps_type s1 = ps_type s"
    "pb_used b \<le> pb_used b1" "pb_bytes b1 = pb_bytes b" "n \<le> ps_cap s1"
    using assms w round8_bound(1) [of n] by (auto simp: placed_def slot_fits_def split: if_splits)
  show "slots_apart s t \<Longrightarrow> slot_fits (pb_used b) t \<Longrightarrow> slots_apart s1 t"
    using assms w by (auto simp: placed_def slots_apart_def slot_fits_def split: if_splits)
qed

lemma bytes_law:
  assumes slot: "api_param_slot stmt idx = Some (st, pl, i)" and ok: "params_ok pl"
    and ty: "ps_type (pp_slots pl ! i) = want" "\<not> type_code want < type_code TEXT" and src: "src = None \<longrightarrow> n = 0"
    and r: "api_param_bytes stmt idx want src (int n) = (rc, stmt')"
  shows "rc = NOMEM \<and> stmt' = stmt \<or>
    rc = OK \<and> (\<exists>pl'. stmt' = put_plan st pl' \<and> params_ok pl' \<and> length (pp_slots pl') = length (pp_slots pl)
      \<and> map ps_target (pp_slots pl') = map ps_target (pp_slots pl)
      \<and> param_values pl' = (param_values pl)[i := Some (Cell_bytes (map (case src of None \<Rightarrow> (\<lambda>_. 0) | Some p \<Rightarrow> p) [0..<n]))])"
proof -
  define s where "s = pp_slots pl ! i"
  define p where "p = (case src of None \<Rightarrow> (\<lambda>_. 0) | Some p \<Rightarrow> p)"
  obtain b where b: "pp_buf pl = Some b" "pb_used b \<le> CybouDB_PARAM_BUF_SIZE"
    and fits: "\<And>j. j < length (pp_slots pl) \<Longrightarrow> slot_fits (pb_used b) (pp_slots pl ! j)"
    and apart: "\<And>j. j < length (pp_slots pl) \<Longrightarrow> i \<noteq> j \<Longrightarrow> i < length (pp_slots pl) \<Longrightarrow> slots_apart s (pp_slots pl ! j)"
    using ok by (auto simp: params_ok_def s_def)
  have i: "i < length (pp_slots pl)"
    using slot by (auto simp: api_param_slot_def split: option.splits if_splits)
  obtain b1 s1 where pl1: "placed b s n = (b1, s1)" by fastforce
  have ty': "\<not> type_code (ps_type s) < type_code TEXT" using ty by (simp add: s_def)
  note law = placed_fits [OF fits [OF i, folded s_def] pl1 b(2) ty']
  define b2 where "b2 = b1\<lparr>pb_bytes := copy_bytes p (unat (ps_val s1)) n 0 (pb_bytes b1)\<rparr>"
  define pl' where "pl' = (put_slot pl i s1)\<lparr>pp_buf := Some b2\<rparr>"
  note eq = api_param_bytes_eq [OF slot b ty(1) src, folded s_def p_def, unfolded pl1 prod.case, folded b2_def, folded pl'_def]
  show ?thesis
  proof (cases "ps_cap s < n \<and> CybouDB_PARAM_BUF_SIZE < pb_used b + round8 n")
    case True
    then show ?thesis using r eq by simp
  next
    case False
    have used: "pb_used b1 \<le> CybouDB_PARAM_BUF_SIZE"
      using False pl1 b(2) by (auto simp: placed_def split: if_splits)
    have others: "param_value pl' (pp_slots pl ! j) = param_value pl (pp_slots pl ! j)"
      if "j < length (pp_slots pl)" "i \<noteq> j" for j
      using fits [OF that(1)] law(8) [OF apart [OF that i] fits [OF that(1)]] law(6,7) b(1)
      by (auto simp: param_value_def buffer_bytes_def pl'_def b2_def copy_bytes_apply slot_fits_def slots_apart_def
          split: param_state.splits)
    have own: "param_value pl' s1 = Some (Cell_bytes (map p [0..<n]))"
      using law(2-4) ty' by (simp add: param_value_def buffer_bytes_def pl'_def b2_def copy_bytes_apply)
    have slots': "pp_slots pl' = (pp_slots pl)[i := s1]" "pp_buf pl' = Some b2" by (simp_all add: pl'_def)
    have "param_values pl' = (param_values pl)[i := Some (Cell_bytes (map p [0..<n]))]"
    proof (rule nth_equalityI)
      fix j assume "j < length (param_values pl')"
      then have "j < length (pp_slots pl)" by (simp add: param_values_def slots')
      then show "param_values pl' ! j = (param_values pl)[i := Some (Cell_bytes (map p [0..<n]))] ! j"
        using others [of j] own by (cases "i = j") (simp_all add: param_values_def slots')
    qed (simp add: param_values_def slots')
    moreover have "params_ok pl'"
    proof -
      have "slot_fits (pb_used b1) (pp_slots pl ! j)" if "j < length (pp_slots pl)" for j
        using fits [OF that] law(5) by (auto simp: slot_fits_def)
      moreover have "slots_apart s1 (pp_slots pl ! j)" "slots_apart (pp_slots pl ! j) s1"
        if "j < length (pp_slots pl)" "i \<noteq> j" for j
        using law(8) [OF apart [OF that i] fits [OF that(1)]] by (simp_all add: slots_apart_sym)
      ultimately show ?thesis
        using i used law(1) ok by (auto simp: params_ok_def slots' b2_def nth_list_update)
    qed
    moreover have "map ps_target (pp_slots pl') = map ps_target (pp_slots pl)"
      using pl1 i by (auto simp: pl'_def map_update placed_def s_def list_update_same_conv split: if_splits)
    moreover have "rc = OK" "stmt' = put_plan st pl'" using False r eq by (simp_all split: if_splits)
    moreover have "length (pp_slots pl') = length (pp_slots pl)" by (simp add: slots')
    ultimately show ?thesis unfolding p_def by blast
  qed
qed


section \<open>Any sequence of calls\<close>

datatype bind_call =
    B_null int | B_int64 int int | B_int32 int u32 | B_bool int int | B_float int u32
  | B_text int "(nat \<Rightarrow> byte) option" int | B_blob int "(nat \<Rightarrow> byte) option" int
  | B_vector int "(nat \<Rightarrow> byte) option" int | B_clear

fun bind_run :: "bind_call \<Rightarrow> param_stmt option \<Rightarrow> (status \<times> param_stmt option) option" where
  "bind_run (B_null i) st = Some (cyboudb_bind_null st i)"
| "bind_run (B_int64 i v) st = Some (cyboudb_bind_int64 st i v)"
| "bind_run (B_int32 i v) st = Some (cyboudb_bind_int32 st i v)"
| "bind_run (B_bool i v) st = Some (cyboudb_bind_bool st i v)"
| "bind_run (B_float i v) st = Some (cyboudb_bind_float st i v)"
| "bind_run (B_text i p n) st = cyboudb_bind_text st i p n"
| "bind_run (B_blob i p n) st = Some (cyboudb_bind_blob st i p n)"
| "bind_run (B_vector i p n) st = Some (cyboudb_bind_vector_f32 st i p n)"
| "bind_run B_clear st = Some (cyboudb_clear_bindings st)"

text \<open>What a caller means by a call: the parameter and the value it is to have.\<close>

definition bytes_at :: "(nat \<Rightarrow> byte) option \<Rightarrow> nat \<Rightarrow> param_cell" where
  "bytes_at p n = Cell_bytes (map (case p of None \<Rightarrow> (\<lambda>_. 0) | Some f \<Rightarrow> f) [0..<n])"

fun bind_meaning :: "bind_call \<Rightarrow> param_cell option list \<Rightarrow> param_cell option list" where
  "bind_meaning (B_null i) vs = vs[nat i := Some Cell_null]"
| "bind_meaning (B_int64 i v) vs = vs[nat i := Some (Cell_scalar (word_of_int v))]"
| "bind_meaning (B_int32 i v) vs = vs[nat i := Some (Cell_scalar (scast v))]"
| "bind_meaning (B_bool i v) vs = vs[nat i := Some (Cell_scalar (if v = 0 then 0 else 1))]"
| "bind_meaning (B_float i v) vs = vs[nat i := Some (Cell_scalar (ucast v))]"
| "bind_meaning (B_text i p n) vs = vs[nat i := Some (bytes_at p
     (if 0 \<le> n then nat n else the (text_measure (the p) 0)))]"
| "bind_meaning (B_blob i p n) vs = vs[nat i := Some (bytes_at p (nat n))]"
| "bind_meaning (B_vector i p n) vs = vs[nat i := Some (bytes_at p (nat (n * 4)))]"
| "bind_meaning B_clear vs = map (\<lambda>_. None) vs"

text \<open>The one call the invariant does not survive: \<open>NULL\<close> for a parameter that owns bytes.\<close>

definition nulls_bytes :: "bind_call \<Rightarrow> param_plan \<Rightarrow> bool" where
  "nulls_bytes c pl \<longleftrightarrow> (case c of B_null i \<Rightarrow> nat i < length (pp_slots pl) \<and> ps_cap (pp_slots pl ! nat i) \<noteq> 0 | _ \<Rightarrow> False)"

definition bind_keeps :: "param_stmt \<Rightarrow> param_plan \<Rightarrow> (param_cell option list \<Rightarrow> param_cell option list)
    \<Rightarrow> status \<times> param_stmt option \<Rightarrow> bool" where
  "bind_keeps st pl f r \<longleftrightarrow> (case r of (rc, stmt') \<Rightarrow>
     rc \<noteq> OK \<and> stmt' = Some st \<or>
     rc = OK \<and> (\<exists>pl'. stmt' = put_plan st pl' \<and> params_ok pl' \<and> length (pp_slots pl') = length (pp_slots pl)
       \<and> map ps_target (pp_slots pl') = map ps_target (pp_slots pl) \<and> param_values pl' = f (param_values pl)))"

lemma api_param_slot_cases:
  assumes "st_plan st = Some pl"
  obtains "api_param_slot (Some st) idx = None"
  | "api_param_slot (Some st) idx = Some (st, pl, nat idx)" "nat idx < length (pp_slots pl)"
  using assms by (cases "api_param_slot (Some st) idx") (auto simp: api_param_slot_def split: if_splits)

lemma bind_keeps_put:
  assumes "params_ok pl" "i < length (pp_slots pl)" "ps_target s = ps_target (pp_slots pl ! i)"
    and "\<And>used. slot_fits used (pp_slots pl ! i) \<Longrightarrow> slot_fits used s"
    and "ps_cap s = 0 \<or> ps_cap s = ps_cap (pp_slots pl ! i) \<and> ps_val s = ps_val (pp_slots pl ! i)"
    and "param_value pl s = Some v"
  shows "bind_keeps st pl (\<lambda>vs. vs[i := Some v]) (OK, put_plan st (put_slot pl i s))"
proof -
  have "map ps_target ((pp_slots pl)[i := s]) = map ps_target (pp_slots pl)"
    using assms(2,3) by (simp add: map_update list_update_same_conv)
  then show ?thesis
    using params_ok_put [OF assms(1,2,4,5)] param_values_put [of pl i s] assms(6)
    by (auto simp: bind_keeps_def intro!: exI [of _ "put_slot pl i s"])
qed

lemma scalar_keeps:
  assumes "st_plan st = Some pl" "params_ok pl" "type_code want < type_code TEXT"
  shows "bind_keeps st pl (\<lambda>vs. vs[nat idx := Some (Cell_scalar v)]) (api_param_scalar (Some st) idx want v)"
proof (cases rule: api_param_slot_cases [OF assms(1), of idx])
  case 1
  then show ?thesis by (simp add: api_param_scalar_def bind_keeps_def)
next
  case 2
  let ?s = "pp_slots pl ! nat idx"
  show ?thesis
  proof (cases "ps_type ?s = want")
    case False
    then show ?thesis using 2 by (simp add: api_param_scalar_def bind_keeps_def)
  next
    case True
    obtain used where "slot_fits used ?s" using assms(2) 2(2) by (auto simp: params_ok_def)
    then have "ps_cap ?s = 0" using True assms(3) by (simp add: slot_fits_def)
    then have "bind_keeps st pl (\<lambda>vs. vs[nat idx := Some (Cell_scalar v)])
        (OK, put_plan st (put_slot pl (nat idx) (?s\<lparr>ps_val := v, ps_len := 0, ps_state := PARAM_BOUND\<rparr>)))"
      using True assms(3) by (intro bind_keeps_put [OF assms(2) 2(2)]) (simp_all add: slot_fits_def param_value_def)
    then show ?thesis using True 2(1) by (simp add: api_param_scalar_def)
  qed
qed

lemma null_keeps:
  assumes "st_plan st = Some pl" "params_ok pl" "\<not> nulls_bytes (B_null idx) pl"
  shows "bind_keeps st pl (\<lambda>vs. vs[nat idx := Some Cell_null]) (cyboudb_bind_null (Some st) idx)"
proof (cases rule: api_param_slot_cases [OF assms(1), of idx])
  case 1
  then show ?thesis by (simp add: cyboudb_bind_null_def bind_keeps_def)
next
  case 2
  let ?s = "pp_slots pl ! nat idx"
  have "ps_cap ?s = 0" using assms(3) 2(2) by (simp add: nulls_bytes_def)
  then have "bind_keeps st pl (\<lambda>vs. vs[nat idx := Some Cell_null])
      (OK, put_plan st (put_slot pl (nat idx) (?s\<lparr>ps_val := 0, ps_len := 0, ps_state := PARAM_NULL\<rparr>)))"
    by (intro bind_keeps_put [OF assms(2) 2(2)]) (simp_all add: slot_fits_def param_value_def)
  then show ?thesis using 2(1) by (simp add: cyboudb_bind_null_def bind_keeps_def Let_def)
qed

lemma bytes_keeps:
  assumes "st_plan st = Some pl" "params_ok pl" "\<not> type_code want < type_code TEXT"
  shows "bind_keeps st pl (\<lambda>vs. vs[nat idx := Some (bytes_at src (nat len))]) (api_param_bytes (Some st) idx want src len)"
proof (cases rule: api_param_slot_cases [OF assms(1), of idx])
  case 1
  then show ?thesis by (simp add: api_param_bytes_def bind_keeps_def)
next
  case 2
  show ?thesis
  proof (cases "ps_type (pp_slots pl ! nat idx) \<noteq> want \<or> len < 0 \<or> src = None \<and> len \<noteq> 0")
    case True
    then show ?thesis using 2(1) by (auto simp: api_param_bytes_def bind_keeps_def)
  next
    case False
    then have len: "int (nat len) = len" and s: "src = None \<longrightarrow> nat len = 0"
      and ty: "ps_type (pp_slots pl ! nat idx) = want" by auto
    obtain rc stmt' where r: "api_param_bytes (Some st) idx want src len = (rc, stmt')" by fastforce
    have "api_param_bytes (Some st) idx want src (int (nat len)) = (rc, stmt')" by (simp only: len r)
    from bytes_law [OF 2(1) assms(2) ty assms(3) s this] show ?thesis
      by (auto simp: bind_keeps_def bytes_at_def r)
  qed
qed


lemma clear_keeps:
  assumes "st_plan st = Some pl" "params_ok pl"
  shows "bind_keeps st pl (map (\<lambda>_. None)) (cyboudb_clear_bindings (Some st))"
proof (cases "\<not> st_magic st \<or> st_scanning st")
  case True
  then show ?thesis by (simp add: cyboudb_clear_bindings_def bind_keeps_def)
next
  case False
  define pl' where "pl' = pl\<lparr>pp_buf := map_option (\<lambda>b. b\<lparr>pb_used := 0\<rparr>) (pp_buf pl), pp_slots := map clear_slot (pp_slots pl)\<rparr>"
  have "params_ok pl'"
    using assms(2) by (auto simp: params_ok_def pl'_def clear_slot_def slot_fits_def slots_apart_def)
  moreover have "param_values pl' = map (\<lambda>_. None) (param_values pl)"
    by (simp add: param_values_def pl'_def param_value_def clear_slot_def)
  moreover have "length (pp_slots pl') = length (pp_slots pl)" "map ps_target (pp_slots pl') = map ps_target (pp_slots pl)"
    by (simp_all add: pl'_def clear_slot_def)
  moreover have "cyboudb_clear_bindings (Some st) = (OK, put_plan st pl')"
    using False assms(1) by (simp add: cyboudb_clear_bindings_def pl'_def)
  ultimately show ?thesis by (auto simp: bind_keeps_def)
qed

lemma bind_run_keeps:
  assumes "st_plan st = Some pl" "params_ok pl" "\<not> nulls_bytes c pl" "bind_run c (Some st) = Some r"
  shows "bind_keeps st pl (bind_meaning c) r"
proof (cases c)
  case (B_text i p n)
  have bytes: "bind_keeps st pl (\<lambda>vs. vs[nat i := Some (bytes_at p (nat k))]) (api_param_bytes (Some st) i TEXT p k)" for k
    by (rule bytes_keeps [OF assms(1,2)]) simp
  show ?thesis using assms(4) bytes [of n] bytes [of "int (the (text_measure (the p) 0))"]
    by (auto simp: B_text cyboudb_bind_text_def bind_keeps_def split: if_splits option.splits)
next
  case (B_vector i p n)
  have "bind_keeps st pl (\<lambda>vs. vs[nat i := Some (bytes_at p (nat (n * 4)))]) (api_param_bytes (Some st) i VECTOR p (n * 4))"
    by (rule bytes_keeps [OF assms(1,2)]) simp
  then show ?thesis using assms(4)
    by (auto simp: B_vector cyboudb_bind_vector_f32_def bind_keeps_def Let_def split: if_splits option.splits)
next
  case (B_blob i p n)
  then show ?thesis using assms(4) bytes_keeps [OF assms(1,2), of BLOB i p n] by (auto simp: cyboudb_bind_blob_def bind_keeps_def)
next
  case (B_null i)
  then show ?thesis using assms(3,4) null_keeps [OF assms(1,2), of i] by (auto simp: bind_keeps_def)
next
  case B_clear
  then show ?thesis using assms(4) clear_keeps [OF assms(1,2)] by (auto simp: bind_keeps_def)
next
  case (B_int64 i v)
  then show ?thesis using assms(4) scalar_keeps [OF assms(1,2), of INT64 i "word_of_int v"]
    by (auto simp: cyboudb_bind_int64_def bind_keeps_def)
next
  case (B_int32 i v)
  then show ?thesis using assms(4) scalar_keeps [OF assms(1,2), of INT32 i "scast v"]
    by (auto simp: cyboudb_bind_int32_def bind_keeps_def)
next
  case (B_bool i v)
  then show ?thesis using assms(4) scalar_keeps [OF assms(1,2), of BOOL i "if v = 0 then 0 else 1"]
    by (auto simp: cyboudb_bind_bool_def bind_keeps_def split: if_splits)
next
  case (B_float i v)
  then show ?thesis using assms(4) scalar_keeps [OF assms(1,2), of FLOAT32 i "ucast v"]
    by (auto simp: cyboudb_bind_float_def bind_keeps_def)
qed

text \<open>The values a statement should have after a sequence of calls that each returned, from prepared on.\<close>

inductive bound_after :: "param_stmt \<Rightarrow> param_stmt \<Rightarrow> param_cell option list \<Rightarrow> bool" for st0 where
  prepared: "st_plan st0 = Some (bind_param_area ps) \<Longrightarrow> bound_after st0 st0 (map (\<lambda>_. None) ps)"
| called: "bound_after st0 st vs \<Longrightarrow> st_plan st = Some pl \<Longrightarrow> \<not> nulls_bytes c pl
    \<Longrightarrow> bind_run c (Some st) = Some (rc, Some st')
    \<Longrightarrow> bound_after st0 st' (if rc = OK then bind_meaning c vs else vs)"

definition fresh_slot :: "param_slot \<Rightarrow> bool" where
  "fresh_slot s \<longleftrightarrow> s = ins_param (ps_target s) (ps_type s) (ps_flags s)"

lemma fresh_slot_fields: "fresh_slot s \<Longrightarrow> ps_cap s = 0 \<and> ps_state s = PARAM_UNBOUND"
  by (metis fresh_slot_def ins_param_def param_slot.select_convs(6,7))

lemma prepared_ok:
  assumes "list_all fresh_slot ps" "ps \<noteq> []"
  shows "params_ok (bind_param_area ps)" "param_values (bind_param_area ps) = map (\<lambda>_. None) ps"
proof -
  have f: "ps_cap (ps ! i) = 0 \<and> ps_state (ps ! i) = PARAM_UNBOUND" if "i < length ps" for i
    using assms(1) that fresh_slot_fields by (auto simp: list_all_length)
  then show "params_ok (bind_param_area ps)"
    using assms(2) by (auto simp: params_ok_def bind_param_area_def slot_fits_def slots_apart_def)
  show "param_values (bind_param_area ps) = map (\<lambda>_. None) ps"
    using f by (intro nth_equalityI) (simp_all add: param_values_def bind_param_area_def param_value_def)
qed

lemma bound_after_law:
  assumes "bound_after st0 st vs" "st_plan st0 = Some (bind_param_area ps)" "list_all fresh_slot ps" "ps \<noteq> []"
  shows "\<exists>pl. st_plan st = Some pl \<and> params_ok pl \<and> param_values pl = vs
    \<and> map ps_target (pp_slots pl) = map ps_target ps"
  using assms
proof (induction rule: bound_after.induct)
  case (prepared ps')
  then have "ps' = ps" by (simp add: bind_param_area_def)
  then show ?case using prepared prepared_ok by (auto simp: bind_param_area_def)
next
  case (called st vs pl c rc st')
  then have pl: "params_ok pl" "param_values pl = vs" "map ps_target (pp_slots pl) = map ps_target ps" by simp_all
  from bind_run_keeps [OF called(2) pl(1) called(3,4)] show ?case
    using called(2) pl by (auto simp: bind_keeps_def)
qed


section \<open>What an INSERT stores\<close>

lemma insert_params_unbound:
  "insert_params pl n cells = None \<longleftrightarrow> (\<exists>i<n. param_value pl (pp_slots pl ! i) = None)"
proof (induction n arbitrary: cells)
  case (Suc n)
  show ?case
  proof (cases "param_value pl (pp_slots pl ! n)")
    case (Some v)
    define cells2 where "cells2 = cells(ps_target (pp_slots pl ! n) := v)"
    from Some show ?thesis
      using Suc [of cells2] by (simp add: Let_def cells2_def [symmetric] less_Suc_eq ex_disj_distrib conj_disj_distribR)
  qed (auto simp: Let_def)
qed simp

lemma insert_params_cells:
  assumes "insert_params pl n cells = Some cells'" "distinct (map ps_target (pp_slots pl))" "n \<le> length (pp_slots pl)"
  shows "(\<forall>i<n. param_value pl (pp_slots pl ! i) = Some (cells' (ps_target (pp_slots pl ! i))))
    \<and> (\<forall>c. (\<forall>i<n. c \<noteq> ps_target (pp_slots pl ! i)) \<longrightarrow> cells' c = cells c)"
  using assms(1,3)
proof (induction n arbitrary: cells)
  case (Suc n)
  obtain v where v: "param_value pl (pp_slots pl ! n) = Some v"
    and r0: "insert_params pl n (cells(ps_target (pp_slots pl ! n) := v)) = Some cells'"
    using Suc(2) by (auto simp: Let_def split: option.splits)
  define cells2 where "cells2 = cells(ps_target (pp_slots pl ! n) := v)"
  have r: "insert_params pl n cells2 = Some cells'" using r0 by (simp add: cells2_def)
  have "ps_target (pp_slots pl ! n) \<noteq> ps_target (pp_slots pl ! i)" if "i < n" for i
    using that Suc(3) assms(2) by (auto simp: distinct_conv_nth)
  moreover have "(\<forall>i<n. param_value pl (pp_slots pl ! i) = Some (cells' (ps_target (pp_slots pl ! i))))
    \<and> (\<forall>c. (\<forall>i<n. c \<noteq> ps_target (pp_slots pl ! i)) \<longrightarrow> cells' c = cells2 c)"
    using Suc(1) [of cells2] r Suc(3) by simp
  ultimately show ?case using v by (auto simp: less_Suc_eq cells2_def)
qed simp

text \<open>C9 An \<open>INSERT\<close> stores what was bound last.  Prepare a statement, then make any sequence of binding
  and clearing calls that return, with any arguments, only never \<open>NULL\<close> for a parameter that holds
  bytes.  A call that does not answer OK leaves every parameter as it was, one that does sets its
  own parameter and no other.  The execution refuses exactly when some parameter has not been bound
  since the start or the last clearing; otherwise the cell of each parameter gets the last value bound
  to it, byte for byte, and no other cell changes.\<close>

theorem insert_stores_last_bound:
  assumes "bound_after st0 st vs" "st_plan st0 = Some (bind_param_area ps)" "list_all fresh_slot ps" "ps \<noteq> []"
    and "distinct (map ps_target ps)"
  shows "\<exists>pl. st_plan st = Some pl \<and> length vs = length ps
    \<and> (case insert_params pl (length ps) cells of
        None \<Rightarrow> None \<in> set vs
      | Some cells' \<Rightarrow> (\<forall>i<length ps. vs ! i = Some (cells' (ps_target (ps ! i))))
          \<and> (\<forall>c. c \<notin> ps_target ` set ps \<longrightarrow> cells' c = cells c))"
proof -
  obtain pl where pl: "st_plan st = Some pl" and vs: "param_values pl = vs"
    and t: "map ps_target (pp_slots pl) = map ps_target ps"
    using bound_after_law [OF assms(1-4)] by blast
  have len: "length (pp_slots pl) = length ps" using t map_eq_imp_length_eq by blast
  have vi: "param_value pl (pp_slots pl ! i) = vs ! i" if "i < length ps" for i
    using that vs len by (auto simp: param_values_def)
  have ti: "ps_target (pp_slots pl ! i) = ps_target (ps ! i)" if "i < length ps" for i
    using arg_cong [OF t, of "\<lambda>l. l ! i"] that len by simp
  have lv: "length vs = length ps" using vs len by (auto simp: param_values_def)
  show ?thesis
  proof (cases "insert_params pl (length ps) cells")
    case None
    then show ?thesis using insert_params_unbound [of pl "length ps" cells] pl lv vi by (auto simp: in_set_conv_nth)
  next
    case (Some cells')
    have "distinct (map ps_target (pp_slots pl))" using assms(5) t by simp
    from insert_params_cells [OF Some this] have
      c: "\<forall>i<length ps. param_value pl (pp_slots pl ! i) = Some (cells' (ps_target (pp_slots pl ! i)))"
      and o: "\<forall>c. (\<forall>i<length ps. c \<noteq> ps_target (pp_slots pl ! i)) \<longrightarrow> cells' c = cells c" by (simp_all add: len)
    have "\<forall>i<length ps. vs ! i = Some (cells' (ps_target (ps ! i)))" using c vi ti by simp
    moreover have "cells' c = cells c" if "c \<notin> ps_target ` set ps" for c
    proof -
      have "c \<noteq> ps_target (pp_slots pl ! i)" if "i < length ps" for i
        using that \<open>c \<notin> ps_target ` set ps\<close> ti nth_mem by fastforce
      then show ?thesis using o by blast
    qed
    ultimately show ?thesis using pl lv Some by simp
  qed
qed

text \<open>A statement with a \<open>TEXT\<close> and an \<open>INT64\<close> parameter, bound in turn.\<close>

definition two_slots :: "param_slot list" where
  "two_slots = [ins_param 0 TEXT 1, ins_param 1 INT64 0]"

definition two_prepared :: param_stmt where
  "two_prepared = \<lparr>st_magic = True, st_scanning = False, st_plan = Some (bind_param_area two_slots)\<rparr>"

definition letters :: "byte list \<Rightarrow> (nat \<Rightarrow> byte) option" where
  "letters l = Some (\<lambda>i. if i < length l then l ! i else 0)"

definition run_all :: "bind_call list \<Rightarrow> param_stmt \<Rightarrow> param_stmt" where
  "run_all cs st = fold (\<lambda>c st. the (snd (the (bind_run c (Some st))))) cs st"

definition call_ok :: "bind_call \<Rightarrow> param_stmt \<Rightarrow> bool" where
  "call_ok c st = (case bind_run c (Some st) of Some (OK, Some _) \<Rightarrow> True | _ \<Rightarrow> False)"

lemma call_ok_run: "call_ok c st \<Longrightarrow> bind_run c (Some st) = Some (OK, Some (run_all [c] st))"
  by (auto simp: call_ok_def run_all_def split: option.splits prod.splits status.splits)

lemma two_bound: "bound_after two_prepared (run_all [B_text 0 (letters [97, 98]) (- 1), B_int64 1 7] two_prepared)
    [Some (Cell_bytes [97, 98]), Some (Cell_scalar 7)]"
proof -
  let ?c = "B_text 0 (letters [97, 98]) (- 1)"
  have 0: "bound_after two_prepared two_prepared [None, None]"
    using bound_after.prepared [of two_prepared two_slots] by (simp add: two_prepared_def two_slots_def)
  have "call_ok ?c two_prepared" by code_simp
  from bound_after.called [OF 0 _ _ call_ok_run [OF this]]
  have "bound_after two_prepared (run_all [?c] two_prepared) (bind_meaning ?c [None, None])"
    by (simp add: two_prepared_def nulls_bytes_def del: bind_meaning.simps)
  moreover have "bind_meaning ?c [None, None] = [Some (Cell_bytes [97, 98]), None]" by code_simp
  ultimately have 1: "bound_after two_prepared (run_all [?c] two_prepared) [Some (Cell_bytes [97, 98]), None]" by simp
  have "\<not> Option.is_none (st_plan (run_all [?c] two_prepared))" by code_simp
  then obtain pl where pl: "st_plan (run_all [?c] two_prepared) = Some pl" by (auto simp: Option.is_none_def)
  have "call_ok (B_int64 1 7) (run_all [?c] two_prepared)" by code_simp
  from bound_after.called [OF 1 pl _ call_ok_run [OF this]] show ?thesis
    by (simp add: nulls_bytes_def run_all_def)
qed

theorem insert_stores_last_bound_witness:
  "\<exists>pl. st_plan (run_all [B_text 0 (letters [97, 98]) (- 1), B_int64 1 7] two_prepared) = Some pl
    \<and> (case insert_params pl 2 (\<lambda>_. Cell_null) of None \<Rightarrow> False
       | Some cells' \<Rightarrow> cells' 0 = Cell_bytes [97, 98] \<and> cells' 1 = Cell_scalar 7 \<and> cells' 5 = Cell_null)"
proof -
  let ?st = "run_all [B_text 0 (letters [97, 98]) (- 1), B_int64 1 7] two_prepared"
  have ps: "st_plan two_prepared = Some (bind_param_area two_slots)" "list_all fresh_slot two_slots" "two_slots \<noteq> []"
    "distinct (map ps_target two_slots)" "length two_slots = 2"
    "ps_target (two_slots ! 0) = 0" "ps_target (two_slots ! 1) = 1" "5 \<notin> ps_target ` set two_slots"
    by (simp_all add: two_prepared_def two_slots_def fresh_slot_def ins_param_def)
  obtain pl where pl: "st_plan ?st = Some pl"
    and r: "case insert_params pl 2 (\<lambda>_. Cell_null) of
        None \<Rightarrow> None \<in> set [Some (Cell_bytes [97, 98]), Some (Cell_scalar 7)]
      | Some cells' \<Rightarrow> (\<forall>i<2. [Some (Cell_bytes [97, 98]), Some (Cell_scalar 7)] ! i = Some (cells' (ps_target (two_slots ! i))))
          \<and> (\<forall>c. c \<notin> ps_target ` set two_slots \<longrightarrow> cells' c = Cell_null)"
    using insert_stores_last_bound [OF two_bound ps(1-4), of "\<lambda>_. Cell_null", unfolded ps(5)] by blast
  show ?thesis
  proof (cases "insert_params pl 2 (\<lambda>_. Cell_null)")
    case (Some cells')
    have "[Some (Cell_bytes [97, 98]), Some (Cell_scalar 7)] ! i = Some (cells' (ps_target (two_slots ! i)))" if "i < 2" for i
      using r that by (simp add: Some)
    from this [of 0] this [of 1] have "cells' 0 = Cell_bytes [97, 98]" "cells' 1 = Cell_scalar 7" using ps by simp_all
    moreover have "cells' 5 = Cell_null" using r ps(8) by (simp add: Some)
    ultimately show ?thesis using pl Some by simp
  qed (use r in simp)
qed

text \<open>Binding again costs nothing.  Once a value of \<open>n\<close> bytes has been bound to a parameter, binding
  to it again any value of at most \<open>n\<close> bytes succeeds and takes nothing from the buffer, however full
  the buffer is by then.\<close>

theorem rebind_takes_nothing:
  assumes "st_plan st = Some pl" "params_ok pl" "\<not> type_code want < type_code TEXT"
    and "api_param_bytes (Some st) idx want src (int n) = (OK, Some st')" "m \<le> n" "src' = None \<longrightarrow> m = 0"
  shows "\<exists>pl' st'' pl''. st_plan st' = Some pl' \<and> api_param_bytes (Some st') idx want src' (int m) = (OK, Some st'')
    \<and> st_plan st'' = Some pl'' \<and> map_option pb_used (pp_buf pl'') = map_option pb_used (pp_buf pl')"
proof -
  obtain i where slot: "api_param_slot (Some st) idx = Some (st, pl, i)" and i: "i < length (pp_slots pl)"
    and ty: "ps_type (pp_slots pl ! i) = want" "src = None \<longrightarrow> n = 0"
  proof (cases rule: api_param_slot_cases [OF assms(1), of idx])
    case 1
    then show ?thesis using assms(4) by (simp add: api_param_bytes_def)
  next
    case 2
    have "ps_type (pp_slots pl ! nat idx) = want \<and> (src = None \<longrightarrow> n = 0)"
      using assms(4) by (auto simp: api_param_bytes_def 2 Let_def split: if_splits)
    then show ?thesis using that 2 by blast
  qed
  obtain b where b: "pp_buf pl = Some b" "pb_used b \<le> CybouDB_PARAM_BUF_SIZE" "slot_fits (pb_used b) (pp_slots pl ! i)"
    using assms(2) i by (auto simp: params_ok_def)
  obtain b1 s1 where p: "placed b (pp_slots pl ! i) n = (b1, s1)" by fastforce
  have law: "n \<le> ps_cap s1" "ps_type s1 = want"
    using placed_fits [OF b(3) p b(2)] ty(1) assms(3) by simp_all
  define b2 where "b2 = b1\<lparr>pb_bytes :=
      copy_bytes (case src of None \<Rightarrow> (\<lambda>_. 0) | Some p \<Rightarrow> p) (unat (ps_val s1)) n 0 (pb_bytes b1)\<rparr>"
  define pl' where "pl' = (put_slot pl i s1)\<lparr>pp_buf := Some b2\<rparr>"
  have st': "st' = st\<lparr>st_plan := Some pl'\<rparr>"
    and room: "\<not> (ps_cap (pp_slots pl ! i) < n \<and> CybouDB_PARAM_BUF_SIZE < pb_used b + round8 n)"
    using assms(4) api_param_bytes_eq [OF slot b(1,2) ty] p by (auto simp: pl'_def b2_def split: if_splits)
  have slot': "api_param_slot (Some st') idx = Some (st', pl', i)"
    using slot by (auto simp: api_param_slot_def st' pl'_def split: option.splits if_splits)
  have "pb_used b2 \<le> CybouDB_PARAM_BUF_SIZE"
    using p b(2) room by (auto simp: placed_def b2_def split: if_splits)
  moreover have s1: "pp_slots pl' ! i = s1" "pp_buf pl' = Some b2" using i by (simp_all add: pl'_def)
  ultimately show ?thesis
    using api_param_bytes_eq [OF slot' s1(2), of want src' m] law assms(5,6)
    by (simp add: s1 st' placed_def)
qed

theorem rebind_takes_nothing_witness:
  "\<exists>pl' st'' pl''. st_plan (run_all [B_text 0 (letters [97, 98]) 2] two_prepared) = Some pl'
    \<and> api_param_bytes (Some (run_all [B_text 0 (letters [97, 98]) 2] two_prepared)) 0 TEXT (letters [99]) 1 = (OK, Some st'')
    \<and> st_plan st'' = Some pl'' \<and> map_option pb_used (pp_buf pl'') = map_option pb_used (pp_buf pl')"
proof -
  have 1: "st_plan two_prepared = Some (bind_param_area two_slots)" by (simp add: two_prepared_def)
  have 2: "params_ok (bind_param_area two_slots)"
    by (rule prepared_ok) (simp_all add: two_slots_def fresh_slot_def ins_param_def)
  have ok: "call_ok (B_text 0 (letters [97, 98]) 2) two_prepared" by code_simp
  have 3: "api_param_bytes (Some two_prepared) 0 TEXT (letters [97, 98]) (int 2)
      = (OK, Some (run_all [B_text 0 (letters [97, 98]) 2] two_prepared))"
    using call_ok_run [of "B_text 0 (letters [97, 98]) 2" two_prepared, unfolded bind_run.simps cyboudb_bind_text_def]
    by (simp add: ok)
  show ?thesis using rebind_takes_nothing [OF 1 2 _ 3, of 1 "letters [99]"] by (simp add: letters_def)
qed

text \<open>C37 Binding \<open>NULL\<close> to a parameter that owns bytes breaks the rule that the pieces do not overlap: the
  parameter forgets where its piece starts but not how long it is.  Take any statement in which
  parameter \<open>i\<close> is bound to bytes at the start of the buffer and a nullable \<open>TEXT\<close> parameter \<open>j\<close> owns a
  piece of at least \<open>n\<close> bytes.  After \<open>NULL\<close> and then any text of \<open>n\<close> bytes are bound to \<open>j\<close>, both calls
  having answered OK, parameter \<open>i\<close>, which no call has touched, reads the new text in place of its
  first \<open>n\<close> bytes.\<close>

theorem bind_null_overwrites:
  assumes "st_magic st" "\<not> st_scanning st" "st_plan st = Some pl" "pp_buf pl = Some b"
    and "i < length (pp_slots pl)" "j < length (pp_slots pl)" "i \<noteq> j"
    and "type_code TEXT \<le> type_code (ps_type (pp_slots pl ! i))" "ps_state (pp_slots pl ! i) = PARAM_BOUND"
    and "ps_val (pp_slots pl ! i) = 0"
    and "ps_type (pp_slots pl ! j) = TEXT" "ps_kind (pp_slots pl ! j) \<noteq> PARAM_TO_BEXPR"
    and "and (ps_flags (pp_slots pl ! j)) CAT_NULLABLE \<noteq> 0" "n \<le> ps_cap (pp_slots pl ! j)"
  shows "\<exists>st1 st2 pl2 old. cyboudb_bind_null (Some st) (int j) = (OK, Some st1)
    \<and> cyboudb_bind_text (Some st1) (int j) (Some p) (int n) = Some (OK, Some st2) \<and> st_plan st2 = Some pl2
    \<and> param_values pl ! i = Some (Cell_bytes old)
    \<and> param_values pl2 ! i = Some (Cell_bytes (take (length old) (map p [0..<n]) @ drop n old))"
proof -
  define sj where "sj = (pp_slots pl ! j)\<lparr>ps_val := 0, ps_len := 0, ps_state := PARAM_NULL\<rparr>"
  define pl1 where "pl1 = put_slot pl j sj"
  define st1 where "st1 = st\<lparr>st_plan := Some pl1\<rparr>"
  have null: "cyboudb_bind_null (Some st) (int j) = (OK, Some st1)"
    using assms by (auto simp: cyboudb_bind_null_def api_param_slot_def Let_def st1_def pl1_def sj_def)
  define b2 where "b2 = b\<lparr>pb_bytes := copy_bytes p 0 n 0 (pb_bytes b)\<rparr>"
  define pl2 where "pl2 = (put_slot pl1 j (sj\<lparr>ps_len := n, ps_state := PARAM_BOUND\<rparr>))\<lparr>pp_buf := Some b2\<rparr>"
  have bytes: "cyboudb_bind_text (Some st1) (int j) (Some p) (int n) = Some (OK, Some (st1\<lparr>st_plan := Some pl2\<rparr>))"
    using assms
    by (auto simp: cyboudb_bind_text_def api_param_bytes_def api_param_slot_def Let_def st1_def pl1_def pl2_def b2_def sj_def)
  define len where "len = ps_len (pp_slots pl ! i)"
  define old where "old = map (pb_bytes b) [0..<len]"
  have "param_values pl ! i = Some (Cell_bytes old)"
    using assms by (simp add: param_values_def param_value_def buffer_bytes_def old_def len_def)
  moreover have "param_values pl2 ! i = Some (Cell_bytes (map (pb_bytes b2) [0..<len]))"
    using assms by (simp add: param_values_def param_value_def buffer_bytes_def pl2_def pl1_def len_def)
  moreover have "map (pb_bytes b2) [0..<len] = take (length old) (map p [0..<n]) @ drop n old"
    by (rule nth_equalityI) (auto simp: b2_def old_def copy_bytes_apply nth_append)
  ultimately show ?thesis using null bytes by (intro exI [of _ st1] exI [of _ "st1\<lparr>st_plan := Some pl2\<rparr>"]) auto
qed

text \<open>Two \<open>TEXT\<close> parameters bound to eight letters each; the second one is set to \<open>NULL\<close> and then to \<open>cccc\<close>.\<close>

definition texts_bound :: param_stmt where
  "texts_bound = run_all [B_text 0 (letters (replicate 8 97)) 8, B_text 1 (letters (replicate 8 98)) 8]
     \<lparr>st_magic = True, st_scanning = False, st_plan = Some (bind_param_area [ins_param 0 TEXT 1, ins_param 1 TEXT 1])\<rparr>"

theorem bind_null_overwrites_witness:
  "param_values (the (st_plan texts_bound)) ! 0 = Some (Cell_bytes (replicate 8 97))
   \<and> (\<exists>st1 st2 pl2. cyboudb_bind_null (Some texts_bound) 1 = (OK, Some st1)
     \<and> cyboudb_bind_text (Some st1) 1 (Some (\<lambda>_. 99)) 4 = Some (OK, Some st2) \<and> st_plan st2 = Some pl2
     \<and> param_values pl2 ! 0 = Some (Cell_bytes (replicate 4 99 @ replicate 4 97)))"
proof -
  define pl where "pl = the (st_plan texts_bound)"
  have st: "st_magic texts_bound" "\<not> st_scanning texts_bound" "\<not> Option.is_none (st_plan texts_bound)" by code_simp+
  then have pl: "st_plan texts_bound = Some pl" by (simp add: Option.is_none_def pl_def)
  have "\<not> Option.is_none (pp_buf pl)" unfolding pl_def by code_simp
  then obtain b where b: "pp_buf pl = Some b" by (auto simp: Option.is_none_def)
  have i: "0 < length (pp_slots pl)" "1 < length (pp_slots pl)" "(0 :: nat) \<noteq> 1"
    "type_code TEXT \<le> type_code (ps_type (pp_slots pl ! 0))" "ps_state (pp_slots pl ! 0) = PARAM_BOUND"
    "ps_val (pp_slots pl ! 0) = 0"
    unfolding pl_def by code_simp+
  have j: "ps_type (pp_slots pl ! 1) = TEXT" "ps_kind (pp_slots pl ! 1) \<noteq> PARAM_TO_BEXPR"
    "and (ps_flags (pp_slots pl ! 1)) CAT_NULLABLE \<noteq> 0" "4 \<le> ps_cap (pp_slots pl ! 1)"
    unfolding pl_def by code_simp+
  have old: "param_values pl ! 0 = Some (Cell_bytes (replicate 8 97))" unfolding pl_def by code_simp
  have "take (length (replicate 8 (97 :: byte))) (map (\<lambda>_. 99 :: byte) [0..<4]) @ drop 4 (replicate 8 97)
      = replicate 4 99 @ replicate 4 97" by code_simp
  with bind_null_overwrites [OF st(1,2) pl b i j, of "\<lambda>_. 99"] old show ?thesis
    unfolding pl_def [symmetric] by auto
qed

end
