(* ===== verification/Var_Extents.thy ===== *)
theory Var_Extents
  imports Api_Header
begin

text \<open>
  Values of variable width, \<^verbatim>\<open>src/core/varlen.asm\<close>: a \<open>TEXT\<close>, \<open>BLOB\<close> or \<open>VECTOR\<close> cell holds the root
  of a chain of extent pages and a length.  Writing a chain, validating it against a superblock and
  reading it back.  The page allocator and the allocation map are told by what they answer: the list
  of pages the allocator will hand out (or the error it will give), the number of pages it says are
  left, and the pages the superblock's map calls payload.  The checksum is a parameter, a function
  of everything on the page but the checksum itself.
\<close>

unbundle bit_operations_syntax

section \<open>Pages, cells and the context\<close>

record var_body =
  vb_magic :: nat
  vb_version :: nat
  vb_page_id :: nat
  vb_generation :: nat
  vb_owner :: nat
  vb_next :: nat
  vb_used :: nat
  vb_reserved :: nat
  vb_data :: "nat \<Rightarrow> byte"

record var_page =
  vp_body :: var_body
  vp_crc :: nat

record var_cell =
  vc_root :: nat
  vc_length :: nat

definition VAR_MAGIC_VALUE :: nat where "VAR_MAGIC_VALUE = 0x56515341"
definition VAR_VERSION_VALUE :: nat where "VAR_VERSION_VALUE = 1"
definition VAR_PAYLOAD_SIZE :: nat where "VAR_PAYLOAD_SIZE = 4092 - 64"

definition blank_page :: var_page where
  "blank_page = \<lparr>vp_body = \<lparr>vb_magic = 0, vb_version = 0, vb_page_id = 0, vb_generation = 0, vb_owner = 0,
     vb_next = 0, vb_used = 0, vb_reserved = 0, vb_data = (\<lambda>_. 0)\<rparr>, vp_crc = 0\<rparr>"

record var_ctx =
  vx_pages :: "nat \<Rightarrow> var_page"
  vx_generation :: nat
  vx_headroom :: nat
  vx_alloc :: "(db_error + nat) list"

record var_sb =
  sb_generation :: nat
  sb_payload :: "nat \<Rightarrow> bool"
  sb_verify :: bool

text \<open>The allocator blanks the page it hands out.\<close>

definition alloc_page :: "var_ctx \<Rightarrow> (db_error + nat) \<times> var_ctx" where
  "alloc_page ctx = (case vx_alloc ctx of
     [] \<Rightarrow> (Inl E_FULL, ctx)
   | Inl e # r \<Rightarrow> (Inl e, ctx\<lparr>vx_alloc := r\<rparr>)
   | Inr pid # r \<Rightarrow> (Inr pid, ctx\<lparr>vx_alloc := r, vx_pages := (vx_pages ctx)(pid := blank_page)\<rparr>))"

section \<open>Writing\<close>

text \<open>Both copy loops: \<open>count\<close> bytes of \<open>src\<close> from \<open>s\<close> on to \<open>d\<close> and what follows.\<close>

fun copy_run :: "(nat \<Rightarrow> byte) \<Rightarrow> nat \<Rightarrow> nat \<Rightarrow> nat \<Rightarrow> (nat \<Rightarrow> byte) \<Rightarrow> nat \<Rightarrow> byte" where
  "copy_run src s d 0 m = m"
| "copy_run src s d (Suc c) m = copy_run src (s + 1) (d + 1) c (m(d := src s))"

definition page_count :: "nat \<Rightarrow> nat" where
  "page_count len = len div VAR_PAYLOAD_SIZE + (if len mod VAR_PAYLOAD_SIZE \<noteq> 0 then 1 else 0)"

definition used_ready :: "nat \<Rightarrow> nat" where
  "used_ready rem = (if rem \<le> VAR_PAYLOAD_SIZE then rem else VAR_PAYLOAD_SIZE)"

definition write_seal :: "(var_body \<Rightarrow> nat) \<Rightarrow> nat \<Rightarrow> var_body \<Rightarrow> var_ctx \<Rightarrow> var_ctx" where
  "write_seal crc32c pid b ctx = ctx\<lparr>vx_pages := (vx_pages ctx)(pid := \<lparr>vp_body = b, vp_crc = crc32c b\<rparr>)\<rparr>"

definition write_link :: "(var_body \<Rightarrow> nat) \<Rightarrow> nat option \<Rightarrow> nat \<Rightarrow> var_ctx \<Rightarrow> var_ctx" where
  "write_link crc32c prev pid ctx = (case prev of None \<Rightarrow> ctx
     | Some q \<Rightarrow> write_seal crc32c q ((vp_body (vx_pages ctx q))\<lparr>vb_next := pid\<rparr>) ctx)"

definition write_body :: "(nat \<Rightarrow> byte) \<Rightarrow> nat \<Rightarrow> nat \<Rightarrow> nat \<Rightarrow> nat \<Rightarrow> var_ctx \<Rightarrow> var_body" where
  "write_body mem owner rem cur pid ctx =
    (let b = vp_body (vx_pages ctx pid) in
     b\<lparr>vb_magic := VAR_MAGIC_VALUE, vb_version := VAR_VERSION_VALUE, vb_page_id := pid,
       vb_generation := (vx_generation ctx + 1) mod 2 ^ 64, vb_owner := owner, vb_used := used_ready rem,
       vb_next := 0, vb_data := copy_run mem cur 0 (used_ready rem) (vb_data b)\<rparr>)"

function write_page ::
    "(var_body \<Rightarrow> nat) \<Rightarrow> (nat \<Rightarrow> byte) \<Rightarrow> nat \<Rightarrow> nat \<Rightarrow> nat \<Rightarrow> nat \<Rightarrow> nat \<Rightarrow> nat option \<Rightarrow> nat \<Rightarrow> var_ctx
     \<Rightarrow> db_error option \<times> nat \<times> var_ctx" where
  "write_page crc32c mem owner n i rem cur prev first ctx =
    (case alloc_page ctx of
       (Inl e, ctx1) \<Rightarrow> (Some e, first, ctx1)
     | (Inr pid, ctx1) \<Rightarrow>
         let ctx2 = write_link crc32c prev pid ctx1;
             first1 = (if prev = None then pid else first);
             ctx3 = write_seal crc32c pid (write_body mem owner rem cur pid ctx2) ctx2
         in if i + 1 < n
            then write_page crc32c mem owner n (i + 1) (rem - used_ready rem) (cur + used_ready rem) (Some pid) first1 ctx3
            else (None, first1, ctx3))"
  by pat_completeness auto
termination by (relation "measure (\<lambda>(crc, mem, owner, n, i, r). n - i)") auto

declare write_page.simps [simp del]

definition db_var_write_chain ::
    "(var_body \<Rightarrow> nat) \<Rightarrow> (nat \<Rightarrow> byte) \<Rightarrow> var_ctx \<Rightarrow> nat \<Rightarrow> nat \<Rightarrow> nat \<Rightarrow> db_error option \<times> var_cell option \<times> var_ctx" where
  "db_var_write_chain crc32c mem ctx bytes len owner =
    (if len = 0 then (None, Some \<lparr>vc_root = 0, vc_length = 0\<rparr>, ctx)
     else if bytes = 0 \<or> owner = 0 then (Some E_VALUE, None, ctx)
     else if vx_headroom ctx < page_count len then (Some E_FULL, None, ctx)
     else case write_page crc32c mem owner (page_count len) 0 len bytes None 0 ctx of
       (Some e, first, ctx') \<Rightarrow> (Some e, None, ctx')
     | (None, first, ctx') \<Rightarrow> (None, Some \<lparr>vc_root = first, vc_length = len\<rparr>, ctx'))"

section \<open>Validating\<close>

text \<open>The test of the twenty reserved bytes: the first eight are loaded, the next eight joined to them,
  and the last four joined to the lower half.  That last instruction works on 32 bits and sets the
  flags from its result, so the upper halves of the first two words are not looked at.\<close>

definition reserved_test :: "nat \<Rightarrow> u32" where
  "reserved_test r = (let rax = (word_of_nat r :: u64) OR word_of_nat (r div 2 ^ 64)
     in ucast rax OR word_of_nat (r div 2 ^ 128))"

definition extent_header_ok :: "var_sb \<Rightarrow> nat \<Rightarrow> nat \<Rightarrow> nat \<Rightarrow> var_body \<Rightarrow> bool" where
  "extent_header_ok sb owner root rem b \<longleftrightarrow>
     vb_magic b = VAR_MAGIC_VALUE \<and> vb_version b = VAR_VERSION_VALUE \<and> vb_page_id b = root
   \<and> vb_generation b \<noteq> 0 \<and> vb_generation b \<le> sb_generation sb \<and> vb_owner b = owner
   \<and> reserved_test (vb_reserved b) = 0 \<and> vb_used b = used_ready rem"

definition extent_deep_ok :: "(var_body \<Rightarrow> nat) \<Rightarrow> var_sb \<Rightarrow> var_page \<Rightarrow> bool" where
  "extent_deep_ok crc32c sb pg \<longleftrightarrow>
     (sb_verify sb \<or> vb_generation (vp_body pg) = sb_generation sb \<longrightarrow>
        vp_crc pg = crc32c (vp_body pg)
      \<and> list_all (\<lambda>k. vb_data (vp_body pg) k = 0) [vb_used (vp_body pg)..<VAR_PAYLOAD_SIZE])"

function vc_page :: "(var_body \<Rightarrow> nat) \<Rightarrow> var_sb \<Rightarrow> (nat \<Rightarrow> var_page) \<Rightarrow> nat \<Rightarrow> nat \<Rightarrow> nat \<Rightarrow> nat \<Rightarrow> nat \<Rightarrow> bool" where
  "vc_page crc32c sb pages owner n i root rem =
    (if \<not> sb_payload sb root then False
     else let pg = pages root; b = vp_body pg in
       if \<not> extent_header_ok sb owner root rem b then False
       else if (if i + 1 = n then vb_next b \<noteq> 0 else vb_next b = 0) then False
       else if \<not> extent_deep_ok crc32c sb pg then False
       else if i + 1 < n then vc_page crc32c sb pages owner n (i + 1) (vb_next b) (rem - used_ready rem)
       else rem - used_ready rem = 0)"
  by pat_completeness auto
termination by (relation "measure (\<lambda>(crc, sb, pages, owner, n, i, r). n - i)") auto

declare vc_page.simps [simp del]

definition db_var_validate_chain ::
    "(var_body \<Rightarrow> nat) \<Rightarrow> var_sb \<Rightarrow> (nat \<Rightarrow> var_page) \<Rightarrow> nat \<Rightarrow> nat \<Rightarrow> nat \<Rightarrow> bool" where
  "db_var_validate_chain crc32c sb pages root len owner =
    (if len = 0 then root = 0
     else if root = 0 \<or> owner = 0 then False
     else vc_page crc32c sb pages owner (page_count len) 0 root len)"

section \<open>Reading\<close>

text \<open>The number subtracted is read as eight bytes, the last four of them reserved ones.\<close>

partial_function (option) read_page ::
    "(nat \<Rightarrow> var_page) \<Rightarrow> nat \<Rightarrow> nat \<Rightarrow> nat \<Rightarrow> (nat \<Rightarrow> byte) \<Rightarrow> (nat \<Rightarrow> byte) option" where
  "read_page pages root rem out mem =
    (let b = vp_body (pages root); mem1 = copy_run (vb_data b) 0 out (vb_used b) mem;
         used8 = vb_used b + 2 ^ 32 * (vb_reserved b mod 2 ^ 32);
         rem1 = (rem + (2 ^ 64 - used8)) mod 2 ^ 64
     in if rem1 = 0 then Some mem1 else read_page pages (vb_next b) rem1 (out + vb_used b) mem1)"

declare read_page.simps [code]

definition db_var_read_chain ::
    "(var_body \<Rightarrow> nat) \<Rightarrow> var_sb \<Rightarrow> (nat \<Rightarrow> var_page) \<Rightarrow> var_cell \<Rightarrow> nat \<Rightarrow> nat \<Rightarrow> nat \<Rightarrow> (nat \<Rightarrow> byte)
     \<Rightarrow> (db_error option \<times> (nat \<Rightarrow> byte)) option" where
  "db_var_read_chain crc32c sb pages cell owner out cap mem =
    (if \<not> db_var_validate_chain crc32c sb pages (vc_root cell) (vc_length cell) owner then Some (Some E_PAX, mem)
     else if cap < vc_length cell then Some (Some E_VALUE, mem)
     else if vc_length cell = 0 then Some (None, mem)
     else if out = 0 then Some (Some E_VALUE, mem)
     else map_option (\<lambda>m. (None, m)) (read_page pages (vc_root cell) (vc_length cell) out mem))"

section \<open>What a chain holds\<close>

lemma copy_run_apply:
  "copy_run src s d c m = (\<lambda>p. if d \<le> p \<and> p < d + c then src (s + (p - d)) else m p)"
proof (induction c arbitrary: s d m)
  case (Suc c)
  show ?case unfolding copy_run.simps Suc by (rule ext) (auto simp: Suc_diff_Suc)
qed (auto simp: fun_eq_iff)

lemma used_ready_bound: "used_ready rem \<le> rem" "0 < rem \<Longrightarrow> 0 < used_ready rem"
  by (simp_all add: used_ready_def VAR_PAYLOAD_SIZE_def)

text \<open>What the test says: three of the five words of the reserved bytes are zero, and the other two may
  hold anything.\<close>

lemma reserved_test_zero:
  "reserved_test r = 0 \<longleftrightarrow> r mod 2 ^ 32 = 0 \<and> r div 2 ^ 64 mod 2 ^ 32 = 0 \<and> r div 2 ^ 128 mod 2 ^ 32 = 0"
proof -
  have low: "(ucast (word_of_nat k :: u64) :: u32) = word_of_nat k" for k
    by (rule bit_word_eqI) (simp add: bit_simps)
  have join: "ucast ((a :: u64) OR b) = (ucast a OR ucast b :: u32)" for a b
    by (rule bit_word_eqI) (auto simp: bit_simps)
  show ?thesis
    by (simp add: reserved_test_def Let_def low join or_eq_0_iff word_of_nat_eq_0_iff mod_eq_0_iff_dvd)
qed

function chain_bytes :: "(nat \<Rightarrow> var_page) \<Rightarrow> nat \<Rightarrow> nat \<Rightarrow> nat \<Rightarrow> nat \<Rightarrow> byte list" where
  "chain_bytes pages n i root rem =
    (let b = vp_body (pages root); l = map (vb_data b) [0..<used_ready rem]
     in if i + 1 < n then l @ chain_bytes pages n (i + 1) (vb_next b) (rem - used_ready rem) else l)"
  by pat_completeness auto
termination by (relation "measure (\<lambda>(pages, n, i, r). n - i)") auto

declare chain_bytes.simps [simp del]

definition put_bytes :: "nat \<Rightarrow> byte list \<Rightarrow> (nat \<Rightarrow> byte) \<Rightarrow> nat \<Rightarrow> byte" where
  "put_bytes out l mem = (\<lambda>p. if out \<le> p \<and> p < out + length l then l ! (p - out) else mem p)"

lemma put_bytes_Nil [simp]: "put_bytes out [] mem = mem"
  by (auto simp: put_bytes_def fun_eq_iff)

lemma put_bytes_append: "put_bytes out (a @ b) mem = put_bytes (out + length a) b (put_bytes out a mem)"
  by (rule ext) (auto simp: put_bytes_def nth_append)

lemma copy_run_put: "copy_run src 0 out c mem = put_bytes out (map src [0..<c]) mem"
  by (rule ext) (auto simp: copy_run_apply put_bytes_def)

lemma page_count_eq:
  "0 < rem \<Longrightarrow> page_count rem = (if rem \<le> VAR_PAYLOAD_SIZE then 1 else Suc (page_count (rem - VAR_PAYLOAD_SIZE)))"
proof -
  assume "0 < rem"
  have P: "0 < VAR_PAYLOAD_SIZE" by (simp add: VAR_PAYLOAD_SIZE_def)
  consider "rem < VAR_PAYLOAD_SIZE" | "rem = VAR_PAYLOAD_SIZE" | "VAR_PAYLOAD_SIZE < rem" by linarith
  then show ?thesis
    using \<open>0 < rem\<close> P by cases (simp_all add: page_count_def le_div_geq le_mod_geq)
qed

lemma page_count_step:
  assumes "0 < rem"
  shows "page_count rem = Suc 0 \<longleftrightarrow> rem - used_ready rem = 0"
    and "rem - used_ready rem \<noteq> 0 \<Longrightarrow> page_count rem = Suc (page_count (rem - used_ready rem))"
    and "0 < page_count rem"
  using assms page_count_eq [of rem] page_count_eq [of "rem - VAR_PAYLOAD_SIZE"]
  by (auto simp: used_ready_def split: if_splits)

lemma read_page_valid:
  assumes "vc_page crc32c sb pages owner n i root rem" "rem < 2 ^ 64" "0 < rem" "n = i + page_count rem"
  shows "length (chain_bytes pages n i root rem) = rem
    \<and> read_page pages root rem out mem = Some (put_bytes out (chain_bytes pages n i root rem) mem)"
  using assms
proof (induction rem arbitrary: i root out mem rule: less_induct)
  case (less rem)
  define b where "b = vp_body (pages root)"
  define u where "u = used_ready rem"
  have b: "vb_used b = u" "vb_reserved b mod 2 ^ 32 = 0"
    and tail: "i + 1 < n \<longrightarrow> vc_page crc32c sb pages owner n (i + 1) (vb_next b) (rem - u)"
    using less(2)
    by (subst (asm) vc_page.simps; auto simp: Let_def b_def u_def extent_header_ok_def reserved_test_zero split: if_splits)+
  have u: "u \<le> rem" "0 < u" using used_ready_bound [of rem] less(4) by (simp_all add: u_def)
  have more: "i + 1 < n \<longleftrightarrow> rem - u \<noteq> 0" "rem - u \<noteq> 0 \<Longrightarrow> n = i + 1 + page_count (rem - u)"
    using page_count_step [OF less(4)] less(5) by (auto simp: u_def)
  have rem1: "(rem + (2 ^ 64 - (u + 2 ^ 32 * (vb_reserved b mod 2 ^ 32)))) mod 2 ^ 64 = rem - u"
  proof -
    have e: "rem + (2 ^ 64 - u) = (rem - u) + 2 ^ 64" using u less(3) by simp
    have "(rem - u) mod 2 ^ 64 = rem - u" using less(3) by simp
    then show ?thesis by (simp only: b e mod_add_self2 mod_0 mult_0_right add_0_right)
  qed
  define l where "l = map (vb_data b) [0..<u]"
  define rest where "rest = chain_bytes pages n (i + 1) (vb_next b) (rem - u)"
  have ll: "length l = u" by (simp add: l_def)
  have cb: "chain_bytes pages n i root rem = (if rem - u = 0 then l else l @ rest)"
    using more(1) by (subst chain_bytes.simps) (simp add: Let_def b_def u_def l_def rest_def)
  have rd: "read_page pages root rem out mem =
      (if rem - u = 0 then Some (put_bytes out l mem) else read_page pages (vb_next b) (rem - u) (out + u) (put_bytes out l mem))"
    by (subst read_page.simps)
      (simp only: Let_def b_def [symmetric] b(1) rem1 copy_run_put l_def)
  show ?case
  proof (cases "rem - u = 0")
    case True
    then show ?thesis using cb rd ll u by simp
  next
    case False
    have ih: "length rest = rem - u
        \<and> read_page pages (vb_next b) (rem - u) (out + u) (put_bytes out l mem)
          = Some (put_bytes (out + u) rest (put_bytes out l mem))"
      unfolding rest_def using tail more False u less(3)
      by (intro less(1)) auto
    show ?thesis using False cb rd ih ll u by (simp add: put_bytes_append)
  qed
qed

section \<open>What a write leaves\<close>

definition extents_fit :: "var_sb \<Rightarrow> nat \<Rightarrow> nat list \<Rightarrow> bool" where
  "extents_fit sb gen ids \<longleftrightarrow> distinct ids \<and> 0 \<notin> set ids \<and> list_all (sb_payload sb) ids
     \<and> gen + 1 < 2 ^ 64 \<and> gen + 1 \<le> sb_generation sb"

lemma write_body_ok:
  assumes "vx_pages ctx pid = blank_page" "vx_generation ctx + 1 < 2 ^ 64" "vx_generation ctx + 1 \<le> sb_generation sb"
  shows "extent_header_ok sb owner pid rem ((write_body mem owner rem cur pid ctx)\<lparr>vb_next := nx\<rparr>)"
    and "extent_deep_ok crc32c sb \<lparr>vp_body = (write_body mem owner rem cur pid ctx)\<lparr>vb_next := nx\<rparr>,
           vp_crc = crc32c ((write_body mem owner rem cur pid ctx)\<lparr>vb_next := nx\<rparr>)\<rparr>"
    and "map (vb_data (write_body mem owner rem cur pid ctx)) [0..<used_ready rem] = map mem [cur..<cur + used_ready rem]"
    and "(write_body mem owner rem cur pid ctx)\<lparr>vb_next := 0\<rparr> = write_body mem owner rem cur pid ctx"
proof -
  show "map (vb_data (write_body mem owner rem cur pid ctx)) [0..<used_ready rem] = map mem [cur..<cur + used_ready rem]"
    by (rule nth_equalityI) (simp_all add: write_body_def Let_def copy_run_apply)
qed (use assms in \<open>auto simp: write_body_def Let_def extent_header_ok_def extent_deep_ok_def blank_page_def
      reserved_test_def copy_run_apply list_all_iff\<close>)

text \<open>One turn of the loop: the page it fills, whatever the next page turns out to be, is a valid extent.\<close>

definition good_extent :: "(var_body \<Rightarrow> nat) \<Rightarrow> var_sb \<Rightarrow> nat \<Rightarrow> nat \<Rightarrow> nat \<Rightarrow> byte list \<Rightarrow> var_body \<Rightarrow> bool" where
  "good_extent crc32c sb owner pid rem l b \<longleftrightarrow> vb_next b = 0 \<and> map (vb_data b) [0..<used_ready rem] = l
     \<and> (\<forall>nx. extent_header_ok sb owner pid rem (b\<lparr>vb_next := nx\<rparr>)
         \<and> extent_deep_ok crc32c sb \<lparr>vp_body = b\<lparr>vb_next := nx\<rparr>, vp_crc = crc32c (b\<lparr>vb_next := nx\<rparr>)\<rparr>)"

definition linked :: "(var_body \<Rightarrow> nat) \<Rightarrow> nat option \<Rightarrow> nat \<Rightarrow> (nat \<Rightarrow> var_page) \<Rightarrow> (nat \<Rightarrow> var_page) \<Rightarrow> bool" where
  "linked crc32c prev pid old new \<longleftrightarrow> (\<forall>q. prev = Some q \<longrightarrow> (let b = (vp_body (old q))\<lparr>vb_next := pid\<rparr> in
       new q = \<lparr>vp_body = b, vp_crc = crc32c b\<rparr>))"

lemma write_page_first:
  assumes "vx_alloc ctx = Inr pid # left" "sb_payload sb pid" "prev \<noteq> Some pid"
    and "vx_generation ctx + 1 < 2 ^ 64" "vx_generation ctx + 1 \<le> sb_generation sb"
  obtains ctx3 b where
    "write_page crc32c mem owner n i rem cur prev first ctx =
      (let first1 = (if prev = None then pid else first) in
       if i + 1 < n then write_page crc32c mem owner n (i + 1) (rem - used_ready rem) (cur + used_ready rem) (Some pid) first1 ctx3
       else (None, first1, ctx3))"
    "vx_pages ctx3 pid = \<lparr>vp_body = b, vp_crc = crc32c b\<rparr>"
    "good_extent crc32c sb owner pid rem (map mem [cur..<cur + used_ready rem]) b"
    "vx_generation ctx3 = vx_generation ctx" "vx_alloc ctx3 = left"
    "\<forall>p. p \<noteq> pid \<and> prev \<noteq> Some p \<longrightarrow> vx_pages ctx3 p = vx_pages ctx p"
    "linked crc32c prev pid (vx_pages ctx) (vx_pages ctx3)"
proof -
  define ctx1 where "ctx1 = ctx\<lparr>vx_alloc := left, vx_pages := (vx_pages ctx)(pid := blank_page)\<rparr>"
  have al: "alloc_page ctx = (Inr pid, ctx1)" using assms(1) by (simp add: alloc_page_def ctx1_def)
  define ctx2 where "ctx2 = write_link crc32c prev pid ctx1"
  define b where "b = write_body mem owner rem cur pid ctx2"
  define ctx3 where "ctx3 = write_seal crc32c pid b ctx2"
  have c2: "vx_pages ctx2 pid = blank_page" "vx_generation ctx2 = vx_generation ctx"
    using assms(3) by (auto simp: ctx2_def ctx1_def write_link_def write_seal_def split: option.splits)
  have fit: "vx_generation ctx2 + 1 < 2 ^ 64" "vx_generation ctx2 + 1 \<le> sb_generation sb"
    using assms(4,5) by (simp_all add: c2)
  note wb = write_body_ok [OF c2(1) fit, where mem = mem and owner = owner and rem = rem and cur = cur, folded b_def]
  have "good_extent crc32c sb owner pid rem (map mem [cur..<cur + used_ready rem]) b"
    using wb by (auto simp: good_extent_def) (simp add: b_def write_body_def Let_def)
  moreover have "write_page crc32c mem owner n i rem cur prev first ctx =
      (let first1 = (if prev = None then pid else first) in
       if i + 1 < n then write_page crc32c mem owner n (i + 1) (rem - used_ready rem) (cur + used_ready rem) (Some pid) first1 ctx3
       else (None, first1, ctx3))"
    by (subst write_page.simps) (simp add: al Let_def ctx2_def [symmetric] b_def [symmetric] ctx3_def [symmetric])
  ultimately show thesis
    using assms(3) by (intro that [of ctx3 b])
      (auto simp: Let_def linked_def ctx3_def ctx2_def ctx1_def write_seal_def write_link_def split: option.splits)
qed

lemma write_page_chain:
  assumes "0 < rem" "n = i + page_count rem" "vx_alloc ctx = map Inr ids @ rest" "length ids = page_count rem"
    and "extents_fit sb (vx_generation ctx) ids" "\<forall>q. prev = Some q \<longrightarrow> q \<notin> set ids"
  shows "\<exists>ctx'. write_page crc32c mem owner n i rem cur prev first ctx = (None, if prev = None then hd ids else first, ctx')
    \<and> (\<forall>p. p \<notin> set ids \<and> prev \<noteq> Some p \<longrightarrow> vx_pages ctx' p = vx_pages ctx p)
    \<and> linked crc32c prev (hd ids) (vx_pages ctx) (vx_pages ctx')
    \<and> vc_page crc32c sb (vx_pages ctx') owner n i (hd ids) rem
    \<and> chain_bytes (vx_pages ctx') n i (hd ids) rem = map mem [cur..<cur + rem]"
  using assms
proof (induction rem arbitrary: i ctx ids cur prev first rule: less_induct)
  case (less rem)
  define u where "u = used_ready rem"
  have u: "u \<le> rem" "0 < u" using used_ready_bound [of rem] less(2) by (simp_all add: u_def)
  have more: "i + 1 < n \<longleftrightarrow> rem - u \<noteq> 0" "rem - u \<noteq> 0 \<Longrightarrow> page_count rem = Suc (page_count (rem - u))"
    "0 < page_count rem" "rem - u = 0 \<Longrightarrow> page_count rem = Suc 0"
    using page_count_step [OF less(2)] less(3) by (auto simp: u_def)
  obtain pid ids' where ids: "ids = pid # ids'" using less(5) more(3) by (cases ids) auto
  have fit: "distinct ids'" "0 \<notin> set ids'" "list_all (sb_payload sb) ids'" "sb_payload sb pid" "pid \<notin> set ids'"
    "vx_generation ctx + 1 < 2 ^ 64" "vx_generation ctx + 1 \<le> sb_generation sb" "prev \<noteq> Some pid"
    using less(6,7) by (auto simp: extents_fit_def ids)
  have al: "vx_alloc ctx = Inr pid # map Inr ids' @ rest" using less(4) ids by simp
  obtain ctx3 b where unf: "write_page crc32c mem owner n i rem cur prev first ctx =
      (let first1 = (if prev = None then pid else first) in
       if i + 1 < n then write_page crc32c mem owner n (i + 1) (rem - u) (cur + u) (Some pid) first1 ctx3
       else (None, first1, ctx3))"
    and pg: "vx_pages ctx3 pid = \<lparr>vp_body = b, vp_crc = crc32c b\<rparr>"
    and ge: "good_extent crc32c sb owner pid rem (map mem [cur..<cur + u]) b"
    and c3: "vx_generation ctx3 = vx_generation ctx" "vx_alloc ctx3 = map Inr ids' @ rest"
      "\<forall>p. p \<noteq> pid \<and> prev \<noteq> Some p \<longrightarrow> vx_pages ctx3 p = vx_pages ctx p"
      "linked crc32c prev pid (vx_pages ctx) (vx_pages ctx3)"
    by (rule write_page_first [OF al fit(4,8,6,7), of crc32c mem owner n i rem cur first, folded u_def])
  note ge' = ge [unfolded good_extent_def]
  show ?case
  proof (cases "rem - u = 0")
    case True
    have b0: "b\<lparr>vb_next := 0\<rparr> = b" using ge' by simp
    have "vc_page crc32c sb (vx_pages ctx3) owner n i pid rem"
      using ge' spec [OF conjunct2 [OF conjunct2 [OF ge']], of 0] more(1) True fit less(3) more(4)
      by (subst vc_page.simps) (simp add: Let_def pg b0 u_def)
    moreover have "chain_bytes (vx_pages ctx3) n i pid rem = map mem [cur..<cur + rem]"
      using more(1) True ge' u by (subst chain_bytes.simps) (simp add: Let_def pg u_def)
    ultimately show ?thesis using True unf c3 more(1) by (auto simp: ids Let_def)
  next
    case False
    then have len: "length ids' = page_count (rem - u)" "n = i + 1 + page_count (rem - u)"
      using more(2) less(3,5) ids by auto
    then obtain nx ids2 where nx: "ids' = nx # ids2" using page_count_step(3) [of "rem - u"] False by (cases ids') auto
    have fit3: "extents_fit sb (vx_generation ctx3) ids'" using fit by (simp add: extents_fit_def c3(1))
    define first1 where "first1 = (if prev = None then pid else first)"
    obtain ctx' where w: "write_page crc32c mem owner n (i + 1) (rem - u) (cur + u) (Some pid) first1 ctx3 = (None, first1, ctx')"
      and r: "\<forall>p. p \<notin> set ids' \<and> pid \<noteq> p \<longrightarrow> vx_pages ctx' p = vx_pages ctx3 p"
        "linked crc32c (Some pid) nx (vx_pages ctx3) (vx_pages ctx')"
        "vc_page crc32c sb (vx_pages ctx') owner n (i + 1) nx (rem - u)"
        "chain_bytes (vx_pages ctx') n (i + 1) nx (rem - u) = map mem [cur + u..<cur + u + (rem - u)]"
      using less(1) [of "rem - u" "i + 1" ctx3 ids' "Some pid" "cur + u" first1, OF _ _ len(2) c3(2) len(1) fit3] False u fit(5)
      by (auto simp: nx)
    have pid': "vx_pages ctx' pid = \<lparr>vp_body = b\<lparr>vb_next := nx\<rparr>, vp_crc = crc32c (b\<lparr>vb_next := nx\<rparr>)\<rparr>"
      using r(2) by (simp add: linked_def pg Let_def)
    have "nx \<noteq> 0" using fit nx by auto
    then have vc: "vc_page crc32c sb (vx_pages ctx') owner n i pid rem"
      using spec [OF conjunct2 [OF conjunct2 [OF ge']], of nx] more(1) False fit len r(3)
      by (subst vc_page.simps) (simp add: Let_def pid' u_def)
    have "map mem [cur..<cur + u] @ map mem [cur + u..<cur + u + (rem - u)] = map mem [cur..<cur + rem]"
      using u upt_add_eq_append [of cur "cur + u" "rem - u"] by (simp flip: map_append)
    then have cb: "chain_bytes (vx_pages ctx') n i pid rem = map mem [cur..<cur + rem]"
      using more(1) False ge' r(4) by (subst chain_bytes.simps) (simp add: Let_def pid' u_def)
    have "linked crc32c prev pid (vx_pages ctx) (vx_pages ctx')"
      using c3(4) r(1) less(7) ids by (auto simp: linked_def Let_def)
    moreover have "\<forall>p. p \<notin> set ids \<and> prev \<noteq> Some p \<longrightarrow> vx_pages ctx' p = vx_pages ctx p"
      using r(1) c3(3) ids by auto
    ultimately show ?thesis
      using False unf w vc cb more(1) by (auto simp: ids Let_def first1_def)
  qed
qed

section \<open>Round trip and atomicity\<close>

text \<open>A value is read back as it was written, whatever the checksum function, checked deeply or not.\<close>

lemma chain_roundtrip:
  assumes "bytes \<noteq> 0" "owner \<noteq> 0" "len < 2 ^ 64" "page_count len \<le> vx_headroom ctx"
    and "vx_alloc ctx = map Inr ids @ rest" "length ids = page_count len" "extents_fit sb (vx_generation ctx) ids"
    and "out \<noteq> 0" "len \<le> cap"
  shows "\<exists>cell ctx'. db_var_write_chain crc32c mem ctx bytes len owner = (None, Some cell, ctx')
    \<and> vc_length cell = len \<and> (\<forall>p. p \<notin> set ids \<longrightarrow> vx_pages ctx' p = vx_pages ctx p)
    \<and> db_var_read_chain crc32c sb (vx_pages ctx') cell owner out cap mem2
      = Some (None, put_bytes out (map mem [bytes..<bytes + len]) mem2)"
proof (cases "len = 0")
  case True
  then show ?thesis
    by (simp add: db_var_write_chain_def db_var_read_chain_def db_var_validate_chain_def)
next
  case False
  obtain ctx' where w: "write_page crc32c mem owner (page_count len) 0 len bytes None 0 ctx = (None, hd ids, ctx')"
    and fr: "\<forall>p. p \<notin> set ids \<longrightarrow> vx_pages ctx' p = vx_pages ctx p"
    and vc: "vc_page crc32c sb (vx_pages ctx') owner (page_count len) 0 (hd ids) len"
    and cb: "chain_bytes (vx_pages ctx') (page_count len) 0 (hd ids) len = map mem [bytes..<bytes + len]"
    using write_page_chain [where prev = None and i = 0, OF _ _ assms(5-7), of "page_count len" crc32c mem owner bytes 0] False
    by auto
  have "ids \<noteq> []" using assms(6) page_count_step(3) [of len] False by auto
  then have root: "hd ids \<noteq> 0" using assms(7) by (cases ids) (auto simp: extents_fit_def)
  have "read_page (vx_pages ctx') (hd ids) len out mem2 = Some (put_bytes out (map mem [bytes..<bytes + len]) mem2)"
    using read_page_valid [OF vc assms(3), of out mem2] False cb by simp
  then show ?thesis
    using assms w fr vc root False
    by (simp add: db_var_write_chain_def db_var_read_chain_def db_var_validate_chain_def)
qed

definition sample_ctx :: var_ctx where
  "sample_ctx = \<lparr>vx_pages = (\<lambda>_. blank_page), vx_generation = 4, vx_headroom = 9, vx_alloc = [Inr 7, Inr 5, Inr 6]\<rparr>"

definition sample_sb :: var_sb where
  "sample_sb = \<lparr>sb_generation = 5, sb_payload = (\<lambda>p. p \<in> {5, 6, 7}), sb_verify = False\<rparr>"

text \<open>What a cell stands for, said without the loops: the pages the root leads to by their links, as many
  as the length needs, and the first bytes of their payloads put together.\<close>

primrec chain_pages :: "(nat \<Rightarrow> var_page) \<Rightarrow> nat \<Rightarrow> nat \<Rightarrow> nat list" where
  "chain_pages pages root 0 = []"
| "chain_pages pages root (Suc n) = root # chain_pages pages (vb_next (vp_body (pages root))) n"

definition page_payload :: "var_page \<Rightarrow> byte list" where
  "page_payload pg = map (vb_data (vp_body pg)) [0..<VAR_PAYLOAD_SIZE]"

definition cell_bytes :: "(nat \<Rightarrow> var_page) \<Rightarrow> var_cell \<Rightarrow> byte list" where
  "cell_bytes pages cell = take (vc_length cell)
     (concat (map (\<lambda>p. page_payload (pages p)) (chain_pages pages (vc_root cell) (page_count (vc_length cell)))))"

lemma chain_bytes_pages:
  assumes "0 < rem" "n = i + page_count rem"
  shows "chain_bytes pages n i root rem
    = take rem (concat (map (\<lambda>p. page_payload (pages p)) (chain_pages pages root (page_count rem))))"
  using assms
proof (induction rem arbitrary: i root rule: less_induct)
  case (less rem)
  show ?case
  proof (cases "rem \<le> VAR_PAYLOAD_SIZE")
    case True
    then have "page_count rem = Suc 0" using page_count_eq [OF less(2)] by simp
    then show ?thesis
      using True less(3) by (subst chain_bytes.simps) (simp add: used_ready_def page_payload_def take_map min_absorb1)
  next
    case False
    obtain r where r: "rem - VAR_PAYLOAD_SIZE = r" by simp
    then have rem: "page_count rem = Suc (page_count r)" "0 < r" "r < rem" "used_ready rem = VAR_PAYLOAD_SIZE"
      "rem = VAR_PAYLOAD_SIZE + r"
      using page_count_eq [OF less(2)] False less(2) by (auto simp: used_ready_def VAR_PAYLOAD_SIZE_def)
    have "i + 1 < n" using page_count_step(3) [OF rem(2)] less(3) rem(1) by simp
    then have "chain_bytes pages n i root rem
        = page_payload (pages root) @ chain_bytes pages n (i + 1) (vb_next (vp_body (pages root))) r"
      by (subst chain_bytes.simps) (simp only: Let_def if_True rem(4) r page_payload_def)
    moreover have "length (page_payload (pages root)) = VAR_PAYLOAD_SIZE" by (simp add: page_payload_def)
    moreover have "chain_bytes pages n (i + 1) (vb_next (vp_body (pages root))) r
        = take r (concat (map (\<lambda>p. page_payload (pages p)) (chain_pages pages (vb_next (vp_body (pages root))) (page_count r))))"
      using less(1) [OF rem(3,2)] less(3) rem(1) by simp
    ultimately show ?thesis using False by (simp add: rem(1) r)
  qed
qed

text \<open>C21 Reading a cell always returns, whatever is on the pages, and it is all or nothing: for any cell,
  any pages and any buffer, the call refuses a chain that is not valid, then a buffer that is too
  small or missing, and a refusal leaves memory as it was; otherwise it answers OK and has written
  exactly the bytes the cell stands for, as many as it says, and nothing beyond them.\<close>

theorem read_chain_all_or_nothing:
  assumes "vc_length cell < 2 ^ 64"
  shows "db_var_read_chain crc32c sb pages cell owner out cap mem = Some
      (if \<not> db_var_validate_chain crc32c sb pages (vc_root cell) (vc_length cell) owner then (Some E_PAX, mem)
       else if cap < vc_length cell \<or> 0 < vc_length cell \<and> out = 0 then (Some E_VALUE, mem)
       else (None, put_bytes out (cell_bytes pages cell) mem))
    \<and> (db_var_validate_chain crc32c sb pages (vc_root cell) (vc_length cell) owner
        \<longrightarrow> length (cell_bytes pages cell) = vc_length cell)"
proof (cases "db_var_validate_chain crc32c sb pages (vc_root cell) (vc_length cell) owner \<and> vc_length cell \<noteq> 0")
  case True
  then have "vc_page crc32c sb pages owner (page_count (vc_length cell)) 0 (vc_root cell) (vc_length cell)"
    by (simp add: db_var_validate_chain_def split: if_splits)
  from read_page_valid [OF this assms, of out mem] chain_bytes_pages [of "vc_length cell" _ 0 pages "vc_root cell"] True
  show ?thesis by (auto simp: db_var_read_chain_def cell_bytes_def)
next
  case False
  then show ?thesis by (auto simp: db_var_read_chain_def cell_bytes_def)
qed

text \<open>A page with three letters, one of the reserved words that are not tested in use.\<close>

definition abc_page :: var_page where
  "abc_page = \<lparr>vp_body = \<lparr>vb_magic = 0x56515341, vb_version = 1, vb_page_id = 5, vb_generation = 2, vb_owner = 3,
     vb_next = 0, vb_used = 3, vb_reserved = 2 ^ 32, vb_data = (\<lambda>k. if k < 3 then word_of_nat (97 + k) else 0)\<rparr>,
     vp_crc = 0\<rparr>"

theorem read_chain_all_or_nothing_witness:
  "db_var_read_chain (\<lambda>b. 0) sample_sb (\<lambda>_. abc_page) \<lparr>vc_root = 5, vc_length = 3\<rparr> 3 64 100 (\<lambda>_. 1)
     = Some (None, put_bytes 64 [97, 98, 99] (\<lambda>_. 1))
   \<and> db_var_read_chain (\<lambda>b. 0) sample_sb (\<lambda>_. abc_page) \<lparr>vc_root = 5, vc_length = 4\<rparr> 3 64 100 (\<lambda>_. 1) = Some (Some E_PAX, (\<lambda>_. 1))"
proof -
  have "db_var_validate_chain (\<lambda>b. 0) sample_sb (\<lambda>_. abc_page) 5 3 3"
    "\<not> db_var_validate_chain (\<lambda>b. 0) sample_sb (\<lambda>_. abc_page) 5 4 3"
    by (simp_all add: db_var_validate_chain_def vc_page.simps extent_header_ok_def extent_deep_ok_def abc_page_def
        sample_sb_def reserved_test_zero page_count_def used_ready_def VAR_PAYLOAD_SIZE_def VAR_MAGIC_VALUE_def
        VAR_VERSION_VALUE_def)
  moreover have "cell_bytes (\<lambda>_. abc_page) \<lparr>vc_root = 5, vc_length = 3\<rparr> = [97, 98, 99]"
  proof -
    have "page_count 3 = Suc 0" by (simp add: page_count_def VAR_PAYLOAD_SIZE_def)
    moreover have "take 3 (page_payload abc_page) = map (vb_data (vp_body abc_page)) [0..<3]"
      by (simp add: page_payload_def take_map VAR_PAYLOAD_SIZE_def del: upt_rec_numeral)
    moreover have "map (vb_data (vp_body abc_page)) [0..<3] = [97, 98, 99]" by code_simp
    ultimately show ?thesis by (simp add: cell_bytes_def)
  qed
  ultimately show ?thesis
    using read_chain_all_or_nothing [of "\<lparr>vc_root = 5, vc_length = 3\<rparr>" "\<lambda>b. 0" sample_sb "\<lambda>_. abc_page" 3 64 100 "\<lambda>_. 1"]
      read_chain_all_or_nothing [of "\<lparr>vc_root = 5, vc_length = 4\<rparr>" "\<lambda>b. 0" sample_sb "\<lambda>_. abc_page" 3 64 100 "\<lambda>_. 1"]
    by simp
qed

end
