(* ===== verification/Row_Access.thy ===== *)
theory Row_Access
  imports Var_Extents
begin

text \<open>
  Rows of a \<open>SELECT\<close>: the pull cursor \<^verbatim>\<open>src/sql/select_cursor.asm\<close> for a scan of a table, the stepping by
  rows and by batches and the accessors of \<^verbatim>\<open>src/api/cyboudb_c.asm\<close>.  What storage answers is the list
  of leaves of the table, each with the verdict of its zone map and its groups of up to 64 rows: the
  view of the columns, the lanes the predicate accepts and the lanes that are dead.  A seek through an
  index is not part of the model.  A pointer to column memory is the function from offsets to
  bytes, \<open>None\<close> for null; an accessor that would read through a null pointer has the value \<open>None\<close>.
\<close>

unbundle bit_operations_syntax

section \<open>Views\<close>

record cyboudb_colview =
  cv_values_ptr :: "(nat \<Rightarrow> byte) option"
  cv_null_mask :: u64
  cv_type :: nat
  cv_width :: nat

record cyboudb_batch_view =
  bv_row_count :: nat
  bv_columns :: "nat \<Rightarrow> cyboudb_colview"

section \<open>Plans and what storage answers\<close>

record row_plan =
  rp_count_star :: bool
  rp_limit :: "(nat \<times> nat) option"
  rp_order :: bool
  rp_vector_topk :: bool
  rp_join :: bool
  rp_projection :: "nat list"
  rp_types :: "nat list"
  rp_join_projection :: "nat list"
  rp_columns :: "nat \<Rightarrow> nat \<times> string"
  rp_right_columns :: "nat \<Rightarrow> nat \<times> string"
  rp_table_id :: nat

datatype zone = ZONE_TEST_UNKNOWN | ZONE_TEST_NONE | ZONE_TEST_ALL

record scan_batch =
  sc_view :: cyboudb_batch_view
  sc_rows :: nat
  sc_predicate :: u64
  sc_dead :: u64

record scan_leaf =
  lf_zone :: zone
  lf_rows :: nat
  lf_batches :: "(db_error + scan_batch) list"

record row_db =
  rd_usable :: bool
  rd_generation :: nat
  rd_tombstones :: bool
  rd_params_bound :: bool
  rd_scan :: "db_error + scan_leaf list"
  rd_errcode :: int
  rd_errmsg :: string

section \<open>The cursor\<close>

record select_state =
  se_generation :: nat
  se_leaves :: "scan_leaf list"
  se_decision :: zone
  se_batches :: "(db_error + scan_batch) list"
  se_count :: u64
  se_done :: bool
  se_error :: "db_error option"
  se_limit_skip :: u64
  se_limit_left :: u64

definition sql_select_open :: "row_db \<Rightarrow> row_plan \<Rightarrow> db_error + select_state" where
  "sql_select_open db pl = (case rd_scan db of Inl e \<Rightarrow> Inl e | Inr leaves \<Rightarrow>
     let (skip, left) = (case rp_limit pl of None \<Rightarrow> (0, - 1)
           | Some (l, off) \<Rightarrow> if rp_order pl \<or> rp_vector_topk pl then (0, - 1) else (word_of_nat off, word_of_nat l))
     in Inr \<lparr>se_generation = rd_generation db, se_leaves = leaves, se_decision = ZONE_TEST_UNKNOWN, se_batches = [],
       se_count = 0, se_done = False, se_error = None, se_limit_skip = skip, se_limit_left = left\<rparr>)"

text \<open>The instructions \<open>bsf\<close> and \<open>popcnt\<close>.\<close>

definition lanes :: "u64 \<Rightarrow> nat list" where
  "lanes m = filter (bit m) [0..<64]"

definition bsf :: "u64 \<Rightarrow> nat" where
  "bsf m = length (takeWhile (\<lambda>i. \<not> bit m i) [0..<64])"

definition popcount64 :: "u64 \<Rightarrow> u64" where
  "popcount64 m = word_of_nat (length (lanes m))"

definition batch_selected :: "bool \<Rightarrow> zone \<Rightarrow> scan_batch \<Rightarrow> u64" where
  "batch_selected tombstones z b =
    (let m = (if z = ZONE_TEST_ALL then (if 64 \<le> sc_rows b then - 1 else push_bit (sc_rows b) 1 - 1) else sc_predicate b)
     in if tombstones then m AND NOT (sc_dead b) else m)"

function limit_lane :: "u64 \<Rightarrow> u64 \<Rightarrow> u64 \<Rightarrow> u64 \<Rightarrow> u64 \<times> u64 \<times> u64" where
  "limit_lane r8 r9 skip left =
    (if r8 = 0 then (r9, skip, left)
     else if skip \<noteq> 0 then limit_lane (r8 AND (r8 - 1)) r9 (skip - 1) left
     else if left = 0 then (r9, skip, left)
     else limit_lane (r8 AND (r8 - 1)) (set_bit (bsf r8) r9) skip (left - 1))"
  by pat_completeness auto
termination
proof (relation "measure (\<lambda>(r8, r9, skip, left). unat r8)")
  have "unat (r AND (r - 1)) < unat r" if "r \<noteq> 0" for r :: u64
  proof -
    have "unat (r AND (r - 1)) \<le> unat (r - 1)" by (metis and.commute word_and_le2 word_le_nat_alt)
    also have "unat (r - 1) < unat r" using that by (metis measure_unat)
    finally show ?thesis .
  qed
  then show "r8 \<noteq> 0 \<Longrightarrow> skip \<noteq> 0 \<Longrightarrow> ((r8 AND (r8 - 1), r9, skip - 1, left), r8, r9, skip, left) \<in> measure (\<lambda>(r8, r9, skip, left). unat r8)"
    and "r8 \<noteq> 0 \<Longrightarrow> \<not> skip \<noteq> 0 \<Longrightarrow> left \<noteq> 0 \<Longrightarrow>
      ((r8 AND (r8 - 1), set_bit (bsf r8) r9, skip, left - 1), r8, r9, skip, left) \<in> measure (\<lambda>(r8, r9, skip, left). unat r8)"
    for r8 r9 skip left :: u64 by simp_all
qed simp

declare limit_lane.simps [simp del]

definition count_view :: "u64 \<Rightarrow> cyboudb_batch_view \<Rightarrow> cyboudb_batch_view" where
  "count_view n v = v\<lparr>bv_row_count := 1, bv_columns := (bv_columns v)(0 :=
     \<lparr>cv_values_ptr = Some (\<lambda>i. if i < 8 then u64to8 n ! i else 0), cv_null_mask = 0, cv_type = type_code INT64, cv_width = 8\<rparr>)\<rparr>"

definition scan_finished ::
    "row_plan \<Rightarrow> select_state \<Rightarrow> cyboudb_batch_view \<Rightarrow> db_error option \<times> u64 \<times> select_state \<times> cyboudb_batch_view" where
  "scan_finished pl s v =
    (let s1 = s\<lparr>se_done := True\<rparr> in
     if \<not> rp_count_star pl then (None, 0, s1, v)
     else if rp_limit pl = None then (None, 1, s1, count_view (se_count s1) v)
     else if se_limit_left s1 = 0 then (None, 0, s1, v)
     else if se_limit_skip s1 \<noteq> 0 then (None, 0, s1\<lparr>se_limit_skip := se_limit_skip s1 - 1\<rparr>, v)
     else (None, 1, s1\<lparr>se_limit_left := se_limit_left s1 - 1\<rparr>, count_view (se_count s1) v))"

definition scan_size :: "select_state \<Rightarrow> nat" where
  "scan_size s = length (se_batches s) + sum_list (map (\<lambda>l. Suc (length (lf_batches l))) (se_leaves s))"

function select_scan ::
    "bool \<Rightarrow> row_plan \<Rightarrow> select_state \<Rightarrow> cyboudb_batch_view \<Rightarrow> db_error option \<times> u64 \<times> select_state \<times> cyboudb_batch_view" where
  "select_scan tomb pl s v =
    (case se_batches s of
       Inl e # r \<Rightarrow> (Some e, 0, s\<lparr>se_batches := r, se_error := Some e\<rparr>, v)
     | Inr b # r \<Rightarrow>
         let m = batch_selected tomb (se_decision s) b; s1 = s\<lparr>se_batches := r\<rparr> in
         if m = 0 then select_scan tomb pl s1 (sc_view b)
         else if rp_count_star pl then select_scan tomb pl (s1\<lparr>se_count := se_count s1 + popcount64 m\<rparr>) (sc_view b)
         else if rp_limit pl = None then (None, m, s1, sc_view b)
         else (case limit_lane m 0 (se_limit_skip s1) (se_limit_left s1) of (m2, skip, left) \<Rightarrow>
           let s2 = s1\<lparr>se_limit_skip := skip, se_limit_left := left, se_done := se_done s1 \<or> left = 0\<rparr> in
           if m2 \<noteq> 0 then (None, m2, s2, sc_view b)
           else if se_done s2 then (None, 0, s2, sc_view b)
           else select_scan tomb pl s2 (sc_view b))
     | [] \<Rightarrow>
         (case se_leaves s of
            [] \<Rightarrow> scan_finished pl s v
          | l # r \<Rightarrow>
              if lf_zone l = ZONE_TEST_NONE then select_scan tomb pl (s\<lparr>se_leaves := r\<rparr>) v
              else if lf_zone l = ZONE_TEST_ALL \<and> rp_count_star pl \<and> \<not> tomb
              then select_scan tomb pl (s\<lparr>se_leaves := r, se_count := se_count s + word_of_nat (lf_rows l)\<rparr>) v
              else select_scan tomb pl (s\<lparr>se_leaves := r, se_decision := lf_zone l, se_batches := lf_batches l\<rparr>) v))"
  by pat_completeness auto
termination by (relation "measure (\<lambda>(tomb, pl, s, v). scan_size s)") (auto simp: scan_size_def)

declare select_scan.simps [simp del]

definition sql_select_next ::
    "row_db \<Rightarrow> row_plan \<Rightarrow> select_state \<Rightarrow> cyboudb_batch_view \<Rightarrow> db_error option \<times> u64 \<times> select_state \<times> cyboudb_batch_view" where
  "sql_select_next db pl s v =
    (if se_error s \<noteq> None then (se_error s, 0, s, v)
     else if se_done s then (None, 0, s, v)
     else if \<not> rd_usable db \<or> rd_generation db \<noteq> se_generation s then (Some E_STATE, 0, s\<lparr>se_error := Some E_STATE\<rparr>, v)
     else select_scan (rd_tombstones db) pl s v)"

section \<open>The statement\<close>

datatype row_state = STMT_STATE_INIT | STMT_STATE_SCANNING | STMT_STATE_DONE | STMT_STATE_ERROR | STMT_STATE_COUNT_DELIVER

record row_stmt =
  rs_magic :: bool
  rs_addr :: nat
  rs_plan :: "row_plan option"
  rs_state :: row_state
  rs_cur_row :: nat
  rs_act_mask :: u64
  rs_cnt_accum :: u64
  rs_errcode :: int
  rs_select :: select_state
  rs_view :: cyboudb_batch_view
  rs_result_count :: nat
  rs_result_indices :: "nat \<Rightarrow> nat"
  rs_result_types :: "nat \<Rightarrow> nat"
  rs_result_names :: "nat \<Rightarrow> string"

text \<open>What prepare keeps of the result columns.  In a join the projection says which of the two tables
  a column is from by its top bit.\<close>

definition result_column :: "row_plan \<Rightarrow> nat \<Rightarrow> nat \<times> string" where
  "result_column pl i =
    (if \<not> rp_join pl then rp_columns pl (rp_projection pl ! i)
     else let j = rp_join_projection pl ! i in
       if j < 2 ^ 31 then rp_columns pl j else rp_right_columns pl (j mod 2 ^ 31))"

definition result_metadata :: "row_plan \<Rightarrow> row_stmt \<Rightarrow> row_stmt" where
  "result_metadata pl st =
    (if rp_count_star pl
     then st\<lparr>rs_result_count := 1, rs_result_types := (rs_result_types st)(0 := type_code INT64),
       rs_result_names := (rs_result_names st)(0 := ''count(*)'')\<rparr>
     else st\<lparr>rs_result_count := length (rp_projection pl),
       rs_result_indices := (\<lambda>i. if i < length (rp_projection pl) then rp_projection pl ! i else rs_result_indices st i),
       rs_result_types := (\<lambda>i. if i < length (rp_projection pl) then rp_types pl ! i else rs_result_types st i),
       rs_result_names := (\<lambda>i. if i < length (rp_projection pl) then snd (result_column pl i) else rs_result_names st i)\<rparr>)"

section \<open>Stepping\<close>

definition select_error :: "row_db \<Rightarrow> row_stmt \<Rightarrow> db_error \<Rightarrow> status \<times> u64 \<times> row_db \<times> row_stmt" where
  "select_error db st e = (ERROR, 0, db\<lparr>rd_errcode := error_code e\<rparr>,
     st\<lparr>rs_errcode := error_code e, rs_state := STMT_STATE_ERROR\<rparr>)"

definition select_pull :: "row_db \<Rightarrow> row_plan \<Rightarrow> row_stmt \<Rightarrow> status \<times> u64 \<times> row_db \<times> row_stmt" where
  "select_pull db pl st =
    (case sql_select_next db pl (rs_select st) (rs_view st) of (e, m, s, v) \<Rightarrow>
       let st1 = st\<lparr>rs_select := s, rs_view := v\<rparr> in
       case e of Some err \<Rightarrow> select_error db st1 err
       | None \<Rightarrow>
           if m = 0 then (DONE, 0, db, st1\<lparr>rs_state := STMT_STATE_DONE\<rparr>)
           else if rp_count_star pl
           then (ROW, m, db, st1\<lparr>rs_cnt_accum := se_count s, rs_state := STMT_STATE_COUNT_DELIVER\<rparr>)
           else (ROW, m, db, st1))"

definition api_select_next :: "row_db \<Rightarrow> row_plan \<Rightarrow> row_stmt \<Rightarrow> status \<times> u64 \<times> row_db \<times> row_stmt" where
  "api_select_next db pl st =
    (case rs_state st of
       STMT_STATE_ERROR \<Rightarrow> (ERROR, 0, db, st)
     | STMT_STATE_DONE \<Rightarrow> (DONE, 0, db, st)
     | STMT_STATE_INIT \<Rightarrow>
         if \<not> rd_params_bound db then select_error db st E_STATE
         else if rp_join pl \<or> rp_order pl then select_error db st E_STATE
         else (case sql_select_open db pl of
             Inl e \<Rightarrow> select_error db st e
           | Inr s \<Rightarrow> select_pull db pl (st\<lparr>rs_select := s, rs_state := STMT_STATE_SCANNING\<rparr>))
     | _ \<Rightarrow> select_pull db pl st)"

definition take_lane :: "u64 \<Rightarrow> row_stmt \<Rightarrow> row_stmt" where
  "take_lane m st = st\<lparr>rs_act_mask := unset_bit (bsf m) m, rs_cur_row := bsf m\<rparr>"

definition fetch_batch :: "row_db \<Rightarrow> row_plan \<Rightarrow> row_stmt \<Rightarrow> status \<times> row_db \<times> row_stmt" where
  "fetch_batch db pl st = (case api_select_next db pl st of (rc, m, db1, st1) \<Rightarrow>
     if rc \<noteq> ROW then (rc, db1, st1) else (ROW, db1, take_lane m st1))"

definition step_select :: "row_db \<Rightarrow> row_plan \<Rightarrow> row_stmt \<Rightarrow> status \<times> row_db \<times> row_stmt" where
  "step_select db pl st =
    (if rs_state st \<noteq> STMT_STATE_SCANNING then fetch_batch db pl st
     else if rd_generation db \<noteq> se_generation (rs_select st)
     then (ERROR, db\<lparr>rd_errcode := error_code E_STATE\<rparr>,
           st\<lparr>rs_errcode := error_code E_STATE, rs_state := STMT_STATE_ERROR\<rparr>)
     else if rs_act_mask st \<noteq> 0 then (ROW, db, take_lane (rs_act_mask st) st)
     else fetch_batch db pl st)"

text \<open>\<open>cyboudb_step\<close> on a \<open>SELECT\<close>.\<close>

definition step_row :: "row_db \<Rightarrow> row_stmt option \<Rightarrow> status \<times> row_db \<times> row_stmt option" where
  "step_row db stmt = (case stmt of None \<Rightarrow> (MISUSE, db, None) | Some st \<Rightarrow>
     if \<not> rs_magic st then (MISUSE, db, stmt)
     else let db1 = db\<lparr>rd_errcode := 0, rd_errmsg := []\<rparr> in
       case rs_plan st of None \<Rightarrow> (MISUSE, db1, stmt)
       | Some pl \<Rightarrow> (case step_select db1 pl st of (rc, db2, st1) \<Rightarrow> (rc, db2, Some st1)))"

abbreviation view_addr :: "row_stmt \<Rightarrow> nat" where
  "view_addr st \<equiv> rs_addr st + 272"

text \<open>The two results through pointers are the last two components.\<close>

definition cyboudb_step_batch ::
    "row_db \<Rightarrow> row_stmt option \<Rightarrow> bool \<Rightarrow> bool \<Rightarrow> status \<times> row_db \<times> row_stmt option \<times> nat \<times> u64" where
  "cyboudb_step_batch db stmt out_batch out_mask = (case stmt of None \<Rightarrow> (MISUSE, db, None, 0, 0) | Some st \<Rightarrow>
     if \<not> out_batch \<or> \<not> out_mask \<or> \<not> rs_magic st then (MISUSE, db, stmt, 0, 0)
     else case rs_plan st of None \<Rightarrow> (MISUSE, db, stmt, 0, 0)
     | Some pl \<Rightarrow> (case api_select_next db pl st of (rc, m, db1, st1) \<Rightarrow>
         if rc \<noteq> ROW then (rc, db1, Some st1, 0, 0)
         else (ROW, db1, Some (st1\<lparr>rs_act_mask := m\<rparr>), view_addr st1, m)))"

definition row_reset :: "row_stmt \<Rightarrow> row_stmt" where
  "row_reset st = st\<lparr>rs_state := STMT_STATE_INIT, rs_cur_row := 0, rs_act_mask := 0, rs_cnt_accum := 0\<rparr>"

section \<open>Result columns\<close>

definition cyboudb_column_count :: "row_stmt option \<Rightarrow> nat" where
  "cyboudb_column_count stmt = (case stmt of None \<Rightarrow> 0 | Some st \<Rightarrow> rs_result_count st)"

abbreviation result_index :: "row_stmt \<Rightarrow> int \<Rightarrow> bool" where
  "result_index st col \<equiv> 0 \<le> col \<and> col < int (rs_result_count st)"

definition cyboudb_column_type :: "row_stmt option \<Rightarrow> int \<Rightarrow> nat" where
  "cyboudb_column_type stmt col = (case stmt of None \<Rightarrow> 0 | Some st \<Rightarrow>
     if \<not> result_index st col then 0 else rs_result_types st (nat col))"

definition cyboudb_column_name :: "row_stmt option \<Rightarrow> int \<Rightarrow> string" where
  "cyboudb_column_name stmt col = (case stmt of None \<Rightarrow> [] | Some st \<Rightarrow>
     if \<not> result_index st col then [] else rs_result_names st (nat col))"

text \<open>The dimension is kept in the upper half of the flags of the column.\<close>

definition cyboudb_column_vector_dimensions :: "row_stmt option \<Rightarrow> int \<Rightarrow> int" where
  "cyboudb_column_vector_dimensions stmt col = (case stmt of None \<Rightarrow> status_code MISUSE | Some st \<Rightarrow>
     case rs_plan st of None \<Rightarrow> status_code MISUSE | Some pl \<Rightarrow>
       if \<not> result_index st col \<or> rs_result_types st (nat col) \<noteq> type_code VECTOR then status_code MISUSE
       else let fl = (if \<not> rp_join pl then fst (rp_columns pl (rs_result_indices st (nat col)))
                else fst (result_column pl (nat col)))
         in int (fl div 2 ^ 16))"

section \<open>The current row\<close>

definition load_le :: "(nat \<Rightarrow> byte) \<Rightarrow> nat \<Rightarrow> nat \<Rightarrow> nat" where
  "load_le f off n = le_nat (map f [off..<off + n])"

text \<open>The column of the plan, as the accessors of the current row find it.\<close>

definition plan_column :: "row_plan \<Rightarrow> row_stmt \<Rightarrow> int \<Rightarrow> cyboudb_colview option" where
  "plan_column pl st col =
    (if col < 0 \<or> int (length (rp_projection pl)) \<le> col then None
     else Some (bv_columns (rs_view st) (rp_projection pl ! nat col)))"

definition cyboudb_column_is_null :: "row_stmt option \<Rightarrow> int \<Rightarrow> int" where
  "cyboudb_column_is_null stmt col = (case stmt of None \<Rightarrow> 1 | Some st \<Rightarrow>
     case rs_plan st of None \<Rightarrow> 1 | Some pl \<Rightarrow>
       if rp_count_star pl then 0
       else case plan_column pl st col of None \<Rightarrow> 1
       | Some cv \<Rightarrow> if bit (cv_null_mask cv) (rs_cur_row st) then 1 else 0)"

definition cyboudb_column_int64 :: "row_stmt option \<Rightarrow> int \<Rightarrow> u64 option" where
  "cyboudb_column_int64 stmt col = (case stmt of None \<Rightarrow> Some 0 | Some st \<Rightarrow>
     case rs_plan st of None \<Rightarrow> Some 0 | Some pl \<Rightarrow>
       if rp_count_star pl then Some (if col = 0 then rs_cnt_accum st else 0)
       else case plan_column pl st col of None \<Rightarrow> Some 0
       | Some cv \<Rightarrow>
           if bit (cv_null_mask cv) (rs_cur_row st) then Some 0
           else map_option (\<lambda>f.
             if cv_width cv = 8 then word_of_nat (load_le f (rs_cur_row st * 8) 8)
             else if cv_width cv = 4 then scast (word_of_nat (load_le f (rs_cur_row st * 4) 4) :: u32)
             else ucast (f (rs_cur_row st))) (cv_values_ptr cv))"

definition cyboudb_column_int32 :: "row_stmt option \<Rightarrow> int \<Rightarrow> u32 option" where
  "cyboudb_column_int32 stmt col = map_option ucast (cyboudb_column_int64 stmt col)"

definition cyboudb_column_float :: "row_stmt option \<Rightarrow> int \<Rightarrow> u32 option" where
  "cyboudb_column_float stmt col = (case stmt of None \<Rightarrow> Some 0 | Some st \<Rightarrow>
     case rs_plan st of None \<Rightarrow> Some 0 | Some pl \<Rightarrow>
       if rp_count_star pl then Some 0
       else case plan_column pl st col of None \<Rightarrow> Some 0
       | Some cv \<Rightarrow>
           if bit (cv_null_mask cv) (rs_cur_row st) then Some 0
           else map_option (\<lambda>f. word_of_nat (load_le f (rs_cur_row st * 4) 4)) (cv_values_ptr cv))"

definition cyboudb_column_bool :: "row_stmt option \<Rightarrow> int \<Rightarrow> int option" where
  "cyboudb_column_bool stmt col = (case stmt of None \<Rightarrow> Some 0 | Some st \<Rightarrow>
     case rs_plan st of None \<Rightarrow> Some 0 | Some pl \<Rightarrow>
       if rp_count_star pl then Some 0
       else case plan_column pl st col of None \<Rightarrow> Some 0
       | Some cv \<Rightarrow>
           if bit (cv_null_mask cv) (rs_cur_row st) then Some 0
           else map_option (\<lambda>f. uint (f (rs_cur_row st))) (cv_values_ptr cv))"

section \<open>Bytes and vectors\<close>

definition VAR_CELL_SIZE :: nat where "VAR_CELL_SIZE = 16"

definition cell_at :: "(nat \<Rightarrow> byte) \<Rightarrow> nat \<Rightarrow> var_cell" where
  "cell_at f row = \<lparr>vc_root = load_le f (row * 16) 8, vc_length = load_le f (row * 16 + 8) 8\<rparr>"

text \<open>What the four calls share once they have found the cell: \<open>n\<close> is the length they report, in bytes
  or in floats, \<open>limit\<close> the capacity in the same unit and \<open>cap\<close> the one handed to the reader.  The answer
  is a status; \<open>None\<close> is a read that does not return, or one without a plan.\<close>

definition read_cell ::
    "(var_body \<Rightarrow> nat) \<Rightarrow> var_sb \<Rightarrow> (nat \<Rightarrow> var_page) \<Rightarrow> row_plan option \<Rightarrow> var_cell \<Rightarrow> nat \<Rightarrow> nat \<Rightarrow> nat \<Rightarrow> nat
     \<Rightarrow> (nat \<Rightarrow> byte) \<Rightarrow> (status \<times> (nat \<Rightarrow> byte)) option" where
  "read_cell crc32c sb pages plan cell n limit out cap mem =
    (if limit < n then Some (MISUSE, mem)
     else if n = 0 then Some (OK, mem)
     else if out = 0 then Some (MISUSE, mem)
     else case plan of None \<Rightarrow> None | Some pl \<Rightarrow>
       map_option (\<lambda>(e, m). (case e of None \<Rightarrow> OK | Some err \<Rightarrow> if err = E_VALUE then MISUSE else ERROR, m))
       (db_var_read_chain crc32c sb pages cell (rp_table_id pl) out cap mem))"

definition cyboudb_column_bytes ::
    "(var_body \<Rightarrow> nat) \<Rightarrow> var_sb \<Rightarrow> (nat \<Rightarrow> var_page) \<Rightarrow> row_stmt option \<Rightarrow> int \<Rightarrow> nat \<Rightarrow> nat \<Rightarrow> bool
     \<Rightarrow> (nat \<Rightarrow> byte) \<Rightarrow> (status \<times> nat option \<times> (nat \<Rightarrow> byte)) option" where
  "cyboudb_column_bytes crc32c sb pages stmt col out cap out_length mem =
    (case stmt of None \<Rightarrow> Some (MISUSE, None, mem) | Some st \<Rightarrow>
     if \<not> out_length then Some (MISUSE, None, mem)
     else case rs_plan st of None \<Rightarrow> Some (MISUSE, Some 0, mem) | Some pl \<Rightarrow>
       if rs_state st \<noteq> STMT_STATE_SCANNING then Some (MISUSE, Some 0, mem)
       else case plan_column pl st col of None \<Rightarrow> Some (MISUSE, Some 0, mem) | Some cv \<Rightarrow>
         if cv_type cv \<noteq> type_code TEXT \<and> cv_type cv \<noteq> type_code BLOB \<or> cv_width cv \<noteq> VAR_CELL_SIZE
         then Some (MISUSE, Some 0, mem)
         else if bit (cv_null_mask cv) (rs_cur_row st) then Some (OK, Some 0, mem)
         else case cv_values_ptr cv of None \<Rightarrow> None | Some f \<Rightarrow>
           let cell = cell_at f (rs_cur_row st) in
           map_option (\<lambda>(rc, m). (rc, Some (vc_length cell), m))
             (read_cell crc32c sb pages (Some pl) cell (vc_length cell) cap out cap mem))"

definition cyboudb_column_vector_f32 ::
    "(var_body \<Rightarrow> nat) \<Rightarrow> var_sb \<Rightarrow> (nat \<Rightarrow> var_page) \<Rightarrow> row_stmt option \<Rightarrow> int \<Rightarrow> nat \<Rightarrow> nat \<Rightarrow> bool
     \<Rightarrow> (nat \<Rightarrow> byte) \<Rightarrow> (status \<times> nat option \<times> (nat \<Rightarrow> byte)) option" where
  "cyboudb_column_vector_f32 crc32c sb pages stmt col out cap out_dim mem =
    (case stmt of None \<Rightarrow> Some (MISUSE, None, mem) | Some st \<Rightarrow>
     if \<not> out_dim then Some (MISUSE, None, mem)
     else case rs_plan st of None \<Rightarrow> Some (MISUSE, Some 0, mem) | Some pl \<Rightarrow>
       if rs_state st \<noteq> STMT_STATE_SCANNING then Some (MISUSE, Some 0, mem)
       else case plan_column pl st col of None \<Rightarrow> Some (MISUSE, Some 0, mem) | Some cv \<Rightarrow>
         if cv_type cv \<noteq> type_code VECTOR \<or> cv_width cv \<noteq> VAR_CELL_SIZE then Some (MISUSE, Some 0, mem)
         else if bit (cv_null_mask cv) (rs_cur_row st) then Some (OK, Some 0, mem)
         else case cv_values_ptr cv of None \<Rightarrow> None | Some f \<Rightarrow>
           let cell = cell_at f (rs_cur_row st); dim = vc_length cell div 4 in
           map_option (\<lambda>(rc, m). (rc, Some dim, m))
             (read_cell crc32c sb pages (Some pl) cell dim cap out (dim * 4) mem))"

section \<open>The current batch\<close>

abbreviation batch_colview :: "row_stmt \<Rightarrow> int \<Rightarrow> cyboudb_colview" where
  "batch_colview st col \<equiv> bv_columns (rs_view st) (rs_result_indices st (nat col))"

definition cyboudb_batch_column :: "row_stmt option \<Rightarrow> nat \<Rightarrow> int \<Rightarrow> cyboudb_colview option" where
  "cyboudb_batch_column stmt batch col = (case stmt of None \<Rightarrow> None | Some st \<Rightarrow>
     if batch \<noteq> view_addr st \<or> \<not> result_index st col
       \<or> rs_state st \<noteq> STMT_STATE_SCANNING \<and> rs_state st \<noteq> STMT_STATE_COUNT_DELIVER then None
     else let cv = batch_colview st col in
       if cv_type cv \<in> {type_code TEXT, type_code BLOB, type_code VECTOR} then None else Some cv)"

definition batch_cell_view :: "row_stmt option \<Rightarrow> nat \<Rightarrow> int \<Rightarrow> nat \<Rightarrow> (row_stmt \<times> cyboudb_colview) option" where
  "batch_cell_view stmt batch col row = (case stmt of None \<Rightarrow> None | Some st \<Rightarrow>
     if batch \<noteq> view_addr st \<or> rs_state st \<noteq> STMT_STATE_SCANNING \<or> \<not> result_index st col
       \<or> bv_row_count (rs_view st) \<le> row \<or> \<not> bit (rs_act_mask st) row then None
     else Some (st, batch_colview st col))"

text \<open>The length, or the negative code.\<close>

definition batch_answer :: "nat \<Rightarrow> status \<times> (nat \<Rightarrow> byte) \<Rightarrow> int \<times> (nat \<Rightarrow> byte)" where
  "batch_answer n r = (if fst r = OK then sint (word_of_nat n :: u64) else status_code (fst r), snd r)"

definition cyboudb_batch_bytes ::
    "(var_body \<Rightarrow> nat) \<Rightarrow> var_sb \<Rightarrow> (nat \<Rightarrow> var_page) \<Rightarrow> row_stmt option \<Rightarrow> nat \<Rightarrow> int \<Rightarrow> nat \<Rightarrow> nat \<Rightarrow> nat
     \<Rightarrow> (nat \<Rightarrow> byte) \<Rightarrow> (int \<times> (nat \<Rightarrow> byte)) option" where
  "cyboudb_batch_bytes crc32c sb pages stmt batch col row out cap mem =
    (case batch_cell_view stmt batch col row of None \<Rightarrow> Some (status_code MISUSE, mem) | Some (st, cv) \<Rightarrow>
       if cv_type cv \<noteq> type_code TEXT \<and> cv_type cv \<noteq> type_code BLOB \<or> cv_width cv \<noteq> VAR_CELL_SIZE
       then Some (status_code MISUSE, mem)
       else if bit (cv_null_mask cv) row then Some (0, mem)
       else case cv_values_ptr cv of None \<Rightarrow> None | Some f \<Rightarrow>
         let cell = cell_at f row in
         map_option (batch_answer (vc_length cell))
           (read_cell crc32c sb pages (rs_plan st) cell (vc_length cell) cap out cap mem))"

definition cyboudb_batch_vector_f32 ::
    "(var_body \<Rightarrow> nat) \<Rightarrow> var_sb \<Rightarrow> (nat \<Rightarrow> var_page) \<Rightarrow> row_stmt option \<Rightarrow> nat \<Rightarrow> int \<Rightarrow> nat \<Rightarrow> nat \<Rightarrow> nat
     \<Rightarrow> (nat \<Rightarrow> byte) \<Rightarrow> (int \<times> (nat \<Rightarrow> byte)) option" where
  "cyboudb_batch_vector_f32 crc32c sb pages stmt batch col row out cap mem =
    (case batch_cell_view stmt batch col row of None \<Rightarrow> Some (status_code MISUSE, mem) | Some (st, cv) \<Rightarrow>
       if cv_type cv \<noteq> type_code VECTOR \<or> cv_width cv \<noteq> VAR_CELL_SIZE then Some (status_code MISUSE, mem)
       else if bit (cv_null_mask cv) row then Some (0, mem)
       else case cv_values_ptr cv of None \<Rightarrow> None | Some f \<Rightarrow>
         let cell = cell_at f row; dim = vc_length cell div 4 in
         map_option (batch_answer dim)
           (read_cell crc32c sb pages (rs_plan st) cell dim cap out (dim * 4) mem))"

end
