(* ===== verification/Row_Laws.thy ===== *)
theory Row_Laws
  imports Row_Access
begin

text \<open>
  What stepping delivers: the rows the predicate accepts and that are not dead, in the order of the
  table, cut by \<open>OFFSET\<close> and \<open>LIMIT\<close>, each exactly once, by rows and by batches.
\<close>

unbundle bit_operations_syntax

section \<open>Lanes\<close>

lemma bsf_props:
  assumes "m \<noteq> 0"
  shows "bsf m < 64" "bit m (bsf m)" "j < bsf m \<Longrightarrow> \<not> bit m j"
proof -
  have "\<exists>k. bit m k" using assms by (auto simp: bit_eq_iff)
  then obtain k where k: "bit m k" by blast
  have k64: "k < 64" using bit_imp_le_length [OF k] by simp
  show lt: "bsf m < 64"
  proof (rule ccontr)
    assume "\<not> bsf m < 64"
    then have "length (takeWhile (\<lambda>i. \<not> bit m i) [0..<64]) = length [0..<64 :: nat]"
      using length_takeWhile_le [of "\<lambda>i. \<not> bit m i" "[0..<64]"] by (simp add: bsf_def)
    then have "takeWhile (\<lambda>i. \<not> bit m i) [0..<64] = [0..<64]" by (metis takeWhile_eq_take take_all order_refl)
    then show False using k k64 set_takeWhileD [of k "\<lambda>i. \<not> bit m i" "[0..<64]"] by simp
  qed
  then show "bit m (bsf m)"
    using nth_length_takeWhile [of "\<lambda>i. \<not> bit m i" "[0..<64]"] by (simp add: bsf_def)
  show "j < bsf m \<Longrightarrow> \<not> bit m j"
  proof -
    assume j: "j < bsf m"
    then have "takeWhile (\<lambda>i. \<not> bit m i) [0..<64] ! j = [0..<64] ! j"
      by (simp add: bsf_def takeWhile_nth)
    then have "j \<in> set (takeWhile (\<lambda>i. \<not> bit m i) [0..<64])"
      using j lt nth_mem [of j "takeWhile (\<lambda>i. \<not> bit m i) [0..<64]"] by (simp add: bsf_def)
    then show ?thesis using set_takeWhileD by fastforce
  qed
qed

lemma bit_clear_lowest:
  assumes "m \<noteq> 0"
  shows "bit (m AND (m - 1)) j \<longleftrightarrow> bit m j \<and> j \<noteq> bsf m"
proof -
  define i where "i = bsf m"
  define u where "u = unset_bit i m"
  have i: "i < 64" "bit m i" "\<And>j. j < i \<Longrightarrow> \<not> bit m j" using bsf_props [OF assms] by (simp_all add: i_def)
  have bu: "bit u j \<longleftrightarrow> bit m j \<and> j \<noteq> i" for j by (auto simp: u_def bit_unset_bit_iff)
  have "u AND push_bit i 1 = 0" by (rule bit_eqI) (auto simp: bit_simps bu)
  then have "u + push_bit i 1 = u OR push_bit i 1" by (rule disjunctive_add_eq_or)
  also have "\<dots> = m" by (rule bit_eqI) (use i in \<open>auto simp: bit_simps bu\<close>)
  finally have m: "m = u + push_bit i 1" by simp
  have "u AND mask i = 0" by (rule bit_eqI) (use i in \<open>auto simp: bit_simps bu\<close>)
  then have "u + mask i = u OR mask i" by (rule disjunctive_add_eq_or)
  moreover have "m - 1 = u + mask i" by (subst m) (simp add: mask_eq_exp_minus_1 push_bit_eq_mult)
  ultimately have "m - 1 = u OR mask i" by simp
  then show ?thesis using i by (auto simp: bit_simps bu i_def [symmetric])
qed

lemma lanes_Cons:
  assumes "m \<noteq> 0" "\<And>j. bit m' j \<longleftrightarrow> bit m j \<and> j \<noteq> bsf m"
  shows "lanes m = bsf m # lanes m'"
proof -
  have "[0..<64] = [0..<bsf m] @ bsf m # [Suc (bsf m)..<64]"
    using bsf_props(1) [OF assms(1)] by (metis le_add_same_cancel1 less_imp_add_positive upt_add_eq_append upt_conv_Cons zero_le less_or_eq_imp_le add_0)
  moreover have "filter (bit m) [0..<bsf m] = []" "filter (bit m') [0..<bsf m] = []" "bit m (bsf m)" "\<not> bit m' (bsf m)"
    using bsf_props [OF assms(1)] assms(2) by (auto simp: filter_empty_conv)
  moreover have "filter (bit m) [Suc (bsf m)..<64] = filter (bit m') [Suc (bsf m)..<64]"
    using assms(2) by (intro filter_cong) auto
  ultimately show ?thesis by (simp add: lanes_def)
qed

lemma lanes_clear: "m \<noteq> 0 \<Longrightarrow> lanes m = bsf m # lanes (m AND (m - 1))"
  by (rule lanes_Cons) (assumption | rule bit_clear_lowest)+

lemma lanes_unset: "m \<noteq> 0 \<Longrightarrow> lanes m = bsf m # lanes (unset_bit (bsf m) m)"
  by (rule lanes_Cons) (auto simp: bit_unset_bit_iff)

lemma lanes_0 [simp]: "lanes 0 = []"
  by (simp add: lanes_def)

lemma lanes_Nil_iff: "lanes m = [] \<longleftrightarrow> m = 0"
  using lanes_clear [of m] by (cases "m = 0") auto

lemma set_lanes: "set (lanes m) = {j. bit m j}"
  using bit_imp_le_length [of m] by (auto simp: lanes_def)

lemma lanes_of_set:
  assumes "sorted xs" "distinct xs" "set xs = {j. bit m j}"
  shows "lanes m = xs"
  using assms by (intro sorted_distinct_set_unique) (auto simp: lanes_def sorted_wrt_filter set_lanes [symmetric, unfolded lanes_def])

lemma sorted_lanes: "sorted (lanes m)" "distinct (lanes m)"
  by (simp_all add: lanes_def sorted_wrt_filter)

section \<open>Limits\<close>

definition cut :: "u64 \<Rightarrow> u64 \<Rightarrow> 'a list \<Rightarrow> 'a list" where
  "cut skip left l = take (unat left) (drop (unat skip) l)"

lemma unat_minus_one_word: "(w :: u64) \<noteq> 0 \<Longrightarrow> unat (w - 1) = unat w - 1"
  by (simp add: unat_minus_one)

lemma limit_lane_law:
  assumes "\<And>i j. bit r9 i \<Longrightarrow> bit r8 j \<Longrightarrow> i < j" "limit_lane r8 r9 skip left = (r, skip', left')"
  shows "lanes r = lanes r9 @ cut skip left (lanes r8) \<and> unat skip' = unat skip - length (lanes r8)
    \<and> unat left' = unat left - length (cut skip left (lanes r8))"
  using assms
proof (induction r8 r9 skip left rule: limit_lane.induct)
  case (1 r8 r9 skip left)
  show ?case
  proof (cases "r8 = 0")
    case True
    then show ?thesis using 1(4) by (subst (asm) limit_lane.simps) (auto simp: cut_def)
  next
    case False
    note l8 = lanes_clear [OF False]
    have b8: "bit (r8 AND (r8 - 1)) j \<longleftrightarrow> bit r8 j \<and> j \<noteq> bsf r8" for j by (rule bit_clear_lowest [OF False])
    consider (skip) "skip \<noteq> 0" | (full) "skip = 0" "left = 0" | (take) "skip = 0" "left \<noteq> 0" by blast
    then show ?thesis
    proof cases
      case skip
      then have "limit_lane (r8 AND (r8 - 1)) r9 (skip - 1) left = (r, skip', left')"
        using 1(4) False by (subst (asm) limit_lane.simps) simp
      from 1(1) [OF False skip _ this] have
        "lanes r = lanes r9 @ cut (skip - 1) left (lanes (r8 AND (r8 - 1)))
         \<and> unat skip' = unat (skip - 1) - length (lanes (r8 AND (r8 - 1)))
         \<and> unat left' = unat left - length (cut (skip - 1) left (lanes (r8 AND (r8 - 1))))"
        using 1(3) b8 by blast
      moreover have "unat skip \<noteq> 0" using skip by (simp add: unat_eq_0)
      ultimately show ?thesis
        by (simp add: l8 cut_def unat_minus_one_word [OF skip] drop_Cons')
    next
      case full
      then show ?thesis using 1(4) False by (subst (asm) limit_lane.simps) (auto simp: cut_def)
    next
      case take
      then have r: "limit_lane (r8 AND (r8 - 1)) (set_bit (bsf r8) r9) skip (left - 1) = (r, skip', left')"
        using 1(4) False by (subst (asm) limit_lane.simps) simp
      have b9: "bit (set_bit (bsf r8) r9) j \<longleftrightarrow> bit r9 j \<or> j = bsf r8" for j
        using bsf_props(1) [OF False] by (auto simp: bit_set_bit_iff)
      have l9: "lanes (set_bit (bsf r8) r9) = lanes r9 @ [bsf r8]"
        using 1(3) bsf_props(2) [OF False] sorted_lanes [of r9]
        by (intro lanes_of_set) (auto simp: sorted_append set_lanes b9 dest: less_imp_le)
      have ord: "bit (set_bit (bsf r8) r9) i \<Longrightarrow> bit (r8 AND (r8 - 1)) j \<Longrightarrow> i < j" for i j
        using 1(3) bsf_props(3) [OF False] b8 b9 by (metis linorder_neqE_nat)
      from 1(2) [OF False _ take(2) ord r] take have
        ih: "lanes r = lanes (set_bit (bsf r8) r9) @ cut skip (left - 1) (lanes (r8 AND (r8 - 1)))
         \<and> unat skip' = unat skip - length (lanes (r8 AND (r8 - 1)))
         \<and> unat left' = unat (left - 1) - length (cut skip (left - 1) (lanes (r8 AND (r8 - 1))))" by blast
      moreover have "unat left \<noteq> 0" using take by (simp add: unat_eq_0)
      ultimately show ?thesis
        by (simp add: l8 l9 cut_def unat_minus_one_word [OF take(2)] take(1) take_Cons')
    qed
  qed
qed

section \<open>What a scan has to deliver\<close>

type_synonym row = "cyboudb_batch_view \<times> nat"

definition live_mask :: "bool \<Rightarrow> scan_batch \<Rightarrow> u64" where
  "live_mask tomb b = (if tomb then sc_predicate b AND NOT (sc_dead b) else sc_predicate b)"

definition batch_rows :: "bool \<Rightarrow> db_error + scan_batch \<Rightarrow> row list" where
  "batch_rows tomb x = (case x of Inl e \<Rightarrow> [] | Inr b \<Rightarrow> map (Pair (sc_view b)) (lanes (live_mask tomb b)))"

definition leaf_rows :: "bool \<Rightarrow> scan_leaf \<Rightarrow> row list" where
  "leaf_rows tomb l = concat (map (batch_rows tomb) (lf_batches l))"

text \<open>The rows of a table, read without zone maps, limits or cursors.\<close>

definition table_rows :: "bool \<Rightarrow> scan_leaf list \<Rightarrow> row list" where
  "table_rows tomb ls = concat (map (leaf_rows tomb) ls)"

definition rows_mask :: "nat \<Rightarrow> u64" where
  "rows_mask n = (if 64 \<le> n then - 1 else push_bit n 1 - 1)"

text \<open>Storage that answers without an error, and a zone map that is right: a leaf it rejects has no row
  the predicate accepts, one it accepts whole has no other.\<close>

definition zone_sound :: "zone \<Rightarrow> db_error + scan_batch \<Rightarrow> bool" where
  "zone_sound z x = (case x of Inl e \<Rightarrow> False | Inr b \<Rightarrow> sc_rows b \<le> 64
     \<and> (z = ZONE_TEST_NONE \<longrightarrow> sc_predicate b = 0) \<and> (z = ZONE_TEST_ALL \<longrightarrow> sc_predicate b = rows_mask (sc_rows b)))"

definition leaf_sound :: "scan_leaf \<Rightarrow> bool" where
  "leaf_sound l \<longleftrightarrow> list_all (zone_sound (lf_zone l)) (lf_batches l)
     \<and> lf_rows l = sum_list (map (\<lambda>x. case x of Inl e \<Rightarrow> 0 | Inr b \<Rightarrow> sc_rows b) (lf_batches l))"

definition cursor_rows :: "bool \<Rightarrow> select_state \<Rightarrow> row list" where
  "cursor_rows tomb s = concat (map (batch_rows tomb) (se_batches s)) @ table_rows tomb (se_leaves s)"

definition cursor_sound :: "select_state \<Rightarrow> bool" where
  "cursor_sound s \<longleftrightarrow> list_all leaf_sound (se_leaves s) \<and> list_all (zone_sound (se_decision s)) (se_batches s) \<and> se_error s = None"

definition pending :: "bool \<Rightarrow> row_plan \<Rightarrow> select_state \<Rightarrow> row list" where
  "pending tomb pl s = (if se_done s then []
     else if rp_limit pl = None then cursor_rows tomb s else cut (se_limit_skip s) (se_limit_left s) (cursor_rows tomb s))"

lemma batch_selected_sound: "zone_sound z (Inr b) \<Longrightarrow> batch_selected tomb z b = live_mask tomb b"
  by (auto simp: zone_sound_def batch_selected_def live_mask_def rows_mask_def)

lemma leaf_rows_none: "leaf_sound l \<Longrightarrow> lf_zone l = ZONE_TEST_NONE \<Longrightarrow> leaf_rows tomb l = []"
  by (auto simp: leaf_sound_def leaf_rows_def list_all_iff zone_sound_def batch_rows_def live_mask_def split: sum.splits)

lemma bit_rows_mask: "bit (rows_mask n) j \<longleftrightarrow> j < n \<and> j < 64"
proof (cases "64 \<le> n")
  case False
  then have "rows_mask n = mask n" by (simp add: rows_mask_def mask_eq_exp_minus_1 push_bit_eq_mult)
  then show ?thesis by (auto simp: bit_mask_iff)
qed (auto simp: rows_mask_def bit_minus_1_iff)

lemma length_lanes_rows_mask: "n \<le> 64 \<Longrightarrow> length (lanes (rows_mask n)) = n"
proof -
  assume "n \<le> 64"
  then have "lanes (rows_mask n) = [0..<n]" by (intro lanes_of_set) (auto simp: bit_rows_mask)
  then show ?thesis by simp
qed

lemma leaf_rows_all: "leaf_sound l \<Longrightarrow> lf_zone l = ZONE_TEST_ALL \<Longrightarrow> length (leaf_rows False l) = lf_rows l"
proof -
  assume l: "leaf_sound l" "lf_zone l = ZONE_TEST_ALL"
  have "length (batch_rows False x) = (case x of Inl e \<Rightarrow> 0 | Inr b \<Rightarrow> sc_rows b)" if "x \<in> set (lf_batches l)" for x
    using l that by (auto simp: leaf_sound_def list_all_iff zone_sound_def batch_rows_def live_mask_def length_lanes_rows_mask split: sum.splits)
  then have e: "(\<Sum>x\<leftarrow>lf_batches l. length (batch_rows False x)) = (\<Sum>x\<leftarrow>lf_batches l. case x of Inl e \<Rightarrow> 0 | Inr b \<Rightarrow> sc_rows b)"
    by (intro arg_cong [of _ _ sum_list] map_cong [OF refl])
  show ?thesis using l e by (simp add: leaf_sound_def leaf_rows_def length_concat comp_def)
qed

lemma cut_append: "cut skip left (a @ b) = cut skip left a
    @ take (unat left - length (cut skip left a)) (drop (unat skip - length a) b)"
  by (simp add: cut_def min_def)

lemma pending_cut:
  assumes "limit_lane (live_mask tomb b) 0 (se_limit_skip s) (se_limit_left s) = (m2, skip, left)"
    and "se_batches s = Inr b # r" "\<not> se_done s" "rp_limit pl = Some lo"
  shows "pending tomb pl s = map (Pair (sc_view b)) (lanes m2)
    @ pending tomb pl (s\<lparr>se_batches := r, se_limit_skip := skip, se_limit_left := left, se_done := left = 0\<rparr>)"
proof -
  let ?lm = "live_mask tomb b" and ?s1 = "s\<lparr>se_batches := r\<rparr>"
  have lw: "lanes m2 = cut (se_limit_skip s) (se_limit_left s) (lanes ?lm)"
    "unat skip = unat (se_limit_skip s) - length (lanes ?lm)"
    "unat left = unat (se_limit_left s) - length (cut (se_limit_skip s) (se_limit_left s) (lanes ?lm))"
    using limit_lane_law [OF _ assms(1)] by auto
  have rows: "cursor_rows tomb s = map (Pair (sc_view b)) (lanes ?lm) @ cursor_rows tomb ?s1"
    by (simp add: cursor_rows_def assms(2) batch_rows_def)
  have "cut (se_limit_skip s) (se_limit_left s) (map (Pair (sc_view b)) (lanes ?lm)) = map (Pair (sc_view b)) (lanes m2)"
    by (simp add: lw(1) cut_def take_map drop_map)
  then have "cut (se_limit_skip s) (se_limit_left s) (cursor_rows tomb s) =
      map (Pair (sc_view b)) (lanes m2) @ cut skip left (cursor_rows tomb ?s1)"
    by (simp add: rows cut_append lw) (simp add: cut_def lw)
  moreover have "cursor_rows tomb (s\<lparr>se_batches := r, se_limit_skip := skip, se_limit_left := left, se_done := d\<rparr>)
      = cursor_rows tomb ?s1" for d by (simp add: cursor_rows_def)
  moreover have "cut skip 0 l = []" for l :: "row list" by (simp add: cut_def)
  ultimately show ?thesis using assms(3,4) by (simp add: pending_def)
qed

section \<open>One pull\<close>

lemma select_scan_rows:
  assumes "cursor_sound s" "\<not> se_done s" "\<not> rp_count_star pl" "select_scan tomb pl s v = (e, m, s', v')"
  shows "e = None \<and> cursor_sound s' \<and> se_generation s' = se_generation s
    \<and> pending tomb pl s = map (Pair v') (lanes m) @ pending tomb pl s' \<and> (m = 0 \<longrightarrow> se_done s')"
  using assms
proof (induction s arbitrary: v rule: measure_induct_rule [of scan_size])
  case (less s)
  show ?case
  proof (cases "se_batches s")
    case Nil
    show ?thesis
    proof (cases "se_leaves s")
      case Nil2: Nil
      then show ?thesis using less(2-5) Nil
        by (subst (asm) select_scan.simps) (auto simp: scan_finished_def cursor_sound_def pending_def cursor_rows_def
            table_rows_def cut_def)
    next
      case (Cons l r)
      have l: "leaf_sound l" "list_all leaf_sound r" using less(2) Cons by (simp_all add: cursor_sound_def)
      define s1 where "s1 = (if lf_zone l = ZONE_TEST_NONE then s\<lparr>se_leaves := r\<rparr>
        else s\<lparr>se_leaves := r, se_decision := lf_zone l, se_batches := lf_batches l\<rparr>)"
      have eq: "select_scan tomb pl s1 v = (e, m, s', v')"
        using less(4,5) Nil Cons by (subst (asm) select_scan.simps) (auto simp: s1_def)
      have "scan_size s1 < scan_size s" "cursor_sound s1" "\<not> se_done s1" "se_generation s1 = se_generation s"
        using less(2,3) l Nil Cons by (auto simp: s1_def scan_size_def cursor_sound_def leaf_sound_def)
      moreover have "pending tomb pl s1 = pending tomb pl s"
        using leaf_rows_none [OF l(1)] Nil Cons
        by (auto simp: s1_def pending_def cursor_rows_def table_rows_def leaf_rows_def [symmetric])
      ultimately show ?thesis using less(1) [of s1 v] less(4) eq by simp
    qed
  next
    case (Cons x r)
    then obtain b where b: "x = Inr b" "zone_sound (se_decision s) (Inr b)" "list_all (zone_sound (se_decision s)) r"
      using less(2) by (cases x) (auto simp: cursor_sound_def zone_sound_def)
    define lm where "lm = live_mask tomb b"
    have sel: "batch_selected tomb (se_decision s) b = lm" using b by (simp add: batch_selected_sound lm_def)
    define s1 where "s1 = s\<lparr>se_batches := r\<rparr>"
    have s1: "cursor_sound s1" "\<not> se_done s1" "se_generation s1 = se_generation s" "scan_size s1 < scan_size s"
      using less(2,3) b Cons by (auto simp: s1_def cursor_sound_def scan_size_def)
    have rows: "cursor_rows tomb s = map (Pair (sc_view b)) (lanes lm) @ cursor_rows tomb s1"
      by (simp add: cursor_rows_def Cons b s1_def batch_rows_def lm_def)
    show ?thesis
    proof (cases "lm = 0 \<or> rp_limit pl = None")
      case True
      then show ?thesis
      proof (cases "lm = 0")
        case True
        then have "select_scan tomb pl s1 (sc_view b) = (e, m, s', v')"
          using less(5) Cons b sel by (subst (asm) select_scan.simps) (simp add: s1_def)
        moreover have "pending tomb pl s1 = pending tomb pl s" using True rows by (simp add: pending_def s1_def)
        ultimately show ?thesis using less(1) [OF s1(4,1,2) less(4), of "sc_view b"] s1 by simp
      next
        case False
        then have "(e, m, s', v') = (None, lm, s1, sc_view b)"
          using \<open>lm = 0 \<or> rp_limit pl = None\<close> less(4,5) Cons b sel by (subst (asm) select_scan.simps) (simp add: s1_def)
        then show ?thesis using s1 rows False \<open>lm = 0 \<or> rp_limit pl = None\<close> less(3) by (simp add: pending_def)
      qed
    next
      case False
      then obtain lo where lo: "rp_limit pl = Some lo" by auto
      obtain m2 skip left where lim: "limit_lane lm 0 (se_limit_skip s) (se_limit_left s) = (m2, skip, left)"
        using prod_cases3 by blast
      define s2 where "s2 = s1\<lparr>se_limit_skip := skip, se_limit_left := left, se_done := left = 0\<rparr>"
      have s2: "cursor_sound s2" "se_generation s2 = se_generation s" "scan_size s2 = scan_size s1" "se_done s2 \<longleftrightarrow> left = 0"
        using s1 by (simp_all add: s2_def cursor_sound_def scan_size_def)
      have pend: "pending tomb pl s = map (Pair (sc_view b)) (lanes m2) @ pending tomb pl s2"
        using pending_cut [OF lim [unfolded lm_def], of r pl lo] Cons b(1) less(3) lo by (simp add: s2_def s1_def)
      have eq: "(e, m, s', v') = (if m2 \<noteq> 0 then (None, m2, s2, sc_view b) else if left = 0 then (None, 0, s2, sc_view b)
          else select_scan tomb pl s2 (sc_view b))"
        using False less(3-5) Cons b sel lim lo
        by (subst (asm) select_scan.simps) (cases "m2 = 0"; cases "left = 0"; simp add: s1_def s2_def Let_def)
      show ?thesis
      proof (cases "m2 \<noteq> 0 \<or> left = 0")
        case True
        then show ?thesis using eq s2 pend by (auto split: if_splits)
      next
        case nodone: False
        then have "select_scan tomb pl s2 (sc_view b) = (e, m, s', v')" using eq by simp
        then show ?thesis using less(1) [of s2 "sc_view b"] s1 s2 nodone less(4) pend by simp
      qed
    qed
  qed
qed

section \<open>Stepping a statement\<close>

definition scanning :: "row_db \<Rightarrow> row_plan \<Rightarrow> row_stmt \<Rightarrow> bool" where
  "scanning db pl st \<longleftrightarrow> rs_magic st \<and> rs_plan st = Some pl \<and> rs_state st = STMT_STATE_SCANNING \<and> \<not> rp_count_star pl
     \<and> cursor_sound (rs_select st) \<and> se_generation (rs_select st) = rd_generation db \<and> rd_usable db"

definition rows_left :: "row_db \<Rightarrow> row_plan \<Rightarrow> row_stmt \<Rightarrow> row list" where
  "rows_left db pl st = map (Pair (rs_view st)) (lanes (rs_act_mask st)) @ pending (rd_tombstones db) pl (rs_select st)"

lemma select_pull_law:
  assumes "scanning db pl st" "select_pull db pl st = (rc, m, db', st')"
  shows "db' = db \<and> rs_act_mask st' = rs_act_mask st \<and> rs_magic st' \<and> rs_plan st' = Some pl
    \<and> (if pending (rd_tombstones db) pl (rs_select st) = [] then rc = DONE \<and> m = 0 \<and> rs_state st' = STMT_STATE_DONE
       else rc = ROW \<and> m \<noteq> 0 \<and> scanning db pl st'
         \<and> pending (rd_tombstones db) pl (rs_select st)
           = map (Pair (rs_view st')) (lanes m) @ pending (rd_tombstones db) pl (rs_select st'))"
proof -
  obtain e m1 s v where nx: "sql_select_next db pl (rs_select st) (rs_view st) = (e, m1, s, v)" using prod_cases4 by blast
  have law: "e = None \<and> cursor_sound s \<and> se_generation s = se_generation (rs_select st)
      \<and> pending (rd_tombstones db) pl (rs_select st) = map (Pair v) (lanes m1) @ pending (rd_tombstones db) pl s
      \<and> (m1 = 0 \<longrightarrow> se_done s)"
  proof (cases "se_done (rs_select st)")
    case True
    then show ?thesis using assms(1) nx by (auto simp: sql_select_next_def scanning_def cursor_sound_def pending_def)
  next
    case False
    then have "select_scan (rd_tombstones db) pl (rs_select st) (rs_view st) = (e, m1, s, v)"
      using assms(1) nx by (simp add: sql_select_next_def scanning_def cursor_sound_def)
    then show ?thesis using select_scan_rows [of "rs_select st" pl] False assms(1) by (simp add: scanning_def)
  qed
  show ?thesis
  proof (cases "m1 = 0")
    case True
    then have "pending (rd_tombstones db) pl (rs_select st) = []" using law by (simp add: pending_def)
    then show ?thesis using True law assms nx by (auto simp: select_pull_def scanning_def)
  next
    case False
    then have "pending (rd_tombstones db) pl (rs_select st) \<noteq> []" using law by (simp add: lanes_Nil_iff)
    then show ?thesis using False law assms nx by (auto simp: select_pull_def scanning_def)
  qed
qed

lemma take_lane_law:
  assumes "m \<noteq> 0" "scanning db pl st"
  shows "scanning db pl (take_lane m st)" "rs_view (take_lane m st) = rs_view st" "rs_cur_row (take_lane m st) = bsf m"
    "rows_left db pl (take_lane m st)
      = tl (map (Pair (rs_view st)) (lanes m) @ pending (rd_tombstones db) pl (rs_select st))"
  using assms lanes_unset [OF assms(1)] by (simp_all add: take_lane_def scanning_def rows_left_def)

definition delivers :: "row_db \<Rightarrow> row_plan \<Rightarrow> row list \<Rightarrow> status \<times> row_db \<times> row_stmt \<Rightarrow> bool" where
  "delivers db pl rows r \<longleftrightarrow> (case r of (rc, db', st') \<Rightarrow> db' = db \<and> rs_magic st' \<and> rs_plan st' = Some pl \<and>
     (case rows of [] \<Rightarrow> rc = DONE \<and> rs_state st' = STMT_STATE_DONE
      | x # rest \<Rightarrow> rc = ROW \<and> scanning db pl st' \<and> (rs_view st', rs_cur_row st') = x \<and> rows_left db pl st' = rest))"

lemma pull_delivers:
  assumes "scanning db pl st" "select_pull db pl st = (rc, m, db', st')"
  shows "delivers db pl (pending (rd_tombstones db) pl (rs_select st))
    (if rc \<noteq> ROW then (rc, db', st') else (ROW, db', take_lane m st'))"
proof (cases "pending (rd_tombstones db) pl (rs_select st) = []")
  case True
  then show ?thesis using select_pull_law [OF assms] by (simp add: delivers_def)
next
  case False
  then have law: "db' = db" "rc = ROW" "m \<noteq> 0" "scanning db pl st'" "rs_magic st'" "rs_plan st' = Some pl"
    and p: "pending (rd_tombstones db) pl (rs_select st) = map (Pair (rs_view st')) (lanes m) @ pending (rd_tombstones db) pl (rs_select st')"
    using select_pull_law [OF assms] by simp_all
  have "delivers db pl (map (Pair (rs_view st')) (lanes m) @ pending (rd_tombstones db) pl (rs_select st')) (ROW, db, take_lane m st')"
    using law take_lane_law [OF law(3,4)] lanes_unset [OF law(3)]
    by (simp add: delivers_def) (simp add: take_lane_def)
  then show ?thesis using law p by simp
qed

lemma step_select_delivers:
  assumes "scanning db pl st"
  shows "delivers db pl (rows_left db pl st) (step_select db pl st)"
proof (cases "rs_act_mask st = 0")
  case True
  obtain rc m db' st' where r: "select_pull db pl st = (rc, m, db', st')" using prod_cases4 by blast
  have "step_select db pl st = (if rc \<noteq> ROW then (rc, db', st') else (ROW, db', take_lane m st'))"
    using assms True r by (simp add: step_select_def scanning_def fetch_batch_def api_select_next_def)
  then show ?thesis using pull_delivers [OF assms r] True by (simp add: rows_left_def)
next
  case False
  then have "step_select db pl st = (ROW, db, take_lane (rs_act_mask st) st)"
    using assms by (simp add: step_select_def scanning_def)
  moreover have "delivers db pl (rows_left db pl st) (ROW, db, take_lane (rs_act_mask st) st)"
    using take_lane_law [OF False assms] lanes_unset [OF False] assms
    by (simp add: delivers_def rows_left_def [of db pl st]) (simp add: take_lane_def scanning_def)
  ultimately show ?thesis by simp
qed

section \<open>A whole result\<close>

text \<open>A prepared statement before its first step, over storage that answers and zone maps that are right.\<close>

definition select_ready :: "row_db \<Rightarrow> row_plan \<Rightarrow> scan_leaf list \<Rightarrow> row_stmt \<Rightarrow> bool" where
  "select_ready db pl leaves st \<longleftrightarrow> rs_magic st \<and> rs_plan st = Some pl \<and> rs_state st = STMT_STATE_INIT
     \<and> rd_params_bound db \<and> rd_usable db \<and> rd_scan db = Inr leaves \<and> list_all leaf_sound leaves
     \<and> \<not> rp_join pl \<and> \<not> rp_order pl"

definition limit_fits :: "row_plan \<Rightarrow> bool" where
  "limit_fits pl \<longleftrightarrow> (case rp_limit pl of None \<Rightarrow> True | Some (l, off) \<Rightarrow> l < 2 ^ 64 \<and> off < 2 ^ 64)"

definition limited :: "row_plan \<Rightarrow> 'a list \<Rightarrow> 'a list" where
  "limited pl rows = (case rp_limit pl of None \<Rightarrow> rows | Some (l, off) \<Rightarrow> take l (drop off rows))"

lemma select_open_law:
  assumes "select_ready db pl leaves st" "\<not> rp_count_star pl"
  obtains s where "sql_select_open db pl = Inr s" "scanning db pl (st\<lparr>rs_select := s, rs_state := STMT_STATE_SCANNING\<rparr>)"
    "\<not> rp_vector_topk pl \<Longrightarrow> limit_fits pl \<Longrightarrow> pending tomb pl s = limited pl (table_rows tomb leaves)"
    "rp_vector_topk pl \<Longrightarrow> length (table_rows tomb leaves) < 2 ^ 64 \<Longrightarrow> pending tomb pl s = table_rows tomb leaves"
proof -
  obtain s where s: "sql_select_open db pl = Inr s" using assms(1)
    by (cases "sql_select_open db pl") (auto simp: sql_select_open_def select_ready_def Let_def split: prod.splits)
  have f: "se_leaves s = leaves" "se_batches s = []" "\<not> se_done s" "se_error s = None" "se_generation s = rd_generation db"
    using s assms(1) by (auto simp: sql_select_open_def select_ready_def Let_def split: prod.splits)
  have "scanning db pl (st\<lparr>rs_select := s, rs_state := STMT_STATE_SCANNING\<rparr>)"
    using assms f by (simp add: scanning_def select_ready_def cursor_sound_def)
  moreover have "pending tomb pl s = limited pl (table_rows tomb leaves)" if "\<not> rp_vector_topk pl" "limit_fits pl"
  proof (cases "rp_limit pl")
    case (Some lo)
    obtain l off where lo: "lo = (l, off)" by fastforce
    have "se_limit_skip s = word_of_nat off" "se_limit_left s = word_of_nat l"
      using s assms(1) that Some lo by (auto simp: sql_select_open_def select_ready_def)
    moreover have "unat (word_of_nat off :: u64) = off" "unat (word_of_nat l :: u64) = l"
      using that Some lo by (auto simp: limit_fits_def intro!: unat_of_nat_small)
    ultimately show ?thesis using f Some lo by (simp add: pending_def limited_def cut_def cursor_rows_def)
  qed (use f in \<open>simp add: pending_def limited_def cursor_rows_def\<close>)
  moreover have "pending tomb pl s = table_rows tomb leaves"
    if "rp_vector_topk pl" "length (table_rows tomb leaves) < 2 ^ 64"
  proof (cases "rp_limit pl")
    case (Some lo)
    then have "se_limit_skip s = 0" "se_limit_left s = - 1"
      using s assms(1) that(1) by (auto simp: sql_select_open_def select_ready_def)
    moreover have "unat (- 1 :: u64) = 2 ^ 64 - 1" by (simp add: unsigned_minus_1_eq_mask mask_eq_exp_minus_1)
    ultimately show ?thesis using f Some that(2) by (simp add: pending_def cut_def cursor_rows_def)
  qed (use f in \<open>simp add: pending_def cursor_rows_def\<close>)
  ultimately show thesis by (rule that [OF s])
qed

lemma first_step_delivers:
  assumes "select_ready db pl leaves st" "sql_select_open db pl = Inr s"
    and "scanning db pl (st\<lparr>rs_select := s, rs_state := STMT_STATE_SCANNING\<rparr>)"
  shows "delivers db pl (pending (rd_tombstones db) pl s) (step_select db pl st)"
proof -
  let ?st = "st\<lparr>rs_select := s, rs_state := STMT_STATE_SCANNING\<rparr>"
  obtain rc m db' st' where r: "select_pull db pl ?st = (rc, m, db', st')" using prod_cases4 by blast
  have "step_select db pl st = (if rc \<noteq> ROW then (rc, db', st') else (ROW, db', take_lane m st'))"
    using assms r by (simp add: step_select_def fetch_batch_def api_select_next_def select_ready_def)
  then show ?thesis using pull_delivers [OF assms(3) r] by simp
qed

datatype seen = Got cyboudb_batch_view nat | End | Failed

fun step_many :: "nat \<Rightarrow> row_db \<Rightarrow> row_stmt option \<Rightarrow> seen list" where
  "step_many 0 db stmt = []"
| "step_many (Suc n) db stmt = (case step_row db stmt of (rc, db', stmt') \<Rightarrow>
     (case stmt' of None \<Rightarrow> Failed | Some st \<Rightarrow>
        if rc = ROW then Got (rs_view st) (rs_cur_row st) else if rc = DONE then End else Failed)
     # step_many n db' stmt')"

abbreviation cleared :: "row_db \<Rightarrow> row_db" where
  "cleared db \<equiv> db\<lparr>rd_errcode := 0, rd_errmsg := []\<rparr>"

lemma scanning_cleared [simp]: "scanning (cleared db) pl st = scanning db pl st"
  "rows_left (cleared db) pl st = rows_left db pl st"
  by (simp_all add: scanning_def rows_left_def)

lemma step_many_done:
  assumes "rs_magic st" "rs_plan st = Some pl" "rs_state st = STMT_STATE_DONE"
  shows "step_many k db (Some st) = replicate k End"
  using assms
  by (induction k arbitrary: db) (simp_all add: step_row_def step_select_def fetch_batch_def api_select_next_def)

lemma step_many_scanning:
  assumes "scanning db pl st" "rows_left db pl st = rows"
  shows "step_many (length rows + Suc k) db (Some st) = map (\<lambda>(v, i). Got v i) rows @ replicate (Suc k) End"
  using assms
proof (induction rows arbitrary: db st)
  case Nil
  have "delivers (cleared db) pl [] (step_select (cleared db) pl st)"
    using step_select_delivers [of "cleared db" pl st] Nil by simp
  then show ?case using Nil step_many_done
    by (auto simp: delivers_def step_row_def scanning_def split: prod.splits)
next
  case (Cons x rows)
  obtain rc db' st' where r: "step_select (cleared db) pl st = (rc, db', st')" using prod_cases3 by blast
  have d: "delivers (cleared db) pl (x # rows) (rc, db', st')"
    using step_select_delivers [of "cleared db" pl st] Cons(2,3) r by simp
  then have "step_many (length rows + Suc k) db' (Some st') = map (\<lambda>(v, i). Got v i) rows @ replicate (Suc k) End"
    by (intro Cons(1)) (auto simp: delivers_def)
  moreover have "step_row db (Some st) = (rc, db', Some st')" using Cons(2) r by (simp add: step_row_def scanning_def)
  moreover have "rc = ROW" "(rs_view st', rs_cur_row st') = x" using d by (auto simp: delivers_def)
  ultimately show ?case by auto
qed

lemma ready_steps:
  assumes "select_ready db pl leaves st" "sql_select_open db pl = Inr s"
    and "scanning db pl (st\<lparr>rs_select := s, rs_state := STMT_STATE_SCANNING\<rparr>)" "pending (rd_tombstones db) pl s = rows"
  shows "step_many (length rows + Suc k) db (Some st) = map (\<lambda>(v, i). Got v i) rows @ replicate (Suc k) End"
proof -
  obtain rc db' st' where r: "step_select (cleared db) pl st = (rc, db', st')" using prod_cases3 by blast
  have d: "delivers (cleared db) pl rows (rc, db', st')"
    using first_step_delivers [of "cleared db" pl leaves st s] assms r
    by (simp add: select_ready_def sql_select_open_def)
  have row: "step_row db (Some st) = (rc, db', Some st')" using assms(1) r by (simp add: step_row_def select_ready_def)
  show ?thesis
  proof (cases rows)
    case Nil
    then show ?thesis using d row step_many_done [of st' pl k db'] by (simp add: delivers_def)
  next
    case (Cons x rest)
    then have "step_many (length rest + Suc k) db' (Some st') = map (\<lambda>(v, i). Got v i) rest @ replicate (Suc k) End"
      using d by (intro step_many_scanning) (auto simp: delivers_def)
    then show ?thesis using d row Cons by (auto simp: delivers_def)
  qed
qed

text \<open>C16 Stepping delivers the result, all of it and once.  For a prepared \<open>SELECT\<close> over a table, with any
  predicate, any dead rows, any division into leaves and groups, any \<open>OFFSET\<close> and \<open>LIMIT\<close>, zone maps
  used as they are: the steps answer \<open>ROW\<close> at exactly the rows of the table the predicate accepts and
  that are not dead, in their order, from the offset on and up to the limit, and then \<open>DONE\<close>,
  however often one asks again.\<close>

theorem select_steps_deliver_rows:
  assumes "select_ready db pl leaves st" "\<not> rp_count_star pl" "\<not> rp_vector_topk pl" "limit_fits pl"
    and "rows = limited pl (table_rows (rd_tombstones db) leaves)"
  shows "step_many (length rows + Suc k) db (Some st) = map (\<lambda>(v, i). Got v i) rows @ replicate (Suc k) End"
  by (rule select_open_law [OF assms(1,2), of "rd_tombstones db"]) (use assms ready_steps in blast)

text \<open>A table of four rows in one group; the predicate accepts the first, third and fourth, the third is
  dead.\<close>

definition no_view :: cyboudb_batch_view where
  "no_view = \<lparr>bv_row_count = 0, bv_columns = (\<lambda>_. \<lparr>cv_values_ptr = None, cv_null_mask = 0, cv_type = 0, cv_width = 0\<rparr>)\<rparr>"

definition four_view :: cyboudb_batch_view where
  "four_view = no_view\<lparr>bv_row_count := 4, bv_columns := (bv_columns no_view)(0 :=
     \<lparr>cv_values_ptr = Some (\<lambda>i. word_of_nat i), cv_null_mask = 2, cv_type = type_code BOOL, cv_width = 1\<rparr>)\<rparr>"

definition four_leaf :: scan_leaf where
  "four_leaf = \<lparr>lf_zone = ZONE_TEST_UNKNOWN, lf_rows = 4, lf_batches =
     [Inr \<lparr>sc_view = four_view, sc_rows = 4, sc_predicate = 13, sc_dead = 4\<rparr>]\<rparr>"

definition four_db :: row_db where
  "four_db = \<lparr>rd_usable = True, rd_generation = 3, rd_tombstones = True, rd_params_bound = True, rd_scan = Inr [four_leaf],
     rd_errcode = 0, rd_errmsg = []\<rparr>"

definition four_plan :: row_plan where
  "four_plan = \<lparr>rp_count_star = False, rp_limit = None, rp_order = False, rp_vector_topk = False, rp_join = False,
     rp_projection = [0], rp_types = [4], rp_join_projection = [], rp_columns = (\<lambda>_. (0, ''b'')),
     rp_right_columns = (\<lambda>_. (0, [])), rp_table_id = 1\<rparr>"

definition four_stmt :: "row_plan \<Rightarrow> row_stmt" where
  "four_stmt pl = \<lparr>rs_magic = True, rs_addr = 4096, rs_plan = Some pl, rs_state = STMT_STATE_INIT, rs_cur_row = 0,
     rs_act_mask = 0, rs_cnt_accum = 0, rs_errcode = 0,
     rs_select = \<lparr>se_generation = 0, se_leaves = [], se_decision = ZONE_TEST_UNKNOWN, se_batches = [], se_count = 0,
       se_done = False, se_error = None, se_limit_skip = 0, se_limit_left = 0\<rparr>,
     rs_view = no_view, rs_result_count = 0, rs_result_indices = (\<lambda>_. 0), rs_result_types = (\<lambda>_. 0),
     rs_result_names = (\<lambda>_. [])\<rparr>"

lemma four_rows: "table_rows True [four_leaf] = [(four_view, 0), (four_view, 3)]"
proof -
  have "lanes (13 AND NOT 4) = [0, 3]" by code_simp
  then show ?thesis by (simp add: table_rows_def leaf_rows_def four_leaf_def batch_rows_def live_mask_def)
qed

lemma four_ready: "\<not> rp_join pl \<Longrightarrow> \<not> rp_order pl \<Longrightarrow> select_ready four_db pl [four_leaf] (four_stmt pl)"
  by (simp add: select_ready_def four_db_def four_stmt_def four_leaf_def leaf_sound_def zone_sound_def)

theorem select_steps_deliver_rows_witness:
  "step_many 2 four_db (Some (four_stmt (four_plan\<lparr>rp_limit := Some (5, 1)\<rparr>))) = [Got four_view 3, End]"
proof -
  let ?pl = "four_plan\<lparr>rp_limit := Some (5, 1)\<rparr>"
  have "[(four_view, 3)] = limited ?pl (table_rows (rd_tombstones four_db) [four_leaf])"
    using four_rows by (simp add: limited_def four_db_def)
  moreover have "\<not> rp_join ?pl" "\<not> rp_order ?pl" "\<not> rp_count_star ?pl" "\<not> rp_vector_topk ?pl" "limit_fits ?pl"
    by (simp_all add: four_plan_def limit_fits_def)
  ultimately have "step_many (length [(four_view, 3 :: nat)] + Suc 0) four_db (Some (four_stmt ?pl))
      = map (\<lambda>(v, i). Got v i) [(four_view, 3)] @ replicate (Suc 0) End"
    by (intro select_steps_deliver_rows [OF four_ready])
  then show ?thesis by (simp add: numeral_2_eq_2 del: step_many.simps)
qed

text \<open>C36 Stepped through the C interface, a search for the nearest vectors is not one.  A \<open>SELECT\<close> with a
  vector distance in its \<open>ORDER BY\<close> must have a \<open>LIMIT\<close>; the pull cursor neither sorts nor limits: the
  steps deliver every row the predicate accepts in the order of the table, whatever the limit.\<close>

theorem vector_order_by_ignored:
  assumes "select_ready db pl leaves st" "\<not> rp_count_star pl" "rp_vector_topk pl" "rp_limit pl = Some (l, off)"
    and "rows = table_rows (rd_tombstones db) leaves" "length rows < 2 ^ 64"
  shows "step_many (length rows + Suc k) db (Some st) = map (\<lambda>(v, i). Got v i) rows @ replicate (Suc k) End"
  by (rule select_open_law [OF assms(1,2), of "rd_tombstones db"]) (use assms ready_steps in blast)

theorem vector_order_by_ignored_witness:
  "step_many 3 four_db (Some (four_stmt (four_plan\<lparr>rp_vector_topk := True, rp_limit := Some (1, 0)\<rparr>)))
    = [Got four_view 0, Got four_view 3, End]"
proof -
  let ?pl = "four_plan\<lparr>rp_vector_topk := True, rp_limit := Some (1, 0)\<rparr>"
  have "[(four_view, 0), (four_view, 3)] = table_rows (rd_tombstones four_db) [four_leaf]"
    using four_rows by (simp add: four_db_def)
  from vector_order_by_ignored [OF four_ready [of ?pl] _ _ _ this, of 1 0 0] show ?thesis
    by (simp add: four_plan_def numeral_3_eq_3)
qed

section \<open>Batches\<close>

text \<open>The rows of the batches, until one does not come; whether that was the end.\<close>

fun batch_many :: "nat \<Rightarrow> row_db \<Rightarrow> row_stmt option \<Rightarrow> row list \<times> bool" where
  "batch_many 0 db stmt = ([], False)"
| "batch_many (Suc n) db stmt = (case cyboudb_step_batch db stmt True True of (rc, db', stmt', batch, m) \<Rightarrow>
     case stmt' of None \<Rightarrow> ([], False) | Some st \<Rightarrow>
       if rc = ROW \<and> batch = view_addr st then apfst (append (map (Pair (rs_view st)) (lanes m))) (batch_many n db' stmt')
       else ([], rc = DONE))"

lemma batch_many_scanning:
  assumes "scanning db pl st" "length (pending (rd_tombstones db) pl (rs_select st)) < n"
  shows "batch_many n db (Some st) = (pending (rd_tombstones db) pl (rs_select st), True)"
  using assms
proof (induction n arbitrary: st)
  case (Suc n)
  obtain rc m db' st' where r: "select_pull db pl st = (rc, m, db', st')" using prod_cases4 by blast
  note law = select_pull_law [OF Suc(2) r]
  have eq: "cyboudb_step_batch db (Some st) True True =
      (if rc \<noteq> ROW then (rc, db', Some st', 0, 0) else (ROW, db', Some (st'\<lparr>rs_act_mask := m\<rparr>), view_addr st', m))"
    using Suc(2) r by (simp add: cyboudb_step_batch_def scanning_def api_select_next_def)
  show ?case
  proof (cases "pending (rd_tombstones db) pl (rs_select st) = []")
    case True
    then show ?thesis using law eq by simp
  next
    case False
    let ?st = "st'\<lparr>rs_act_mask := m\<rparr>"
    have p: "pending (rd_tombstones db) pl (rs_select st) = map (Pair (rs_view st')) (lanes m) @ pending (rd_tombstones db) pl (rs_select ?st)"
      and l: "rc = ROW" "db' = db" "m \<noteq> 0" "scanning db pl ?st" using law False by (simp_all add: scanning_def)
    have "lanes m \<noteq> []" using l(3) by (simp add: lanes_Nil_iff)
    then have "length (pending (rd_tombstones db) pl (rs_select ?st)) < n" using Suc(3) p by (cases "lanes m") auto
    then have "batch_many n db (Some ?st) = (pending (rd_tombstones db) pl (rs_select ?st), True)" by (rule Suc(1) [OF l(4)])
    then show ?thesis using eq l p by simp
  qed
qed simp

text \<open>C17 Batches hold the same rows: fetched batch by batch, the lanes of the masks taken together are
  exactly the rows that stepping row by row delivers, in the same order, and one call more than there
  are rows is enough to reach the end.\<close>

theorem batches_deliver_rows:
  assumes "select_ready db pl leaves st" "\<not> rp_count_star pl" "\<not> rp_vector_topk pl" "limit_fits pl"
    and "rows = limited pl (table_rows (rd_tombstones db) leaves)" "length rows < n"
  shows "batch_many n db (Some st) = (rows, True)"
proof (rule select_open_law [OF assms(1,2), of "rd_tombstones db"])
  fix s assume s: "sql_select_open db pl = Inr s" "scanning db pl (st\<lparr>rs_select := s, rs_state := STMT_STATE_SCANNING\<rparr>)"
    and p: "\<not> rp_vector_topk pl \<Longrightarrow> limit_fits pl \<Longrightarrow> pending (rd_tombstones db) pl s = limited pl (table_rows (rd_tombstones db) leaves)"
  have "batch_many n db (Some (st\<lparr>rs_select := s, rs_state := STMT_STATE_SCANNING\<rparr>)) = (rows, True)"
    using batch_many_scanning [OF s(2)] p assms(3-6) by simp
  moreover have "cyboudb_step_batch db (Some st) True True
      = cyboudb_step_batch db (Some (st\<lparr>rs_select := s, rs_state := STMT_STATE_SCANNING\<rparr>)) True True"
    using assms(1) s(1) by (simp add: cyboudb_step_batch_def api_select_next_def select_ready_def)
  ultimately show ?thesis by (cases n) (simp_all only: batch_many.simps)
qed

theorem batches_deliver_rows_witness:
  "batch_many 3 four_db (Some (four_stmt four_plan)) = ([(four_view, 0), (four_view, 3)], True)"
proof -
  have "[(four_view, 0), (four_view, 3)] = limited four_plan (table_rows (rd_tombstones four_db) [four_leaf])"
    using four_rows by (simp add: limited_def four_db_def four_plan_def)
  from batches_deliver_rows [OF four_ready [of four_plan] _ _ _ this, of 3] show ?thesis
    by (simp add: four_plan_def limit_fits_def)
qed

end
