(* ===== verification/Row_Cells.thy ===== *)
theory Row_Cells
  imports Row_Laws
begin

text \<open>
  What a caller reads off a row: the count of \<open>COUNT(*)\<close>, the scalars of a column, the bytes of a
  value of variable width.
\<close>

unbundle bit_operations_syntax

section \<open>Counting\<close>

lemma select_scan_count:
  assumes "cursor_sound s" "rp_count_star pl" "select_scan tomb pl s v = (e, m, s', v')"
  shows "e = None \<and> se_done s' \<and> se_error s' = None
    \<and> se_count s' = se_count s + word_of_nat (length (cursor_rows tomb s))
    \<and> m = (if rp_limit pl = None \<or> se_limit_left s \<noteq> 0 \<and> se_limit_skip s = 0 then 1 else 0)"
  using assms
proof (induction s arbitrary: v rule: measure_induct_rule [of scan_size])
  case (less s)
  show ?case
  proof (cases "se_batches s")
    case Nil
    show ?thesis
    proof (cases "se_leaves s")
      case Nil2: Nil
      then show ?thesis using less(2-4) Nil
        by (subst (asm) select_scan.simps)
          (auto simp: scan_finished_def Let_def cursor_sound_def cursor_rows_def table_rows_def split: if_splits)
    next
      case (Cons l r)
      have l: "leaf_sound l" "list_all leaf_sound r" using less(2) Cons by (simp_all add: cursor_sound_def)
      define s1 where "s1 = (if lf_zone l = ZONE_TEST_NONE then s\<lparr>se_leaves := r\<rparr>
        else if lf_zone l = ZONE_TEST_ALL \<and> \<not> tomb then s\<lparr>se_leaves := r, se_count := se_count s + word_of_nat (lf_rows l)\<rparr>
        else s\<lparr>se_leaves := r, se_decision := lf_zone l, se_batches := lf_batches l\<rparr>)"
      have eq: "select_scan tomb pl s1 v = (e, m, s', v')"
        using less(3,4) Nil Cons by (subst (asm) select_scan.simps) (auto simp: s1_def)
      have s1: "scan_size s1 < scan_size s" "cursor_sound s1" "se_limit_left s1 = se_limit_left s" "se_limit_skip s1 = se_limit_skip s"
        using less(2) l Nil Cons by (auto simp: s1_def scan_size_def cursor_sound_def leaf_sound_def)
      moreover have "se_count s1 + word_of_nat (length (cursor_rows tomb s1)) = se_count s + word_of_nat (length (cursor_rows tomb s))"
        using leaf_rows_none [OF l(1)] leaf_rows_all [OF l(1)] Nil Cons
        by (auto simp: s1_def cursor_rows_def table_rows_def leaf_rows_def [symmetric])
      ultimately show ?thesis using less(1) [OF s1(1,2) less(3) eq] by simp
    qed
  next
    case (Cons x r)
    then obtain b where b: "x = Inr b" "zone_sound (se_decision s) (Inr b)" "list_all (zone_sound (se_decision s)) r"
      using less(2) by (cases x) (auto simp: cursor_sound_def zone_sound_def)
    have sel: "batch_selected tomb (se_decision s) b = live_mask tomb b" using b by (simp add: batch_selected_sound)
    define s1 where "s1 = s\<lparr>se_batches := r, se_count := se_count s + popcount64 (live_mask tomb b)\<rparr>"
    have s1: "scan_size s1 < scan_size s" "cursor_sound s1"
      using less(2) b Cons by (auto simp: s1_def cursor_sound_def scan_size_def)
    have "select_scan tomb pl s1 (sc_view b) = (e, m, s', v')"
      using less(3,4) Cons b sel
      by (cases "live_mask tomb b = 0"; subst (asm) select_scan.simps; simp add: s1_def Let_def popcount64_def)
    from less(1) [OF s1 less(3) this] show ?thesis
      by (simp add: s1_def cursor_rows_def Cons b batch_rows_def popcount64_def)
  qed
qed

text \<open>C18 \<open>COUNT(*)\<close> counts the rows.  Zone maps let it count whole leaves without reading them; over
  storage that answers and zone maps that are right, the first step delivers one row, not null,
  whose value is the number of rows the predicate accepts and that are not dead, as a 64-bit
  number, also when there are none; the second step is the end.\<close>

theorem count_star_counts:
  assumes "select_ready db pl leaves st" "rp_count_star pl" "rp_limit pl = None"
  shows "\<exists>db1 st1 db2 st2. step_row db (Some st) = (ROW, db1, Some st1)
    \<and> cyboudb_column_is_null (Some st1) 0 = 0
    \<and> cyboudb_column_int64 (Some st1) 0 = Some (word_of_nat (length (table_rows (rd_tombstones db) leaves)))
    \<and> step_row db1 (Some st1) = (DONE, db2, st2)"
proof -
  let ?db = "cleared db"
  obtain s where s: "sql_select_open ?db pl = Inr s" "se_leaves s = leaves" "se_batches s = []" "\<not> se_done s" "se_error s = None"
    "se_count s = 0" "se_generation s = rd_generation db"
    using assms by (simp add: sql_select_open_def select_ready_def)
  obtain e m s' v' where sc: "select_scan (rd_tombstones db) pl s (rs_view st) = (e, m, s', v')" using prod_cases4 by blast
  have "cursor_sound s" using s assms(1) by (simp add: cursor_sound_def select_ready_def)
  from select_scan_count [OF this assms(2) sc] have law: "e = None" "se_done s'" "se_error s' = None" "m = 1"
    "se_count s' = word_of_nat (length (table_rows (rd_tombstones db) leaves))"
    using assms(3) s by (simp_all add: cursor_rows_def)
  have nx: "sql_select_next ?db pl s (rs_view st) = (None, 1, s', v')"
    using s sc law assms(1) by (simp add: sql_select_next_def select_ready_def)
  define st1 where "st1 = take_lane 1 (st\<lparr>rs_select := s', rs_view := v', rs_cnt_accum := se_count s', rs_state := STMT_STATE_COUNT_DELIVER\<rparr>)"
  have one: "step_row db (Some st) = (ROW, ?db, Some st1)"
    using assms s(1) nx by (simp add: step_row_def step_select_def fetch_batch_def api_select_next_def select_ready_def
      select_pull_def st1_def)
  have "sql_select_next ?db pl s' v' = (None, 0, s', v')" using law by (simp add: sql_select_next_def)
  then have "step_row ?db (Some st1) = (DONE, ?db, Some (st1\<lparr>rs_state := STMT_STATE_DONE\<rparr>))"
    using assms by (simp add: step_row_def step_select_def fetch_batch_def api_select_next_def select_ready_def
      select_pull_def st1_def take_lane_def)
  then show ?thesis using one assms law
    by (auto simp: cyboudb_column_is_null_def cyboudb_column_int64_def st1_def take_lane_def select_ready_def)
qed

theorem count_star_counts_witness:
  "\<exists>db1 st1 db2 st2. step_row four_db (Some (four_stmt (four_plan\<lparr>rp_count_star := True\<rparr>))) = (ROW, db1, Some st1)
    \<and> cyboudb_column_is_null (Some st1) 0 = 0 \<and> cyboudb_column_int64 (Some st1) 0 = Some 2
    \<and> step_row db1 (Some st1) = (DONE, db2, st2)"
proof -
  have "length (table_rows (rd_tombstones four_db) [four_leaf]) = 2" using four_rows by (simp add: four_db_def)
  then show ?thesis
    using count_star_counts [OF four_ready [of "four_plan\<lparr>rp_count_star := True\<rparr>"]] by (simp add: four_plan_def)
qed

section \<open>Scalars\<close>

definition type_width :: "coltype \<Rightarrow> nat" where
  "type_width t = (case t of INT64 \<Rightarrow> 8 | INT32 \<Rightarrow> 4 | FLOAT32 \<Rightarrow> 4 | BOOL \<Rightarrow> 1 | _ \<Rightarrow> VAR_CELL_SIZE)"

text \<open>A column as storage lays it out: lane \<open>i\<close> holds the number \<open>vals i\<close> in as many bytes as the type has.\<close>

definition stored_bytes :: "nat \<Rightarrow> (nat \<Rightarrow> nat) \<Rightarrow> nat \<Rightarrow> byte" where
  "stored_bytes w vals p = le_bytes w (vals (p div w)) ! (p mod w)"

definition stored_column :: "coltype \<Rightarrow> (nat \<Rightarrow> nat) \<Rightarrow> u64 \<Rightarrow> cyboudb_colview" where
  "stored_column t vals nulls = \<lparr>cv_values_ptr = Some (stored_bytes (type_width t) vals), cv_null_mask = nulls,
     cv_type = type_code t, cv_width = type_width t\<rparr>"

lemma length_le_bytes [simp]: "length (le_bytes n v) = n"
  by (simp add: le_bytes_map)

lemma load_stored: "0 < w \<Longrightarrow> load_le (stored_bytes w vals) (i * w) w = vals i mod 256 ^ w"
proof -
  assume w: "0 < w"
  have "map (stored_bytes w vals) [i * w..<i * w + w] = le_bytes w (vals i)"
    using w by (intro nth_equalityI) (simp_all add: stored_bytes_def)
  then show ?thesis by (simp add: load_le_def le_nat_le_bytes)
qed

text \<open>C20 The accessors read what is stored.  At any current row of a result, in the place of any column and
  for columns laid out as storage lays them out: a null is reported as such and reads as zero; a
  number comes back as it was stored, a 32-bit one sign-extended by \<open>cyboudb_column_int64\<close>; the
  float is the same bit pattern; a truth value the same byte.  An index outside the result is a null
  that reads as zero.\<close>

theorem accessors_read_stored:
  assumes "rs_plan st = Some pl" "\<not> rp_count_star pl" "i = rs_cur_row st"
    and "0 \<le> col \<longrightarrow> nat col < length (rp_projection pl) \<longrightarrow>
      bv_columns (rs_view st) (rp_projection pl ! nat col) = stored_column t vals nulls"
  shows "(let outside = (col < 0 \<or> int (length (rp_projection pl)) \<le> col); null = (outside \<or> bit nulls i) in
     (cyboudb_column_is_null (Some st) col = (if null then 1 else 0))
   \<and> (t = INT64 \<longrightarrow> cyboudb_column_int64 (Some st) col = Some (if null then 0 else word_of_nat (vals i)))
   \<and> (t = INT32 \<longrightarrow> cyboudb_column_int32 (Some st) col = Some (if null then 0 else word_of_nat (vals i))
        \<and> cyboudb_column_int64 (Some st) col = Some (if null then 0 else scast (word_of_nat (vals i) :: u32)))
   \<and> (t = FLOAT32 \<longrightarrow> cyboudb_column_float (Some st) col = Some (if null then 0 else word_of_nat (vals i)))
   \<and> (t = BOOL \<longrightarrow> cyboudb_column_bool (Some st) col = Some (if null then 0 else int (vals i mod 256))))"
proof (cases "col < 0 \<or> int (length (rp_projection pl)) \<le> col")
  case True
  then have "plan_column pl st col = None" by (simp add: plan_column_def)
  then show ?thesis using assms(1,2) True
    by (simp add: Let_def cyboudb_column_is_null_def cyboudb_column_int64_def cyboudb_column_int32_def
      cyboudb_column_float_def cyboudb_column_bool_def)
next
  case False
  then have pc: "plan_column pl st col = Some (stored_column t vals nulls)" using assms(4) by (auto simp: plan_column_def)
  have w4: "(word_of_nat (x mod 4294967296) :: u32) = word_of_nat x"
    and w8: "(word_of_nat (x mod 18446744073709551616) :: u64) = word_of_nat x" for x
    using word_of_nat_mod [where 'a = 32, of x] word_of_nat_mod [where 'a = 64, of x] by simp_all
  have b: "uint (stored_bytes 1 vals i) = int (vals i mod 256)"
  proof -
    have "unat (word_of_nat (vals i mod 256) :: byte) = vals i mod 256" by (rule unat_of_nat_small) simp
    then have "int (unat (word_of_nat (vals i mod 256) :: byte)) = int (vals i mod 256)" by (rule arg_cong)
    then show ?thesis by (simp add: stored_bytes_def)
  qed
  have sc: "ucast (scast (x :: u32) :: u64) = x" for x by (rule bit_eqI) (auto simp: bit_simps)
  show ?thesis
    using pc assms(1-3) False load_stored [of 4 vals i] load_stored [of 8 vals i] b
    by (auto simp: Let_def cyboudb_column_is_null_def cyboudb_column_int64_def cyboudb_column_int32_def
      cyboudb_column_float_def cyboudb_column_bool_def stored_column_def type_width_def w4 w8 sc)
qed

definition cells_stmt :: "cyboudb_colview \<Rightarrow> row_stmt" where
  "cells_stmt cv = (four_stmt four_plan)\<lparr>rs_state := STMT_STATE_SCANNING, rs_view := no_view\<lparr>bv_columns := (\<lambda>_. cv)\<rparr>\<rparr>"

theorem accessors_read_stored_witness:
  "cyboudb_column_is_null (Some (cells_stmt (stored_column INT32 (\<lambda>i. 4294967295) 2))) 0 = 0
   \<and> cyboudb_column_int32 (Some (cells_stmt (stored_column INT32 (\<lambda>i. 4294967295) 2))) 0 = Some (- 1)
   \<and> cyboudb_column_int64 (Some (cells_stmt (stored_column INT32 (\<lambda>i. 4294967295) 2))) 0 = Some (- 1)"
proof -
  let ?st = "cells_stmt (stored_column INT32 (\<lambda>i. 4294967295) 2)"
  have "rs_plan ?st = Some four_plan" "\<not> rp_count_star four_plan" "0 = rs_cur_row ?st"
    by (simp_all add: cells_stmt_def four_stmt_def four_plan_def)
  from accessors_read_stored [OF this, of 0 INT32 "\<lambda>i. 4294967295" 2] show ?thesis
    by (simp add: Let_def cells_stmt_def four_plan_def)
qed

section \<open>Bytes\<close>

text \<open>C19 Text is read in two calls.  A first call without a buffer, at a cell that holds the bytes some write
  stored for this table, does not succeed but reports their number and changes nothing; a second
  one with a buffer of that size returns OK, reports the same number and leaves exactly the bytes
  that were written in the buffer and everything else as it was.\<close>

theorem bytes_read_in_two_calls:
  assumes "rs_plan st = Some pl" "rs_state st = STMT_STATE_SCANNING" "plan_column pl st col = Some cv"
    and "cv_type cv = type_code TEXT \<or> cv_type cv = type_code BLOB" "cv_width cv = VAR_CELL_SIZE"
    and "\<not> bit (cv_null_mask cv) (rs_cur_row st)" "cv_values_ptr cv = Some f" "cell_at f (rs_cur_row st) = cell"
    and "db_var_write_chain crc32c mem ctx bytes len (rp_table_id pl) = (None, Some cell, ctx')"
    and "0 < len" "len < 2 ^ 64" "vx_alloc ctx = map Inr ids @ rest" "length ids = page_count len"
    and "extents_fit sb (vx_generation ctx) ids" "out \<noteq> 0"
  shows "cyboudb_column_bytes crc32c sb (vx_pages ctx') (Some st) col 0 0 True mem2 = Some (MISUSE, Some len, mem2)
    \<and> cyboudb_column_bytes crc32c sb (vx_pages ctx') (Some st) col out len True mem2
      = Some (OK, Some len, put_bytes out (map mem [bytes..<bytes + len]) mem2)"
proof -
  have ok: "bytes \<noteq> 0" "rp_table_id pl \<noteq> 0" "page_count len \<le> vx_headroom ctx"
    using assms(9,10) by (auto simp: db_var_write_chain_def split: if_splits)
  have w: "vc_length cell = len" "db_var_read_chain crc32c sb (vx_pages ctx') cell (rp_table_id pl) out len mem2
      = Some (None, put_bytes out (map mem [bytes..<bytes + len]) mem2)"
    using chain_roundtrip [OF ok(1,2) assms(11) ok(3) assms(12-15) order_refl, of crc32c mem mem2] assms(9) by auto
  show ?thesis using assms(1-8,10,15) w by (auto simp: cyboudb_column_bytes_def read_cell_def Let_def)
qed

definition text_cell :: cyboudb_colview where
  "text_cell = \<lparr>cv_values_ptr = Some (\<lambda>p. (le_bytes 8 7 @ le_bytes 8 3) ! p), cv_null_mask = 0, cv_type = type_code TEXT,
     cv_width = 16\<rparr>"

theorem bytes_read_in_two_calls_witness:
  "\<exists>ctx'. db_var_write_chain (\<lambda>b. vb_used b) (\<lambda>a. word_of_nat a) sample_ctx 1000 3 1
      = (None, Some \<lparr>vc_root = 7, vc_length = 3\<rparr>, ctx')
    \<and> cyboudb_column_bytes (\<lambda>b. vb_used b) sample_sb (vx_pages ctx') (Some (cells_stmt text_cell)) 0 0 0 True (\<lambda>_. 0)
      = Some (MISUSE, Some 3, \<lambda>_. 0)
    \<and> cyboudb_column_bytes (\<lambda>b. vb_used b) sample_sb (vx_pages ctx') (Some (cells_stmt text_cell)) 0 64 3 True (\<lambda>_. 0)
      = Some (OK, Some 3, put_bytes 64 (map (\<lambda>a. word_of_nat a) [1000..<1000 + 3]) (\<lambda>_. 0))"
proof -
  have n: "page_count 3 = 1" by (simp add: page_count_def VAR_PAYLOAD_SIZE_def)
  obtain ctx' where w: "db_var_write_chain (\<lambda>b. vb_used b) (\<lambda>a. word_of_nat a) sample_ctx 1000 3 1
      = (None, Some \<lparr>vc_root = 7, vc_length = 3\<rparr>, ctx')"
    by (simp add: db_var_write_chain_def n write_page.simps alloc_page_def sample_ctx_def Let_def)
  have cell: "cell_at (\<lambda>p. (le_bytes 8 7 @ le_bytes 8 3) ! p) 0 = \<lparr>vc_root = 7, vc_length = 3\<rparr>" by code_simp
  have st: "rs_plan (cells_stmt text_cell) = Some four_plan" "rs_state (cells_stmt text_cell) = STMT_STATE_SCANNING"
    "plan_column four_plan (cells_stmt text_cell) 0 = Some text_cell"
    and row: "rs_cur_row (cells_stmt text_cell) = 0" "rp_table_id four_plan = 1"
    by (simp_all add: cells_stmt_def four_stmt_def four_plan_def plan_column_def)
  have cv: "cv_type text_cell = type_code TEXT \<or> cv_type text_cell = type_code BLOB" "cv_width text_cell = VAR_CELL_SIZE"
    "\<not> bit (cv_null_mask text_cell) (rs_cur_row (cells_stmt text_cell))"
    "cv_values_ptr text_cell = Some (\<lambda>p. (le_bytes 8 7 @ le_bytes 8 3) ! p)"
    by (simp_all add: text_cell_def VAR_CELL_SIZE_def)
  have ids: "vx_alloc sample_ctx = map Inr [7] @ [Inr 5, Inr 6]" "length [7 :: nat] = page_count 3"
    "extents_fit sample_sb (vx_generation sample_ctx) [7]"
    by (simp_all add: sample_ctx_def sample_sb_def extents_fit_def n)
  show ?thesis
    by (rule exI [of _ ctx'], rule conjI [OF w], rule bytes_read_in_two_calls [OF st cv cell [folded row(1)] w [folded row(2)] _ _ ids]) simp_all
qed

end
