(* ===== verification/Spec2Isabelle.thy ===== *)
theory Spec2Isabelle
  imports Crypto_Probe Lease_Safety Lease_Valid Worker_Main Leased_Progress Stale_Plans Row_Types
    Sql_Tokens Queue_Limits Vector_Search Vector_Session Bindings_Laws Row_Cells
begin

text \<open>
  CybouDB, a verification library.

  CybouDB is an embedded database: tables, durable queues and append-only streams in one file, driven
  through the C interface \<^verbatim>\<open>include/cyboudb.h\<close> with SQL text, implemented in assembly under
  \<^verbatim>\<open>src/\<close>.  A client opens or creates a file (\<open>cyboudb_open\<close>, \<open>cyboudb_create\<close>), prepares and steps
  statements, and closes.  A step goes through the tokenizer and parser (\<^verbatim>\<open>src/sql/tokenizer.asm\<close>,
  \<^verbatim>\<open>parser.asm\<close>), the binder (\<^verbatim>\<open>binder.asm\<close>), the executor (\<^verbatim>\<open>executor.asm\<close>) and the storage
  operations on a page of the catalog (\<^verbatim>\<open>src/core/catalog.asm\<close>, \<^verbatim>\<open>queue.asm\<close>, \<^verbatim>\<open>stream.asm\<close>), and is
  published by a commit (\<^verbatim>\<open>database.asm\<close>).  Beside the database the same header offers a vector
  runtime that allocates nothing: an arena of vectors in the caller's memory and an exact search for
  the nearest ones (\<^verbatim>\<open>src/core/vector_arena.asm\<close>, \<^verbatim>\<open>src/sql/vector_topk.asm\<close> and the kernels).  Three
  example programs, \<^verbatim>\<open>examples/worker.c\<close>, \<^verbatim>\<open>examples/leased_worker.c\<close> and
  \<^verbatim>\<open>examples/vector_search.c\<close>, are clients; \<^verbatim>\<open>benchmarks/crypto_probe.c\<close> holds the portable
  references of the ciphers used for encryption at rest.

  \<^bold>\<open>What is modelled where.\<close>

  \<^item> \<open>Prelude\<close>: machine types, little-endian loads and stores, and the generic lemmas on words, lists
    and byte strings the components share.

  \<^item> \<open>ChaCha20\<close>, \<open>Poly1305_Spec\<close>, \<open>Poly1305_26\<close>, \<open>Poly1305_44\<close>, \<open>Crypto_Probe\<close>:
    \<^verbatim>\<open>benchmarks/crypto_probe.c\<close>.  The five ChaCha20 variants, three Poly1305 implementations on 26-bit
    and 44-bit limbs, CPU detection, the known-answer tests and the sealing loops, on words of the
    width the C code has.  Locale \<open>block_stream\<close> states what a cipher loop needs of its block function
    and is interpreted for each variant; locale \<open>poly_absorb\<close> does the same for the block loop of an
    authenticator.  Shown: all variants compute the same key stream, every implementation computes the
    RFC 8439 value, limbs stay in the bounds that exclude overflow, the self-tests pass, and one of
    them reads out of bounds.

  \<^item> \<open>Api_Header\<close>: the constants and codes of \<^verbatim>\<open>cyboudb.h\<close>.

  \<^item> \<open>Lease_Queue\<close>: \<^verbatim>\<open>src/core/queue.asm\<close>, queues with leases.  A queue page is a record, positions,
    tokens and deadlines are numbers below \<open>U64_MAX\<close> with the overflow tests of the code.  \<open>Lease_Laws\<close>
    has one law per operation; \<open>Lease_Safety\<close> the step relation \<open>lq_step\<close>, the locale \<open>ticketed\<close> (what a
    client of tickets relies on) and its interpretation: a message is finished at most once, a
    superseded ticket is refused, a late one that nobody superseded is accepted.  \<open>Lease_Valid\<close> is
    about the page a commit accepts and the search that skips segments.  \<open>Lease_List\<close> reads a queue as
    the list of its slots.  \<open>Queue_Limits\<close> shows what a message that is too long does to
    the dequeues behind it.

  \<^item> \<open>Streams\<close>: \<^verbatim>\<open>src/core/stream.asm\<close>, streams and cursors; a reader is handed every record once and
    in order whatever others do, and nothing unread is trimmed.

  \<^item> \<open>Sql_Text\<close>: the tokenizer and the part of the parser that the queue, stream, transaction, \<open>INSERT\<close>,
    \<open>CREATE\<close> and \<open>DROP\<close> statements need; every other statement is the outcome \<open>Outside\<close>.
    \<open>Sql_Text_Laws\<close>: writing text and reading it back.  \<open>Sql_Tokens\<close>: the tokenizer always gets on, and
    the one loop of the parser that may not end.

  \<^item> \<open>Catalog\<close>: the directory, the binder and the executor for those statements, errors as values.
    \<open>Catalog_Laws\<close> states the directory as the locale \<open>directory\<close>, interpreted on the model, and what
    taking a message does to the list of waiting ones.  \<open>Row_Types\<close>: what the binder lets through has
    the types of the columns.

  \<^item> \<open>Connection\<close>: the interface, \<^verbatim>\<open>src/api/cyboudb_c.asm\<close> over commit, rollback and close.  The file is
    the list of published generations, a history of which the code keeps the newest two; every place where memory, storage or the disk may refuse
    consumes an event of a list, so a theorem about all event lists is a theorem about all failures.
    \<open>Connection_Laws\<close>: one law per call.  \<open>Connection_Invariants\<close>: what holds after any sequence of calls
    (relation \<open>call\<close>).  \<open>Connection_Progress\<close>: the calls on a connection where nothing fails, as updates
    of what a client can tell (record \<open>view\<close>).  \<open>Stale_Plans\<close>: what a \<open>CREATE TABLE\<close> does whose
    identifier was taken after it was prepared.

  \<^item> \<open>Worker\<close>: \<^verbatim>\<open>examples/worker.c\<close>.  \<open>Worker_Safety\<close>: whatever fails, a job is taken and recorded or
    neither, over any number of restarts.  \<open>Worker_Progress\<close> and \<open>Worker_Main\<close>: when nothing fails the loop
    drains the queue, and the program prints what it should and returns zero.

  \<^item> \<open>Leased_Worker\<close>: \<^verbatim>\<open>examples/leased_worker.c\<close>.  \<open>Leased_Progress\<close>: exactly when it returns zero.

  \<^item> \<open>Bindings\<close>: the parameters of a prepared \<open>INSERT\<close>, \<^verbatim>\<open>cyboudb_c.asm\<close> from \<open>api_param_slot\<close> to
    \<open>cyboudb_clear_bindings\<close>, the slots and the bounded copy buffer, and how the executor reads them.
    \<open>Bindings_Laws\<close>: the pieces of the buffer do not overlap, so after any sequence of calls an \<open>INSERT\<close>
    stores the last value bound to each parameter; and the one call, \<open>cyboudb_bind_null\<close>, that
    breaks this.

  \<^item> \<open>Var_Extents\<close>: \<^verbatim>\<open>src/core/varlen.asm\<close>, the chains of pages behind a \<open>TEXT\<close>, \<open>BLOB\<close> or \<open>VECTOR\<close> cell:
    writing, validating and reading one.  What is written is read back, and a read of whatever is on the
    disk ends and is all or nothing.

  \<^item> \<open>Row_Access\<close>: the rows of a \<open>SELECT\<close> over a table, the pull cursor \<^verbatim>\<open>src/sql/select_cursor.asm\<close> and
    the stepping and the accessors of \<^verbatim>\<open>cyboudb_c.asm\<close> (\<open>cyboudb_step\<close> on a \<open>SELECT\<close>, \<open>cyboudb_step_batch\<close>,
    \<open>cyboudb_column_*\<close>, \<open>cyboudb_batch_*\<close>).  \<open>Row_Laws\<close>: stepping by rows and by batches delivers exactly
    the accepted rows that are not dead, from the offset on and up to the limit; and the query, an
    \<open>ORDER BY\<close> a vector distance, for which it does not do what was asked.  \<open>Row_Cells\<close>: counting, and
    what the accessors read.

  \<^item> \<open>Float32\<close>: the binary32 instructions the kernels use (\<open>mulss\<close>, \<open>addss\<close>, \<open>subss\<close>, \<open>divss\<close>, \<open>sqrtss\<close>,
    \<open>ucomiss\<close>) on bit patterns, rounding to nearest with ties to even, with the lemma that what they
    return is a nearest representable value.  \<open>Vector_Kernels\<close>: dot product, squared distance and
    normalization, portable and AVX2: bit for bit the same.  \<open>Vector_Arena\<close>: the arena, its contract for
    appending as the locale \<open>arena_append\<close>, interpreted for the raw and for the normalizing append.
    \<open>Vector_Topk\<close>: the search, in one go and as a session of begin, feed and finish.
    \<open>Vector_Topk_Laws\<close>: the locale \<open>best_list\<close> (a bounded list that keeps the best), interpreted on the
    slots of the caller, and that a search leaves exactly the best \<open>k\<close>.  \<open>Vector_Session\<close>: a session
    over blocks of the array is the search over the array.

  \<^item> \<open>Vector_Search\<close>: \<^verbatim>\<open>examples/vector_search.c\<close>; wherever the compiler puts its objects, it prints
    what it should and returns zero.

  \<^bold>\<open>Loops and bounds.\<close>  Loops with a measure are functions with a termination proof.  The loops that may
  not end (\<open>exec_step_loop\<close>, \<open>work_loop\<close>, \<open>read_loop\<close>, \<open>insert_skip_cols\<close>, \<open>read_page\<close>) are partial functions into
  \<open>option\<close>, \<open>None\<close> being a run that does not return, and that they return is proved where it is so.  The
  bounds of the parser (64 columns, 256 rows) are the code's own.  No fuel is used.

  \<^bold>\<open>Assumptions of the vector theories.\<close>  Memory is a function from addresses to floats and to 64-bit
  numbers: a float is only read at an address at which a float was written, so arrays of floats are
  aligned and arrays of different types do not share bytes.  The rounding mode is the default one
  and no exception is unmasked.  A printed line is the numbers it shows; turning a float into
  decimal digits is left to the C library.

  \<^bold>\<open>Assumptions of the row theories.\<close>  Storage is told by what it answers to a scan: the leaves of the
  table, the verdict of the zone map of each, and for each group of up to 64 rows the column view, the
  mask of the predicate and the mask of dead rows, or an error.  That a verdict is right (\<open>leaf_sound\<close>)
  is a hypothesis of the theorems that need it.  The checksum of a page is a parameter, the page
  allocator a list of answers; it blanks the pages it hands out, as the code does.

  \<^bold>\<open>Not modelled.\<close>  Parsing, binding and planning a \<open>SELECT\<close>, predicates and expressions, joins, sorting,
  the callback executor, the seek through an index, \<open>UPDATE\<close> and \<open>DELETE\<close>; the layout of tables on pages,
  zone maps, compression, the allocation map, copy-on-write and the page cache (a table is its columns
  and rows, or the leaves a scan meets, a generation its catalog); the assembly ciphers and key
  management (their C references are modelled); the platform layer, whose answers are the events and
  clock readings of a connection; the console, bindings, tests and other benchmarks.
\<close>

end
